(* ===== verification/Prelude.thy ===== *)
theory Prelude
  imports Main "HOL-Library.Word"
begin

unbundle bit_operations_syntax

text \<open>
  Shared vocabulary of the development: the machine integer types, Rust's
  \<^verbatim>\<open>Result\<close> with panics made explicit, slices and indexing, big-endian byte
  conversions, and saturating and checked arithmetic.
\<close>

section \<open>Machine types\<close>

type_synonym byte = "8 word"
type_synonym u16 = "16 word"
type_synonym u32 = "32 word"
type_synonym u64 = "64 word"
type_synonym bytes = "byte list"

section \<open>Results\<close>

text \<open>
  A Rust call returns \<^verbatim>\<open>Ok\<close>, returns \<^verbatim>\<open>Err\<close>, or panics (an index out of
  range, \<^verbatim>\<open>unwrap\<close> of \<^verbatim>\<open>None\<close>, \<^verbatim>\<open>unreachable!\<close>). \<open>and_then\<close> is the
  \<^verbatim>\<open>?\<close> operator followed by the rest of the function.
\<close>

datatype ('a, 'e) result = Ok 'a | Err 'e | Panic

named_theorems result_iff \<open>inversion of results that are Ok\<close>

definition and_then :: "('a, 'e) result \<Rightarrow> ('a \<Rightarrow> ('b, 'e) result) \<Rightarrow> ('b, 'e) result" where
  "and_then m f = (case m of Ok x \<Rightarrow> f x | Err e \<Rightarrow> Err e | Panic \<Rightarrow> Panic)"

definition map_err :: "('e \<Rightarrow> 'f) \<Rightarrow> ('a, 'e) result \<Rightarrow> ('a, 'f) result" where
  "map_err g m = (case m of Ok x \<Rightarrow> Ok x | Err e \<Rightarrow> Err (g e) | Panic \<Rightarrow> Panic)"

definition ok_or :: "'a option \<Rightarrow> 'e \<Rightarrow> ('a, 'e) result" where
  "ok_or x e = (case x of Some y \<Rightarrow> Ok y | None \<Rightarrow> Err e)"

definition is_ok :: "('a, 'e) result \<Rightarrow> bool" where
  "is_ok r = (case r of Ok _ \<Rightarrow> True | _ \<Rightarrow> False)"

lemma and_then_simps [simp]:
  "and_then (Ok x) f = f x"
  "and_then (Err e) f = Err e"
  "and_then Panic f = Panic"
  by (simp_all add: and_then_def)

lemma and_then_Ok_iff [result_iff]:
  "and_then m f = Ok y \<longleftrightarrow> (\<exists>x. m = Ok x \<and> f x = Ok y)"
  by (cases m) auto

lemma and_then_Err_iff:
  "and_then m f = Err e \<longleftrightarrow> m = Err e \<or> (\<exists>x. m = Ok x \<and> f x = Err e)"
  by (cases m) auto

lemma and_then_Panic_iff:
  "and_then m f = Panic \<longleftrightarrow> m = Panic \<or> (\<exists>x. m = Ok x \<and> f x = Panic)"
  by (cases m) auto

lemma map_err_simps [simp]:
  "map_err g (Ok x) = Ok x"
  "map_err g (Err e) = Err (g e)"
  "map_err g Panic = Panic"
  by (simp_all add: map_err_def)

lemma map_err_Ok_iff [result_iff]: "map_err g m = Ok y \<longleftrightarrow> m = Ok y"
  by (cases m) auto

lemma map_err_Panic_iff [simp]: "map_err g m = Panic \<longleftrightarrow> m = Panic"
  by (cases m) auto

lemma ok_or_simps [simp]:
  "ok_or (Some x) e = Ok x"
  "ok_or None e = Err e"
  by (simp_all add: ok_or_def)

lemma ok_or_Ok_iff [result_iff]: "ok_or m e = Ok y \<longleftrightarrow> m = Some y"
  by (cases m) auto

lemma is_ok_simps [simp]:
  "is_ok (Ok x)" "\<not> is_ok (Err e)" "\<not> is_ok Panic"
  by (simp_all add: is_ok_def)

lemma is_ok_iff: "is_ok r \<longleftrightarrow> (\<exists>x. r = Ok x)"
  by (cases r) auto

section \<open>Slices and indexing\<close>

text \<open>
  \<^verbatim>\<open>xs[i]\<close> and \<^verbatim>\<open>xs[a..b]\<close> panic out of range; \<^verbatim>\<open>xs.get(i)\<close> and
  \<^verbatim>\<open>xs.get(a..b)\<close> return \<^verbatim>\<open>None\<close>.
\<close>

definition slice_of :: "nat \<Rightarrow> nat \<Rightarrow> 'a list \<Rightarrow> 'a list" where
  "slice_of a b xs = take (b - a) (drop a xs)"

definition get_at :: "'a list \<Rightarrow> nat \<Rightarrow> 'a option" where
  "get_at xs i = (if i < length xs then Some (xs ! i) else None)"

definition get_range :: "'a list \<Rightarrow> nat \<Rightarrow> nat \<Rightarrow> 'a list option" where
  "get_range xs a b = (if a \<le> b \<and> b \<le> length xs then Some (slice_of a b xs) else None)"

definition index_at :: "'a list \<Rightarrow> nat \<Rightarrow> ('a, 'e) result" where
  "index_at xs i = (if i < length xs then Ok (xs ! i) else Panic)"

definition index_range :: "'a list \<Rightarrow> nat \<Rightarrow> nat \<Rightarrow> ('a list, 'e) result" where
  "index_range xs a b = (if a \<le> b \<and> b \<le> length xs then Ok (slice_of a b xs) else Panic)"

lemma length_slice [simp]: "b \<le> length xs \<Longrightarrow> length (slice_of a b xs) = b - a"
  by (simp add: slice_of_def)

lemma slice_append1: "b \<le> length xs \<Longrightarrow> slice_of a b (xs @ ys) = slice_of a b xs"
  by (cases "a \<le> length xs") (auto simp: slice_of_def)

lemma slice_full: "slice_of 0 (length xs) xs = xs"
  by (simp add: slice_of_def)

lemma index_at_simps [simp]:
  "i < length xs \<Longrightarrow> index_at xs i = Ok (xs ! i)"
  by (simp add: index_at_def)

lemma index_range_simps [simp]:
  "a \<le> b \<Longrightarrow> b \<le> length xs \<Longrightarrow> index_range xs a b = Ok (slice_of a b xs)"
  by (simp add: index_range_def)

section \<open>Saturating and checked arithmetic\<close>

definition saturating_add :: "'a::len word \<Rightarrow> 'a word \<Rightarrow> 'a word" where
  "saturating_add x y = (if unat x + unat y < 2 ^ LENGTH('a) then x + y else - 1)"

definition saturating_sub :: "'a::len word \<Rightarrow> 'a word \<Rightarrow> 'a word" where
  "saturating_sub x y = (if y \<le> x then x - y else 0)"

definition checked_add :: "'a::len word \<Rightarrow> 'a word \<Rightarrow> 'a word option" where
  "checked_add x y = (if unat x + unat y < 2 ^ LENGTH('a) then Some (x + y) else None)"

definition checked_sub :: "'a::len word \<Rightarrow> 'a word \<Rightarrow> 'a word option" where
  "checked_sub x y = (if y \<le> x then Some (x - y) else None)"

definition checked_mul :: "'a::len word \<Rightarrow> 'a word \<Rightarrow> 'a word option" where
  "checked_mul x y = (if unat x * unat y < 2 ^ LENGTH('a) then Some (x * y) else None)"

lemma unat_bound: "unat x < 2 ^ LENGTH('a)" for x :: "'a::len word"
  by (rule unsigned_less)

lemma unat_minus_one_word: "unat (- 1 :: 'a::len word) = 2 ^ LENGTH('a) - 1"
  by (simp add: unsigned_minus_1_eq_mask mask_eq_exp_minus_1)

lemma unat_saturating_add:
  "unat (saturating_add x y) = min (unat x + unat y) (2 ^ LENGTH('a) - 1)"
  for x y :: "'a::len word"
  by (auto simp: saturating_add_def unat_word_ariths unat_minus_one_word)

lemma unat_saturating_sub: "unat (saturating_sub x y) = unat x - unat y"
  by (auto simp: saturating_sub_def unat_sub word_le_nat_alt)

lemma checked_add_Some_iff:
  "checked_add x y = Some z \<longleftrightarrow> unat x + unat y < 2 ^ LENGTH('a) \<and> z = x + y"
  for x y z :: "'a::len word"
  by (auto simp: checked_add_def)

lemma unat_checked_add: "checked_add x y = Some z \<Longrightarrow> unat z = unat x + unat y"
  by (auto simp: checked_add_def unat_word_ariths split: if_splits)

lemma unat_checked_mul: "checked_mul x y = Some z \<Longrightarrow> unat z = unat x * unat y"
  by (auto simp: checked_mul_def unat_word_ariths split: if_splits)

section \<open>Big-endian bytes\<close>

text \<open>\<^verbatim>\<open>x.to_be_bytes()\<close> of an \<open>n\<close>-byte integer, and \<^verbatim>\<open>from_be_bytes\<close>.\<close>

fun to_be :: "nat \<Rightarrow> 'a::len word \<Rightarrow> bytes" where
  "to_be 0 x = []"
| "to_be (Suc n) x = to_be n (drop_bit 8 x) @ [ucast x]"

definition from_be :: "bytes \<Rightarrow> 'a::len word" where
  "from_be bs = foldl (\<lambda>a b. push_bit 8 a OR ucast b) 0 bs"

lemma length_to_be [simp]: "length (to_be n x) = n"
  by (induction n arbitrary: x) auto

lemma to_be_numeral:
  "to_be (numeral k) x = to_be (pred_numeral k) (drop_bit 8 x) @ [ucast x]"
  by (simp add: numeral_eq_Suc)

lemma from_be_snoc [simp]: "from_be (bs @ [b]) = push_bit 8 (from_be bs) OR ucast b"
  by (simp add: from_be_def)

lemma from_be_Nil [simp]: "from_be [] = 0"
  by (simp add: from_be_def)

lemma from_be_to_be: "from_be (to_be n x) = take_bit (8 * n) x"
proof (induction n arbitrary: x)
  case 0
  then show ?case by simp
next
  case (Suc n)
  have "push_bit 8 (take_bit (8 * n) (drop_bit 8 x)) OR ucast (ucast x :: byte) =
      take_bit (8 * Suc n) x"
    by (rule bit_word_eqI)
      (auto simp: bit_simps less_diff_conv2 dest: bit_imp_le_length)
  with Suc.IH show ?case by simp
qed

lemma from_be_to_be_full: "8 * n = LENGTH('a) \<Longrightarrow> from_be (to_be n x) = x" for x :: "'a::len word"
  by (simp add: from_be_to_be)

lemma to_be_from_be:
  assumes "length bs = n" and "8 * n \<le> LENGTH('a)"
  shows "to_be n (from_be bs :: 'a::len word) = bs"
  using assms
proof (induction n arbitrary: bs)
  case 0
  then show ?case by simp
next
  case (Suc n)
  then obtain xs b where bs: "bs = xs @ [b]" and len: "length xs = n"
    by (metis append_butlast_last_id length_0_conv length_butlast diff_Suc_1 nat.distinct(1))
  have le: "8 * n + 8 \<le> LENGTH('a)"
    using Suc.prems by simp
  have IH: "to_be n (from_be xs :: 'a word) = xs"
    using Suc.IH [OF len] le by simp
  have small: "take_bit (8 * n) (from_be xs :: 'a word) = from_be xs"
    by (metis IH from_be_to_be)
  have "drop_bit 8 (push_bit 8 (from_be xs) OR ucast b :: 'a word) = from_be xs"
  proof (rule bit_word_eqI)
    fix i assume "i < LENGTH('a)"
    show "bit (drop_bit 8 (push_bit 8 (from_be xs) OR ucast b :: 'a word)) i =
        bit (from_be xs :: 'a word) i"
      by (subst (2) small [symmetric], subst small [symmetric])
        (use le in \<open>auto simp: bit_simps dest: bit_imp_le_length\<close>)
  qed
  moreover have "ucast (push_bit 8 (from_be xs) OR ucast b :: 'a word) = b"
    by (rule bit_word_eqI) (use le in \<open>auto simp: bit_simps\<close>)
  ultimately show ?case
    by (simp add: bs IH)
qed

lemmas be_roundtrip =
  from_be_to_be_full [where 'a = 16 and n = 2, simplified]
  from_be_to_be_full [where 'a = 32 and n = 4, simplified]
  from_be_to_be_full [where 'a = 64 and n = 8, simplified]

end
