(* ===== verification/Contracts.thy ===== *)
theory Contracts
  imports Prelude
begin

text \<open>
  The contracts between components, as locales. A component that provides one of them
  interprets the locale on its own definitions; what a client may use is proved here once.
  \<^item> \<open>stream_decoder\<close>: an incremental decoder whose result does not depend on how the
    peer's bytes are cut into reads;
  \<^item> \<open>prefix_code\<close>: a self-delimiting binary code, and the sequences written with it;
  \<^item> \<open>text_code\<close>: a printer and the parser that reads it back;
  \<^item> \<open>invariant_system\<close>: a transition system and an inductive invariant;
  \<^item> \<open>refinement\<close>: a concrete machine that implements an abstract one.
\<close>

section \<open>Incremental decoders\<close>

text \<open>
  The read loop of a connection: every read of the socket hands one chunk to the decoder,
  the frames of all chunks are handled in order, and the first error ends the connection.
\<close>

fun feed_chunks ::
  "('s \<Rightarrow> 'b list \<Rightarrow> ('s \<times> 'f list, 'e) result) \<Rightarrow> 's \<Rightarrow> 'b list list \<Rightarrow>
    ('s \<times> 'f list, 'e) result" where
  "feed_chunks feed s [] = Ok (s, [])"
| "feed_chunks feed s (c # cs) =
     and_then (feed s c) (\<lambda>(s', fs).
     and_then (feed_chunks feed s' cs) (\<lambda>(s'', gs). Ok (s'', fs @ gs)))"

locale stream_decoder =
  fixes feed :: "'s \<Rightarrow> 'b list \<Rightarrow> ('s \<times> 'f list, 'e) result"
    and waiting :: "'s \<Rightarrow> bool"
  assumes feed_nil: "waiting s \<Longrightarrow> feed s [] = Ok (s, [])"
    and feed_append: "waiting s \<Longrightarrow> feed s (xs @ ys) =
      and_then (feed s xs) (\<lambda>(s', fs).
      and_then (feed s' ys) (\<lambda>(s'', gs). Ok (s'', fs @ gs)))"
    and feed_waiting: "waiting s \<Longrightarrow> feed s xs = Ok (s', fs) \<Longrightarrow> waiting s'"
begin

lemma feed_chunks_concat:
  "waiting s \<Longrightarrow> feed_chunks feed s cs = feed s (concat cs)"
proof (induction cs arbitrary: s)
  case Nil
  then show ?case by (simp add: feed_nil)
next
  case (Cons c cs)
  show ?case
  proof (cases "feed s c")
    case (Ok p)
    then obtain s' fs where p: "feed s c = Ok (s', fs)"
      by (cases p) auto
    with Cons have "feed_chunks feed s' cs = feed s' (concat cs)"
      by (blast dest: feed_waiting)
    with p Cons.prems show ?thesis
      by (simp add: feed_append)
  qed (simp_all add: Cons.prems feed_append)
qed

text \<open>Two cuts of the same bytes give the same frames, the same state and the same error.\<close>

lemma feed_chunks_cut:
  "waiting s \<Longrightarrow> concat cs = concat ds \<Longrightarrow> feed_chunks feed s cs = feed_chunks feed s ds"
  by (simp add: feed_chunks_concat)

end

section \<open>Self-delimiting codes\<close>

locale prefix_code =
  fixes enc :: "'a \<Rightarrow> bytes"
    and dec :: "bytes \<Rightarrow> ('a \<times> nat) option"
  assumes dec_enc: "dec (enc x @ rest) = Some (x, length (enc x))"
begin

lemma enc_unique_prefix: "enc x @ r = enc y @ s \<Longrightarrow> x = y \<and> r = s"
  by (metis dec_enc option.inject prod.inject same_append_eq)

lemma enc_inj: "enc x = enc y \<Longrightarrow> x = y"
  using enc_unique_prefix [of x "[]" y "[]"] by simp

lemma enc_not_nil: "dec [] = None \<Longrightarrow> enc x \<noteq> []"
  using dec_enc [of x "[]"] by auto

lemma concat_enc_inj:
  "dec [] = None \<Longrightarrow> concat (map enc xs) = concat (map enc ys) \<Longrightarrow> xs = ys"
proof (induction xs arbitrary: ys)
  case Nil
  then show ?case
    by (cases ys) (auto dest: enc_not_nil)
next
  case (Cons x xs)
  then obtain y zs where ys: "ys = y # zs"
    by (cases ys) (auto dest: enc_not_nil)
  with Cons.prems have "x = y \<and> concat (map enc xs) = concat (map enc zs)"
    by (auto dest!: enc_unique_prefix)
  with Cons.IH Cons.prems(1) ys show ?case by simp
qed

end

section \<open>Printers and parsers\<close>

locale text_code =
  fixes print :: "'a \<Rightarrow> 'b list"
    and parse :: "'b list \<Rightarrow> 'a option"
    and printable :: "'a \<Rightarrow> bool"
  assumes parse_print: "printable x \<Longrightarrow> parse (print x) = Some x"
begin

lemma print_inj: "printable x \<Longrightarrow> printable y \<Longrightarrow> print x = print y \<Longrightarrow> x = y"
  by (metis option.inject parse_print)

end

section \<open>Transition systems\<close>

inductive reach :: "('s \<Rightarrow> bool) \<Rightarrow> ('s \<Rightarrow> 's \<Rightarrow> bool) \<Rightarrow> 's \<Rightarrow> bool"
  for start :: "'s \<Rightarrow> bool" and step :: "'s \<Rightarrow> 's \<Rightarrow> bool" where
  reach_start: "start s \<Longrightarrow> reach start step s"
| reach_step: "reach start step s \<Longrightarrow> step s t \<Longrightarrow> reach start step t"

lemma reach_of_steps: "step\<^sup>*\<^sup>* s t \<Longrightarrow> start s \<Longrightarrow> reach start step t"
  by (induction rule: rtranclp_induct) (auto intro: reach.intros)

locale invariant_system =
  fixes start :: "'s \<Rightarrow> bool"
    and step :: "'s \<Rightarrow> 's \<Rightarrow> bool"
    and invar :: "'s \<Rightarrow> bool"
  assumes start_invar: "start s \<Longrightarrow> invar s"
    and step_invar: "step s t \<Longrightarrow> invar s \<Longrightarrow> invar t"
begin

lemma reach_invar: "reach start step s \<Longrightarrow> invar s"
  by (induction rule: reach.induct) (auto intro: start_invar step_invar)

end

section \<open>Refinement\<close>

text \<open>
  A concrete machine implements an abstract one: each admissible operation, on a state that
  satisfies the invariant, does to the abstraction what the specification says.
\<close>

locale refinement =
  fixes abs :: "'c \<Rightarrow> 'a"
    and invar :: "'c \<Rightarrow> bool"
    and admissible :: "'x \<Rightarrow> bool"
    and cstep :: "'x \<Rightarrow> 'c \<Rightarrow> 'c"
    and astep :: "'x \<Rightarrow> 'a \<Rightarrow> 'a"
  assumes step_abs: "invar s \<Longrightarrow> admissible x \<Longrightarrow> abs (cstep x s) = astep x (abs s)"
    and step_keeps: "invar s \<Longrightarrow> admissible x \<Longrightarrow> invar (cstep x s)"
begin

lemma run_abs:
  "invar s \<Longrightarrow> \<forall>x \<in> set xs. admissible x \<Longrightarrow>
     abs (fold cstep xs s) = fold astep xs (abs s) \<and> invar (fold cstep xs s)"
  by (induction xs arbitrary: s) (simp_all add: step_abs step_keeps)

end

end
