(* ===== verification/Edge_Frame.thy ===== *)
theory Edge_Frame
  imports Contracts
begin

text \<open>
  The frame layer of the edge tunnel (\<^verbatim>\<open>edge/src/frame.rs\<close>): the frames, their
  encoding with a type byte and a big-endian length, the header check that runs before a
  payload is buffered, and the incremental decoder. Every index and slice_of the source takes
  unchecked is a possible \<open>Panic\<close> here.
\<close>

section \<open>Frames and errors\<close>

definition MAX_FRAME_PAYLOAD :: u32 where
  "MAX_FRAME_PAYLOAD = 65536"

definition MAX_DATA_PAYLOAD :: nat where
  "MAX_DATA_PAYLOAD = 16384"

definition HELLO_PAIRS :: "(u16 \<times> u16) list" where
  "HELLO_PAIRS = [(25, 2525), (465, 2465), (993, 2993), (80, 8088), (443, 8448)]"

definition HEADER :: nat where
  "HEADER = 5"

text \<open>The type bytes.\<close>

definition TY_HELLO :: byte where "TY_HELLO = 1"
definition TY_HELLO_OK :: byte where "TY_HELLO_OK = 2"
definition TY_PING :: byte where "TY_PING = 3"
definition TY_PONG :: byte where "TY_PONG = 4"
definition TY_OPEN :: byte where "TY_OPEN = 5"
definition TY_OPEN_OK :: byte where "TY_OPEN_OK = 6"
definition TY_OPEN_FAIL :: byte where "TY_OPEN_FAIL = 7"
definition TY_DATA :: byte where "TY_DATA = 8"
definition TY_CLOSE :: byte where "TY_CLOSE = 9"
definition TY_QUOTA :: byte where "TY_QUOTA = 10"

lemmas TY_defs = TY_HELLO_def TY_HELLO_OK_def TY_PING_def TY_PONG_def TY_OPEN_def
  TY_OPEN_OK_def TY_OPEN_FAIL_def TY_DATA_def TY_CLOSE_def TY_QUOTA_def

datatype protocol_error =
    TooLong | DataTooLong | Truncated | UnknownType | BadLength | BadHello | BadState
  | BadMonth | BadAddress | BadReason | BadConn | SecondHello | Cap | ConnExhausted | Proxy

fun protocol_error_text :: "protocol_error \<Rightarrow> string" where
  "protocol_error_text TooLong = ''frame longer than 65536''"
| "protocol_error_text DataTooLong = ''DATA payload longer than 16384''"
| "protocol_error_text Truncated = ''truncated frame''"
| "protocol_error_text UnknownType = ''unknown frame type''"
| "protocol_error_text BadLength = ''frame length does not match type''"
| "protocol_error_text BadHello = ''HELLO is not version 1 with the five pairs''"
| "protocol_error_text BadState = ''quota state is not 0, 1, or 2''"
| "protocol_error_text BadMonth = ''month is not 1-12''"
| "protocol_error_text BadAddress = ''OPEN address is not IPv4-mapped IPv6''"
| "protocol_error_text BadReason = ''unknown close or open-fail reason''"
| "protocol_error_text BadConn = ''unknown or reused conn id''"
| "protocol_error_text SecondHello = ''second HELLO on one control connection''"
| "protocol_error_text Cap = ''64 connection cap''"
| "protocol_error_text ConnExhausted = ''conn id space exhausted''"
| "protocol_error_text Proxy = ''PROXY v2 encode failed''"

datatype quota_state = QuotaOpen | PausedQuota | QuotaOverride

datatype open_fail_reason = DialRefused | BadPort | ReasonCap

datatype close_reason = Eof | Reset | LocalClose

datatype ipv4 = Ipv4 byte byte byte byte

datatype frame =
    Hello
  | HelloOk (tx_bytes: u64) (state: quota_state) (year: u16) (month: byte)
  | Ping (unix_ms: u64)
  | Pong (unix_ms: u64)
  | Open (conn_id: u64) (public_port: u16) (src_port: u16) (addr: ipv4)
  | OpenOk (conn_id: u64)
  | OpenFail (conn_id: u64) (fail_reason: open_fail_reason)
  | Data (conn_id: u64) (payload: bytes)
  | Close (conn_id: u64) (close_reason: close_reason)
  | Quota (tx_bytes: u64) (state: quota_state)

text \<open>The discriminants (\<^verbatim>\<open>as u8\<close>) and the checked conversions back.\<close>

fun quota_state_u8 :: "quota_state \<Rightarrow> byte" where
  "quota_state_u8 QuotaOpen = 0"
| "quota_state_u8 PausedQuota = 1"
| "quota_state_u8 QuotaOverride = 2"

definition quota_state_from_u8 :: "byte \<Rightarrow> (quota_state, protocol_error) result" where
  "quota_state_from_u8 v =
     (if v = 0 then Ok QuotaOpen
      else if v = 1 then Ok PausedQuota
      else if v = 2 then Ok QuotaOverride
      else Err BadState)"

fun open_fail_reason_u8 :: "open_fail_reason \<Rightarrow> byte" where
  "open_fail_reason_u8 DialRefused = 1"
| "open_fail_reason_u8 BadPort = 2"
| "open_fail_reason_u8 ReasonCap = 3"

definition open_fail_reason_from_u8 :: "byte \<Rightarrow> (open_fail_reason, protocol_error) result" where
  "open_fail_reason_from_u8 v =
     (if v = 1 then Ok DialRefused
      else if v = 2 then Ok BadPort
      else if v = 3 then Ok ReasonCap
      else Err BadReason)"

fun close_reason_u8 :: "close_reason \<Rightarrow> byte" where
  "close_reason_u8 Eof = 1"
| "close_reason_u8 Reset = 2"
| "close_reason_u8 LocalClose = 3"

definition close_reason_from_u8 :: "byte \<Rightarrow> (close_reason, protocol_error) result" where
  "close_reason_from_u8 v =
     (if v = 1 then Ok Eof
      else if v = 2 then Ok Reset
      else if v = 3 then Ok LocalClose
      else Err BadReason)"

section \<open>Encoding\<close>

text \<open>
  The HELLO payload: version 1, five pairs, then each public port and its loopback port.
  The source fills a zeroed array of 24 bytes at offsets 0, 2 and \<open>4 + 4i\<close>.
\<close>

definition hello_payload :: bytes where
  "hello_payload =
     to_be 2 (1 :: u16) @ to_be 2 (5 :: u16) @
     concat (map (\<lambda>(public, loopback). to_be 2 public @ to_be 2 loopback) HELLO_PAIRS)"

definition validate_header :: "byte \<Rightarrow> u32 \<Rightarrow> (unit, protocol_error) result" where
  "validate_header ty len =
     (if len > MAX_FRAME_PAYLOAD then Err TooLong
      else
        and_then
          (if ty = TY_HELLO then Ok (len = 24)
           else if ty = TY_HELLO_OK then Ok (len = 12)
           else if ty = TY_PING \<or> ty = TY_PONG \<or> ty = TY_OPEN_OK then Ok (len = 8)
           else if ty = TY_OPEN then Ok (len = 28)
           else if ty = TY_OPEN_FAIL \<or> ty = TY_CLOSE \<or> ty = TY_QUOTA then Ok (len = 9)
           else if ty = TY_DATA then Ok (len \<ge> 8 \<and> unat len - 8 \<le> MAX_DATA_PAYLOAD)
           else Err UnknownType)
          (\<lambda>matches.
             if matches then Ok ()
             else if ty = TY_DATA \<and> len \<ge> 8 then Err DataTooLong
             else Err BadLength))"

fun encode_mapped :: "ipv4 \<Rightarrow> bytes" where
  "encode_mapped (Ipv4 a b c d) = replicate 10 0 @ [0xff, 0xff] @ [a, b, c, d]"

definition decode_mapped :: "bytes \<Rightarrow> (ipv4, protocol_error) result" where
  "decode_mapped bs =
     (if length bs \<noteq> 16 \<or> take 10 bs \<noteq> replicate 10 0 \<or> bs ! 10 \<noteq> 0xff \<or> bs ! 11 \<noteq> 0xff
      then Err BadAddress
      else Ok (Ipv4 (bs ! 12) (bs ! 13) (bs ! 14) (bs ! 15)))"

definition read_u16 :: "bytes \<Rightarrow> nat \<Rightarrow> (u16, protocol_error) result" where
  "read_u16 b at = and_then (ok_or (get_range b at (at + 2)) Truncated) (\<lambda>s. Ok (from_be s))"

definition read_u64 :: "bytes \<Rightarrow> nat \<Rightarrow> (u64, protocol_error) result" where
  "read_u64 b at = and_then (ok_or (get_range b at (at + 8)) Truncated) (\<lambda>s. Ok (from_be s))"

text \<open>The type byte and payload of a frame, with the two checks of the encoder.\<close>

fun encode_payload :: "frame \<Rightarrow> (byte \<times> bytes, protocol_error) result" where
  "encode_payload Hello = Ok (TY_HELLO, hello_payload)"
| "encode_payload (HelloOk tx st y m) =
     (if \<not> (1 \<le> m \<and> m \<le> 12) then Err BadMonth
      else Ok (TY_HELLO_OK, to_be 8 tx @ [quota_state_u8 st] @ to_be 2 y @ [m]))"
| "encode_payload (Ping ms) = Ok (TY_PING, to_be 8 ms)"
| "encode_payload (Pong ms) = Ok (TY_PONG, to_be 8 ms)"
| "encode_payload (Open c p sp a) =
     Ok (TY_OPEN, to_be 8 c @ to_be 2 p @ to_be 2 sp @ encode_mapped a)"
| "encode_payload (OpenOk c) = Ok (TY_OPEN_OK, to_be 8 c)"
| "encode_payload (OpenFail c r) = Ok (TY_OPEN_FAIL, to_be 8 c @ [open_fail_reason_u8 r])"
| "encode_payload (Data c body) =
     (if length body > MAX_DATA_PAYLOAD then Err DataTooLong
      else Ok (TY_DATA, to_be 8 c @ body))"
| "encode_payload (Close c r) = Ok (TY_CLOSE, to_be 8 c @ [close_reason_u8 r])"
| "encode_payload (Quota tx st) = Ok (TY_QUOTA, to_be 8 tx @ [quota_state_u8 st])"

definition encode :: "frame \<Rightarrow> (bytes, protocol_error) result" where
  "encode f =
     and_then (encode_payload f) (\<lambda>(ty, pl).
       Ok (ty # to_be 4 (of_nat (length pl) :: u32) @ pl))"

section \<open>Decoding\<close>

definition decode_payload :: "byte \<Rightarrow> bytes \<Rightarrow> (frame, protocol_error) result" where
  "decode_payload ty pl =
     (if ty = TY_HELLO then
        (if pl \<noteq> hello_payload then Err BadHello else Ok Hello)
      else if ty = TY_HELLO_OK then
        and_then (index_at pl 11) (\<lambda>m.
        if \<not> (1 \<le> m \<and> m \<le> 12) then Err BadMonth
        else
          and_then (read_u64 pl 0) (\<lambda>tx.
          and_then (index_at pl 8) (\<lambda>s.
          and_then (quota_state_from_u8 s) (\<lambda>st.
          and_then (read_u16 pl 9) (\<lambda>y. Ok (HelloOk tx st y m))))))
      else if ty = TY_PING then
        and_then (read_u64 pl 0) (\<lambda>ms. Ok (Ping ms))
      else if ty = TY_PONG then
        and_then (read_u64 pl 0) (\<lambda>ms. Ok (Pong ms))
      else if ty = TY_OPEN then
        and_then (read_u64 pl 0) (\<lambda>c.
        and_then (read_u16 pl 8) (\<lambda>p.
        and_then (read_u16 pl 10) (\<lambda>sp.
        and_then (index_range pl 12 28) (\<lambda>ab.
        and_then (decode_mapped ab) (\<lambda>a. Ok (Open c p sp a))))))
      else if ty = TY_OPEN_OK then
        and_then (read_u64 pl 0) (\<lambda>c. Ok (OpenOk c))
      else if ty = TY_OPEN_FAIL then
        and_then (read_u64 pl 0) (\<lambda>c.
        and_then (index_at pl 8) (\<lambda>r.
        and_then (open_fail_reason_from_u8 r) (\<lambda>reason. Ok (OpenFail c reason))))
      else if ty = TY_DATA then
        and_then (read_u64 pl 0) (\<lambda>c.
        and_then (index_range pl 8 (length pl)) (\<lambda>body. Ok (Data c body)))
      else if ty = TY_CLOSE then
        and_then (read_u64 pl 0) (\<lambda>c.
        and_then (index_at pl 8) (\<lambda>r.
        and_then (close_reason_from_u8 r) (\<lambda>reason. Ok (Close c reason))))
      else if ty = TY_QUOTA then
        and_then (read_u64 pl 0) (\<lambda>tx.
        and_then (index_at pl 8) (\<lambda>s.
        and_then (quota_state_from_u8 s) (\<lambda>st. Ok (Quota tx st))))
      else Err UnknownType)"

record decoder =
  buf :: bytes

definition new_decoder :: decoder where
  "new_decoder = \<lparr>buf = []\<rparr>"

text \<open>
  The block the loop runs twice: extend the buffer from the input up to \<open>total_len\<close> bytes, or
  give up (\<open>None\<close>) when the input is too short, in which case the loop appends all of it
  and returns.
\<close>

definition fill :: "nat \<Rightarrow> bytes \<Rightarrow> bytes \<Rightarrow> (bytes \<times> bytes) option" where
  "fill total_len b input =
     (if length b < total_len then
        (let need = total_len - length b in
         if length input < need then None
         else Some (b @ take need input, drop need input))
      else Some (b, input))"

lemma fill_length:
  "fill total_len b input = Some (b', input') \<Longrightarrow>
     b' @ input' = b @ input \<and> total_len \<le> length b'"
  by (auto simp: fill_def Let_def split: if_splits)

function (sequential) push_loop ::
  "bytes \<Rightarrow> bytes \<Rightarrow> frame list \<Rightarrow> bytes \<times> (frame list, protocol_error) result" where
  "push_loop b input out =
     (case fill HEADER b input of
        None \<Rightarrow> (b @ input, Ok out)
      | Some (b1, input1) \<Rightarrow>
          (let len = (from_be (slice_of 1 5 b1) :: u32) in
           case validate_header (b1 ! 0) len of
             Err e \<Rightarrow> (b1, Err e)
           | Panic \<Rightarrow> (b1, Panic)
           | Ok _ \<Rightarrow>
               (let total_len = HEADER + unat len in
                case fill total_len b1 input1 of
                  None \<Rightarrow> (b1 @ input1, Ok out)
                | Some (b2, input2) \<Rightarrow>
                    (case decode_payload (b2 ! 0) (slice_of HEADER total_len b2) of
                       Err e \<Rightarrow> (b2, Err e)
                     | Panic \<Rightarrow> (b2, Panic)
                     | Ok f \<Rightarrow>
                         (let b3 = drop total_len b2 in
                          if b3 = [] \<and> input2 = [] then (b3, Ok (out @ [f]))
                          else push_loop b3 input2 (out @ [f]))))))"
  by pat_completeness auto
termination
proof (relation "measure (\<lambda>(b, input, out). length b + length input)", goal_cases)
  case 1
  then show ?case by simp
next
  case (2 b input out p b1 input1 len u total_len q b2 input2 f b3)
  then have "length b1 + length input1 = length b + length input"
    and "length b2 + length input2 = length b1 + length input1"
    and "total_len \<le> length b2" and "0 < total_len"
    by (auto simp: HEADER_def dest!: fill_length simp flip: length_append)
  then show ?case by (simp add: \<open>b3 = drop total_len b2\<close>)
qed

declare push_loop.simps [simp del]

definition push :: "decoder \<Rightarrow> bytes \<Rightarrow> decoder \<times> (frame list, protocol_error) result" where
  "push d input = (let (b, r) = push_loop (buf d) input [] in (d\<lparr>buf := b\<rparr>, r))"

definition finish :: "decoder \<Rightarrow> (unit, protocol_error) result" where
  "finish d = (if buf d = [] then Ok () else Err Truncated)"

text \<open>
  How the relay uses the decoder (\<^verbatim>\<open>decoder.push(&buf[..n])?\<close>): an error ends the
  connection and the decoder is dropped.
\<close>

definition decoder_feed :: "decoder \<Rightarrow> bytes \<Rightarrow> (decoder \<times> frame list, protocol_error) result" where
  "decoder_feed d input =
     (case push d input of
        (d', Ok fs) \<Rightarrow> Ok (d', fs)
      | (d', Err e) \<Rightarrow> Err e
      | (d', Panic) \<Rightarrow> Panic)"

section \<open>Payload lemmas\<close>

lemmas header_defs = validate_header_def MAX_FRAME_PAYLOAD_def MAX_DATA_PAYLOAD_def TY_defs

lemma length_hello_payload: "length hello_payload = 24"
  by (simp add: hello_payload_def HELLO_PAIRS_def)

lemma length_encode_mapped [simp]: "length (encode_mapped a) = 16"
  by (cases a) simp

lemma read_u64_Ok: "at + 8 \<le> length b \<Longrightarrow> read_u64 b at = Ok (from_be (slice_of at (at + 8) b))"
  by (simp add: read_u64_def get_range_def)

lemma read_u16_Ok: "at + 2 \<le> length b \<Longrightarrow> read_u16 b at = Ok (from_be (slice_of at (at + 2) b))"
  by (simp add: read_u16_def get_range_def)

lemma quota_state_from_to [simp]: "quota_state_from_u8 (quota_state_u8 s) = Ok s"
  by (cases s) (simp_all add: quota_state_from_u8_def)

lemma open_fail_reason_from_to [simp]:
  "open_fail_reason_from_u8 (open_fail_reason_u8 r) = Ok r"
  by (cases r) (simp_all add: open_fail_reason_from_u8_def)

lemma close_reason_from_to [simp]: "close_reason_from_u8 (close_reason_u8 r) = Ok r"
  by (cases r) (simp_all add: close_reason_from_u8_def)

lemma quota_state_from_u8_Ok_iff [result_iff]:
  "quota_state_from_u8 v = Ok s \<longleftrightarrow> v = quota_state_u8 s"
  by (cases s) (auto simp: quota_state_from_u8_def)

lemma open_fail_reason_from_u8_Ok_iff [result_iff]:
  "open_fail_reason_from_u8 v = Ok r \<longleftrightarrow> v = open_fail_reason_u8 r"
  by (cases r) (auto simp: open_fail_reason_from_u8_def)

lemma close_reason_from_u8_Ok_iff [result_iff]:
  "close_reason_from_u8 v = Ok c \<longleftrightarrow> v = close_reason_u8 c"
  by (cases c) (auto simp: close_reason_from_u8_def)

lemma from_u8_no_panic [simp]:
  "quota_state_from_u8 v \<noteq> Panic"
  "open_fail_reason_from_u8 v \<noteq> Panic"
  "close_reason_from_u8 v \<noteq> Panic"
  by (simp_all add: quota_state_from_u8_def open_fail_reason_from_u8_def close_reason_from_u8_def)

lemma decode_mapped_no_panic [simp]: "decode_mapped b \<noteq> Panic"
  by (simp add: decode_mapped_def)

lemma decode_encode_mapped [simp]: "decode_mapped (encode_mapped a) = Ok a"
  by (cases a) (simp add: decode_mapped_def numeral_eq_Suc)

lemma decode_mapped_Ok_iff [result_iff]: "decode_mapped b = Ok a \<longleftrightarrow> b = encode_mapped a"
proof
  assume ok: "decode_mapped b = Ok a"
  then have len: "length b = 16" and pre: "take 10 b = replicate 10 0"
    and ff: "b ! 10 = 0xff" "b ! 11 = 0xff"
    and a: "a = Ipv4 (b ! 12) (b ! 13) (b ! 14) (b ! 15)"
    by (auto simp: decode_mapped_def split: if_splits)
  have "b = take 10 b @ drop 10 b" by simp
  also have "drop 10 b = [b ! 10, b ! 11, b ! 12, b ! 13, b ! 14, b ! 15]"
    using len by (intro nth_equalityI) (auto simp: less_Suc_eq numeral_eq_Suc)
  finally show "b = encode_mapped a"
    by (simp add: a pre ff)
qed simp

lemma validate_header_no_panic [simp]: "validate_header ty len \<noteq> Panic"
  by (simp add: validate_header_def)

text \<open>An accepted header fixes the payload length of every type but DATA, and bounds DATA.\<close>

lemma validate_header_bound:
  "validate_header ty len = Ok u \<Longrightarrow> unat len \<le> 16392"
  by (auto simp: header_defs split: if_splits)

lemma validate_header_type:
  "validate_header ty len = Ok u \<Longrightarrow>
     ty = TY_HELLO \<and> unat len = 24 \<or> ty = TY_HELLO_OK \<and> unat len = 12 \<or>
     ty = TY_PING \<and> unat len = 8 \<or> ty = TY_PONG \<and> unat len = 8 \<or>
     ty = TY_OPEN_OK \<and> unat len = 8 \<or> ty = TY_OPEN \<and> unat len = 28 \<or>
     ty = TY_OPEN_FAIL \<and> unat len = 9 \<or> ty = TY_CLOSE \<and> unat len = 9 \<or>
     ty = TY_QUOTA \<and> unat len = 9 \<or>
     ty = TY_DATA \<and> 8 \<le> unat len \<and> unat len \<le> 16392"
  by (auto simp: header_defs word_le_nat_alt split: if_splits)

lemma decode_payload_no_panic:
  assumes "validate_header ty len = Ok u" and "length pl = unat len"
  shows "decode_payload ty pl \<noteq> Panic"
  using validate_header_type [OF assms(1)] assms(2)
  by (elim disjE conjE)
    (auto simp: decode_payload_def TY_defs and_then_Panic_iff read_u64_Ok read_u16_Ok)


lemma validate_header_data:
  assumes "8 \<le> n" and "n \<le> 16392"
  shows "validate_header TY_DATA (of_nat n) = Ok ()"
proof -
  have "unat (of_nat n :: u32) = n"
    using assms by (simp add: unat_of_nat)
  then show ?thesis
    using assms by (simp add: header_defs word_le_nat_alt word_less_nat_alt)
qed

lemma encode_payload_length: "encode_payload f = Ok (ty, pl) \<Longrightarrow> length pl \<le> 16392"
  by (cases f) (auto simp: length_hello_payload MAX_DATA_PAYLOAD_def split: if_split_asm)

lemma encode_payload_valid:
  assumes "encode_payload f = Ok (ty, pl)"
  shows "validate_header ty (of_nat (length pl)) = Ok ()"
proof (cases f)
  case (Data c body)
  with assms show ?thesis
    using validate_header_data [of "length pl"]
    by (auto simp: MAX_DATA_PAYLOAD_def split: if_split_asm)
qed (use assms in \<open>auto simp: length_hello_payload header_defs split: if_split_asm\<close>)

lemma decode_encode_payload:
  assumes "encode_payload f = Ok (ty, pl)"
  shows "decode_payload ty pl = Ok f"
  using assms
  by (cases f; clarsimp split: if_split_asm;
      simp add: decode_payload_def TY_defs read_u64_Ok read_u16_Ok slice_of_def be_roundtrip
        nth_append)

text \<open>The other direction: a payload the decoder accepts is the one the encoder writes.\<close>

lemma be_slice8: "n + 8 \<le> length pl \<Longrightarrow> to_be 8 (from_be (slice_of n (n + 8) pl) :: u64) = slice_of n (n + 8) pl"
  by (simp add: to_be_from_be)

lemma be_slice2: "n + 2 \<le> length pl \<Longrightarrow> to_be 2 (from_be (slice_of n (n + 2) pl) :: u16) = slice_of n (n + 2) pl"
  by (simp add: to_be_from_be)

lemma slice_glue:
  assumes "a \<le> b" and "b \<le> c"
  shows "slice_of a b xs @ slice_of b c xs = slice_of a c xs"
proof -
  have "slice_of a c xs = take ((b - a) + (c - b)) (drop a xs)"
    using assms by (simp add: slice_of_def)
  then show ?thesis
    using assms by (simp only: take_add drop_drop slice_of_def) (simp add: le_add_diff_inverse2)
qed

lemma slice_one: "i < length xs \<Longrightarrow> j = Suc i \<Longrightarrow> slice_of i j xs = [xs ! i]"
  by (simp add: slice_of_def take_Suc hd_drop_conv_nth)

lemma slice_head_tail: "length xs = n \<Longrightarrow> a \<le> n \<Longrightarrow> slice_of 0 a xs @ slice_of a n xs = xs"
  using slice_full [of xs] by (simp add: slice_glue)

lemma payload_split9:
  assumes "length pl = 9"
  shows "slice_of 0 8 pl @ [pl ! 8] = pl"
proof -
  have "slice_of 8 9 pl = [pl ! 8]"
    using assms by (intro slice_one) simp_all
  with slice_head_tail [OF assms, of 8] show ?thesis by simp
qed

lemma payload_split12:
  assumes "length pl = 12"
  shows "slice_of 0 8 pl @ pl ! 8 # slice_of 9 11 pl @ [pl ! 11] = pl"
proof -
  have "slice_of 8 12 pl = slice_of 8 9 pl @ slice_of 9 11 pl @ slice_of 11 12 pl"
    by (simp add: slice_glue)
  moreover have "slice_of 8 9 pl = [pl ! 8]" and "slice_of 11 12 pl = [pl ! 11]"
    using assms by (auto intro!: slice_one)
  ultimately have "slice_of 8 12 pl = pl ! 8 # slice_of 9 11 pl @ [pl ! 11]" by simp
  with slice_head_tail [OF assms, of 8] show ?thesis by simp
qed

lemma payload_split28:
  assumes "length pl = 28"
  shows "slice_of 0 8 pl @ slice_of 8 10 pl @ slice_of 10 12 pl @ slice_of 12 28 pl = pl"
proof -
  have "slice_of 8 28 pl = slice_of 8 10 pl @ slice_of 10 12 pl @ slice_of 12 28 pl"
    by (simp add: slice_glue)
  with slice_head_tail [OF assms, of 8] show ?thesis by simp
qed

lemma encode_decode_payload:
  assumes valid: "validate_header ty len = Ok u" and len: "length pl = unat len"
    and dec: "decode_payload ty pl = Ok f"
  shows "encode_payload f = Ok (ty, pl)"
proof -
  have be: "to_be 8 (from_be (slice_of 0 8 pl) :: u64) = slice_of 0 8 pl" if "8 \<le> length pl"
    using be_slice8 [of 0 pl] that by simp
  note unfolds = decode_payload_def TY_defs read_u64_Ok read_u16_Ok be result_iff
  consider "ty = TY_HELLO" | "ty = TY_HELLO_OK" "length pl = 12"
    | "ty = TY_PING \<or> ty = TY_PONG \<or> ty = TY_OPEN_OK" "length pl = 8"
    | "ty = TY_OPEN" "length pl = 28"
    | "ty = TY_OPEN_FAIL \<or> ty = TY_CLOSE \<or> ty = TY_QUOTA" "length pl = 9"
    | "ty = TY_DATA" "8 \<le> length pl" "length pl \<le> 16392"
    using validate_header_type [OF valid] len by fastforce
  then show ?thesis
  proof cases
    case 1
    with dec show ?thesis by (auto simp: decode_payload_def split: if_splits)
  next
    case 2
    with dec payload_split12 [OF 2(2)] be_slice2 [of 9 pl] show ?thesis
      by (auto simp: unfolds split: if_split_asm)
  next
    case 3
    with dec slice_full [of pl] show ?thesis
      by (auto simp: unfolds to_be_from_be)
  next
    case 4
    with dec payload_split28 [OF 4(2)] be_slice2 [of 8 pl] be_slice2 [of 10 pl] show ?thesis
      by (auto simp: unfolds)
  next
    case 5
    with dec payload_split9 [OF 5(2)] show ?thesis
      by (auto simp: unfolds)
  next
    case 6
    with dec slice_head_tail [OF refl 6(2)] show ?thesis
      by (auto simp: unfolds MAX_DATA_PAYLOAD_def)
  qed
qed


section \<open>The reference decoder\<close>

text \<open>
  What the incremental decoder implements: read frames off the front of the whole byte
  string, stop at an incomplete one and keep it.
\<close>

definition header_len :: "bytes \<Rightarrow> u32" where
  "header_len bs = from_be (slice_of 1 5 bs)"

function (sequential) decode_all :: "bytes \<Rightarrow> (bytes \<times> frame list, protocol_error) result" where
  "decode_all bs =
     (if length bs < 5 then Ok (bs, [])
      else case validate_header (bs ! 0) (header_len bs) of
        Err e \<Rightarrow> Err e
      | Panic \<Rightarrow> Panic
      | Ok _ \<Rightarrow>
          (let n = 5 + unat (header_len bs) in
           if length bs < n then Ok (bs, [])
           else case decode_payload (bs ! 0) (slice_of 5 n bs) of
             Err e \<Rightarrow> Err e
           | Panic \<Rightarrow> Panic
           | Ok f \<Rightarrow> and_then (decode_all (drop n bs)) (\<lambda>(rest, fs). Ok (rest, f # fs))))"
  by pat_completeness auto
termination
  by (relation "measure length") auto

declare decode_all.simps [simp del]

lemma header_len_append: "5 \<le> length xs \<Longrightarrow> header_len (xs @ ys) = header_len xs"
  by (simp add: header_len_def slice_append1)

lemma decode_all_step:
  assumes "5 \<le> length bs" and "validate_header (bs ! 0) (header_len bs) = Ok u"
    and "n = 5 + unat (header_len bs)" and "n \<le> length bs"
    and "decode_payload (bs ! 0) (slice_of 5 n bs) = Ok f"
  shows "decode_all bs = and_then (decode_all (drop n bs)) (\<lambda>(rest, fs). Ok (rest, f # fs))"
  using assms by (subst decode_all.simps) (simp add: Let_def)

lemma nth0_append: "5 \<le> length xs \<Longrightarrow> (xs @ ys) ! 0 = xs ! 0"
  by (cases xs) auto

lemma decode_all_no_panic: "decode_all bs \<noteq> Panic"
proof (induction bs rule: decode_all.induct)
  case (1 bs)
  let ?n = "5 + unat (header_len bs)"
  have "decode_payload (bs ! 0) (slice_of 5 ?n bs) \<noteq> Panic"
    if "validate_header (bs ! 0) (header_len bs) = Ok u" and "?n \<le> length bs" for u
    using decode_payload_no_panic [OF that(1), of "slice_of 5 ?n bs"] that(2) by simp
  then show ?case
    using "1.IH" by (subst decode_all.simps)
      (auto simp: Let_def and_then_Panic_iff not_less split: result.splits)
qed

text \<open>Decoding a concatenation is decoding the first part and continuing with what it left.\<close>

lemma decode_all_append:
  "decode_all (xs @ ys) =
     and_then (decode_all xs) (\<lambda>(rest, fs).
     and_then (decode_all (rest @ ys)) (\<lambda>(rest', gs). Ok (rest', fs @ gs)))"
proof (induction xs rule: decode_all.induct)
  case (1 xs)
  define n where "n = 5 + unat (header_len xs)"
  note unfold = decode_all.simps [of xs]
  consider (short) "length xs < 5"
    | (bad) e where "5 \<le> length xs" "validate_header (xs ! 0) (header_len xs) = Err e"
    | (need) u where "5 \<le> length xs" "validate_header (xs ! 0) (header_len xs) = Ok u"
        "length xs < n"
    | (full) u where "5 \<le> length xs" "validate_header (xs ! 0) (header_len xs) = Ok u"
        "n \<le> length xs"
    by (cases "validate_header (xs ! 0) (header_len xs)") (force simp: not_less)+
  then show ?case
  proof cases
    case short
    then show ?thesis
      by (cases "decode_all (xs @ ys)") (auto simp: unfold)
  next
    case bad
    then show ?thesis
      by (simp add: unfold) (subst decode_all.simps, simp add: header_len_append nth0_append)
  next
    case need
    then show ?thesis
      by (cases "decode_all (xs @ ys)") (auto simp: unfold n_def Let_def)
  next
    case full
    have pay: "slice_of 5 n (xs @ ys) = slice_of 5 n xs" and drop: "drop n (xs @ ys) = drop n xs @ ys"
      using full by (simp_all add: slice_append1)
    show ?thesis
    proof (cases "decode_payload (xs ! 0) (slice_of 5 n xs)")
      case (Ok f)
      have IH: "decode_all (drop n xs @ ys) =
          and_then (decode_all (drop n xs)) (\<lambda>(rest, fs).
          and_then (decode_all (rest @ ys)) (\<lambda>(rest', gs). Ok (rest', fs @ gs)))"
        using "1.IH" [OF _ full(2) refl _ Ok [unfolded n_def]] full by (simp add: n_def not_less)
      have "decode_all (xs @ ys) =
          and_then (decode_all (drop n xs @ ys)) (\<lambda>(rest, fs). Ok (rest, f # fs))"
        using decode_all_step [of "xs @ ys" u n f] full Ok pay drop
        by (simp add: header_len_append n_def nth0_append)
      moreover have "decode_all xs = and_then (decode_all (drop n xs)) (\<lambda>(rest, fs). Ok (rest, f # fs))"
        using decode_all_step [of xs u n f] full Ok by (simp add: n_def)
      ultimately show ?thesis
        by (auto simp: IH and_then_def split: result.splits prod.splits)
    next
      case (Err e)
      with full pay show ?thesis
        by (simp add: unfold n_def Let_def not_less)
          (subst decode_all.simps, simp add: header_len_append nth0_append Let_def)
    next
      case Panic
      with full pay show ?thesis
        by (simp add: unfold n_def Let_def not_less)
          (subst decode_all.simps, simp add: header_len_append nth0_append Let_def)
    qed
  qed
qed

section \<open>The incremental decoder refines the reference decoder\<close>

fun outcome :: "bytes \<times> (frame list, protocol_error) result \<Rightarrow>
    (bytes \<times> frame list, protocol_error) result" where
  "outcome (b, Ok fs) = Ok (b, fs)"
| "outcome (b, Err e) = Err e"
| "outcome (b, Panic) = Panic"

lemma fill_None: "fill n b input = None \<longleftrightarrow> length (b @ input) < n"
  by (auto simp: fill_def Let_def)

lemma decode_all_Nil [simp]: "decode_all [] = Ok ([], [])"
  by (simp add: decode_all.simps)

text \<open>What the filled buffers show of the bytes the decoder holds and receives.\<close>

lemma fill_header:
  assumes "fill HEADER b input = Some (b1, i1)"
  shows "b1 @ i1 = b @ input" and "header_len (b @ input) = from_be (slice_of 1 5 b1)"
    and "(b @ input) ! 0 = b1 ! 0" and "5 \<le> length (b @ input)"
proof -
  from fill_length [OF assms] have "b @ input = b1 @ i1" and "5 \<le> length b1"
    by (simp_all add: HEADER_def)
  then show "b1 @ i1 = b @ input" and "header_len (b @ input) = from_be (slice_of 1 5 b1)"
    and "(b @ input) ! 0 = b1 ! 0" and "5 \<le> length (b @ input)"
    using header_len_append [of b1 i1] nth0_append [of b1 i1]
    by (simp_all add: header_len_def)
qed

lemma fill_payload:
  assumes "fill n b1 i1 = Some (b2, i2)" and "5 \<le> n"
  shows "slice_of 5 n (b1 @ i1) = slice_of 5 n b2" and "(b1 @ i1) ! 0 = b2 ! 0"
    and "drop n (b1 @ i1) = drop n b2 @ i2" and "n \<le> length (b1 @ i1)"
proof -
  from fill_length [OF assms(1)] have "b1 @ i1 = b2 @ i2" and "n \<le> length b2"
    by simp_all
  then show "slice_of 5 n (b1 @ i1) = slice_of 5 n b2" and "(b1 @ i1) ! 0 = b2 ! 0"
    and "drop n (b1 @ i1) = drop n b2 @ i2" and "n \<le> length (b1 @ i1)"
    using assms(2) nth0_append [of b2 i2] by (simp_all add: slice_append1)
qed

lemma push_loop_decode_all:
  "outcome (push_loop b input out) =
     and_then (decode_all (b @ input)) (\<lambda>(rest, fs). Ok (rest, out @ fs))"
proof (induction b input out rule: push_loop.induct)
  case (1 b input out)
  let ?bs = "b @ input" and ?n = "5 + unat (header_len (b @ input))"
  note unfolds = push_loop.simps [of b] decode_all.simps [of ?bs] Let_def HEADER_def not_less
  show ?case
  proof (cases "fill HEADER b input")
    case None
    then show ?thesis
      by (simp add: push_loop.simps [of b])
        (simp add: fill_None HEADER_def decode_all.simps [of ?bs])
  next
    case (Some p)
    then obtain b1 i1 where fill1: "fill HEADER b input = Some (b1, i1)"
      by (cases p) auto
    note h = fill_header [OF fill1]
    show ?thesis
    proof (cases "validate_header (b1 ! 0) (header_len ?bs)")
      case (Err e)
      then show ?thesis
        using fill1 h by (simp add: push_loop.simps [of b] decode_all.simps [of ?bs] Let_def)
    next
      case valid: (Ok u)
      show ?thesis
      proof (cases "fill ?n b1 i1")
        case None
        moreover from this have "length ?bs < ?n"
          by (simp only: fill_None h(1))
        ultimately show ?thesis
          using fill1 h valid by (simp add: unfolds)
      next
        case (Some q)
        then obtain b2 i2 where fill2: "fill ?n b1 i1 = Some (b2, i2)"
          by (cases q) auto
        have "5 \<le> ?n" and nH: "?n = HEADER + unat (header_len ?bs)"
          by (simp_all add: HEADER_def)
        note q = fill_payload [OF fill2 this(1), unfolded h(1)]
        show ?thesis
        proof (cases "decode_payload (b1 ! 0) (slice_of 5 ?n b2)")
          case (Ok f)
          have "validate_header (?bs ! 0) (header_len ?bs) = Ok u"
            and "decode_payload (?bs ! 0) (slice_of 5 ?n ?bs) = Ok f"
            using valid Ok by (simp_all only: h(3) q(1))
          then have "decode_all ?bs =
              and_then (decode_all (drop ?n b2 @ i2)) (\<lambda>(rest, fs). Ok (rest, f # fs))"
            using decode_all_step [OF h(4) _ refl q(4)] by (simp only: q(3))
          moreover have "push_loop b input out =
              (if drop ?n b2 = [] \<and> i2 = [] then (drop ?n b2, Ok (out @ [f]))
               else push_loop (drop ?n b2) i2 (out @ [f]))"
            using fill1 h valid fill2 Ok q by (simp add: push_loop.simps [of b] Let_def HEADER_def)
          moreover have "outcome (push_loop (drop ?n b2) i2 (out @ [f])) =
              and_then (decode_all (drop ?n b2 @ i2)) (\<lambda>(rest, fs). Ok (rest, (out @ [f]) @ fs))"
            if "\<not> (drop ?n b2 = [] \<and> i2 = [])"
            using "1.IH" [OF fill1 refl h(2) valid nH fill2 refl _ refl that] Ok h(3) q(2)
            by (simp add: HEADER_def)
          ultimately show ?thesis
            by (auto simp: and_then_def split: result.splits prod.splits)
        qed (use fill1 h valid fill2 q in \<open>simp_all add: unfolds\<close>)
      qed
    qed simp
  qed
qed

lemma decoder_feed_decode_all:
  "decoder_feed d input =
     and_then (decode_all (buf d @ input)) (\<lambda>(rest, fs). Ok (d\<lparr>buf := rest\<rparr>, fs))"
  using push_loop_decode_all [of "buf d" input "[]"]
  by (cases "push_loop (buf d) input []" rule: outcome.cases)
    (auto simp: decoder_feed_def push_def and_then_def split: result.splits prod.splits)

lemma decode_all_idem: "decode_all bs = Ok (rest, fs) \<Longrightarrow> decode_all rest = Ok (rest, [])"
  using decode_all_append [of bs "[]"] by (auto simp: result_iff dest: sym)

text \<open>A decoder between two reads holds an incomplete frame, nothing the loop would still decode.\<close>

definition decoder_waiting :: "decoder \<Rightarrow> bool" where
  "decoder_waiting d \<longleftrightarrow> decode_all (buf d) = Ok (buf d, [])"

interpretation edge_dec: stream_decoder decoder_feed decoder_waiting
proof (standard, goal_cases)
  case (1 d)
  then show ?case by (simp add: decoder_feed_decode_all decoder_waiting_def)
next
  case (2 d xs ys)
  then show ?case
    using decode_all_append [of "buf d @ xs" ys]
    by (auto simp: decoder_feed_decode_all and_then_def split: result.splits prod.splits)
next
  case (3 d xs d' fs)
  then show ?case
    by (auto simp: decoder_feed_decode_all decoder_waiting_def result_iff split: prod.splits
        dest: decode_all_idem)
qed

lemma new_decoder_waiting [simp]: "decoder_waiting new_decoder"
  by (simp add: decoder_waiting_def new_decoder_def)

lemma feed_new_decoder:
  "feed_chunks decoder_feed new_decoder cs =
     and_then (decode_all (concat cs)) (\<lambda>(rest, fs). Ok (\<lparr>buf = rest\<rparr>, fs))"
  by (simp add: edge_dec.feed_chunks_concat decoder_feed_decode_all) (simp add: new_decoder_def)

lemma waiting_bound:
  assumes "decode_all b = Ok (b, [])"
  shows "length b < 16397"
proof (cases "length b < 5")
  case False
  then show ?thesis
    using assms validate_header_bound [of "b ! 0" "header_len b"]
    by (subst (asm) decode_all.simps)
      (auto simp: Let_def result_iff split: result.splits if_splits)
qed simp

subsection \<open>Encoded frames on the wire\<close>

lemma encode_Ok_iff:
  "encode f = Ok b \<longleftrightarrow>
     (\<exists>ty pl. encode_payload f = Ok (ty, pl) \<and> b = ty # to_be 4 (of_nat (length pl) :: u32) @ pl)"
  by (auto simp: encode_def result_iff)

lemma decode_all_encode:
  assumes "encode f = Ok b"
  shows "decode_all (b @ rest) = and_then (decode_all rest) (\<lambda>(r, fs). Ok (r, f # fs))"
proof -
  from assms obtain ty pl where enc: "encode_payload f = Ok (ty, pl)"
    and b: "b = ty # to_be 4 (of_nat (length pl) :: u32) @ pl"
    by (auto simp: encode_Ok_iff)
  have len: "header_len (b @ rest) = of_nat (length pl)"
    by (simp add: header_len_def b slice_of_def be_roundtrip)
  have unat: "unat (of_nat (length pl) :: u32) = length pl"
    using encode_payload_length [OF enc] by (simp add: unat_of_nat)
  show ?thesis
    using decode_all_step [of "b @ rest" "()" "5 + length pl" f]
      encode_payload_valid [OF enc] decode_encode_payload [OF enc]
    by (simp add: len unat) (simp add: b slice_of_def)
qed

lemma decode_all_encoded:
  assumes "list_all2 (\<lambda>f b. encode f = Ok b) fs bss"
  shows "decode_all (concat bss) = Ok ([], fs)"
  using assms by (induction fs bss rule: list_all2_induct) (auto simp: decode_all_encode)

lemma decode_all_canonical:
  "decode_all bs = Ok ([], fs) \<Longrightarrow>
     \<exists>bss. list_all2 (\<lambda>f b. encode f = Ok b) fs bss \<and> concat bss = bs"
proof (induction bs arbitrary: fs rule: decode_all.induct)
  case (1 bs)
  show ?case
  proof (cases "bs = []")
    case True
    with "1.prems" show ?thesis by (intro exI [of _ "[]"]) simp
  next
    case False
    let ?n = "5 + unat (header_len bs)"
    from "1.prems" False obtain u f gs where long: "5 \<le> length bs"
      and valid: "validate_header (bs ! 0) (header_len bs) = Ok u" and n: "?n \<le> length bs"
      and pay: "decode_payload (bs ! 0) (slice_of 5 ?n bs) = Ok f"
      and rest: "decode_all (drop ?n bs) = Ok ([], gs)" and fs: "fs = f # gs"
      by (subst (asm) decode_all.simps)
        (auto simp: Let_def result_iff not_less split: result.splits if_splits)
    from "1.IH" [OF _ valid refl _ pay rest] long n
    obtain bss where bss: "list_all2 (\<lambda>f b. encode f = Ok b) gs bss" "concat bss = drop ?n bs"
      by auto
    have "encode_payload f = Ok (bs ! 0, slice_of 5 ?n bs)"
      using encode_decode_payload [OF valid _ pay] n by simp
    moreover have "bs ! 0 # to_be 4 (header_len bs) @ slice_of 5 ?n bs = take ?n bs"
    proof -
      have "slice_of 0 1 bs @ slice_of 1 5 bs @ slice_of 5 ?n bs = take ?n bs"
        by (simp add: slice_glue) (simp add: slice_of_def)
      moreover have "slice_of 0 1 bs = [bs ! 0]"
        using long by (intro slice_one) auto
      ultimately show ?thesis
        using long by (simp add: header_len_def to_be_from_be)
    qed
    ultimately have "encode f = Ok (take ?n bs)"
      using n by (simp add: encode_def)
    with bss show ?thesis
      by (intro exI [of _ "take ?n bs # bss"]) (simp add: fs)
  qed
qed

section \<open>Properties\<close>

text \<open>
  C1: frames sent over the tunnel are received as they were sent. Encode any sequence of
  frames, cut the resulting bytes into reads anywhere, and the decoder returns exactly those
  frames in order and is left with an empty buffer.
\<close>

theorem frame_stream_roundtrip:
  assumes "list_all2 (\<lambda>f b. encode f = Ok b) fs bss"
    and "concat cs = concat bss"
  shows "feed_chunks decoder_feed new_decoder cs = Ok (new_decoder, fs)"
  using decode_all_encoded [OF assms(1)] assms(2)
  by (simp add: feed_new_decoder) (simp add: new_decoder_def)

theorem frame_stream_roundtrip_witness:
  "feed_chunks decoder_feed new_decoder [[3, 0, 0], [0, 8, 0, 0, 0, 0, 0, 0, 0], [9, 4, 0, 0, 0, 8],
     [0, 0, 0, 0, 0, 0, 0, 7]] = Ok (new_decoder, [Ping 9, Pong 7])"
  by (rule frame_stream_roundtrip
      [of _ "[[3, 0, 0, 0, 8, 0, 0, 0, 0, 0, 0, 0, 9], [4, 0, 0, 0, 8, 0, 0, 0, 0, 0, 0, 0, 7]]"])
    (simp_all add: encode_def TY_defs to_be_numeral)

text \<open>
  The encoding is canonical. Bytes the decoder accepts completely (no error, nothing
  left in the buffer) are the concatenated encodings of the frames it returns, so no two
  different byte strings stand for the same frames.
\<close>

theorem frame_stream_canonical:
  assumes "feed_chunks decoder_feed new_decoder cs = Ok (new_decoder, fs)"
  shows "\<exists>bss. list_all2 (\<lambda>f b. encode f = Ok b) fs bss \<and> concat bss = concat cs"
  using assms unfolding feed_new_decoder
  by (auto simp: result_iff new_decoder_def intro!: decode_all_canonical)

theorem frame_stream_canonical_witness:
  "\<exists>bss. list_all2 (\<lambda>f b. encode f = Ok b) [OpenOk 1] bss \<and>
     concat bss = concat [[6, 0], [0, 0, 8, 0, 0, 0, 0, 0, 0, 0, 1]]"
proof (rule frame_stream_canonical)
  have "encode (OpenOk 1) = Ok [6, 0, 0, 0, 8, 0, 0, 0, 0, 0, 0, 0, 1]"
    by (simp add: encode_def TY_defs to_be_numeral)
  then have "decode_all (concat [[6, 0], [0, 0, 8, 0, 0, 0, 0, 0, 0, 0, 1]]) = Ok ([], [OpenOk 1])"
    using decode_all_encoded [of "[OpenOk 1]" "[[6, 0, 0, 0, 8, 0, 0, 0, 0, 0, 0, 0, 1]]"] by simp
  then show "feed_chunks decoder_feed new_decoder [[6, 0], [0, 0, 8, 0, 0, 0, 0, 0, 0, 0, 1]] =
      Ok (new_decoder, [OpenOk 1])"
    by (simp only: feed_new_decoder) (simp add: new_decoder_def)
qed



text \<open>
  No input makes the decoder panic. Whatever bytes arrive in whatever reads, every
  index and slice the decoder takes is in range.
\<close>

theorem decoder_never_panics: "feed_chunks decoder_feed new_decoder cs \<noteq> Panic"
  using decode_all_no_panic [of "concat cs"]
  by (auto simp: feed_new_decoder and_then_Panic_iff split: prod.splits)

text \<open>
  The memory a peer can make the decoder hold is bounded. After any reads the buffer is
  shorter than the longest legal frame (5 header bytes, 8 id bytes, 16384 data bytes): a bad
  header is rejected before its payload is buffered.
\<close>

theorem decoder_buffer_bounded:
  assumes "feed_chunks decoder_feed new_decoder cs = Ok (d, fs)"
  shows "length (buf d) < HEADER + 8 + MAX_DATA_PAYLOAD"
  using assms waiting_bound
  by (auto simp: feed_new_decoder result_iff HEADER_def MAX_DATA_PAYLOAD_def
      dest: decode_all_idem split: prod.splits)

theorem decoder_buffer_bounded_witness:
  "length (buf \<lparr>buf = [8, 0, 0]\<rparr>) < HEADER + 8 + MAX_DATA_PAYLOAD"
  by (rule decoder_buffer_bounded [of "[[8, 0], [0]]" _ "[]"])
    (simp only: feed_new_decoder, simp add: decode_all.simps)

text \<open>
  An inadmissible header is an error as soon as its five bytes are there, whatever
  follows: a length over 65536, an unknown type, or a length that does not fit the type.
\<close>

theorem bad_header_rejected:
  assumes "validate_header ty len = Err e"
  shows "decoder_feed new_decoder (ty # to_be 4 len @ rest) = Err e"
  using assms
  by (subst decoder_feed_decode_all, subst decode_all.simps)
    (simp add: new_decoder_def header_len_def slice_of_def be_roundtrip)

theorem bad_header_rejected_witness:
  "validate_header 99 65537 = Err TooLong \<and>
   decoder_feed new_decoder ((99 :: byte) # to_be 4 (65537 :: u32) @ []) = Err TooLong"
proof -
  have "validate_header 99 65537 = Err TooLong"
    by (simp add: header_defs)
  then show ?thesis using bad_header_rejected [of 99 65537 TooLong "[]"] by simp
qed

end
