(* ===== verification/Calendar.thy ===== *)
theory Calendar
  imports Main
begin

text \<open>
  The proleptic Gregorian calendar as the reference of the date computations: leap years, the days before a year and before a month
  (counted from 1970-01-01), and the days before March 1 of a year counted from 0000-03-01.
\<close>

section \<open>Reference\<close>


definition leap :: "nat \<Rightarrow> bool" where
  "leap y \<longleftrightarrow> y mod 4 = 0 \<and> (y mod 100 \<noteq> 0 \<or> y mod 400 = 0)"

definition month_len :: "nat \<Rightarrow> nat \<Rightarrow> nat" where
  "month_len y m = (if m = 2 then (if leap y then 29 else 28) else if m \<in> {4, 6, 9, 11} then 30 else 31)"

fun year_start :: "nat \<Rightarrow> nat" where
  "year_start 0 = 0"
| "year_start (Suc n) = year_start n + (if leap (1970 + n) then 366 else 365)"

fun days_before :: "nat \<Rightarrow> nat \<Rightarrow> nat" where
  "days_before y 0 = 0"
| "days_before y (Suc m) = (if m = 0 then 0 else days_before y m + month_len y m)"

definition month_start :: "nat \<Rightarrow> nat \<Rightarrow> nat" where
  "month_start y m = year_start (y - 1970) + days_before y m"

lemma less_ten_cases:
  "n < 10 \<Longrightarrow> n \<in> {0, 1, 2, 3, 4, 5, 6, 7, 8, 9 :: nat}"
  by (simp add: numeral_eq_Suc less_Suc_eq)

lemma month_len_march:
  "k < 10 \<Longrightarrow> (153 * k + 2) div 5 + month_len y (k + 3) = (153 * (k + 1) + 2) div 5"
  by (drule less_ten_cases) (auto simp: month_len_def)

lemma days_before_february: "days_before y 1 = 0" "days_before y 2 = 31"
  by (simp_all add: month_len_def numeral_2_eq_2)

lemma days_before_march:
  "3 \<le> m \<Longrightarrow> m \<le> 12 \<Longrightarrow>
    days_before y m = (153 * (m - 3) + 2) div 5 + (if leap y then 60 else 59)"
proof (induction m rule: dec_induct)
  case base
  show ?case
    using days_before.simps(2) [of y 2] days_before_february [of y] by (simp add: month_len_def)
next
  case (step m)
  then show ?case
    using month_len_march [of "m - 3" y] by simp
qed

definition march_days :: "nat \<Rightarrow> nat" where
  "march_days y = 365 * y + y div 4 - y div 100 + y div 400"

lemma march_days_add: "march_days y + y div 100 = 365 * y + y div 4 + y div 400"
  using div_le_mono2 [of 4 100 y] by (simp add: march_days_def)

lemma march_days_Suc:
  "march_days (Suc y) = march_days y + (if leap (Suc y) then 366 else 365)"
proof -
  have a: "Suc y div k = y div k + of_bool (Suc y mod k = 0)" for k
    by (simp add: div_Suc)
  have b: "Suc y mod 100 = 0 \<Longrightarrow> Suc y mod 4 = 0" "Suc y mod 400 = 0 \<Longrightarrow> Suc y mod 100 = 0"
    by presburger+
  define p4 p100 p400 where "p4 = (Suc y mod 4 = 0)" and "p100 = (Suc y mod 100 = 0)"
    and "p400 = (Suc y mod 400 = 0)"
  have "march_days (Suc y) + (y div 100 + of_bool p100) =
      365 * Suc y + (y div 4 + of_bool p4) + (y div 400 + of_bool p400)"
    using march_days_add [of "Suc y"] by (simp only: a p4_def p100_def p400_def)
  moreover have "leap (Suc y) \<longleftrightarrow> p4 \<and> (\<not> p100 \<or> p400)" "p100 \<Longrightarrow> p4" "p400 \<Longrightarrow> p100"
    using b by (simp_all add: leap_def p4_def p100_def p400_def)
  ultimately show ?thesis
    using march_days_add [of y] by (cases p4; cases p100; cases p400; simp)
qed

lemma year_start_march: "year_start n + 719162 = march_days (1969 + n)"
proof (induction n)
  case 0
  then show ?case by (simp add: march_days_def)
next
  case (Suc n)
  then show ?case using march_days_Suc [of "1969 + n"] by simp
qed

lemma march_days_era: "march_days (400 * e + y) = 146097 * e + march_days y"
proof -
  have d: "(400 * e + y) div 4 = 100 * e + y div 4" "(400 * e + y) div 100 = 4 * e + y div 100"
    "(400 * e + y) div 400 = e + y div 400"
    using div_mult_self1 [of 4 y "100 * e"] div_mult_self1 [of 100 y "4 * e"]
      div_mult_self1 [of 400 y e] by (simp_all add: algebra_simps)
  show ?thesis
    using march_days_add [of y] march_days_add [of "400 * e + y"] unfolding d by simp
qed

lemma month_of_year:
  fixes doy :: nat
  assumes "doy < 366" "mp = (5 * doy + 2) div 153"
  shows "mp \<le> 11 \<and> (153 * mp + 2) div 5 \<le> doy \<and> doy < (153 * (mp + 1) + 2) div 5"
proof -
  have "153 * mp \<le> 5 * doy + 2" "5 * doy + 2 < 153 * (mp + 1)"
    using assms(2) by (simp_all add: dividend_less_times_div)
  with assms(1) show ?thesis by linarith
qed

lemma four_year_part:
  fixes s e :: nat
  assumes "s < 1461" "e \<le> 1" "e = 1 \<Longrightarrow> 1364 \<le> s" "s = 1460 \<Longrightarrow> e = 1" "i = (s - e) div 365"
  shows "i \<le> 3" "365 * i \<le> s" "i < 3 \<Longrightarrow> s < 365 * (i + 1)"
proof -
  have "365 * i \<le> s - e" "s - e < 365 * (i + 1)"
    by (simp_all add: assms(5) div_less_iff_less_mult [symmetric] algebra_simps dividend_less_times_div)
  moreover have "e = 0 \<and> s < 1460 \<or> e = 1 \<and> 1364 \<le> s \<and> s < 1461"
    using assms(1-4) by linarith
  ultimately have "i \<le> 3 \<and> 365 * i \<le> s \<and> (i < 3 \<longrightarrow> s < 365 * (i + 1))"
    by (elim disjE conjE; intro conjI impI; simp)
  then show "i \<le> 3" "365 * i \<le> s" "i < 3 \<Longrightarrow> s < 365 * (i + 1)" by simp_all
qed

lemma year_of_era:
  fixes doe :: nat
  assumes "doe < 146097"
  defines "yoe \<equiv> (doe - doe div 1460 + doe div 36524 - doe div 146096) div 365"
  shows "yoe \<le> 399 \<and> march_days yoe \<le> doe \<and> doe < march_days (Suc yoe)"
proof (cases "doe = 146096")
  case True
  then show ?thesis by (simp add: yoe_def march_days_def)
next
  case False
  define c where "c = doe div 36524"
  define r where "r = doe mod 36524"
  define j where "j = r div 1461"
  define s where "s = r mod 1461"
  have c: "c \<le> 3" and r: "r < 36524" and doe: "doe = 36524 * c + r"
    using False assms(1) by (auto simp: c_def r_def)
  have j: "j \<le> 24" and s: "s < 1461" and rj: "r = 1461 * j + s"
    using r by (auto simp: j_def s_def)
  have last: "j = 24 \<Longrightarrow> s < 1460" using r rj by auto
  define e where "e = (24 * c + j + s) div 1460"
  have q: "doe div 1460 = 25 * c + j + e"
  proof -
    have "doe = 1460 * (25 * c + j) + (24 * c + j + s)" using doe rj by simp
    then show ?thesis by (simp add: e_def)
  qed
  have e: "e \<le> 1" "e = 1 \<Longrightarrow> 1364 \<le> s" "s = 1460 \<Longrightarrow> e = 1"
    using c j s by (auto simp: e_def)
  define i where "i = (s - e) div 365"
  note i = four_year_part [OF s e i_def]
  have yoe: "yoe = 100 * c + 4 * j + i"
  proof -
    have "doe div 146096 = 0" using False assms(1) by simp
    moreover have "e \<le> s" using e by (cases "e = 0") auto
    ultimately have "doe - doe div 1460 + doe div 36524 - doe div 146096 = 365 * (100 * c + 4 * j) + (s - e)"
      using doe rj unfolding q c_def [symmetric] by simp
    then show ?thesis by (simp add: yoe_def i_def)
  qed
  have y4: "yoe div 4 = 25 * c + j" and y100: "yoe div 100 = c" and y400: "yoe div 400 = 0"
    using c j i unfolding yoe by auto
  have lo: "march_days yoe = 365 * yoe + 24 * c + j"
    using march_days_add [of yoe] unfolding y4 y100 y400 by simp
  have "Suc yoe mod 100 = (4 * j + i + 1) mod 100" "Suc yoe mod 4 = (i + 1) mod 4"
    using mod_mult_self1 [of "4 * j + i + 1" c 100] mod_mult_self1 [of "i + 1" "25 * c + j" 4]
    unfolding yoe by (simp_all add: algebra_simps)
  moreover have "(4 * j + i + 1) mod 100 = 0 \<longleftrightarrow> j = 24 \<and> i = 3" "(i + 1) mod 4 = 0 \<longleftrightarrow> i = 3"
    using i(1) j by (auto simp: mod_eq_0_iff_dvd dest: dvd_imp_le)
  moreover have "doe < march_days yoe + (if i = 3 \<and> j \<noteq> 24 then 366 else 365)"
    using lo doe rj i s last unfolding yoe by (cases "i < 3") auto
  ultimately have "doe < march_days (Suc yoe)"
    by (auto simp: march_days_Suc leap_def split: if_splits)
  moreover have "march_days yoe \<le> doe"
    using lo doe rj i unfolding yoe by simp
  moreover have "yoe \<le> 399" using c j i yoe by simp
  ultimately show ?thesis by simp
qed

text \<open>The number of days from 1970-01-01 to a March 1, and the months around it.\<close>

lemma month_start_march:
  assumes "1970 \<le> y" "3 \<le> m" "m \<le> 12"
  shows "month_start y m + 719468 = march_days y + (153 * (m - 3) + 2) div 5"
proof -
  have y: "year_start (y - 1970) + 719162 + (if leap y then 366 else 365) = march_days y"
    using year_start_march [of "y - 1970"] march_days_Suc [of "y - 1"] assms(1) by (simp add: Suc_diff_Suc)
  then show ?thesis
    using days_before_march [OF assms(2,3), of y] by (cases "leap y") (simp_all add: month_start_def)
qed

lemma month_start_january:
  assumes "1970 \<le> y" "m = 1 \<or> m = 2"
  shows "month_start y m + 719468 = march_days (y - 1) + (153 * (m + 9) + 2) div 5"
  using year_start_march [of "y - 1970"] assms
  by (auto simp: month_start_def days_before_february)

text \<open>The March-based year and month that the code computes bracket the day \<open>z\<close>.\<close>

lemma civil_from_days:
  fixes z :: nat
  defines "doe \<equiv> z mod 146097"
  defines "yoe \<equiv> (doe - doe div 1460 + doe div 36524 - doe div 146096) div 365"
  defines "doy \<equiv> doe - (365 * yoe + yoe div 4 - yoe div 100)"
  defines "mp \<equiv> (5 * doy + 2) div 153"
  defines "Y \<equiv> 400 * (z div 146097) + yoe"
  shows "z = march_days Y + doy \<and> doy < (if leap (Suc Y) then 366 else 365) \<and> mp \<le> 11 \<and>
    (153 * mp + 2) div 5 \<le> doy \<and> doy < (153 * (mp + 1) + 2) div 5"
proof -
  have yoe: "yoe \<le> 399" "march_days yoe \<le> doe" "doe < march_days (Suc yoe)"
    using year_of_era [of doe] by (simp_all add: doe_def yoe_def)
  have "march_days yoe = 365 * yoe + yoe div 4 - yoe div 100"
    using yoe(1) by (simp add: march_days_def)
  then have doy: "doe = march_days yoe + doy" using yoe by (simp add: doy_def)
  have "z = 146097 * (z div 146097) + doe" by (simp add: doe_def)
  then have z: "z = march_days Y + doy"
    using doy march_days_era [of "z div 146097" yoe] by (simp add: Y_def)
  have "Suc Y = 400 * (z div 146097) + Suc yoe" by (simp add: Y_def)
  then have "march_days (Suc Y) = 146097 * (z div 146097) + march_days (Suc yoe)"
    by (simp only: march_days_era)
  then have "z < march_days (Suc Y)"
    using yoe(3) \<open>z = 146097 * (z div 146097) + doe\<close> by linarith
  with z have "doy < (if leap (Suc Y) then 366 else 365)"
    using march_days_Suc [of Y] by simp
  moreover from this have "doy < 366" by (simp split: if_splits)
  ultimately show ?thesis
    using month_of_year [of doy mp] z by (simp add: mp_def)
qed

definition in_month :: "nat \<Rightarrow> nat \<Rightarrow> nat \<Rightarrow> bool" where
  "in_month y m d \<longleftrightarrow> 1970 \<le> y \<and> 1 \<le> m \<and> m \<le> 12 \<and> month_start y m \<le> d \<and> d < month_start y m + month_len y m"

lemma march_month:
  assumes "d + 719468 = march_days Y + doy" "doy < (if leap (Suc Y) then 366 else 365)" "mp \<le> 11"
    "(153 * mp + 2) div 5 \<le> doy" "doy < (153 * (mp + 1) + 2) div 5"
  shows "in_month (if mp < 10 then Y else Suc Y) (if mp < 10 then mp + 3 else mp - 9) d"
proof -
  have mono: "march_days a \<le> march_days b" if "a \<le> b" for a b
    using that by (rule lift_Suc_mono_le [rotated]) (simp add: march_days_Suc)
  have "1969 \<le> Y"
  proof (rule ccontr)
    assume "\<not> 1969 \<le> Y"
    then have "march_days (Suc Y) \<le> march_days 1969" using mono [of "Suc Y" 1969] by simp
    moreover have "march_days 1969 = 719162" by (simp add: march_days_def)
    ultimately show False using assms(1,2) march_days_Suc [of Y] by simp
  qed
  show ?thesis
  proof (cases "mp < 10")
    case True
    have "Y \<noteq> 1969"
    proof
      assume "Y = 1969"
      then have "306 \<le> doy" using assms(1) by (simp add: march_days_def)
      with assms(5) True show False by simp
    qed
    with \<open>1969 \<le> Y\<close> have Y: "1970 \<le> Y" by simp
    have "month_start Y (mp + 3) + 719468 = march_days Y + (153 * mp + 2) div 5"
      using month_start_march [OF Y, of "mp + 3"] True by simp
    then show ?thesis
      using True Y assms month_len_march [OF True, of Y] unfolding in_month_def by simp
  next
    case False
    then have "mp = 10 \<or> mp = 11" using assms(3) by auto
    then have "month_start (Suc Y) (mp - 9) + 719468 = march_days Y + (153 * mp + 2) div 5"
      using month_start_january [of "Suc Y" "mp - 9"] \<open>1969 \<le> Y\<close> by auto
    with \<open>mp = 10 \<or> mp = 11\<close> \<open>1969 \<le> Y\<close> assms show ?thesis
      by (elim disjE; cases "leap (Suc Y)"; simp add: in_month_def month_len_def)
  qed
qed

section \<open>The date of a day\<close>

text \<open>
  The year, month and day of month of a day counted from 1970-01-01, as the code computes them with the
  year starting in March.
\<close>

definition civil :: "nat \<Rightarrow> nat \<times> nat \<times> nat" where
  "civil d =
     (let z = d + 719468; doe = z mod 146097;
          yoe = (doe - doe div 1460 + doe div 36524 - doe div 146096) div 365;
          doy = doe - (365 * yoe + yoe div 4 - yoe div 100);
          mp = (5 * doy + 2) div 153;
          m = (if mp < 10 then mp + 3 else mp - 9);
          y = 400 * (z div 146097) + yoe
      in (if m \<le> 2 then Suc y else y, m, doy - (153 * mp + 2) div 5 + 1))"

lemma march_of_month: "mp \<le> 11 \<Longrightarrow> (if mp < 10 then mp + 3 else mp - 9) \<le> (2::nat) \<longleftrightarrow> \<not> mp < 10"
  by auto

lemma march_month_start:
  assumes "in_month (if mp < 10 then Y else Suc Y) (if mp < 10 then mp + 3 else mp - 9) d" "mp \<le> 11"
  shows "month_start (if mp < 10 then Y else Suc Y) (if mp < 10 then mp + 3 else mp - 9) + 719468 =
    march_days Y + (153 * mp + 2) div 5"
proof (cases "mp < 10")
  case True
  with assms(1) month_start_march [of Y "mp + 3"] show ?thesis by (simp add: in_month_def)
next
  case False
  with assms(2) have "mp - 9 = 1 \<or> mp - 9 = 2" by linarith
  with False assms(1) month_start_january [of "Suc Y" "mp - 9"] show ?thesis by (auto simp: in_month_def)
qed

lemma civil_correct:
  assumes "civil d = (y, m, dd)"
  shows "in_month y m d" "month_start y m + dd = d + 1" "1 \<le> dd" "dd \<le> 31"
proof -
  define z where "z = d + 719468"
  define doe where "doe = z mod 146097"
  define yoe where "yoe = (doe - doe div 1460 + doe div 36524 - doe div 146096) div 365"
  define doy where "doy = doe - (365 * yoe + yoe div 4 - yoe div 100)"
  define mp where "mp = (5 * doy + 2) div 153"
  define Y where "Y = 400 * (z div 146097) + yoe"
  have civ: "z = march_days Y + doy" "doy < (if leap (Suc Y) then 366 else 365)" "mp \<le> 11"
    "(153 * mp + 2) div 5 \<le> doy" "doy < (153 * (mp + 1) + 2) div 5"
    using civil_from_days [of z] unfolding doe_def yoe_def doy_def mp_def Y_def by blast+
  have date: "y = (if mp < 10 then Y else Suc Y)" "m = (if mp < 10 then mp + 3 else mp - 9)"
    "dd = doy - (153 * mp + 2) div 5 + 1"
    using assms march_of_month [OF civ(3)]
    unfolding civil_def Let_def z_def [symmetric] doe_def [symmetric] yoe_def [symmetric] doy_def [symmetric]
      mp_def [symmetric] Y_def [symmetric] by (simp_all split: if_split_asm)
  show m: "in_month y m d"
    unfolding date by (rule march_month [OF _ civ(2-5)]) (simp add: civ(1) [symmetric] z_def)
  show day: "month_start y m + dd = d + 1"
    using march_month_start [OF m [unfolded date] civ(3)] civ(1,4) by (simp add: date z_def)
  have "month_len y m \<le> 31" by (simp add: month_len_def)
  with day m show "1 \<le> dd" "dd \<le> 31" by (simp_all add: in_month_def date(3))
qed

lemma year_start_mono: "a \<le> b \<Longrightarrow> year_start a \<le> year_start b"
  by (rule lift_Suc_mono_le [rotated]) simp_all

lemma days_before_bound: "m \<le> 12 \<Longrightarrow> days_before y m \<le> 366"
proof -
  have "days_before y m \<le> 31 * m" by (induction y m rule: days_before.induct) (auto simp: month_len_def)
  moreover assume "m \<le> 12"
  ultimately show ?thesis
    using days_before_march [of m y] by (cases "3 \<le> m") auto
qed

lemma civil_year_bound:
  assumes "civil d = (y, m, dd)" "d < year_start n"
  shows "y < 1970 + n"
proof (rule ccontr)
  assume "\<not> y < 1970 + n"
  then have "year_start n \<le> year_start (y - 1970)" by (simp add: year_start_mono)
  moreover have "year_start (y - 1970) \<le> d"
    using civil_correct(1) [OF assms(1)] by (simp add: in_month_def month_start_def)
  ultimately show False using assms(2) by simp
qed

lemma year_start_eq: "year_start n = march_days (1969 + n) - 719162"
  using year_start_march [of n] by simp

end
