(* ===== verification/Edge_Meter.thy ===== *)
theory Edge_Meter
  imports Edge_Frame Calendar
begin

text \<open>
  The egress meter of the edge tunnel (\<^verbatim>\<open>edge/src/meter.rs\<close>): the pause line at
  0.90 GiB, the operator override, the NIC counter that survives a reboot of the counter,
  and the UTC month a Unix timestamp falls in.
\<close>

section \<open>Meter\<close>

definition PAUSE_AT :: u64 where
  "PAUSE_AT = (9 * push_bit 30 1) div 10"

record meter =
  meter_tx :: u64
  override_on :: bool

definition new_meter :: "u64 \<Rightarrow> bool \<Rightarrow> meter" where
  "new_meter tx ov = \<lparr>meter_tx = tx, override_on = ov\<rparr>"

definition meter_state :: "meter \<Rightarrow> quota_state" where
  "meter_state m =
     (if override_on m then QuotaOverride
      else if meter_tx m \<ge> PAUSE_AT then PausedQuota
      else QuotaOpen)"

definition data_allowed :: "meter \<Rightarrow> bool" where
  "data_allowed m \<longleftrightarrow> override_on m \<or> meter_tx m < PAUSE_AT"

text \<open>Returns the new meter, and whether this write reached the pause line.\<close>

definition note_tx :: "meter \<Rightarrow> u64 \<Rightarrow> meter \<times> bool" where
  "note_tx m n =
     (let m' = m\<lparr>meter_tx := saturating_add (meter_tx m) n\<rparr> in (m', \<not> data_allowed m'))"

definition meter_roll_month :: "meter \<Rightarrow> meter" where
  "meter_roll_month m = m\<lparr>meter_tx := 0\<rparr>"

lemma PAUSE_AT_value: "PAUSE_AT = 966367641"
  by (simp add: PAUSE_AT_def)

lemma unat_PAUSE_AT: "unat PAUSE_AT = 966367641"
  by (simp add: PAUSE_AT_value)

lemma data_allowed_iff_state: "data_allowed m \<longleftrightarrow> meter_state m \<noteq> PausedQuota"
  by (auto simp: data_allowed_def meter_state_def)

lemma meter_tx_note [simp]: "meter_tx (fst (note_tx m n)) = saturating_add (meter_tx m) n"
  by (simp add: note_tx_def Let_def)

lemma override_note [simp]: "override_on (fst (note_tx m n)) = override_on m"
  by (simp add: note_tx_def Let_def)

lemma snd_note_tx: "snd (note_tx m n) \<longleftrightarrow> \<not> data_allowed (fst (note_tx m n))"
  by (simp add: note_tx_def Let_def)

lemma note_tx_mono: "unat (meter_tx m) \<le> unat (meter_tx (fst (note_tx m n)))"
proof -
  have "unat (meter_tx m) < 2 ^ 64"
    using unat_bound [of "meter_tx m"] by simp
  then show ?thesis by (auto simp: unat_saturating_add)
qed

lemma note_tx_paused: "\<not> data_allowed m \<Longrightarrow> \<not> data_allowed (fst (note_tx m n))"
  using note_tx_mono [of m n] by (auto simp: data_allowed_def word_less_nat_alt not_less)

lemma data_allowed_notes:
  "data_allowed (foldl (\<lambda>m n. fst (note_tx m n)) m ns) \<longleftrightarrow>
     override_on m \<or> unat (meter_tx m) + sum_list (map unat ns) < unat PAUSE_AT"
proof (induction ns arbitrary: m)
  case Nil
  then show ?case by (simp add: data_allowed_def word_less_nat_alt)
next
  case (Cons n ns)
  then show ?case
    by (auto simp: unat_saturating_add unat_PAUSE_AT)
qed

section \<open>NIC counter\<close>

record nic_counter =
  cumulative :: u64
  last_raw :: u64

definition new_nic_counter :: nic_counter where
  "new_nic_counter = \<lparr>cumulative = 0, last_raw = 0\<rparr>"

definition sample :: "nic_counter \<Rightarrow> u64 \<Rightarrow> nic_counter \<times> u64" where
  "sample c raw =
     (let cum = (if raw < last_raw c then saturating_add (cumulative c) raw
                 else saturating_add (cumulative c) (raw - last_raw c));
          c' = c\<lparr>cumulative := cum, last_raw := raw\<rparr>
      in (c', cumulative c'))"

definition nic_roll_month :: "nic_counter \<Rightarrow> nic_counter" where
  "nic_roll_month c = c\<lparr>cumulative := 0\<rparr>"

text \<open>
  The bytes really transmitted between samples: the difference while the raw counter grows,
  all of it after a reboot has reset it. The sum is taken over unbounded numbers.
\<close>

fun transmitted :: "nat \<Rightarrow> nat list \<Rightarrow> nat" where
  "transmitted prev [] = 0"
| "transmitted prev (raw # raws) = (if raw < prev then raw else raw - prev) + transmitted raw raws"

definition sample_all :: "nic_counter \<Rightarrow> u64 list \<Rightarrow> nic_counter" where
  "sample_all c raws = foldl (\<lambda>c raw. fst (sample c raw)) c raws"

lemma sample_all_Cons [simp]: "sample_all c (r # rs) = sample_all (fst (sample c r)) rs"
  by (simp add: sample_all_def)

lemma sample_all_Nil [simp]: "sample_all c [] = c"
  by (simp add: sample_all_def)

lemma last_raw_sample [simp]: "last_raw (fst (sample c raw)) = raw"
  by (simp add: sample_def Let_def)

lemma unat_cumulative_sample:
  "unat (cumulative (fst (sample c raw))) =
     min (unat (cumulative c) +
       (if unat raw < unat (last_raw c) then unat raw else unat raw - unat (last_raw c))) (2 ^ 64 - 1)"
  by (simp add: sample_def Let_def unat_saturating_add word_less_nat_alt unat_sub word_le_nat_alt)

section \<open>UTC month\<close>

text \<open>
  Days are counted from 0000-03-01 and split into 400-year eras, years of the era and days
  of the year. All intermediate values stay far below \<open>2 ^ 63\<close>, so the source's
  \<^verbatim>\<open>i64\<close> and \<^verbatim>\<open>u64\<close> are unbounded here; the final casts to \<^verbatim>\<open>u16\<close> and
  \<^verbatim>\<open>u8\<close> are kept.
\<close>

definition utc_year_month :: "u64 \<Rightarrow> u16 \<times> byte" where
  "utc_year_month unix_secs =
     (let z = int (unat unix_secs div 86400) + 719468;
          era = (if z \<ge> 0 then z else z - 146096) div 146097;
          doe = nat (z - era * 146097);
          yoe = (doe - doe div 1460 + doe div 36524 - doe div 146096) div 365;
          y = int yoe + era * 400;
          doy = doe - (365 * yoe + yoe div 4 - yoe div 100);
          mp = (5 * doy + 2) div 153;
          mon = (if mp < 10 then mp + 3 else mp - 9);
          yr = (if mon \<le> 2 then y + 1 else y)
      in (word_of_int yr, of_nat mon))"

text \<open>The code over natural numbers: the timestamp is never before the era's origin.\<close>

lemma utc_year_month_civil:
  "utc_year_month unix_secs = (case civil (unat unix_secs div 86400) of (y, m, _) \<Rightarrow> (of_nat y, of_nat m))"
proof -
  have z: "int (unat unix_secs div 86400) + 719468 = int (unat unix_secs div 86400 + 719468)"
    by simp
  have era: "int z div 146097 = int (z div 146097)" for z
    by (simp add: zdiv_int)
  have doe: "nat (int z - int (z div 146097) * 146097) = z mod 146097" for z
    by (simp add: modulo_nat_def nat_minus_as_int)
  have y: "(if c then int a + int b * 400 + 1 else int a + int b * 400) =
      int (if c then Suc (400 * b + a) else 400 * b + a)" for a b c
    by simp
  show ?thesis
    unfolding utc_year_month_def civil_def Let_def z
    by (simp only: of_nat_0_le_iff if_True era doe y of_int_of_nat_eq split_conv)
qed

lemma utc_year_month_in_month:
  assumes "unat unix_secs < 2 ^ 40"
  shows "in_month (unat (fst (utc_year_month unix_secs))) (unat (snd (utc_year_month unix_secs)))
    (unat unix_secs div 86400)"
proof -
  obtain y m dd where c: "civil (unat unix_secs div 86400) = (y, m, dd)" by (metis prod_cases3)
  note m = civil_correct(1) [OF c]
  have "unat unix_secs div 86400 < year_start 36000"
    using assms less_mult_imp_div_less [of "unat unix_secs" 12725830 86400]
    by (simp add: year_start_eq march_days_def)
  from civil_year_bound [OF c this] have "y < 65536" by simp
  moreover have "m < 256" using m by (simp add: in_month_def)
  ultimately show ?thesis using m by (simp add: utc_year_month_civil c unat_of_nat)
qed

section \<open>Properties\<close>

text \<open>After any sequence of writes the meter admits another DATA frame exactly when the override is
  on or the bytes counted so far, added up without wrap-around, are below the pause line.\<close>

theorem meter_admits_iff_below_line:
  "data_allowed (foldl (\<lambda>m n. fst (note_tx m n)) (new_meter tx ov) ns) \<longleftrightarrow>
     ov \<or> unat tx + sum_list (map unat ns) < unat PAUSE_AT"
  by (simp add: data_allowed_notes new_meter_def)

text \<open>The NIC counter's cumulative value is the number of bytes transmitted over any sequence of
  samples, reboots included, saturating at the largest 64-bit value.\<close>

theorem nic_counts_transmitted:
  "unat (cumulative (sample_all c raws)) =
     min (unat (cumulative c) + transmitted (unat (last_raw c)) (map unat raws)) (2 ^ 64 - 1)"
proof (induction raws arbitrary: c)
  case Nil
  then show ?case using unat_bound [of "cumulative c"] by simp
next
  case (Cons r rs)
  show ?case
    by (simp add: sample_all_Cons Cons.IH unat_cumulative_sample last_raw_sample list.map
        transmitted.simps)
qed

text \<open>The year and month computed from a Unix timestamp are the civil calendar's: the day of the
  timestamp lies within that month. Timestamps below \<open>2 ^ 40\<close> (until the year 36812) keep
  the year within 16 bits.\<close>

theorem utc_month_correct:
  assumes "unat unix_secs < 2 ^ 40"
  shows "in_month (unat (fst (utc_year_month unix_secs))) (unat (snd (utc_year_month unix_secs)))
    (unat unix_secs div 86400)"
  by (rule utc_year_month_in_month [OF assms])

lemma civil_example: "civil 20726 = (2026, 9, 30)"
proof -
  have "(20726 + 719468) mod 146097 = (9709 :: nat)"
    "(9709 - 9709 div 1460 + 9709 div 36524 - 9709 div 146096) div 365 = (26 :: nat)"
    "9709 - (365 * 26 + 26 div 4 - 26 div 100) = (213 :: nat)" by simp_all
  then show ?thesis unfolding civil_def Let_def by (simp only:) simp
qed

theorem utc_month_correct_witness:
  "utc_year_month 1790726400 = (2026, 9) \<and> in_month 2026 9 20726"
proof -
  have "utc_year_month 1790726400 = (2026, 9)"
    using civil_example by (simp add: utc_year_month_civil)
  then show ?thesis
    using utc_month_correct [of 1790726400] by simp
qed

end
