(* ===== verification/Edge_Session.thy ===== *)
theory Edge_Session
  imports Edge_Meter
begin

text \<open>
  Connection ids, the single control session and the liveness timers
  (\<^verbatim>\<open>edge/src/session.rs\<close>), and the fixed port map of \<^verbatim>\<open>edge/src/proxy.rs\<close>.
  A failing operation leaves its state unchanged, so it returns \<open>Err\<close> without a state.
  Durations are counted in nanoseconds.
\<close>

section \<open>Port map\<close>

definition loopback_for :: "u16 \<Rightarrow> u16 option" where
  "loopback_for port =
     map_option snd (find (\<lambda>(public, _). public = port) HELLO_PAIRS)"

definition wants_proxy :: "u16 \<Rightarrow> bool" where
  "wants_proxy port \<longleftrightarrow> port = 25 \<or> port = 465 \<or> port = 993"

lemma wants_proxy_loopback: "wants_proxy port \<Longrightarrow> loopback_for port \<noteq> None"
  by (auto simp: wants_proxy_def loopback_for_def HELLO_PAIRS_def)

section \<open>Connection ids\<close>

definition MAX_CONNS :: nat where
  "MAX_CONNS = 64"

record id_window =
  next_id :: u64
  open_ids :: "u64 set"

datatype admit = Opened | AtCap

definition new_ids :: id_window where
  "new_ids = \<lparr>next_id = 1, open_ids = {}\<rparr>"

definition open_count :: "id_window \<Rightarrow> nat" where
  "open_count w = card (open_ids w)"

definition alloc :: "id_window \<Rightarrow> (id_window \<times> u64, protocol_error) result" where
  "alloc w =
     (if card (open_ids w) \<ge> MAX_CONNS then Err Cap
      else
        let cid = next_id w in
        and_then (ok_or (checked_add (next_id w) 1) ConnExhausted) (\<lambda>n.
          Ok (w\<lparr>next_id := n, open_ids := insert cid (open_ids w)\<rparr>, cid)))"

definition admit_id :: "id_window \<Rightarrow> u64 \<Rightarrow> (id_window \<times> admit, protocol_error) result" where
  "admit_id w cid =
     (if cid \<noteq> next_id w then Err BadConn
      else
        and_then (ok_or (checked_add (next_id w) 1) ConnExhausted) (\<lambda>n.
          if card (open_ids w) \<ge> MAX_CONNS then Ok (w\<lparr>next_id := n\<rparr>, AtCap)
          else Ok (w\<lparr>next_id := n, open_ids := insert cid (open_ids w)\<rparr>, Opened)))"

definition require_open :: "id_window \<Rightarrow> u64 \<Rightarrow> (unit, protocol_error) result" where
  "require_open w cid = (if cid \<in> open_ids w then Ok () else Err BadConn)"

definition close_id :: "id_window \<Rightarrow> u64 \<Rightarrow> (id_window, protocol_error) result" where
  "close_id w cid =
     (if cid \<in> open_ids w then Ok (w\<lparr>open_ids := open_ids w - {cid}\<rparr>) else Err BadConn)"

subsection \<open>Invariant\<close>

text \<open>Every open id was handed out before, and at most \<open>MAX_CONNS\<close> are open.\<close>

definition ids_inv :: "id_window \<Rightarrow> bool" where
  "ids_inv w \<longleftrightarrow> 1 \<le> unat (next_id w) \<and> open_count w \<le> MAX_CONNS \<and>
     (\<forall>i \<in> open_ids w. 1 \<le> unat i \<and> unat i < unat (next_id w))"

lemma finite_words [simp]: "finite (A :: 'a::len word set)"
  by (rule finite_subset [OF subset_UNIV finite])

lemma ids_inv_new [simp]: "ids_inv new_ids"
  by (simp add: ids_inv_def new_ids_def open_count_def)

lemma unat_next: "checked_add n 1 = Some m \<Longrightarrow> unat m = Suc (unat n)" for n :: u64
  by (drule unat_checked_add) simp

lemma alloc_Ok_iff:
  "alloc w = Ok (w', i) \<longleftrightarrow> open_count w < MAX_CONNS \<and> i = next_id w \<and>
     (\<exists>n. checked_add (next_id w) 1 = Some n \<and>
       w' = w\<lparr>next_id := n, open_ids := insert (next_id w) (open_ids w)\<rparr>)"
  by (auto simp: alloc_def open_count_def Let_def result_iff)

lemma admit_Ok_iff:
  "admit_id w i = Ok (w', a) \<longleftrightarrow> i = next_id w \<and>
     (\<exists>n. checked_add (next_id w) 1 = Some n \<and>
       (if open_count w < MAX_CONNS
        then a = Opened \<and> w' = w\<lparr>next_id := n, open_ids := insert i (open_ids w)\<rparr>
        else a = AtCap \<and> w' = w\<lparr>next_id := n\<rparr>))"
  by (auto simp: admit_id_def open_count_def result_iff split: if_splits)

lemma close_Ok_iff:
  "close_id w i = Ok w' \<longleftrightarrow> i \<in> open_ids w \<and> w' = w\<lparr>open_ids := open_ids w - {i}\<rparr>"
  by (auto simp: close_id_def)

lemmas id_ops_Ok = alloc_Ok_iff admit_Ok_iff close_Ok_iff

lemma ids_inv_insert:
  assumes "ids_inv w" "open_count w < MAX_CONNS" "checked_add (next_id w) 1 = Some n"
  shows "ids_inv (w\<lparr>next_id := n, open_ids := insert (next_id w) (open_ids w)\<rparr>)"
  using assms unat_next [OF assms(3)] card_insert_le_m1 [of MAX_CONNS "open_ids w" "next_id w"]
  by (auto simp: ids_inv_def open_count_def MAX_CONNS_def less_Suc_eq)

lemma ids_inv_skip:
  assumes "ids_inv w" "checked_add (next_id w) 1 = Some n"
  shows "ids_inv (w\<lparr>next_id := n\<rparr>)"
  using assms unat_next [OF assms(2)] by (auto simp: ids_inv_def open_count_def less_Suc_eq)

lemma ids_inv_alloc: "ids_inv w \<Longrightarrow> alloc w = Ok (w', i) \<Longrightarrow> ids_inv w'"
  by (auto simp: alloc_Ok_iff intro: ids_inv_insert)

lemma ids_inv_admit: "ids_inv w \<Longrightarrow> admit_id w i = Ok (w', a) \<Longrightarrow> ids_inv w'"
  by (auto simp: admit_Ok_iff intro: ids_inv_insert ids_inv_skip split: if_splits)

lemma ids_inv_close: "ids_inv w \<Longrightarrow> close_id w i = Ok w' \<Longrightarrow> ids_inv w'"
  using card_Diff1_le [of "open_ids w" i]
  by (auto simp: close_Ok_iff ids_inv_def open_count_def)

subsection \<open>Histories of a window\<close>

datatype id_op = OpAlloc | OpAdmit u64 | OpClose u64

text \<open>One call: the new window, and the id it opened, if any. An error keeps the window.\<close>

fun id_step :: "id_window \<Rightarrow> id_op \<Rightarrow> id_window \<times> u64 list" where
  "id_step w OpAlloc = (case alloc w of Ok (w', i) \<Rightarrow> (w', [i]) | _ \<Rightarrow> (w, []))"
| "id_step w (OpAdmit i) =
     (case admit_id w i of Ok (w', Opened) \<Rightarrow> (w', [i]) | Ok (w', AtCap) \<Rightarrow> (w', []) | _ \<Rightarrow> (w, []))"
| "id_step w (OpClose i) = (case close_id w i of Ok w' \<Rightarrow> (w', []) | _ \<Rightarrow> (w, []))"

fun id_run :: "id_window \<Rightarrow> id_op list \<Rightarrow> id_window \<times> u64 list" where
  "id_run w [] = (w, [])"
| "id_run w (x # xs) =
     (let (w', ids) = id_step w x; (w'', js) = id_run w' xs in (w'', ids @ js))"

lemma id_step_inv: "ids_inv w \<Longrightarrow> ids_inv (fst (id_step w x))"
  by (cases x) (auto split: result.splits admit.splits prod.splits
      intro: ids_inv_alloc ids_inv_admit ids_inv_close)

lemma id_step_fresh:
  assumes "id_step w x = (w', ids)"
  shows "unat (next_id w) \<le> unat (next_id w') \<and>
    (ids = [] \<or> ids = [next_id w] \<and> unat (next_id w) < unat (next_id w')) \<and>
    open_ids w' \<subseteq> open_ids w \<union> set ids"
  using assms
  by (cases x) (auto split: result.splits admit.splits prod.splits if_splits
      simp: id_ops_Ok dest!: unat_next)

lemma id_run_fresh:
  "ids_inv w \<Longrightarrow> id_run w xs = (w', ids) \<Longrightarrow>
    ids_inv w' \<and> sorted_wrt (<) (map unat ids) \<and> (\<forall>i \<in> set ids. unat (next_id w) \<le> unat i) \<and>
    open_ids w' \<subseteq> open_ids w \<union> set ids"
proof (induction xs arbitrary: w ids)
  case Nil
  then show ?case by simp
next
  case (Cons x xs)
  obtain v js where step: "id_step w x = (v, js)" by fastforce
  obtain ks where rest: "id_run v xs = (w', ks)" and ids: "ids = js @ ks"
    using Cons.prems(2) step by (auto split: prod.splits)
  have v: "ids_inv v" using id_step_inv [OF Cons.prems(1), of x] step by simp
  show ?case
    using Cons.IH [OF v rest] id_step_fresh [OF step] unfolding ids
    by (auto simp: sorted_wrt_append)
qed

section \<open>HELLO and session generations\<close>

record hello_once =
  seen :: bool

definition new_hello :: hello_once where
  "new_hello = \<lparr>seen = False\<rparr>"

definition observe :: "hello_once \<Rightarrow> (hello_once, protocol_error) result" where
  "observe h = (if seen h then Err SecondHello else Ok (h\<lparr>seen := True\<rparr>))"

record session_gate =
  current :: u64

definition new_gate :: session_gate where
  "new_gate = \<lparr>current = 0\<rparr>"

definition gate_admit :: "session_gate \<Rightarrow> session_gate \<times> u64 \<times> u64 option" where
  "gate_admit g =
     (let prev = (if current g \<noteq> 0 then Some (current g) else None);
          g' = g\<lparr>current := current g + 1\<rparr>
      in (g', current g', prev))"

definition is_current :: "session_gate \<Rightarrow> u64 \<Rightarrow> bool" where
  "is_current g generation \<longleftrightarrow> current g = generation"

lemma observe_twice: "observe h = Ok h' \<Longrightarrow> observe h' = Err SecondHello"
  by (auto simp: observe_def split: if_splits)

text \<open>The generations handed out to \<open>n\<close> control connections in a row.\<close>

fun gate_admits :: "session_gate \<Rightarrow> nat \<Rightarrow> session_gate \<times> u64 list" where
  "gate_admits g 0 = (g, [])"
| "gate_admits g (Suc n) =
     (let (g', gen, _) = gate_admit g; (g'', gens) = gate_admits g' n in (g'', gen # gens))"

lemma gate_admits_gens:
  "gate_admits g n = (\<lparr>current = current g + of_nat n\<rparr>, map (\<lambda>k. current g + of_nat (Suc k)) [0..<n])"
proof (induction n arbitrary: g)
  case 0
  then show ?case by simp
next
  case (Suc n)
  show ?case
    unfolding map_upt_Suc by (simp add: gate_admit_def Let_def Suc.IH add_ac)
qed

section \<open>Timers\<close>

type_synonym duration = nat

definition from_secs :: "nat \<Rightarrow> duration" where
  "from_secs s = s * 1000000000"

definition from_millis :: "nat \<Rightarrow> duration" where
  "from_millis ms = ms * 1000000"

definition PING_INTERVAL :: duration where
  "PING_INTERVAL = from_secs 15"

definition PONG_TIMEOUT :: duration where
  "PONG_TIMEOUT = from_secs 45"

definition reconnect_delay :: "u32 \<Rightarrow> duration \<Rightarrow> duration" where
  "reconnect_delay attempt jitter =
     (let base = (if attempt = 0 then 1 else if attempt = 1 then 2 else if attempt = 2 then 4
                  else if attempt = 3 then 8 else if attempt = 4 then 16 else 30)
      in from_secs base + min jitter (from_secs 1))"

definition ping_interval :: "duration \<Rightarrow> duration" where
  "ping_interval jitter = PING_INTERVAL + min jitter (from_secs 2)"

definition tunnel_dead :: "duration \<Rightarrow> bool" where
  "tunnel_dead since_pong \<longleftrightarrow> since_pong \<ge> PONG_TIMEOUT"

lemmas timer_defs = from_secs_def from_millis_def PING_INTERVAL_def PONG_TIMEOUT_def
  reconnect_delay_def ping_interval_def tunnel_dead_def

text \<open>The delay stays within 1 and 31 seconds, and two PINGs fit in the PONG timeout.\<close>

lemma reconnect_delay_bounds:
  "from_secs 1 \<le> reconnect_delay a j" "reconnect_delay a j \<le> from_secs 31"
  by (simp_all add: timer_defs Let_def min_def)

lemma two_pings_before_timeout: "\<not> tunnel_dead (2 * ping_interval j)"
  by (simp add: timer_defs min_def)

section \<open>Properties\<close>

text \<open>Over any sequence of \<open>alloc\<close>, \<open>admit\<close> and \<open>close\<close> calls on a new window, failing
  calls included, the ids opened are strictly increasing from 1 (so none is reused), at most 64 are
  open at the end, and each of those was opened.\<close>

theorem ids_fresh_and_capped:
  "case id_run new_ids xs of (w, ids) \<Rightarrow>
     sorted_wrt (<) (map unat ids) \<and> (\<forall>i \<in> set ids. 1 \<le> unat i) \<and>
     open_ids w \<subseteq> set ids \<and> open_count w \<le> 64"
proof (cases "id_run new_ids xs")
  case (Pair w ids)
  then show ?thesis
    using id_run_fresh [OF ids_inv_new Pair] by (auto simp: new_ids_def ids_inv_def MAX_CONNS_def)
qed

theorem ids_fresh_and_capped_witness:
  "id_run new_ids [OpAlloc, OpAlloc, OpClose 1, OpClose 1, OpAlloc] =
     (\<lparr>next_id = 4, open_ids = {2, 3}\<rparr>, [1, 2, 3]) \<and>
   sorted_wrt (<) (map unat [1, 2, 3 :: u64])"
proof -
  have "id_run new_ids [OpAlloc, OpAlloc, OpClose 1, OpClose 1, OpAlloc] =
     (\<lparr>next_id = 4, open_ids = {2, 3}\<rparr>, [1, 2, 3])"
    by (auto simp: new_ids_def alloc_def close_id_def MAX_CONNS_def Let_def checked_add_def)
  then show ?thesis
    using ids_fresh_and_capped [of "[OpAlloc, OpAlloc, OpClose 1, OpClose 1, OpAlloc]"] by simp
qed

text \<open>Of \<open>n\<close> control connections admitted in a row, fewer than \<open>2 ^ 64\<close>, exactly the last one
  is current.\<close>

theorem gate_only_last_current:
  assumes "n < 2 ^ 64" "0 < n" "gate_admits new_gate n = (g, gens)" "k < n"
  shows "is_current g (gens ! k) \<longleftrightarrow> k = n - 1"
proof -
  have gens: "gens = map (\<lambda>k. of_nat (Suc k)) [0..<n]" and "current g = of_nat n"
    using assms(3) by (auto simp: gate_admits_gens new_gate_def)
  moreover have "gens ! k = of_nat (Suc k)"
    unfolding gens using assms(4) by (subst nth_map) auto
  moreover have "unat (of_nat (Suc k) :: u64) = Suc k" "unat (of_nat n :: u64) = n"
    using assms(1,4) by (simp_all add: unat_of_nat del: of_nat_Suc)
  ultimately show ?thesis
    using assms(2) by (auto simp: is_current_def word_unat_eq_iff simp del: of_nat_Suc)
qed

theorem gate_only_last_current_witness:
  "gate_admits new_gate 2 = (\<lparr>current = 2\<rparr>, [1, 2]) \<and> \<not> is_current \<lparr>current = 2\<rparr> 1"
proof -
  have run: "gate_admits new_gate 2 = (\<lparr>current = 2\<rparr>, [1, 2])"
    by (simp add: gate_admits_gens new_gate_def upt_rec)
  show ?thesis
    using gate_only_last_current [OF _ _ run, of 0] run by simp
qed

end
