(* ===== verification/Edge_Relay.thy ===== *)
theory Edge_Relay
  imports Edge_Session
begin

text \<open>
  The relay of the edge tunnel (\<^verbatim>\<open>edge/src/relay.rs\<close>). The VM accepts public
  connections, the Mac dials the mail server, and one control connection carries the frames of
  both. Each thread of the program is a set of steps: the reader handles one frame at a time,
  the accept loop one \<^verbatim>\<open>accept\<close>, an uplink first checks its flags and then handles what
  a blocking read returned, so that other threads run between the check and the read.
  Everything the operating system decides (whether a write, a clone, a bind or a dial
  succeeds, the clock, the iteration order of a \<^verbatim>\<open>HashMap\<close>) is in \<open>io_env\<close>, an argument
  of every step.
\<close>

section \<open>Errors, sockets and the environment\<close>

datatype edge_error = Protocol protocol_error | Io | InvalidInput string

type_synonym stream = nat

record io_env =
  ctrl_ok :: "frame \<Rightarrow> bool"
  sock_ok :: bool
  clone_ok :: bool
  bind_ok :: bool
  dial :: "u16 \<Rightarrow> stream option"
  nodelay_ok :: bool
  clock_ms :: u64
  clock_secs :: u64
  key_order :: "u64 set \<Rightarrow> u64 list"

text \<open>The keys of a map are listed in some order, each once.\<close>

definition lists_keys :: "io_env \<Rightarrow> bool" where
  "lists_keys io \<longleftrightarrow> (\<forall>S. set (key_order io S) = S \<and> distinct (key_order io S))"

datatype read_result = ReadEof | ReadBytes bytes | ReadErr

datatype uplink_pc = AtCheck | AtRead

text \<open>\<^verbatim>\<open>Ctrl::send\<close>: encode, then write the whole frame to the control socket.\<close>

definition ctrl_send ::
  "io_env \<Rightarrow> frame \<Rightarrow> frame list \<Rightarrow> (unit, edge_error) result \<times> frame list" where
  "ctrl_send io f out =
     (case encode f of
        Ok bs \<Rightarrow> if ctrl_ok io f then (Ok (), out @ [f]) else (Err Io, out)
      | Err e \<Rightarrow> (Err (Protocol e), out)
      | Panic \<Rightarrow> (Panic, out))"

section \<open>State of a VM session\<close>

text \<open>
  \<open>Shared\<close> and the local variables of \<^verbatim>\<open>vm_session\<close>. The closed flag of a connection
  is one \<^verbatim>\<open>AtomicBool\<close> shared by its \<^verbatim>\<open>LiveSock\<close> and its uplink; it is kept under
  the connection id, which is used once. \<open>to_mac\<close> is what was written to the control socket
  and not read yet, \<open>delivered\<close> what was written to public sockets, \<open>shut\<close> the sockets shut
  down.
\<close>

record vm_opts =
  opt_public :: stream
  advertise_port :: u16
  opt_tx_bytes :: u64
  quota_override :: bool

record vm =
  ids :: id_window
  waiting :: "u64 \<Rightarrow> stream option"
  writers :: "u64 \<Rightarrow> stream option"
  closed :: "u64 \<Rightarrow> bool"
  quota :: meter
  stop :: bool
  last_pong :: u64
  uplinks :: "u64 \<Rightarrow> (stream \<times> uplink_pc) option"
  accepting :: bool
  hello :: hello_once
  forwarding :: bool
  to_mac :: "frame list"
  ctrl_down :: bool
  delivered :: "(stream \<times> bytes) list"
  shut :: "stream list"
  lines :: "string list"

definition vm_session_start :: "vm_opts \<Rightarrow> io_env \<Rightarrow> vm" where
  "vm_session_start opts io =
     \<lparr>ids = new_ids, waiting = (\<lambda>_. None), writers = (\<lambda>_. None), closed = (\<lambda>_. False),
      quota = new_meter (opt_tx_bytes opts) (quota_override opts), stop = False,
      last_pong = clock_ms io, uplinks = (\<lambda>_. None), accepting = False,
      hello = new_hello, forwarding = False, to_mac = [], ctrl_down = False, delivered = [],
      shut = [], lines = []\<rparr>"

definition vm_send :: "io_env \<Rightarrow> frame \<Rightarrow> vm \<Rightarrow> (unit, edge_error) result \<times> vm" where
  "vm_send io f v =
     (let (r, out) = ctrl_send io f (to_mac v) in (r, v\<lparr>to_mac := out\<rparr>))"

section \<open>VM handlers\<close>

definition retire :: "io_env \<Rightarrow> u64 \<Rightarrow> bool \<Rightarrow> vm \<Rightarrow> (unit, edge_error) result \<times> vm" where
  "retire io cid send_close v =
     (case close_id (ids v) cid of
        Ok w \<Rightarrow>
          let v1 = v\<lparr>ids := w\<rparr>;
              (r, v2) =
                (case writers v1 cid of
                   None \<Rightarrow> (Ok (), v1)
                 | Some sock \<Rightarrow>
                     let first = (\<not> closed v1 cid);
                         v2 = v1\<lparr>writers := (writers v1)(cid := None),
                                closed := (closed v1)(cid := True), shut := shut v1 @ [sock]\<rparr>
                     in if send_close \<and> first then vm_send io (Close cid LocalClose) v2
                        else (Ok (), v2))
          in (case r of
                Ok _ \<Rightarrow> (Ok (), v2\<lparr>waiting := (waiting v2)(cid := None)\<rparr>)
              | _ \<Rightarrow> (r, v2))
      | Err e \<Rightarrow> (Err (Protocol e), v)
      | Panic \<Rightarrow> (Panic, v))"

definition pause :: "io_env \<Rightarrow> vm \<Rightarrow> vm" where
  "pause io v =
     (if stop v then v
      else
        let v1 = v\<lparr>stop := True\<rparr>;
            v2 = foldl (\<lambda>v k. snd (retire io k True v)) v1 (key_order io (dom (writers v1)));
            v3 = snd (vm_send io (Quota (meter_tx (quota v2)) (meter_state (quota v2))) v2)
        in v3\<lparr>lines := lines v3 @ [''paused'']\<rparr>)"

definition start_uplink :: "io_env \<Rightarrow> u64 \<Rightarrow> stream \<Rightarrow> vm \<Rightarrow> vm" where
  "start_uplink io cid stream v =
     (if clone_ok io then
        v\<lparr>closed := (closed v)(cid := False), writers := (writers v)(cid := Some stream),
          uplinks := (uplinks v)(cid := Some (stream, AtCheck))\<rparr>
      else v)"

definition answer_hello ::
  "io_env \<Rightarrow> vm_opts \<Rightarrow> vm \<Rightarrow> (bool, edge_error) result \<times> vm" where
  "answer_hello io opts v =
     (let tx = meter_tx (quota v); st = meter_state (quota v);
          (y, mon) = utc_year_month (clock_secs io);
          (r, v1) = vm_send io (HelloOk tx st y mon) v
      in case r of
           Ok _ \<Rightarrow>
             if \<not> data_allowed (quota v1) then
               (let v2 = v1\<lparr>lines := lines v1 @ [''paused'']\<rparr>;
                    (r', v3) = vm_send io (Quota tx st) v2
                in (case r' of Ok _ \<Rightarrow> Ok False | Err e \<Rightarrow> Err e | Panic \<Rightarrow> Panic, v3))
             else if bind_ok io then
               (Ok True, v1\<lparr>lines := lines v1 @ [''forwarding''], accepting := True\<rparr>)
             else (Err Io, v1)
         | Err e \<Rightarrow> (Err e, v1)
         | Panic \<Rightarrow> (Panic, v1))"

definition on_vm_frame ::
  "io_env \<Rightarrow> frame \<Rightarrow> vm \<Rightarrow> (unit, edge_error) result \<times> vm" where
  "on_vm_frame io frame v =
     (case frame of
        Hello \<Rightarrow>
          (case observe (hello v) of
             Ok h \<Rightarrow> (Ok (), v\<lparr>hello := h\<rparr>)
           | Err e \<Rightarrow> (Err (Protocol e), v)
           | Panic \<Rightarrow> (Panic, v))
      | Ping ms \<Rightarrow> vm_send io (Pong ms) v
      | Pong _ \<Rightarrow> (Ok (), v\<lparr>last_pong := clock_ms io\<rparr>)
      | OpenOk cid \<Rightarrow>
          (case require_open (ids v) cid of
             Ok _ \<Rightarrow>
               (case waiting v cid of
                  None \<Rightarrow> (Err (Protocol BadConn), v)
                | Some stream \<Rightarrow>
                    (Ok (), start_uplink io cid stream (v\<lparr>waiting := (waiting v)(cid := None)\<rparr>)))
           | Err e \<Rightarrow> (Err (Protocol e), v)
           | Panic \<Rightarrow> (Panic, v))
      | OpenFail cid _ \<Rightarrow>
          (case close_id (ids v) cid of
             Ok w \<Rightarrow> (Ok (), v\<lparr>ids := w, waiting := (waiting v)(cid := None)\<rparr>)
           | Err e \<Rightarrow> (Err (Protocol e), v)
           | Panic \<Rightarrow> (Panic, v))
      | Data cid pl \<Rightarrow>
          if \<not> data_allowed (quota v) then (Ok (), pause io v)
          else
            (case require_open (ids v) cid of
               Ok _ \<Rightarrow>
                 (case writers v cid of
                    None \<Rightarrow> (Err (Protocol BadConn), v)
                  | Some sock \<Rightarrow>
                      if sock_ok io then
                        let (q, reached) = note_tx (quota v) (of_nat (length pl));
                            v1 = v\<lparr>delivered := delivered v @ [(sock, pl)], quota := q\<rparr>
                        in (Ok (), if reached then pause io v1 else v1)
                      else (Err Io, v))
             | Err e \<Rightarrow> (Err (Protocol e), v)
             | Panic \<Rightarrow> (Panic, v))
      | Close cid _ \<Rightarrow> retire io cid False v
      | HelloOk _ _ _ _ \<Rightarrow> (Err (Protocol UnknownType), v)
      | Open _ _ _ _ \<Rightarrow> (Err (Protocol UnknownType), v)
      | Quota _ _ \<Rightarrow> (Err (Protocol UnknownType), v))"

text \<open>One frame of the reader loop of \<^verbatim>\<open>vm_session\<close>: \<open>HELLO\<close> before forwarding is answered.\<close>

definition vm_session_frame ::
  "io_env \<Rightarrow> vm_opts \<Rightarrow> frame \<Rightarrow> vm \<Rightarrow> (unit, edge_error) result \<times> vm" where
  "vm_session_frame io opts frame v =
     (if frame = Hello \<and> \<not> forwarding v then
        (case observe (hello v) of
           Ok h \<Rightarrow>
             (case answer_hello io opts (v\<lparr>hello := h\<rparr>) of
                (Ok fwd, v1) \<Rightarrow> (Ok (), v1\<lparr>forwarding := fwd\<rparr>)
              | (Err e, v1) \<Rightarrow> (Err e, v1)
              | (Panic, v1) \<Rightarrow> (Panic, v1))
         | Err e \<Rightarrow> (Err (Protocol e), v)
         | Panic \<Rightarrow> (Panic, v))
      else on_vm_frame io frame v)"

text \<open>
  The frames of one read, with the generation check before each; a session that is no longer
  current ends without handling the rest. The boolean tells whether the session goes on.
\<close>

fun vm_session_frames ::
  "io_env \<Rightarrow> vm_opts \<Rightarrow> session_gate \<Rightarrow> u64 \<Rightarrow> frame list \<Rightarrow> vm \<Rightarrow>
    (bool, edge_error) result \<times> vm" where
  "vm_session_frames io opts g generation [] v = (Ok True, v)"
| "vm_session_frames io opts g generation (f # fs) v =
     (if \<not> is_current g generation then (Ok False, v\<lparr>stop := True\<rparr>)
      else case vm_session_frame io opts f v of
             (Ok _, v1) \<Rightarrow> vm_session_frames io opts g generation fs v1
           | (Err e, v1) \<Rightarrow> (Err e, v1)
           | (Panic, v1) \<Rightarrow> (Panic, v1))"

text \<open>One turn of the reader loop.\<close>

definition vm_session_turn ::
  "io_env \<Rightarrow> vm_opts \<Rightarrow> session_gate \<Rightarrow> u64 \<Rightarrow> read_result \<Rightarrow> decoder \<times> vm \<Rightarrow>
    (bool, edge_error) result \<times> decoder \<times> vm" where
  "vm_session_turn io opts g generation rd dv =
     (case dv of (d, v) \<Rightarrow>
        if \<not> is_current g generation \<or> stop v then (Ok False, d, v\<lparr>stop := True\<rparr>)
        else case rd of
               ReadEof \<Rightarrow> (Ok False, d, v\<lparr>stop := True\<rparr>)
             | ReadErr \<Rightarrow> (Err Io, d, v)
             | ReadBytes bs \<Rightarrow>
                 (case push d bs of
                    (d', Ok fs) \<Rightarrow>
                      (let (r, v') = vm_session_frames io opts g generation fs v in (r, d', v'))
                  | (d', Err e) \<Rightarrow> (Err (Protocol e), d', v)
                  | (d', Panic) \<Rightarrow> (Panic, d', v)))"

section \<open>VM accept loop and uplinks\<close>

text \<open>
  What \<^verbatim>\<open>listener.accept\<close> returns: a socket with whether its options could be set and its
  peer if that is IPv4, no pending connection, or an error.
\<close>

datatype accept_result =
    Accepted stream bool "(ipv4 \<times> u16) option"
  | WouldBlock
  | AcceptErr

definition accept_turn :: "io_env \<Rightarrow> u16 \<Rightarrow> accept_result \<Rightarrow> vm \<Rightarrow> vm" where
  "accept_turn io port a v =
     (if \<not> accepting v then v
      else if stop v \<or> \<not> data_allowed (quota v) then v\<lparr>accepting := False\<rparr>
      else case a of
             Accepted stream opts_ok peer \<Rightarrow>
               if \<not> opts_ok then v
               else (case peer of
                  None \<Rightarrow> v
                | Some (ip, src) \<Rightarrow>
                    (case alloc (ids v) of
                       Ok (w, cid) \<Rightarrow>
                         let v1 = v\<lparr>ids := w, waiting := (waiting v)(cid := Some stream)\<rparr>;
                             (r, v2) = vm_send io (Open cid port src ip) v1
                         in if is_ok r then v2 else v2\<lparr>accepting := False\<rparr>
                     | Err e \<Rightarrow> if e = Cap then v else v\<lparr>accepting := False\<rparr>
                     | Panic \<Rightarrow> v\<lparr>accepting := False\<rparr>))
           | WouldBlock \<Rightarrow> v
           | AcceptErr \<Rightarrow> v\<lparr>accepting := False\<rparr>)"

text \<open>An uplink at the top of its loop: it ends, or goes on to the blocking read.\<close>

definition uplink_check :: "u64 \<Rightarrow> vm \<Rightarrow> vm" where
  "uplink_check cid v =
     (case uplinks v cid of
        Some (stream, AtCheck) \<Rightarrow>
          if stop v \<or> closed v cid \<or> \<not> data_allowed (quota v)
          then v\<lparr>uplinks := (uplinks v)(cid := None)\<rparr>
          else v\<lparr>uplinks := (uplinks v)(cid := Some (stream, AtRead))\<rparr>
      | _ \<Rightarrow> v)"

text \<open>The end of a connection on the public side, \<^verbatim>\<open>Ok(0)\<close> or \<^verbatim>\<open>Err\<close>.\<close>

definition uplink_end :: "io_env \<Rightarrow> u64 \<Rightarrow> close_reason \<Rightarrow> vm \<Rightarrow> vm" where
  "uplink_end io cid reason v =
     (if closed v cid then v
      else
        let v1 = v\<lparr>closed := (closed v)(cid := True)\<rparr>;
            v2 = (case close_id (ids v1) cid of Ok w \<Rightarrow> v1\<lparr>ids := w\<rparr> | _ \<Rightarrow> v1)
        in snd (vm_send io (Close cid reason) v2))"

text \<open>What the blocking read returned; the buffer holds at most 16384 bytes.\<close>

definition uplink_read :: "io_env \<Rightarrow> u64 \<Rightarrow> read_result \<Rightarrow> vm \<Rightarrow> vm" where
  "uplink_read io cid rd v =
     (case uplinks v cid of
        Some (stream, AtRead) \<Rightarrow>
          let done = (\<lambda>v. v\<lparr>uplinks := (uplinks v)(cid := None)\<rparr>) in
          (case rd of
             ReadEof \<Rightarrow> done (uplink_end io cid Eof v)
           | ReadErr \<Rightarrow> done (uplink_end io cid Reset v)
           | ReadBytes bs \<Rightarrow>
               (case vm_send io (Data cid bs) v of
                  (Ok _, v1) \<Rightarrow>
                    let (q, reached) = note_tx (quota v1) (of_nat (length bs));
                        v2 = v1\<lparr>quota := q\<rparr>
                    in if reached then done (pause io v2)
                       else v2\<lparr>uplinks := (uplinks v2)(cid := Some (stream, AtCheck))\<rparr>
                | (_, v1) \<Rightarrow> done v1))
      | _ \<Rightarrow> v)"

text \<open>The ping thread after its sleep; \<open>True\<close> while it goes on.\<close>

definition ping_turn :: "io_env \<Rightarrow> vm \<Rightarrow> bool \<times> vm" where
  "ping_turn io v =
     (if stop v then (False, v)
      else
        let idle = saturating_sub (clock_ms io) (last_pong v) in
        if tunnel_dead (from_millis (unat idle)) then (False, v\<lparr>stop := True, ctrl_down := True\<rparr>)
        else (let (r, v1) = vm_send io (Ping (clock_ms io)) v in (is_ok r, v1)))"

section \<open>VM server\<close>

text \<open>
  \<^verbatim>\<open>serve_vm\<close>: the advertised port must be in the port map; then every control connection gets
  a generation and the previous one is shut down.
\<close>

definition serve_vm_start :: "vm_opts \<Rightarrow> (session_gate, edge_error) result" where
  "serve_vm_start opts =
     (if loopback_for (advertise_port opts) = None
      then Err (InvalidInput ''advertise-port is not one of 25, 465, 993, 80, 443'')
      else Ok new_gate)"

record vm_server =
  gate :: session_gate
  previous :: "u64 option"
  shut_down :: "u64 list"

definition serve_vm_accept :: "vm_server \<Rightarrow> u64 \<times> vm_server" where
  "serve_vm_accept s =
     (let (g, generation, _) = gate_admit (gate s);
          s1 = s\<lparr>gate := g\<rparr>;
          s2 = (case previous s1 of
                  Some prev \<Rightarrow> s1\<lparr>shut_down := shut_down s1 @ [prev]\<rparr>
                | None \<Rightarrow> s1)
      in (generation, s2\<lparr>previous := Some generation\<rparr>))"

section \<open>State of the Mac side\<close>

record mac =
  mac_ids :: id_window
  mac_writers :: "u64 \<Rightarrow> stream option"
  mac_closed :: "u64 \<Rightarrow> bool"
  mac_stop :: bool
  mac_last_pong :: u64
  mac_uplinks :: "u64 \<Rightarrow> (stream \<times> uplink_pc) option"
  to_vm :: "frame list"
  mac_ctrl_down :: bool
  mac_delivered :: "(stream \<times> bytes) list"
  mac_shut :: "stream list"
  mac_lines :: "string list"

definition mac_send :: "io_env \<Rightarrow> frame \<Rightarrow> mac \<Rightarrow> (unit, edge_error) result \<times> mac" where
  "mac_send io f m =
     (let (r, out) = ctrl_send io f (to_vm m) in (r, m\<lparr>to_vm := out\<rparr>))"

definition serve_mac_start :: "io_env \<Rightarrow> (unit, edge_error) result \<times> mac" where
  "serve_mac_start io =
     mac_send io Hello
       \<lparr>mac_ids = new_ids, mac_writers = (\<lambda>_. None), mac_closed = (\<lambda>_. False), mac_stop = False,
        mac_last_pong = clock_ms io, mac_uplinks = (\<lambda>_. None), to_vm = [], mac_ctrl_down = False,
        mac_delivered = [], mac_shut = [], mac_lines = []\<rparr>"

text \<open>
  \<^verbatim>\<open>encode_proxy_v2\<close> on top of the \<^verbatim>\<open>proxy_header\<close> crate, whose encoder is the
  argument \<open>encode_to_slice_v2\<close>: the header bytes, or nothing when they do not fit.
\<close>

type_synonym proxy_encoder = "ipv4 \<times> u16 \<Rightarrow> ipv4 \<times> u16 \<Rightarrow> bytes option"

definition encode_proxy_v2 ::
  "proxy_encoder \<Rightarrow> ipv4 \<times> u16 \<Rightarrow> ipv4 \<times> u16 \<Rightarrow> (bytes, protocol_error) result" where
  "encode_proxy_v2 encode_to_slice_v2 source destination =
     ok_or (encode_to_slice_v2 source destination) Proxy"

section \<open>Mac handlers\<close>

text \<open>Refuse an admitted id: close it again and say why.\<close>

definition mac_refuse ::
  "io_env \<Rightarrow> u64 \<Rightarrow> open_fail_reason \<Rightarrow> mac \<Rightarrow> (unit, edge_error) result \<times> mac" where
  "mac_refuse io cid reason m =
     (case close_id (mac_ids m) cid of
        Ok w \<Rightarrow> mac_send io (OpenFail cid reason) (m\<lparr>mac_ids := w\<rparr>)
      | Err e \<Rightarrow> (Err (Protocol e), m)
      | Panic \<Rightarrow> (Panic, m))"

text \<open>After the dial: PROXY header, \<open>OPEN_OK\<close>, writer and uplink.\<close>

definition mac_splice ::
  "io_env \<Rightarrow> proxy_encoder \<Rightarrow> ipv4 \<Rightarrow> u64 \<Rightarrow> u16 \<Rightarrow> u16 \<Rightarrow> ipv4 \<Rightarrow> stream \<Rightarrow> mac \<Rightarrow>
    (unit, edge_error) result \<times> mac" where
  "mac_splice io enc public_ipv4 cid port src ip sock m =
     (if \<not> nodelay_ok io then (Err Io, m)
      else
        let (r, m1) =
              (if wants_proxy port then
                 (case encode_proxy_v2 enc (ip, src) (public_ipv4, port) of
                    Ok header \<Rightarrow>
                      if sock_ok io
                      then (Ok (), m\<lparr>mac_delivered := mac_delivered m @ [(sock, header)]\<rparr>)
                      else (Err Io, m)
                  | Err e \<Rightarrow> (Err (Protocol e), m)
                  | Panic \<Rightarrow> (Panic, m))
               else (Ok (), m))
        in (case r of
              Ok _ \<Rightarrow>
                (case mac_send io (OpenOk cid) m1 of
                   (Ok _, m2) \<Rightarrow>
                     if clone_ok io then
                       (Ok (), m2\<lparr>mac_closed := (mac_closed m2)(cid := False),
                                  mac_writers := (mac_writers m2)(cid := Some sock),
                                  mac_uplinks := (mac_uplinks m2)(cid := Some (sock, AtCheck))\<rparr>)
                     else (Err Io, m2)
                 | (r', m2) \<Rightarrow> (r', m2))
            | _ \<Rightarrow> (r, m1)))"

definition open_on_mac ::
  "io_env \<Rightarrow> proxy_encoder \<Rightarrow> ipv4 \<Rightarrow> u64 \<Rightarrow> u16 \<Rightarrow> u16 \<Rightarrow> ipv4 \<Rightarrow> mac \<Rightarrow>
    (unit, edge_error) result \<times> mac" where
  "open_on_mac io enc public_ipv4 cid port src ip m =
     (case admit_id (mac_ids m) cid of
        Ok (w, AtCap) \<Rightarrow> mac_send io (OpenFail cid ReasonCap) (m\<lparr>mac_ids := w\<rparr>)
      | Ok (w, Opened) \<Rightarrow>
          (case loopback_for port of
             None \<Rightarrow> mac_refuse io cid BadPort (m\<lparr>mac_ids := w\<rparr>)
           | Some loopback \<Rightarrow>
               (case dial io loopback of
                  None \<Rightarrow> mac_refuse io cid DialRefused (m\<lparr>mac_ids := w\<rparr>)
                | Some sock \<Rightarrow> mac_splice io enc public_ipv4 cid port src ip sock (m\<lparr>mac_ids := w\<rparr>)))
      | Err e \<Rightarrow> (Err (Protocol e), m)
      | Panic \<Rightarrow> (Panic, m))"

definition on_mac_frame ::
  "io_env \<Rightarrow> proxy_encoder \<Rightarrow> ipv4 \<Rightarrow> frame \<Rightarrow> mac \<Rightarrow> (unit, edge_error) result \<times> mac" where
  "on_mac_frame io enc public_ipv4 frame m =
     (case frame of
        HelloOk _ _ _ _ \<Rightarrow> (Ok (), m\<lparr>mac_lines := mac_lines m @ [''hello-ok'']\<rparr>)
      | Ping ms \<Rightarrow> mac_send io (Pong ms) m
      | Pong _ \<Rightarrow> (Ok (), m\<lparr>mac_last_pong := clock_ms io\<rparr>)
      | Quota _ _ \<Rightarrow> (Ok (), m)
      | Open cid port src ip \<Rightarrow> open_on_mac io enc public_ipv4 cid port src ip m
      | Data cid pl \<Rightarrow>
          (case require_open (mac_ids m) cid of
             Ok _ \<Rightarrow>
               (case mac_writers m cid of
                  None \<Rightarrow> (Err (Protocol BadConn), m)
                | Some sock \<Rightarrow>
                    if sock_ok io
                    then (Ok (), m\<lparr>mac_delivered := mac_delivered m @ [(sock, pl)]\<rparr>)
                    else (Err Io, m))
           | Err e \<Rightarrow> (Err (Protocol e), m)
           | Panic \<Rightarrow> (Panic, m))
      | Close cid _ \<Rightarrow>
          (case close_id (mac_ids m) cid of
             Ok w \<Rightarrow>
               (case mac_writers m cid of
                  None \<Rightarrow> (Ok (), m\<lparr>mac_ids := w\<rparr>)
                | Some sock \<Rightarrow>
                    (Ok (), m\<lparr>mac_ids := w, mac_writers := (mac_writers m)(cid := None),
                              mac_closed := (mac_closed m)(cid := True),
                              mac_shut := mac_shut m @ [sock]\<rparr>))
           | Err e \<Rightarrow> (Err (Protocol e), m)
           | Panic \<Rightarrow> (Panic, m))
      | Hello \<Rightarrow> (Err (Protocol UnknownType), m)
      | OpenOk _ \<Rightarrow> (Err (Protocol UnknownType), m)
      | OpenFail _ _ \<Rightarrow> (Err (Protocol UnknownType), m))"

fun mac_frames ::
  "io_env \<Rightarrow> proxy_encoder \<Rightarrow> ipv4 \<Rightarrow> frame list \<Rightarrow> mac \<Rightarrow> (unit, edge_error) result \<times> mac" where
  "mac_frames io enc public_ipv4 [] m = (Ok (), m)"
| "mac_frames io enc public_ipv4 (f # fs) m =
     (case on_mac_frame io enc public_ipv4 f m of
        (Ok _, m1) \<Rightarrow> mac_frames io enc public_ipv4 fs m1
      | (r, m1) \<Rightarrow> (r, m1))"

text \<open>One turn of the reader loop of \<^verbatim>\<open>serve_mac\<close>; the boolean tells whether it goes on.\<close>

definition serve_mac_turn ::
  "io_env \<Rightarrow> proxy_encoder \<Rightarrow> ipv4 \<Rightarrow> read_result \<Rightarrow> decoder \<times> mac \<Rightarrow>
    (bool, edge_error) result \<times> decoder \<times> mac" where
  "serve_mac_turn io enc public_ipv4 rd dm =
     (case dm of (d, m) \<Rightarrow>
        if mac_stop m then (Ok False, d, m)
        else case rd of
               ReadEof \<Rightarrow> (Ok False, d, m)
             | ReadErr \<Rightarrow> (Err Io, d, m)
             | ReadBytes bs \<Rightarrow>
                 (case push d bs of
                    (d', Ok fs) \<Rightarrow>
                      (case mac_frames io enc public_ipv4 fs m of
                         (Ok _, m') \<Rightarrow> (Ok True, d', m')
                       | (Err e, m') \<Rightarrow> (Err e, d', m')
                       | (Panic, m') \<Rightarrow> (Panic, d', m'))
                  | (d', Err e) \<Rightarrow> (Err (Protocol e), d', m)
                  | (d', Panic) \<Rightarrow> (Panic, d', m)))"

section \<open>Mac uplinks\<close>

definition mac_uplink_check :: "u64 \<Rightarrow> mac \<Rightarrow> mac" where
  "mac_uplink_check cid m =
     (case mac_uplinks m cid of
        Some (stream, AtCheck) \<Rightarrow>
          if mac_closed m cid then m\<lparr>mac_uplinks := (mac_uplinks m)(cid := None)\<rparr>
          else m\<lparr>mac_uplinks := (mac_uplinks m)(cid := Some (stream, AtRead))\<rparr>
      | _ \<Rightarrow> m)"

definition mac_uplink_end :: "io_env \<Rightarrow> u64 \<Rightarrow> close_reason \<Rightarrow> mac \<Rightarrow> mac" where
  "mac_uplink_end io cid reason m =
     (if mac_closed m cid then m
      else snd (mac_send io (Close cid reason) (m\<lparr>mac_closed := (mac_closed m)(cid := True)\<rparr>)))"

definition mac_uplink_read :: "io_env \<Rightarrow> u64 \<Rightarrow> read_result \<Rightarrow> mac \<Rightarrow> mac" where
  "mac_uplink_read io cid rd m =
     (case mac_uplinks m cid of
        Some (stream, AtRead) \<Rightarrow>
          let done = (\<lambda>m. m\<lparr>mac_uplinks := (mac_uplinks m)(cid := None)\<rparr>) in
          (case rd of
             ReadEof \<Rightarrow> done (mac_uplink_end io cid Eof m)
           | ReadErr \<Rightarrow> done (mac_uplink_end io cid Reset m)
           | ReadBytes bs \<Rightarrow>
               (case mac_send io (Data cid bs) m of
                  (Ok _, m1) \<Rightarrow> m1\<lparr>mac_uplinks := (mac_uplinks m1)(cid := Some (stream, AtCheck))\<rparr>
                | (_, m1) \<Rightarrow> done m1))
      | _ \<Rightarrow> m)"

definition mac_ping_turn :: "io_env \<Rightarrow> mac \<Rightarrow> bool \<times> mac" where
  "mac_ping_turn io m =
     (if mac_stop m then (False, m)
      else
        let idle = saturating_sub (clock_ms io) (mac_last_pong m) in
        if tunnel_dead (from_millis (unat idle))
        then (False, m\<lparr>mac_stop := True, mac_ctrl_down := True\<rparr>)
        else (let (r, m1) = mac_send io (Ping (clock_ms io)) m in (is_ok r, m1)))"

end
