(* ===== verification/Edge_Vm.thy ===== *)
theory Edge_Vm
  imports Edge_Relay
begin

text \<open>
  The VM side of the relay on its own, against an arbitrary peer: what each handler leaves
  unchanged, the invariant of the id window and the socket maps, and the accounting of
  forwarded bytes.
\<close>

section \<open>Counting forwarded bytes\<close>

fun data_len :: "frame \<Rightarrow> nat" where
  "data_len (Data _ pl) = length pl"
| "data_len _ = 0"

definition data_bytes :: "frame list \<Rightarrow> nat" where
  "data_bytes fs = sum_list (map data_len fs)"

definition forwarded :: "vm \<Rightarrow> nat" where
  "forwarded v = data_bytes (to_mac v) + sum_list (map (\<lambda>(_, bs). length bs) (delivered v))"

lemma data_bytes_append [simp]: "data_bytes (fs @ gs) = data_bytes fs + data_bytes gs"
  by (simp add: data_bytes_def)

lemma data_bytes_Nil [simp]: "data_bytes [] = 0"
  by (simp add: data_bytes_def)

lemma data_bytes_Cons [simp]: "data_bytes (f # fs) = data_len f + data_bytes fs"
  by (simp add: data_bytes_def)

fun is_open :: "frame \<Rightarrow> bool" where
  "is_open (Open _ _ _ _) = True"
| "is_open _ = False"

definition opens :: "frame list \<Rightarrow> u64 list" where
  "opens fs = map conn_id (filter is_open fs)"

lemma opens_append [simp]: "opens (fs @ gs) = opens fs @ opens gs"
  by (simp add: opens_def)

lemma opens_Nil [simp]: "opens [] = []"
  by (simp add: opens_def)

lemma opens_Cons: "opens (f # fs) = (if is_open f then conn_id f # opens fs else opens fs)"
  by (simp add: opens_def)

section \<open>What a step leaves alone\<close>

text \<open>
  \<open>quiet v v'\<close>: the step hands out no id, touches no waiting socket, forwards no data and
  writes only frames that carry neither data nor an OPEN.
\<close>

definition quiet :: "vm \<Rightarrow> vm \<Rightarrow> bool" where
  "quiet v v' \<longleftrightarrow> next_id (ids v') = next_id (ids v) \<and> quota v' = quota v \<and>
     delivered v' = delivered v \<and> accepting v' = accepting v \<and> hello v' = hello v \<and>
     forwarding v' = forwarding v \<and>
     (\<exists>xs. to_mac v' = to_mac v @ xs \<and> opens xs = [] \<and> data_bytes xs = 0)"

lemma quiet_refl [intro, simp]: "quiet v v"
  by (simp add: quiet_def)

lemma quiet_trans: "quiet u v \<Longrightarrow> quiet v w \<Longrightarrow> quiet u w"
  by (auto simp: quiet_def)

lemma quiet_forwarded: "quiet v v' \<Longrightarrow> forwarded v' = forwarded v"
  by (auto simp: quiet_def forwarded_def)

lemma vm_send_cases:
  "vm_send io f v = (r, v') \<Longrightarrow>
     (r = Ok () \<and> v' = v\<lparr>to_mac := to_mac v @ [f]\<rparr> \<and> is_ok (encode f) \<or> \<not> is_ok r \<and> v' = v)"
  by (auto simp: vm_send_def ctrl_send_def split: result.splits if_splits)

lemma quiet_send:
  "\<not> is_open f \<Longrightarrow> data_len f = 0 \<Longrightarrow> vm_send io f v = (r, v') \<Longrightarrow> quiet v v'"
  by (drule vm_send_cases) (auto simp: quiet_def opens_Cons)

lemma vm_send_same [simp]:
  "ids (snd (vm_send io f v)) = ids v" "waiting (snd (vm_send io f v)) = waiting v"
  "writers (snd (vm_send io f v)) = writers v" "uplinks (snd (vm_send io f v)) = uplinks v"
  "closed (snd (vm_send io f v)) = closed v" "stop (snd (vm_send io f v)) = stop v"
  "quota (snd (vm_send io f v)) = quota v"
  by (simp_all add: vm_send_def split: prod.splits)

lemmas vm_step_splits = option.splits prod.splits result.splits if_splits

lemma quiet_retire: "quiet v (snd (retire io cid b v))"
  by (auto simp: retire_def Let_def quiet_def opens_Cons close_Ok_iff
      split: vm_step_splits dest!: vm_send_cases)

lemma quiet_retires: "quiet v (foldl (\<lambda>v k. snd (retire io k True v)) v ks)"
  by (induction ks arbitrary: v) (auto intro: quiet_trans quiet_retire)

lemma quiet_stop: "quiet v (v\<lparr>stop := True\<rparr>)" "quiet v (v\<lparr>lines := ls\<rparr>)"
  by (simp_all add: quiet_def)

lemma quiet_pause: "quiet v (pause io v)"
proof (cases "stop v")
  case False
  define v1 where "v1 = v\<lparr>stop := True\<rparr>"
  define v2 where "v2 = foldl (\<lambda>v k. snd (retire io k True v)) v1 (key_order io (dom (writers v1)))"
  define f where "f = Quota (meter_tx (quota v2)) (meter_state (quota v2))"
  have "quiet v v1" by (simp add: v1_def quiet_def)
  moreover have "quiet v1 v2" unfolding v2_def by (rule quiet_retires)
  moreover have "quiet v2 (snd (vm_send io f v2))"
    by (rule quiet_send [of f io _ "fst (vm_send io f v2)"]) (simp_all add: f_def)
  ultimately have "quiet v (snd (vm_send io f v2))"
    by (blast intro: quiet_trans)
  moreover have "pause io v = (snd (vm_send io f v2))\<lparr>lines := lines (snd (vm_send io f v2)) @ [''paused'']\<rparr>"
    using False by (simp add: pause_def Let_def v1_def v2_def f_def)
  ultimately show ?thesis
    by (simp add: quiet_trans [OF _ quiet_stop(2)])
qed (simp add: pause_def)

section \<open>Socket invariant\<close>

text \<open>
  A waiting socket belongs to an open id and is not live yet; ids of live sockets and uplinks
  were handed out before; only a session that has seen HELLO accepts.
\<close>

definition vm_inv :: "vm \<Rightarrow> bool" where
  "vm_inv v \<longleftrightarrow> ids_inv (ids v) \<and> (accepting v \<longrightarrow> seen (hello v)) \<and>
     dom (waiting v) \<subseteq> open_ids (ids v) \<and>
     dom (waiting v) \<inter> (dom (writers v) \<union> dom (uplinks v)) = {} \<and>
     (\<forall>c \<in> dom (writers v) \<union> dom (uplinks v). unat c < unat (next_id (ids v)))"

lemma vm_inv_waiting:
  "vm_inv v \<Longrightarrow> waiting v c = Some x \<Longrightarrow>
     c \<in> open_ids (ids v) \<and> writers v c = None \<and> uplinks v c = None"
  by (auto simp: vm_inv_def dom_def)

lemma vm_inv_start [simp]: "vm_inv (vm_session_start opts io)"
  by (simp add: vm_inv_def vm_session_start_def)

lemma vm_inv_irrelevant [simp]:
  "vm_inv (v\<lparr>to_mac := x1\<rparr>) = vm_inv v" "vm_inv (v\<lparr>lines := x2\<rparr>) = vm_inv v"
  "vm_inv (v\<lparr>stop := x3\<rparr>) = vm_inv v" "vm_inv (v\<lparr>closed := x4\<rparr>) = vm_inv v"
  "vm_inv (v\<lparr>shut := x5\<rparr>) = vm_inv v" "vm_inv (v\<lparr>quota := x6\<rparr>) = vm_inv v"
  "vm_inv (v\<lparr>delivered := x7\<rparr>) = vm_inv v" "vm_inv (v\<lparr>last_pong := x8\<rparr>) = vm_inv v"
  "vm_inv (v\<lparr>forwarding := x9\<rparr>) = vm_inv v" "vm_inv (v\<lparr>ctrl_down := x10\<rparr>) = vm_inv v"
  by (simp_all add: vm_inv_def)

lemma vm_inv_send [simp]: "vm_inv (snd (vm_send io f v)) = vm_inv v"
  by (simp add: vm_send_def split: prod.splits)

lemma vm_inv_close:
  "vm_inv v \<Longrightarrow> close_id (ids v) cid = Ok w \<Longrightarrow> waiting v cid = None \<Longrightarrow> vm_inv (v\<lparr>ids := w\<rparr>)"
  using ids_inv_close [of "ids v" cid w] by (auto simp: vm_inv_def close_Ok_iff)

lemma vm_inv_close_waiting:
  "vm_inv v \<Longrightarrow> close_id (ids v) cid = Ok w \<Longrightarrow>
     vm_inv (v\<lparr>ids := w, waiting := (waiting v)(cid := None)\<rparr>)"
  using ids_inv_close [of "ids v" cid w] by (auto simp: vm_inv_def close_Ok_iff)

lemma vm_inv_drop:
  "vm_inv v \<Longrightarrow> vm_inv (v\<lparr>writers := (writers v)(cid := None)\<rparr>)"
  "vm_inv v \<Longrightarrow> vm_inv (v\<lparr>waiting := (waiting v)(cid := None)\<rparr>)"
  "vm_inv v \<Longrightarrow> vm_inv (v\<lparr>uplinks := (uplinks v)(cid := None)\<rparr>)"
  "vm_inv v \<Longrightarrow> vm_inv (v\<lparr>accepting := False\<rparr>)"
  by (auto simp: vm_inv_def)

lemma retire_fields:
  "uplinks (snd (retire io cid b v)) = uplinks v"
  "accepting (snd (retire io cid b v)) = accepting v"
  "hello (snd (retire io cid b v)) = hello v"
  "ids (snd (retire io cid b v)) =
     (if cid \<in> open_ids (ids v) then ids v\<lparr>open_ids := open_ids (ids v) - {cid}\<rparr> else ids v)"
  "writers (snd (retire io cid b v)) =
     (if cid \<in> open_ids (ids v) then (writers v)(cid := None) else writers v)"
  "waiting (snd (retire io cid b v)) = waiting v \<and> (cid \<in> open_ids (ids v) \<longrightarrow> writers v cid \<noteq> None) \<or>
   waiting (snd (retire io cid b v)) = (waiting v)(cid := None)"
  by (auto simp: retire_def close_id_def Let_def split: vm_step_splits dest!: vm_send_cases)

lemma vm_inv_retire:
  assumes "vm_inv v"
  shows "vm_inv (snd (retire io cid b v))"
proof (cases "cid \<in> open_ids (ids v)")
  case True
  have w: "waiting (snd (retire io cid b v)) = (waiting v)(cid := None)"
    using retire_fields(6) [of io cid b v] True vm_inv_waiting [OF assms, of cid] by (cases "waiting v cid") auto
  have "ids_inv (ids v\<lparr>open_ids := open_ids (ids v) - {cid}\<rparr>)"
    using assms True ids_inv_close [of "ids v" cid] by (simp add: vm_inv_def close_id_def)
  then show ?thesis
    using assms True unfolding vm_inv_def w by (auto simp: retire_fields)
next
  case False
  then show ?thesis
    using assms by (simp add: retire_def close_id_def)
qed

lemma vm_inv_retires: "vm_inv v \<Longrightarrow> vm_inv (foldl (\<lambda>v k. snd (retire io k True v)) v ks)"
  by (induction ks arbitrary: v) (auto intro: vm_inv_retire)

lemma vm_inv_pause: "vm_inv v \<Longrightarrow> vm_inv (pause io v)"
  by (auto simp: pause_def Let_def intro: vm_inv_retires)

lemma vm_inv_uplink:
  assumes "vm_inv v" "waiting v cid = Some stream" "clone_ok io"
  shows "vm_inv (start_uplink io cid stream (v\<lparr>waiting := (waiting v)(cid := None)\<rparr>))"
  using assms by (auto simp: start_uplink_def vm_inv_def ids_inv_def dom_def)

lemma vm_inv_frame:
  assumes "vm_inv v"
  shows "vm_inv (snd (on_vm_frame io f v))"
proof (cases f)
  case Hello
  then show ?thesis using assms by (auto simp: on_vm_frame_def observe_def vm_inv_def split: result.splits)
next
  case (OpenOk cid)
  then show ?thesis
    using assms vm_inv_drop(2) [OF assms, of cid]
    by (cases "clone_ok io") (auto simp: on_vm_frame_def intro: vm_inv_uplink split: result.splits option.splits,
        simp add: start_uplink_def)
next
  case (OpenFail cid r)
  then show ?thesis
    using vm_inv_close_waiting [OF assms] assms by (auto simp: on_vm_frame_def split: result.splits)
next
  case (Data cid pl)
  then show ?thesis
    using assms by (auto simp: on_vm_frame_def Let_def intro: vm_inv_pause split: result.splits option.splits prod.splits)
next
  case (Close cid r)
  then show ?thesis
    using assms by (simp add: on_vm_frame_def vm_inv_retire)
qed (use assms in \<open>simp_all add: on_vm_frame_def\<close>)

lemma answer_hello_fields:
  "ids (snd (answer_hello io opts v)) = ids v" "waiting (snd (answer_hello io opts v)) = waiting v"
  "writers (snd (answer_hello io opts v)) = writers v"
  "uplinks (snd (answer_hello io opts v)) = uplinks v"
  "hello (snd (answer_hello io opts v)) = hello v"
  by (auto simp: answer_hello_def Let_def split: vm_step_splits dest!: vm_send_cases)

lemma vm_inv_answer:
  "vm_inv v \<Longrightarrow> seen (hello v) \<Longrightarrow> vm_inv (snd (answer_hello io opts v))"
  by (simp add: vm_inv_def answer_hello_fields)

text \<open>What holds after \<open>on_vm_frame\<close> and after answering a HELLO holds after a frame of the session.\<close>

lemma vm_session_frame_rule:
  assumes "P v" "P (snd (on_vm_frame io f v))" "\<And>u b. P u \<Longrightarrow> P (u\<lparr>forwarding := b\<rparr>)"
    and "\<And>h. observe (hello v) = Ok h \<Longrightarrow> P (snd (answer_hello io opts (v\<lparr>hello := h\<rparr>)))"
  shows "P (snd (vm_session_frame io opts f v))"
proof (cases "f = Hello \<and> \<not> forwarding v")
  case True
  show ?thesis
  proof (cases "observe (hello v)")
    case (Ok h)
    show ?thesis
      using True Ok assms(4) [OF Ok] assms(3)
      by (auto simp: vm_session_frame_def split: prod.splits result.splits)
  qed (use True assms(1) in \<open>auto simp: vm_session_frame_def\<close>)
next
  case False
  then show ?thesis using assms(2) by (simp only: vm_session_frame_def if_False)
qed

lemma vm_inv_session_frame:
  assumes "vm_inv v"
  shows "vm_inv (snd (vm_session_frame io opts f v))"
proof (rule vm_session_frame_rule [OF assms vm_inv_frame [OF assms]])
  fix h assume "observe (hello v) = Ok h"
  then have "vm_inv (v\<lparr>hello := h\<rparr>)" "seen h"
    using assms by (auto simp: vm_inv_def observe_def split: if_splits)
  then show "vm_inv (snd (answer_hello io opts (v\<lparr>hello := h\<rparr>)))"
    by (intro vm_inv_answer) simp_all
qed simp

lemma vm_inv_accept:
  assumes "vm_inv v"
  shows "vm_inv (accept_turn io port a v)"
proof -
  have "vm_inv (v\<lparr>ids := w, waiting := (waiting v)(cid := Some stream)\<rparr>)" if "alloc (ids v) = Ok (w, cid)" for w cid stream
  proof -
    have cid: "cid = next_id (ids v)" "next_id w \<noteq> cid" "unat (next_id w) = Suc (unat cid)" "open_ids w = insert cid (open_ids (ids v))"
      using that by (auto simp: alloc_Ok_iff dest!: unat_next)
    have "cid \<notin> dom (writers v) \<union> dom (uplinks v)"
      using assms unfolding cid(1) vm_inv_def by blast
    with assms ids_inv_alloc [OF _ that] cid show ?thesis
      by (auto simp: vm_inv_def less_Suc_eq)
  qed
  then have 1: "vm_inv (v\<lparr>ids := w, waiting := (waiting v)(cid := Some stream), to_mac := x\<rparr>)"
    if "alloc (ids v) = Ok (w, cid)" for w cid stream x
    using that vm_inv_irrelevant(1) by fastforce
  show ?thesis
    using assms 1
    by (auto simp: accept_turn_def Let_def split: accept_result.splits vm_step_splits
        intro: vm_inv_drop dest!: vm_send_cases)
qed

lemma vm_inv_uplink_check: "vm_inv v \<Longrightarrow> vm_inv (uplink_check cid v)"
  by (auto simp: uplink_check_def vm_inv_def split: option.splits uplink_pc.splits prod.splits)

lemma vm_inv_uplink_end:
  "vm_inv v \<Longrightarrow> waiting v cid = None \<Longrightarrow> vm_inv (uplink_end io cid r v)"
  using vm_inv_close [of "v\<lparr>closed := (closed v)(cid := True)\<rparr>" cid]
  by (auto simp: uplink_end_def Let_def split: result.splits)

lemma vm_inv_uplink_pc:
  "vm_inv v \<Longrightarrow> uplinks v cid = Some up \<Longrightarrow> vm_inv (v\<lparr>uplinks := (uplinks v)(cid := Some up')\<rparr>)"
  by (auto simp: vm_inv_def)

lemma vm_inv_sent:
  "vm_inv v \<Longrightarrow> uplinks v cid = Some up \<Longrightarrow>
     vm_inv (v\<lparr>to_mac := out, quota := q, uplinks := (uplinks v)(cid := Some up')\<rparr>)"
  using vm_inv_uplink_pc [of "v\<lparr>to_mac := out, quota := q\<rparr>" cid up up'] by simp

lemma vm_inv_uplink_read:
  assumes "vm_inv v"
  shows "vm_inv (uplink_read io cid rd v)"
proof (cases "uplinks v cid")
  case (Some up)
  then have w: "waiting v cid = None" using vm_inv_waiting [OF assms] by (cases "waiting v cid") auto
  show ?thesis
    using assms Some vm_inv_uplink_end [OF assms w]
    by (cases up) (auto simp: uplink_read_def Let_def split: uplink_pc.splits read_result.splits vm_step_splits
        intro!: vm_inv_drop vm_inv_pause vm_inv_sent dest!: vm_send_cases) 
qed (use assms in \<open>simp add: uplink_read_def\<close>)

lemma vm_inv_ping: "vm_inv v \<Longrightarrow> vm_inv (snd (ping_turn io v))"
  by (auto simp: ping_turn_def Let_def split: prod.splits dest!: vm_send_cases)

section \<open>Accounting\<close>

text \<open>\<open>no_data v v'\<close>: the step forwards nothing and leaves the meter alone.\<close>

definition no_data :: "vm \<Rightarrow> vm \<Rightarrow> bool" where
  "no_data v v' \<longleftrightarrow> quota v' = quota v \<and> forwarded v' = forwarded v"

definition accounted :: "u64 \<Rightarrow> vm \<Rightarrow> bool" where
  "accounted tx v \<longleftrightarrow> unat (meter_tx (quota v)) = min (unat tx + forwarded v) (2 ^ 64 - 1)"

lemma quiet_no_data: "quiet v v' \<Longrightarrow> no_data v v'"
  by (auto simp: no_data_def quiet_forwarded) (simp add: quiet_def)

lemma no_data_accounted: "no_data v v' \<Longrightarrow> accounted tx v \<Longrightarrow> accounted tx v'"
  by (simp add: no_data_def accounted_def)

lemma accounted_pause: "accounted tx v \<Longrightarrow> accounted tx (pause io v)"
  by (rule no_data_accounted [OF quiet_no_data [OF quiet_pause]])

lemma accounted_uplinks [simp]: "accounted tx (v\<lparr>uplinks := x\<rparr>) = accounted tx v"
  by (simp add: accounted_def forwarded_def)

lemma no_data_trans: "no_data u v \<Longrightarrow> no_data v w \<Longrightarrow> no_data u w"
  by (simp add: no_data_def)

lemma no_data_send: "data_len f = 0 \<Longrightarrow> no_data v (snd (vm_send io f v))"
  using vm_send_cases [of io f v "fst (vm_send io f v)" "snd (vm_send io f v)"]
  by (auto simp: no_data_def forwarded_def)

lemma no_data_fields [simp]:
  "no_data v (v\<lparr>ids := x1\<rparr>)" "no_data v (v\<lparr>waiting := x2\<rparr>)" "no_data v (v\<lparr>writers := x3\<rparr>)"
  "no_data v (v\<lparr>closed := x4\<rparr>)" "no_data v (v\<lparr>stop := x5\<rparr>)" "no_data v (v\<lparr>uplinks := x6\<rparr>)"
  "no_data v (v\<lparr>accepting := x7\<rparr>)" "no_data v (v\<lparr>hello := x8\<rparr>)" "no_data v (v\<lparr>forwarding := x9\<rparr>)"
  "no_data v (v\<lparr>lines := x10\<rparr>)" "no_data v (v\<lparr>last_pong := x11\<rparr>)" "no_data v (v\<lparr>ctrl_down := x12\<rparr>)"
  by (simp_all add: no_data_def forwarded_def)

lemma no_data_fields2 [simp]:
  "no_data v (v\<lparr>ids := x1, waiting := x2\<rparr>)" "no_data v (v\<lparr>stop := x3, ctrl_down := x4\<rparr>)"
  "no_data v (v\<lparr>waiting := x5, closed := x6, writers := x7, uplinks := x8\<rparr>)"
  by (simp_all add: no_data_def forwarded_def)

lemma no_data_answer: "no_data v (snd (answer_hello io opts v))"
  by (auto simp: answer_hello_def Let_def no_data_def forwarded_def
      split: vm_step_splits dest!: vm_send_cases)

lemma no_data_frame:
  assumes "\<And>cid pl. f \<noteq> Data cid pl"
  shows "no_data v (snd (on_vm_frame io f v))"
proof (cases f)
  case (Close cid r)
  then show ?thesis by (simp add: on_vm_frame_def quiet_no_data quiet_retire)
qed (use assms in \<open>auto simp: on_vm_frame_def start_uplink_def no_data_send no_data_def [of v v]
    split: result.splits option.splits\<close>)

lemma no_data_accept: "no_data v (accept_turn io port a v)"
  by (auto simp: accept_turn_def Let_def no_data_def forwarded_def
      split: accept_result.splits vm_step_splits dest!: vm_send_cases)

lemma no_data_uplink_check: "no_data v (uplink_check cid v)"
  by (auto simp: uplink_check_def no_data_def forwarded_def
      split: option.splits uplink_pc.splits prod.splits)

lemma no_data_uplink_end: "no_data v (uplink_end io cid r v)"
  by (auto simp: uplink_end_def Let_def no_data_def forwarded_def vm_send_def ctrl_send_def
      split: vm_step_splits)

lemma no_data_ping: "no_data v (snd (ping_turn io v))"
  by (auto simp: ping_turn_def Let_def no_data_def forwarded_def split: prod.splits dest!: vm_send_cases)

text \<open>A DATA payload that was encoded or decoded fits the counter.\<close>

lemma encode_Data_length: "is_ok (encode (Data cid pl)) \<Longrightarrow> length pl \<le> 16384"
  by (auto simp: encode_def is_ok_iff result_iff MAX_DATA_PAYLOAD_def split: if_splits)

lemma note_tx_accounted:
  assumes "accounted tx v" "forwarded v' = forwarded v + n" "quota v' = fst (note_tx (quota v) (of_nat n))"
    and "n \<le> 16384"
  shows "accounted tx v'"
  using assms by (simp add: accounted_def unat_saturating_add unat_of_nat)

lemma accounted_data:
  assumes "accounted tx v" "is_ok (encode (Data cid pl))"
  shows "accounted tx (snd (on_vm_frame io (Data cid pl) v))"
proof -
  define v1 where "v1 s = v\<lparr>delivered := delivered v @ [(s, pl)],
    quota := fst (note_tx (quota v) (of_nat (length pl)))\<rparr>" for s
  have v1: "accounted tx (v1 s)" for s
    by (rule note_tx_accounted [OF assms(1) _ _ encode_Data_length [OF assms(2)]])
      (simp_all add: v1_def forwarded_def)
  then have "accounted tx (pause io (v1 s))" for s
    by (rule accounted_pause)
  moreover have "accounted tx (pause io v)"
    by (rule accounted_pause [OF assms(1)])
  ultimately show ?thesis
    using assms(1) v1 unfolding v1_def
    by (auto simp: on_vm_frame_def Let_def split: result.splits option.splits prod.splits)
qed

lemma accounted_uplink_read:
  assumes "accounted tx v"
  shows "accounted tx (uplink_read io cid rd v)"
proof (cases rd)
  case (ReadBytes bs)
  define v1 where "v1 = v\<lparr>to_mac := to_mac v @ [Data cid bs],
    quota := fst (note_tx (quota v) (of_nat (length bs)))\<rparr>"
  have v1: "accounted tx v1" if "is_ok (encode (Data cid bs))"
    by (rule note_tx_accounted [OF assms _ _ encode_Data_length [OF that]])
      (simp_all add: v1_def forwarded_def)
  have "accounted tx (pause io v1)" if "is_ok (encode (Data cid bs))"
    by (rule accounted_pause [OF v1 [OF that]])
  then show ?thesis
    using v1 assms ReadBytes unfolding v1_def
    by (auto simp: uplink_read_def Let_def split: option.splits prod.splits uplink_pc.splits result.splits
        dest!: vm_send_cases)
qed (auto simp: uplink_read_def Let_def assms split: option.splits prod.splits uplink_pc.splits
    intro: no_data_accounted [OF no_data_uplink_end assms])

section \<open>Steps of a VM session\<close>

text \<open>
  The threads of a session interleave: the reader with any frame a decoder can produce, the
  accept loop, the uplinks, the ping thread, and the end of the session. A reader that failed
  takes no further step in the code; here it may, which only adds behaviours.
\<close>

inductive vm_step :: "vm_opts \<Rightarrow> vm \<Rightarrow> vm \<Rightarrow> bool" for opts :: vm_opts where
  vm_reads: "is_ok (encode f) \<Longrightarrow> vm_step opts v (snd (vm_session_frame io opts f v))"
| vm_accepts: "vm_step opts v (accept_turn io (advertise_port opts) a v)"
| vm_checks: "vm_step opts v (uplink_check cid v)"
| vm_uplinks: "vm_step opts v (uplink_read io cid rd v)"
| vm_pings: "vm_step opts v (snd (ping_turn io v))"
| vm_ends: "vm_step opts v (v\<lparr>stop := True\<rparr>)"

inductive_cases vm_stepE: "vm_step opts v v'"

definition vm_start :: "vm_opts \<Rightarrow> vm \<Rightarrow> bool" where
  "vm_start opts v \<longleftrightarrow> (\<exists>io. v = vm_session_start opts io)"

lemma vm_step_inv: "vm_step opts v v' \<Longrightarrow> vm_inv v \<Longrightarrow> vm_inv v'"
  by (induction rule: vm_step.induct)
    (simp_all add: vm_inv_session_frame vm_inv_accept vm_inv_uplink_check vm_inv_uplink_read
      vm_inv_ping)

interpretation vm_sys: invariant_system "vm_start opts" "vm_step opts" vm_inv
  by unfold_locales (auto simp: vm_start_def intro: vm_step_inv)

lemma accounted_frame:
  assumes "accounted tx v" "is_ok (encode f)"
  shows "accounted tx (snd (on_vm_frame io f v))"
proof (cases "\<exists>cid pl. f = Data cid pl")
  case True
  then show ?thesis using accounted_data assms by blast
next
  case False
  then show ?thesis by (intro no_data_accounted [OF no_data_frame assms(1)]) simp
qed

lemma accounted_session_frame:
  assumes "accounted tx v" "is_ok (encode f)"
  shows "accounted tx (snd (vm_session_frame io opts f v))"
proof (rule vm_session_frame_rule [OF assms(1) accounted_frame [OF assms]])
  fix h
  show "accounted tx (snd (answer_hello io opts (v\<lparr>hello := h\<rparr>)))"
    by (rule no_data_accounted [OF no_data_answer])
      (rule no_data_accounted [OF no_data_fields(8) assms(1)])
qed (rule no_data_accounted [OF no_data_fields(9)])

lemma vm_step_accounted: "vm_step opts v v' \<Longrightarrow> accounted tx v \<Longrightarrow> accounted tx v'"
proof (induction rule: vm_step.induct)
  case (vm_reads f v io)
  then show ?case by (simp add: accounted_session_frame)
qed (auto intro: accounted_uplink_read no_data_accounted no_data_accept no_data_uplink_check
    no_data_ping no_data_fields)

lemma accounted_start: "accounted (opt_tx_bytes opts) (vm_session_start opts io)"
  using unat_bound [of "opt_tx_bytes opts"]
  by (simp add: accounted_def vm_session_start_def forwarded_def new_meter_def)

interpretation vm_meter: invariant_system "vm_start opts" "vm_step opts" "accounted (opt_tx_bytes opts)"
  by unfold_locales (auto simp: vm_start_def intro: vm_step_accounted accounted_start)

section \<open>Sockets of closed ids\<close>

text \<open>The id is closed, handed out before, and its socket is still among the writers.\<close>

definition stale :: "u64 \<Rightarrow> stream \<Rightarrow> vm \<Rightarrow> bool" where
  "stale cid sock v \<longleftrightarrow> cid \<notin> open_ids (ids v) \<and> unat cid < unat (next_id (ids v)) \<and>
     writers v cid = Some sock"

lemma stale_irrelevant [simp]:
  "stale cid sock (v\<lparr>to_mac := x1\<rparr>) = stale cid sock v" "stale cid sock (v\<lparr>lines := x2\<rparr>) = stale cid sock v"
  "stale cid sock (v\<lparr>stop := x3\<rparr>) = stale cid sock v" "stale cid sock (v\<lparr>closed := x4\<rparr>) = stale cid sock v"
  "stale cid sock (v\<lparr>waiting := x5\<rparr>) = stale cid sock v" "stale cid sock (v\<lparr>quota := x6\<rparr>) = stale cid sock v"
  "stale cid sock (v\<lparr>delivered := x7\<rparr>) = stale cid sock v" "stale cid sock (v\<lparr>last_pong := x8\<rparr>) = stale cid sock v"
  "stale cid sock (v\<lparr>forwarding := x9\<rparr>) = stale cid sock v" "stale cid sock (v\<lparr>ctrl_down := x10\<rparr>) = stale cid sock v"
  "stale cid sock (v\<lparr>hello := x11\<rparr>) = stale cid sock v" "stale cid sock (v\<lparr>accepting := x12\<rparr>) = stale cid sock v"
  "stale cid sock (v\<lparr>uplinks := x13\<rparr>) = stale cid sock v"
  by (simp_all add: stale_def)

lemma stale_send [simp]: "stale cid sock (snd (vm_send io f v)) = stale cid sock v"
  by (simp add: vm_send_def split: prod.splits)

lemma stale_close: "stale cid sock v \<Longrightarrow> close_id (ids v) k = Ok w \<Longrightarrow> stale cid sock (v\<lparr>ids := w\<rparr>)"
  by (auto simp: stale_def close_Ok_iff)

lemma stale_retire: "stale cid sock v \<Longrightarrow> stale cid sock (snd (retire io k b v))"
  by (auto simp: stale_def retire_fields)

lemma stale_retires: "stale cid sock v \<Longrightarrow> stale cid sock (foldl (\<lambda>v k. snd (retire io k b v)) v ks)"
  by (induction ks arbitrary: v) (auto intro: stale_retire)

lemma stale_pause: "stale cid sock v \<Longrightarrow> stale cid sock (pause io v)"
  by (auto simp: pause_def Let_def intro: stale_retires)

lemma stale_frame:
  assumes "stale cid sock v"
  shows "stale cid sock (snd (on_vm_frame io f v))"
proof (cases f)
  case (OpenOk k)
  then show ?thesis
    using assms by (auto simp: on_vm_frame_def start_uplink_def require_open_def stale_def split: option.splits)
next
  case (OpenFail k r)
  then show ?thesis
    using assms stale_close [OF assms] by (auto simp: on_vm_frame_def stale_def split: result.splits)
next
  case (Data k pl)
  then show ?thesis
    using assms by (auto simp: on_vm_frame_def Let_def intro: stale_pause split: result.splits option.splits prod.splits)
next
  case (Close k r)
  then show ?thesis using assms by (simp add: on_vm_frame_def stale_retire)
qed (use assms in \<open>auto simp: on_vm_frame_def split: result.splits\<close>)

lemma stale_session_frame:
  assumes "stale cid sock v"
  shows "stale cid sock (snd (vm_session_frame io opts f v))"
  by (rule vm_session_frame_rule [OF assms stale_frame [OF assms]])
    (use assms in \<open>simp_all add: stale_def answer_hello_fields\<close>)

lemma stale_accept: "stale cid sock v \<Longrightarrow> stale cid sock (accept_turn io port a v)"
  by (auto simp: accept_turn_def Let_def stale_def alloc_Ok_iff
      split: accept_result.splits vm_step_splits dest!: vm_send_cases unat_next)

lemma stale_uplink_end: "stale cid sock v \<Longrightarrow> stale cid sock (uplink_end io k r v)"
  using stale_close [of cid sock "v\<lparr>closed := (closed v)(k := True)\<rparr>" k]
  by (auto simp: uplink_end_def Let_def split: result.splits)

lemma stale_uplink_read: "stale cid sock v \<Longrightarrow> stale cid sock (uplink_read io k rd v)"
  by (auto simp: uplink_read_def Let_def intro: stale_uplink_end stale_pause dest!: vm_send_cases
      split: option.splits prod.splits uplink_pc.splits read_result.splits result.splits)

lemma vm_step_stale: "vm_step opts v v' \<Longrightarrow> stale cid sock v \<Longrightarrow> stale cid sock v'"
proof (induction rule: vm_step.induct)
  case (vm_checks v k)
  then show ?case by (auto simp: uplink_check_def split: option.splits prod.splits uplink_pc.splits)
next
  case (vm_pings v io)
  then show ?case by (auto simp: ping_turn_def Let_def split: prod.splits dest!: vm_send_cases)
qed (simp_all add: stale_session_frame stale_accept stale_uplink_read)

interpretation vm_stale: invariant_system "stale cid sock" "vm_step opts" "stale cid sock"
  by unfold_locales (auto intro: vm_step_stale)

lemma stale_after_eof:
  assumes "vm_inv v" "uplinks v cid = Some (st, AtRead)" "\<not> closed v cid" "writers v cid = Some sock"
  shows "stale cid sock (uplink_read io cid ReadEof v)"
  using assms
  by (auto simp: uplink_read_def uplink_end_def Let_def stale_def vm_inv_def close_id_def)

lemma stop_retires: "stop (foldl (\<lambda>v k. snd (retire io k b v)) v ks) = stop v"
proof (induction ks arbitrary: v)
  case (Cons k ks)
  have "stop (snd (retire io k b v)) = stop v"
    by (auto simp: retire_def Let_def split: vm_step_splits dest!: vm_send_cases)
  with Cons show ?case by simp
qed simp

lemma stop_pause: "stop (pause io v)"
  by (simp add: pause_def Let_def stop_retires)

section \<open>Properties\<close>

text \<open>An environment in which every operation succeeds.\<close>

definition calm_io :: io_env where
  "calm_io = \<lparr>ctrl_ok = (\<lambda>_. True), sock_ok = True, clone_ok = True, bind_ok = True,
     dial = (\<lambda>port. Some (unat port)), nodelay_ok = True, clock_ms = 0, clock_secs = 0,
     key_order = sorted_list_of_set\<rparr>"

definition smtp_opts :: vm_opts where
  "smtp_opts = \<lparr>opt_public = 0, advertise_port = 25, opt_tx_bytes = 0, quota_override = False\<rparr>"

text \<open>A session after HELLO, after accepting one connection, and after its confirmation.\<close>

definition hello_session :: vm where
  "hello_session = (vm_session_start smtp_opts calm_io)
     \<lparr>hello := \<lparr>seen = True\<rparr>, to_mac := [HelloOk 0 QuotaOpen 1970 1],
      lines := [''forwarding''], accepting := True, forwarding := True\<rparr>"

definition accepted_session :: vm where
  "accepted_session = hello_session
     \<lparr>ids := \<lparr>next_id = 2, open_ids = {1}\<rparr>, waiting := (\<lambda>c. if c = 1 then Some 5 else None),
      to_mac := [HelloOk 0 QuotaOpen 1970 1, Open 1 25 4000 (Ipv4 192 0 2 1)]\<rparr>"

definition live_session :: vm where
  "live_session = accepted_session
     \<lparr>waiting := (\<lambda>_. None), writers := (\<lambda>c. if c = 1 then Some 5 else None),
      uplinks := (\<lambda>c. if c = 1 then Some (5, AtCheck) else None)\<rparr>"

lemmas session_defs = hello_session_def accepted_session_def live_session_def smtp_opts_def
  calm_io_def vm_session_start_def new_ids_def new_meter_def

lemma utc_epoch: "utc_year_month 0 = (1970, 1)"
proof -
  have "719468 mod 146097 = (135080 :: nat)"
    "(135080 - 135080 div 1460 + 135080 div 36524 - 135080 div 146096) div 365 = (369 :: nat)"
    "135080 - (365 * 369 + 369 div 4 - 369 div 100) = (306 :: nat)" by simp_all
  then have "civil 0 = (1970, 1, 1)" unfolding civil_def Let_def by (simp only: add_0) simp
  then show ?thesis by (simp add: utc_year_month_civil)
qed

lemma to_hello_session:
  "vm_session_frame calm_io smtp_opts Hello (vm_session_start smtp_opts calm_io) = (Ok (), hello_session)"
  by (simp add: vm_session_frame_def answer_hello_def session_defs observe_def new_hello_def utc_epoch
      vm_send_def ctrl_send_def encode_def meter_state_def data_allowed_def PAUSE_AT_value)

lemma to_accepted_session:
  "accept_turn calm_io 25 (Accepted 5 True (Some (Ipv4 192 0 2 1, 4000))) hello_session = accepted_session"
  by (simp add: accept_turn_def session_defs alloc_def checked_add_def MAX_CONNS_def Let_def
      vm_send_def ctrl_send_def encode_def data_allowed_def PAUSE_AT_value fun_eq_iff)

lemma to_live_session:
  "vm_session_frame calm_io smtp_opts (OpenOk 1) accepted_session = (Ok (), live_session)"
  by (simp add: vm_session_frame_def on_vm_frame_def require_open_def start_uplink_def session_defs fun_eq_iff)

lemma vm_reads_to:
  "reach st (vm_step opts) v \<Longrightarrow> is_ok (encode f) \<Longrightarrow> vm_session_frame io opts f v = (r, v') \<Longrightarrow>
     reach st (vm_step opts) v'"
  by (erule reach_step) (metis snd_conv vm_reads)

lemma live_session_reach: "reach (vm_start smtp_opts) (vm_step smtp_opts) live_session"
proof -
  have "reach (vm_start smtp_opts) (vm_step smtp_opts) hello_session"
    by (rule vm_reads_to [OF reach_start _ to_hello_session]) (auto simp: vm_start_def encode_def)
  then have "reach (vm_start smtp_opts) (vm_step smtp_opts) accepted_session"
    using vm_accepts [of smtp_opts hello_session calm_io] to_accepted_session
    by (metis reach_step smtp_opts_def vm_opts.select_convs(2))
  then show ?thesis
    by (rule vm_reads_to [OF _ _ to_live_session]) (simp add: encode_def)
qed

text \<open>C17: in every reachable state of a VM session, whatever the peer sends and however the threads
  interleave, the meter equals the bytes it started with plus every payload byte forwarded in either
  direction, saturating at the 64-bit maximum.\<close>

theorem vm_meter_accounts:
  assumes "reach (vm_start opts) (vm_step opts) v"
  shows "unat (meter_tx (quota v)) = min (unat (opt_tx_bytes opts) + forwarded v) (2 ^ 64 - 1)"
  using vm_meter.reach_invar [OF assms] by (simp add: accounted_def)

theorem vm_meter_accounts_witness:
  "\<exists>v. vm_session_frame calm_io smtp_opts (Data 1 [65, 66]) live_session = (Ok (), v) \<and>
     meter_tx (quota v) = 2 \<and> forwarded v = 2"
proof -
  define v where "v = snd (vm_session_frame calm_io smtp_opts (Data 1 [65, 66]) live_session)"
  have run: "vm_session_frame calm_io smtp_opts (Data 1 [65, 66]) live_session = (Ok (), v)"
    by (simp add: v_def vm_session_frame_def on_vm_frame_def require_open_def session_defs
        data_allowed_def PAUSE_AT_value note_tx_def saturating_add_def)
  have "reach (vm_start smtp_opts) (vm_step smtp_opts) v"
    by (rule vm_reads_to [OF live_session_reach _ run]) (simp add: encode_def MAX_DATA_PAYLOAD_def)
  from vm_meter_accounts [OF this] have "unat (meter_tx (quota v)) = min (forwarded v) (2 ^ 64 - 1)"
    by (simp add: smtp_opts_def)
  moreover have "meter_tx (quota v) = 2"
    by (simp add: v_def vm_session_frame_def on_vm_frame_def require_open_def session_defs
        data_allowed_def PAUSE_AT_value note_tx_def saturating_add_def)
  ultimately show ?thesis using run by (auto simp: min_def split: if_splits)
qed

text \<open>In every reachable state of a VM session at most 64 ids are open, every socket that waits
  for the Mac's answer belongs to an open id, and no such socket is already spliced or read by an
  uplink.\<close>

theorem vm_sockets_consistent:
  assumes "reach (vm_start opts) (vm_step opts) v"
  shows "open_count (ids v) \<le> 64 \<and> dom (waiting v) \<subseteq> open_ids (ids v) \<and>
    dom (waiting v) \<inter> (dom (writers v) \<union> dom (uplinks v)) = {}"
  using vm_sys.reach_invar [OF assms] by (simp add: vm_inv_def ids_inv_def MAX_CONNS_def)

theorem vm_sockets_consistent_witness:
  "open_ids (ids live_session) = {1} \<and> open_count (ids live_session) \<le> 64"
  using vm_sockets_consistent [OF live_session_reach] by (simp add: session_defs)



text \<open>An uplink that passed its check before the pause line was reached still forwards the frame
  it reads afterwards: every uplink blocked in a read may cross the line with one frame, not one frame
  in all.\<close>

theorem late_uplink_crosses_line:
  assumes "uplinks v cid = Some (st, AtRead)" "length bs \<le> 16384" "ctrl_ok io (Data cid bs)"
    and "\<not> data_allowed (quota v)"
  shows "forwarded (uplink_read io cid (ReadBytes bs) v) = forwarded v + length bs"
proof -
  obtain q where q: "note_tx (quota v) (of_nat (length bs)) = (q, True)"
    using note_tx_paused [OF assms(4), of "of_nat (length bs)"] snd_note_tx [of "quota v" "of_nat (length bs)"]
    by (cases "note_tx (quota v) (of_nat (length bs))") auto
  define v1 where "v1 = v\<lparr>to_mac := to_mac v @ [Data cid bs], quota := q\<rparr>"
  have "uplink_read io cid (ReadBytes bs) v = (pause io v1)\<lparr>uplinks := (uplinks (pause io v1))(cid := None)\<rparr>"
    using assms q by (simp add: uplink_read_def vm_send_def ctrl_send_def encode_def
        MAX_DATA_PAYLOAD_def v1_def Let_def)
  moreover have "forwarded (u\<lparr>uplinks := x\<rparr>) = forwarded u" for u x
    by (simp add: forwarded_def)
  ultimately show ?thesis
    by (simp add: quiet_forwarded [OF quiet_pause] v1_def) (simp add: forwarded_def)
qed

theorem late_uplink_crosses_line_witness:
  "forwarded (uplink_read calm_io 1 (ReadBytes [65])
     (live_session\<lparr>uplinks := (\<lambda>c. if c = 1 then Some (5, AtRead) else None),
        quota := new_meter PAUSE_AT False\<rparr>)) = 1"
  using late_uplink_crosses_line [of "live_session\<lparr>uplinks := (\<lambda>c. if c = 1 then Some (5, AtRead) else None),
        quota := new_meter PAUSE_AT False\<rparr>" 1 5 "[65]" calm_io]
  by (simp add: session_defs data_allowed_def forwarded_def)

text \<open>When the public client closes first, the uplink closes the id but leaves the socket among the
  writers, and no later step of the session ever removes it: the socket stays open until the session
  ends.\<close>

theorem client_eof_leaks_socket:
  assumes "reach (vm_start opts) (vm_step opts) v"
    and "uplinks v cid = Some (st, AtRead)" "\<not> closed v cid" "writers v cid = Some sock"
    and "reach (\<lambda>u. u = uplink_read io cid ReadEof v) (vm_step opts) v'"
  shows "writers v' cid = Some sock"
proof -
  have "stale cid sock (uplink_read io cid ReadEof v)"
    by (rule stale_after_eof [OF vm_sys.reach_invar [OF assms(1)] assms(2-4)])
  with assms(5) have "reach (stale cid sock) (vm_step opts) v'"
    by (induction rule: reach.induct) (auto intro: reach_start reach_step)
  from vm_stale.reach_invar [OF this] show ?thesis by (simp add: stale_def)
qed

theorem client_eof_leaks_socket_witness:
  "writers (uplink_read calm_io 1 ReadEof (uplink_check 1 live_session)) 1 = Some 5"
proof -
  have "reach (vm_start smtp_opts) (vm_step smtp_opts) (uplink_check 1 live_session)"
    by (rule reach_step [OF live_session_reach vm_checks])
  moreover have "uplinks (uplink_check 1 live_session) 1 = Some (5, AtRead)"
    "\<not> closed (uplink_check 1 live_session) 1" "writers (uplink_check 1 live_session) 1 = Some 5"
    by (simp_all add: uplink_check_def session_defs data_allowed_def PAUSE_AT_value)
  ultimately show ?thesis
    by (rule client_eof_leaks_socket [where io = calm_io]) (rule reach_start, simp)
qed

end
