(* ===== verification/Edge_Tunnel.thy ===== *)
theory Edge_Tunnel
  imports Edge_Vm
begin

text \<open>
  Both ends of the tunnel and the two FIFO directions of the control connection: the frames
  one side has written and the other has not read. By the round trip of the frame layer the
  byte streams in between carry exactly these frames. The id handshake is shown to be safe:
  an OPEN always carries the id the Mac expects, and its answer always finds the socket that
  waits for it.
\<close>

section \<open>The joint system\<close>

record tunnel =
  tvm :: vm
  tmac :: mac
  vm_reading :: bool
  mac_reading :: bool

text \<open>Steps of the VM's other threads, and of the Mac's.\<close>

inductive vm_local :: "vm_opts \<Rightarrow> vm \<Rightarrow> vm \<Rightarrow> bool" for opts :: vm_opts where
  local_accept: "vm_local opts v (accept_turn io (advertise_port opts) a v)"
| local_check: "vm_local opts v (uplink_check cid v)"
| local_uplink: "lists_keys io \<Longrightarrow> vm_local opts v (uplink_read io cid rd v)"
| local_ping: "vm_local opts v (snd (ping_turn io v))"
| local_end: "vm_local opts v (v\<lparr>stop := True\<rparr>)"

inductive mac_local :: "mac \<Rightarrow> mac \<Rightarrow> bool" where
  mac_check: "mac_local m (mac_uplink_check cid m)"
| mac_uplink: "mac_local m (mac_uplink_read io cid rd m)"
| mac_ping: "mac_local m (snd (mac_ping_turn io m))"

text \<open>A side that fails on a frame reads no further frame; its other threads go on.\<close>

inductive tunnel_step :: "vm_opts \<Rightarrow> proxy_encoder \<Rightarrow> ipv4 \<Rightarrow> tunnel \<Rightarrow> tunnel \<Rightarrow> bool"
  for opts :: vm_opts and enc :: proxy_encoder and public_ipv4 :: ipv4 where
  vm_moves: "vm_local opts (tvm t) v' \<Longrightarrow> tunnel_step opts enc public_ipv4 t (t\<lparr>tvm := v'\<rparr>)"
| mac_moves: "mac_local (tmac t) m' \<Longrightarrow> tunnel_step opts enc public_ipv4 t (t\<lparr>tmac := m'\<rparr>)"
| vm_receives:
    "vm_reading t \<Longrightarrow> to_vm (tmac t) = f # fs \<Longrightarrow> lists_keys io \<Longrightarrow>
     vm_session_frame io opts f (tvm t) = (r, v') \<Longrightarrow>
     tunnel_step opts enc public_ipv4 t
       (t\<lparr>tvm := v', tmac := (tmac t)\<lparr>to_vm := fs\<rparr>, vm_reading := is_ok r\<rparr>)"
| mac_receives:
    "mac_reading t \<Longrightarrow> to_mac (tvm t) = f # fs \<Longrightarrow>
     on_mac_frame io enc public_ipv4 f (tmac t) = (r, m') \<Longrightarrow>
     tunnel_step opts enc public_ipv4 t
       (t\<lparr>tvm := (tvm t)\<lparr>to_mac := fs\<rparr>, tmac := m', mac_reading := is_ok r\<rparr>)"

definition tunnel_start :: "vm_opts \<Rightarrow> tunnel \<Rightarrow> bool" where
  "tunnel_start opts t \<longleftrightarrow>
     (\<exists>io io' m. serve_mac_start io' = (Ok (), m) \<and>
       t = \<lparr>tvm = vm_session_start opts io, tmac = m, vm_reading = True, mac_reading = True\<rparr>)"

section \<open>Frames and ids\<close>

fun conn_of :: "frame \<Rightarrow> u64 option" where
  "conn_of (Open c _ _ _) = Some c"
| "conn_of (OpenOk c) = Some c"
| "conn_of (OpenFail c _) = Some c"
| "conn_of (Data c _) = Some c"
| "conn_of (Close c _) = Some c"
| "conn_of _ = None"

fun is_reply :: "frame \<Rightarrow> bool" where
  "is_reply (OpenOk _) = True"
| "is_reply (OpenFail _ _) = True"
| "is_reply _ = False"

text \<open>No frame of a connection precedes the answer to its OPEN.\<close>

fun reply_first :: "frame list \<Rightarrow> bool" where
  "reply_first [] = True"
| "reply_first (f # fs) =
     ((\<forall>g \<in> set fs. is_reply g \<longrightarrow> conn_of g \<noteq> conn_of f) \<and> reply_first fs)"

lemma reply_has_conn: "is_reply f \<Longrightarrow> \<exists>c. conn_of f = Some c"
  by (cases f) auto

lemma reply_first_snoc:
  "reply_first fs \<Longrightarrow> (\<forall>f \<in> set fs. is_reply g \<longrightarrow> conn_of g \<noteq> conn_of f) \<Longrightarrow> reply_first (fs @ [g])"
  by (induction fs) auto

section \<open>What the VM does to the handshake\<close>

text \<open>
  \<open>calm c v v'\<close>: no id is handed out, no OPEN is written, only the waiting socket of
  \<open>c\<close> may go, and accepting starts only with the first HELLO.
\<close>

definition calm :: "u64 option \<Rightarrow> vm \<Rightarrow> vm \<Rightarrow> bool" where
  "calm c v v' \<longleftrightarrow> next_id (ids v') = next_id (ids v) \<and>
     (\<exists>xs. to_mac v' = to_mac v @ xs \<and> opens xs = []) \<and>
     (\<forall>k. c \<noteq> Some k \<longrightarrow> waiting v' k = waiting v k) \<and>
     (seen (hello v) \<longrightarrow> seen (hello v')) \<and> (accepting v' \<longrightarrow> accepting v \<or> \<not> seen (hello v))"

lemma calm_refl [simp]: "calm c v v"
  by (simp add: calm_def)

lemma calm_trans: "calm c u v \<Longrightarrow> calm c v w \<Longrightarrow> calm c u w"
  by (auto simp: calm_def)

lemma quiet_calm: "quiet v v' \<Longrightarrow> (\<forall>k. c \<noteq> Some k \<longrightarrow> waiting v' k = waiting v k) \<Longrightarrow> calm c v v'"
  by (auto simp: quiet_def calm_def)

lemma calm_send: "\<not> is_open f \<Longrightarrow> calm c v (snd (vm_send io f v))"
  using vm_send_cases [of io f v "fst (vm_send io f v)" "snd (vm_send io f v)"]
  by (auto simp: calm_def opens_Cons)

lemma calm_retire: "calm (Some cid) v (snd (retire io cid b v))"
  using retire_fields(6) [of io cid b v] by (intro quiet_calm quiet_retire) auto

lemma retires_waiting:
  "\<forall>k \<in> set ks. waiting v k = None \<Longrightarrow> waiting (foldl (\<lambda>v k. snd (retire io k b v)) v ks) = waiting v"
proof (induction ks arbitrary: v)
  case (Cons k ks)
  have "waiting (snd (retire io k b v)) = waiting v"
    using retire_fields(6) [of io k b v] Cons.prems by auto
  with Cons show ?case by simp
qed simp

lemma pause_waiting: "vm_inv v \<Longrightarrow> lists_keys io \<Longrightarrow> waiting (pause io v) = waiting v"
  using retires_waiting [of "key_order io (dom (writers v))" "v\<lparr>stop := True\<rparr>" io True]
  by (auto simp: pause_def Let_def lists_keys_def vm_inv_def) 

lemma calm_pause: "vm_inv v \<Longrightarrow> lists_keys io \<Longrightarrow> calm c v (pause io v)"
  by (rule quiet_calm [OF quiet_pause]) (simp add: pause_waiting)

lemma calm_fields [simp]:
  "calm c v (v\<lparr>stop := x1\<rparr>)" "calm c v (v\<lparr>uplinks := x2\<rparr>)" "calm c v (v\<lparr>last_pong := x3\<rparr>)"
  "calm c v (v\<lparr>quota := x4\<rparr>)" "calm c v (v\<lparr>delivered := x5\<rparr>)" "calm c v (v\<lparr>accepting := False\<rparr>)"
  "calm c v (v\<lparr>forwarding := x6\<rparr>)" "calm c v (v\<lparr>stop := x7, ctrl_down := x8\<rparr>)"
  "calm c v (v\<lparr>delivered := x9, quota := x10\<rparr>)"
  by (simp_all add: calm_def)

lemma calm_frame:
  assumes "vm_inv v" "lists_keys io"
  shows "calm (conn_of f) v (snd (on_vm_frame io f v))"
proof (cases f)
  case (Data cid pl)
  have "calm (Some cid) (v\<lparr>delivered := d, quota := q\<rparr>) (pause io (v\<lparr>delivered := d, quota := q\<rparr>))" for d q
    by (rule calm_pause) (use assms in simp_all)
  then have "calm (Some cid) v (pause io (v\<lparr>delivered := d, quota := q\<rparr>))" for d q
    using calm_trans calm_fields(9) by blast
  then show ?thesis
    using assms Data by (auto simp: on_vm_frame_def Let_def intro: calm_pause split: result.splits option.splits prod.splits)
next
  case (Close cid r)
  then show ?thesis by (simp add: on_vm_frame_def calm_retire)
next
  case Hello
  then show ?thesis
    by (auto simp: on_vm_frame_def observe_def calm_def split: result.splits)
qed (auto simp: on_vm_frame_def start_uplink_def calm_send close_Ok_iff calm_def [of "Some _"]
    split: result.splits option.splits)

lemma answer_hello_out:
  "\<exists>xs. to_mac (snd (answer_hello io opts v)) = to_mac v @ xs \<and> opens xs = []"
  by (auto simp: answer_hello_def Let_def opens_Cons split: vm_step_splits dest!: vm_send_cases)

lemma calm_session_frame:
  assumes "vm_inv v" "lists_keys io"
  shows "calm (conn_of f) v (snd (vm_session_frame io opts f v))"
proof (rule vm_session_frame_rule [of "calm (conn_of f) v"])
  fix h assume "observe (hello v) = Ok h"
  then have "\<not> seen (hello v)" "seen h"
    by (auto simp: observe_def split: if_splits)
  with answer_hello_out [of io opts "v\<lparr>hello := h\<rparr>"]
  show "calm (conn_of f) v (snd (answer_hello io opts (v\<lparr>hello := h\<rparr>)))"
    by (simp add: calm_def answer_hello_fields)
qed (use assms in \<open>auto intro: calm_frame calm_trans [OF _ calm_fields(7)]\<close>)

lemma calm_uplink_end: "calm c v (uplink_end io cid r v)"
  by (auto simp: uplink_end_def Let_def calm_def opens_Cons close_Ok_iff vm_send_def ctrl_send_def
      split: result.splits prod.splits if_splits)

lemma calm_uplink_read:
  assumes "vm_inv v" "lists_keys io"
  shows "calm c v (uplink_read io cid rd v)"
proof (cases rd)
  case (ReadBytes bs)
  have sent: "calm c v (v\<lparr>to_mac := to_mac v @ [Data cid bs], quota := q\<rparr>)" for q
    by (simp add: calm_def opens_Cons)
  have "calm c v (pause io (v\<lparr>to_mac := to_mac v @ [Data cid bs], quota := q\<rparr>))" for q
    by (rule calm_trans [OF sent calm_pause]) (use assms in simp_all)
  with sent show ?thesis
    using ReadBytes
    by (auto simp: uplink_read_def Let_def intro: calm_trans [OF _ calm_fields(2)] dest!: vm_send_cases
        split: option.splits prod.splits uplink_pc.splits result.splits)
qed (auto simp: uplink_read_def Let_def intro: calm_trans [OF calm_uplink_end calm_fields(2)]
    split: option.splits prod.splits uplink_pc.splits)

text \<open>An accept that hands out an id: the socket waits, and its OPEN is written unless accepting ends.\<close>

definition opened :: "vm \<Rightarrow> vm \<Rightarrow> bool" where
  "opened v v' \<longleftrightarrow> accepting v \<and> unat (next_id (ids v')) = Suc (unat (next_id (ids v))) \<and>
     hello v' = hello v \<and> (\<exists>s. waiting v' = (waiting v)(next_id (ids v) := Some s)) \<and>
     (opens (to_mac v') = opens (to_mac v) @ [next_id (ids v)] \<and> accepting v' \<or>
      to_mac v' = to_mac v \<and> \<not> accepting v')"

lemma accept_calm_or_opened: "calm c v (accept_turn io port a v) \<or> opened v (accept_turn io port a v)"
proof (cases "accepting v \<and> \<not> stop v \<and> data_allowed (quota v) \<and>
    (\<exists>st ip src w cid. a = Accepted st True (Some (ip, src)) \<and> alloc (ids v) = Ok (w, cid))")
  case True
  then obtain st ip src w cid where
    t: "accepting v" "\<not> stop v" "data_allowed (quota v)" "a = Accepted st True (Some (ip, src))"
    "alloc (ids v) = Ok (w, cid)" by blast
  define v1 where "v1 = v\<lparr>ids := w, waiting := (waiting v)(cid := Some st)\<rparr>"
  obtain r v2 where send: "vm_send io (Open cid port src ip) v1 = (r, v2)" by fastforce
  have "accept_turn io port a v = (if is_ok r then v2 else v2\<lparr>accepting := False\<rparr>)"
    using t send by (simp add: accept_turn_def v1_def)
  moreover have "cid = next_id (ids v)" "unat (next_id w) = Suc (unat (next_id (ids v)))"
    using t(5) by (auto simp: alloc_Ok_iff dest!: unat_next)
  ultimately show ?thesis
    using t(1) vm_send_cases [OF send] by (auto simp: opened_def v1_def opens_Cons)
next
  case False
  then have "accept_turn io port a v = v \<or> accept_turn io port a v = v\<lparr>accepting := False\<rparr>"
    by (auto simp: accept_turn_def split: accept_result.splits option.splits result.splits)
  then show ?thesis by auto
qed

lemma vm_local_cases:
  "vm_local opts v v' \<Longrightarrow> vm_inv v \<Longrightarrow> calm None v v' \<or> opened v v'"
proof (induction rule: vm_local.induct)
  case (local_accept v io a)
  show ?case by (rule accept_calm_or_opened)
next
  case (local_check v cid)
  then show ?case by (auto simp: uplink_check_def split: option.splits prod.splits uplink_pc.splits)
next
  case (local_uplink io v cid rd)
  then show ?case by (simp add: calm_uplink_read)
next
  case (local_ping v io)
  then show ?case
    by (auto simp: ping_turn_def Let_def split: prod.splits)
      (metis calm_send is_open.simps(4) snd_conv)
qed simp

lemma vm_local_inv: "vm_local opts v v' \<Longrightarrow> vm_inv v \<Longrightarrow> vm_inv v'"
  by (induction rule: vm_local.induct)
    (simp_all add: vm_inv_accept vm_inv_uplink_check vm_inv_uplink_read vm_inv_ping)

section \<open>What the Mac does to the handshake\<close>

text \<open>
  \<open>mac_calm m m'\<close>: no id is admitted; what is written answers no OPEN and belongs to a
  connection with an uplink, if to any.
\<close>

definition mac_calm :: "mac \<Rightarrow> mac \<Rightarrow> bool" where
  "mac_calm m m' \<longleftrightarrow> next_id (mac_ids m') = next_id (mac_ids m) \<and>
     dom (mac_uplinks m') \<subseteq> dom (mac_uplinks m) \<and>
     (\<exists>xs. to_vm m' = to_vm m @ xs \<and>
       (\<forall>f \<in> set xs. \<not> is_reply f \<and> (\<forall>c. conn_of f = Some c \<longrightarrow> c \<in> dom (mac_uplinks m))))"

lemma mac_send_cases:
  "mac_send io f m = (r, m') \<Longrightarrow>
     (r = Ok () \<and> m' = m\<lparr>to_vm := to_vm m @ [f]\<rparr> \<or> (r = Err Io \<or> (\<exists>e. r = Err (Protocol e) \<and> encode f = Err e) \<or>
      r = Panic \<and> encode f = Panic) \<and> m' = m)"
  by (auto simp: mac_send_def ctrl_send_def split: result.splits if_splits)

lemma mac_local_calm: "mac_local m m' \<Longrightarrow> mac_calm m m'"
  by (induction rule: mac_local.induct)
    (auto simp: mac_uplink_check_def mac_uplink_read_def mac_uplink_end_def mac_ping_turn_def
      mac_calm_def Let_def mac_send_def ctrl_send_def
      split: option.splits prod.splits uplink_pc.splits read_result.splits result.splits if_splits)

lemma mac_frame_calm:
  "\<not> is_open f \<Longrightarrow> mac_calm m (snd (on_mac_frame io enc ip f m))"
  by (cases f)
    (auto simp: on_mac_frame_def mac_calm_def close_Ok_iff mac_send_def ctrl_send_def
      split: option.splits prod.splits result.splits if_splits)

text \<open>An OPEN with the expected id is admitted and answered unless I/O or the PROXY encoder fails.\<close>

definition answered :: "u64 \<Rightarrow> mac \<Rightarrow> (unit, edge_error) result \<times> mac \<Rightarrow> bool" where
  "answered cid m res \<longleftrightarrow>
     (case res of (r, m') \<Rightarrow>
        dom (mac_uplinks m') \<subseteq> insert cid (dom (mac_uplinks m)) \<and>
        next_id (mac_ids m') = next_id (mac_ids m) \<and>
        (to_vm m' = to_vm m \<or> (\<exists>g. to_vm m' = to_vm m @ [g] \<and> is_reply g \<and> conn_of g = Some cid)) \<and>
        (r = Ok () \<or> r = Err Io \<or> r = Err (Protocol Proxy)))"

lemma answered_send:
  "is_reply g \<Longrightarrow> conn_of g = Some cid \<Longrightarrow> answered cid m (mac_send io g m)"
  by (cases g) (auto simp: answered_def mac_send_def ctrl_send_def encode_def split: if_splits)

lemma answered_refuse:
  "cid \<in> open_ids (mac_ids m) \<Longrightarrow> answered cid m (mac_refuse io cid reason m)"
  by (auto simp: answered_def mac_refuse_def close_id_def mac_send_def ctrl_send_def encode_def
      split: if_splits)

lemma answered_splice: "answered cid m (mac_splice io enc ip cid port src a sock m)"
  by (auto simp: answered_def mac_splice_def mac_send_def ctrl_send_def encode_def encode_proxy_v2_def
      ok_or_def split: if_splits option.splits)

lemma open_on_mac_expected:
  assumes "cid = next_id (mac_ids m)" "unat cid + 1 < 2 ^ 64"
  shows "\<exists>w. unat (next_id w) = Suc (unat cid) \<and>
    answered cid (m\<lparr>mac_ids := w\<rparr>) (open_on_mac io enc ip cid port src a m)"
proof -
  have "checked_add (next_id (mac_ids m)) 1 = Some (cid + 1)"
    using assms by (simp add: checked_add_def)
  then obtain w ad where admit: "admit_id (mac_ids m) cid = Ok (w, ad)" "unat (next_id w) = Suc (unat cid)"
      "ad = Opened \<longrightarrow> cid \<in> open_ids w"
    using assms unat_next [of "next_id (mac_ids m)" "cid + 1"]
    by (cases "open_count (mac_ids m) < MAX_CONNS") (auto simp: admit_Ok_iff)
  then have "answered cid (m\<lparr>mac_ids := w\<rparr>) (open_on_mac io enc ip cid port src a m)"
    by (cases ad) (auto simp: open_on_mac_def answered_send answered_refuse answered_splice split: option.splits)
  with admit(2) show ?thesis by blast
qed

section \<open>The handshake invariant\<close>

text \<open>
  The OPENs in flight carry consecutive ids from the one the Mac expects; while the VM accepts
  (or has not started to) they reach up to the next id it hands out. Each of their sockets
  waits, as does the socket of every answer in flight, and everything else the Mac has written
  belongs to ids it has admitted.
\<close>

definition opens_consecutive :: "vm \<Rightarrow> mac \<Rightarrow> bool" where
  "opens_consecutive v m \<longleftrightarrow>
     (\<exists>e. unat (next_id (mac_ids m)) \<le> e \<and> e \<le> unat (next_id (ids v)) \<and>
        map unat (opens (to_mac v)) = [unat (next_id (mac_ids m))..<e] \<and>
        (accepting v \<or> \<not> seen (hello v) \<longrightarrow> e = unat (next_id (ids v))))"

definition handshake :: "tunnel \<Rightarrow> bool" where
  "handshake t \<longleftrightarrow> vm_inv (tvm t) \<and>
     (mac_reading t \<longrightarrow> opens_consecutive (tvm t) (tmac t) \<and>
        set (opens (to_mac (tvm t))) \<subseteq> dom (waiting (tvm t))) \<and>
     (vm_reading t \<longrightarrow>
        (\<forall>f \<in> set (to_vm (tmac t)). is_reply f \<longrightarrow> conn_id f \<in> dom (waiting (tvm t)))) \<and>
     reply_first (to_vm (tmac t)) \<and>
     (\<forall>f \<in> set (to_vm (tmac t)). \<forall>c. conn_of f = Some c \<longrightarrow> unat c < unat (next_id (mac_ids (tmac t)))) \<and>
     (\<forall>c \<in> dom (mac_uplinks (tmac t)). unat c < unat (next_id (mac_ids (tmac t))))"

lemma reply_conn: "is_reply f \<Longrightarrow> conn_of f = Some (conn_id f)"
  by (cases f) auto

lemma opens_consecutive_calm:
  "opens_consecutive v m \<Longrightarrow> calm c v v' \<Longrightarrow> next_id (mac_ids m') = next_id (mac_ids m) \<Longrightarrow>
    opens_consecutive v' m'"
  by (auto simp: opens_consecutive_def calm_def)

lemma opens_consecutive_ids:
  "opens_consecutive v m \<Longrightarrow> k \<in> set (opens (to_mac v)) \<Longrightarrow> unat (next_id (mac_ids m)) \<le> unat k"
proof -
  assume "opens_consecutive v m" and k: "k \<in> set (opens (to_mac v))"
  then obtain e where "map unat (opens (to_mac v)) = [unat (next_id (mac_ids m))..<e]"
    by (auto simp: opens_consecutive_def)
  then have "unat ` set (opens (to_mac v)) = {unat (next_id (mac_ids m))..<e}"
    by (metis set_map set_upt)
  with k show ?thesis by (metis atLeastLessThan_iff imageI)
qed

lemma handshake_calm:
  assumes "handshake t" "calm c (tvm t) v'" "vm_inv v'"
    and "\<And>k. c = Some k \<Longrightarrow> unat k < unat (next_id (mac_ids (tmac t)))"
    and "\<And>f. f \<in> set fs \<Longrightarrow> is_reply f \<Longrightarrow> conn_of f \<noteq> c"
    and "to_vm (tmac t) = gs @ fs" "reading \<longrightarrow> vm_reading t"
  shows "handshake (t\<lparr>tvm := v', tmac := (tmac t)\<lparr>to_vm := fs\<rparr>, vm_reading := reading\<rparr>)"
proof -
  have w: "c \<noteq> Some k \<Longrightarrow> waiting v' k = waiting (tvm t) k" for k
    using assms(2) by (simp add: calm_def)
  have same: "set (opens (to_mac v')) = set (opens (to_mac (tvm t)))"
    using assms(2) by (auto simp: calm_def)
  have "reply_first fs"
    using assms(1) unfolding handshake_def assms(6) by (induction gs) auto
  moreover have "c \<noteq> Some k" if "mac_reading t" "k \<in> set (opens (to_mac (tvm t)))" for k
    using that assms(1,4) opens_consecutive_ids [of "tvm t" "tmac t" k]
    by (force simp: handshake_def)
  moreover have "c \<noteq> Some (conn_id f)" if "f \<in> set fs" "is_reply f" for f
    using assms(5) [OF that] reply_conn [OF that(2)] by simp
  ultimately show ?thesis
    using assms(1,3,6,7) opens_consecutive_calm [OF _ assms(2)]
    by (auto simp: handshake_def same w)
qed

lemma handshake_opened:
  assumes "handshake t" "opened (tvm t) v'" "vm_inv v'"
  shows "handshake (t\<lparr>tvm := v'\<rparr>)"
proof -
  let ?v = "tvm t" and ?n = "next_id (ids (tvm t))"
  have opn: "accepting ?v" "unat (next_id (ids v')) = Suc (unat ?n)"
    "opens (to_mac v') = opens (to_mac ?v) @ [?n] \<and> accepting v' \<or> to_mac v' = to_mac ?v \<and> \<not> accepting v'"
    and w: "dom (waiting v') = insert ?n (dom (waiting ?v))"
    and h: "hello v' = hello ?v" "seen (hello ?v)"
    using assms(1,2) by (auto simp: opened_def handshake_def vm_inv_def split: if_splits)
  have "opens_consecutive v' (tmac t)" if "opens_consecutive ?v (tmac t)"
  proof -
    have m: "unat (next_id (mac_ids (tmac t))) \<le> unat ?n"
      "map unat (opens (to_mac ?v)) = [unat (next_id (mac_ids (tmac t)))..<unat ?n]"
      using that opn(1) by (auto simp: opens_consecutive_def)
    from opn(3) show ?thesis
    proof
      assume "opens (to_mac v') = opens (to_mac ?v) @ [?n] \<and> accepting v'"
      then show ?thesis
        using m opn(2) by (auto simp: opens_consecutive_def intro!: exI [of _ "Suc (unat ?n)"])
    next
      assume "to_mac v' = to_mac ?v \<and> \<not> accepting v'"
      then show ?thesis
        using m opn(2) h by (auto simp: opens_consecutive_def intro!: exI [of _ "unat ?n"])
    qed
  qed
  then show ?thesis
    using assms(1,3) opn(3) by (auto simp: handshake_def w simp del: domIff)
qed

lemma handshake_mac_calm:
  assumes "handshake t" "mac_calm (tmac t) m'"
    and "to_mac (tvm t) = gs @ fs" "opens gs = []" "reading \<longrightarrow> mac_reading t"
  shows "handshake (t\<lparr>tvm := (tvm t)\<lparr>to_mac := fs\<rparr>, tmac := m', mac_reading := reading\<rparr>)"
proof -
  obtain xs where xs: "to_vm m' = to_vm (tmac t) @ xs"
    "\<And>f c. f \<in> set xs \<Longrightarrow> \<not> is_reply f \<and> (conn_of f = Some c \<longrightarrow> c \<in> dom (mac_uplinks (tmac t)))"
    using assms(2) by (auto simp: mac_calm_def simp del: domIff)
  have next_same: "next_id (mac_ids m') = next_id (mac_ids (tmac t))" "dom (mac_uplinks m') \<subseteq> dom (mac_uplinks (tmac t))"
    using assms(2) by (auto simp: mac_calm_def)
  have up: "mac_uplinks m' c = Some p \<Longrightarrow> unat c < unat (next_id (mac_ids (tmac t)))" for c p
    using assms(1) next_same(2) unfolding handshake_def by blast
  have "reply_first (to_vm m')"
    using assms(1) xs(2) unfolding xs(1) handshake_def
    by (induction xs rule: rev_induct)
      (auto simp: append_assoc [symmetric] simp del: append_assoc intro!: reply_first_snoc)
  moreover have "opens (to_mac (tvm t)) = opens fs" using assms(3,4) by simp
  moreover from this have "opens_consecutive (tvm t) (tmac t) \<Longrightarrow> opens_consecutive ((tvm t)\<lparr>to_mac := fs\<rparr>) m'"
    using next_same by (simp add: opens_consecutive_def)
  ultimately show ?thesis
    using assms(1,5) xs next_same unfolding handshake_def
    by (auto simp: xs(1) dest: up simp del: domIff)
qed

lemma handshake_answered:
  assumes "handshake t" "mac_reading t" "to_mac (tvm t) = f # fs" "is_open f"
    and "on_mac_frame io enc ip f (tmac t) = (r, m')"
  shows "handshake (t\<lparr>tvm := (tvm t)\<lparr>to_mac := fs\<rparr>, tmac := m', mac_reading := is_ok r\<rparr>)"
    and "r = Ok () \<or> r = Err Io \<or> r = Err (Protocol Proxy)"
proof -
  let ?m = "tmac t" and ?v = "tvm t"
  obtain cid port src a where f: "f = Open cid port src a" using assms(4) by (cases f) auto
  obtain e where e: "e \<le> unat (next_id (ids ?v))" "unat (next_id (mac_ids ?m)) \<le> e"
    "map unat (opens (to_mac ?v)) = [unat (next_id (mac_ids ?m))..<e]"
    "accepting ?v \<or> \<not> seen (hello ?v) \<longrightarrow> e = unat (next_id (ids ?v))"
    using assms(1,2) by (auto simp: handshake_def opens_consecutive_def)
  have "unat (next_id (mac_ids ?m)) < e" "unat cid = unat (next_id (mac_ids ?m))"
    and rest: "map unat (opens fs) = [Suc (unat cid)..<e]"
    using e(2) e(3) [symmetric] assms(3) f by (auto simp: opens_Cons upt_eq_Cons_conv)
  then have cid: "cid = next_id (mac_ids ?m)" "unat cid < e"
    by (simp_all add: word_unat_eq_iff)
  have "unat cid + 1 < 2 ^ 64"
    using cid(2) e(1) unat_bound [of "next_id (ids ?v)"] by simp
  from open_on_mac_expected [OF cid(1) this, of io enc ip port src a] obtain w
    where w: "unat (next_id w) = Suc (unat cid)" "answered cid (?m\<lparr>mac_ids := w\<rparr>) (r, m')"
    using assms(5) f by (auto simp: on_mac_frame_def)
  have wait: "cid \<in> dom (waiting ?v)"
    using assms(1-3) f by (simp add: handshake_def opens_Cons)
  have up: "mac_uplinks m' c = Some p \<Longrightarrow> unat c \<noteq> unat cid \<Longrightarrow> unat c < unat cid" for c p
  proof -
    assume "mac_uplinks m' c = Some p" "unat c \<noteq> unat cid"
    then have "c \<in> dom (mac_uplinks ?m)" using w(2) by (auto simp: answered_def)
    then show "unat c < unat cid" using assms(1) unfolding cid(1) handshake_def by blast
  qed
  have old: "\<forall>g \<in> set (to_vm ?m). conn_of g \<noteq> Some cid"
    using assms(1) cid(1) by (auto simp: handshake_def)
  have out: "g \<in> set (to_vm m') \<Longrightarrow> g \<in> set (to_vm ?m) \<or> is_reply g \<and> conn_of g = Some cid" for g
    using w(2) by (auto simp: answered_def)
  have "opens_consecutive (?v\<lparr>to_mac := fs\<rparr>) m'"
    using w e cid(2) rest by (auto simp: opens_consecutive_def answered_def intro!: exI [of _ e])
  moreover have "reply_first (to_vm m')"
    using w(2) assms(1) old by (auto simp: answered_def handshake_def intro!: reply_first_snoc)
  moreover have "vm_reading t \<Longrightarrow> \<forall>g \<in> set (to_vm m'). is_reply g \<longrightarrow> conn_id g \<in> dom (waiting ?v)"
  proof (intro ballI impI)
    fix g assume g: "vm_reading t" "g \<in> set (to_vm m')" "is_reply g"
    from out [OF g(2)] show "conn_id g \<in> dom (waiting ?v)"
      using assms(1) g wait reply_conn [OF g(3)] unfolding handshake_def by (elim disjE conjE) simp_all
  qed
  moreover have "\<forall>g \<in> set (to_vm m'). \<forall>c. conn_of g = Some c \<longrightarrow> unat c < unat (next_id (mac_ids m'))"
    using out assms(1) w cid(1) by (fastforce simp: handshake_def answered_def less_Suc_eq)
  moreover have "\<forall>c \<in> dom (mac_uplinks m'). unat c < unat (next_id (mac_ids m'))"
    using up w by (auto simp: answered_def less_Suc_eq)
  moreover have "set (opens fs) \<subseteq> dom (waiting ?v)" "vm_inv ?v"
    using assms(1-3) f by (simp_all add: handshake_def opens_Cons)
  ultimately show "handshake (t\<lparr>tvm := ?v\<lparr>to_mac := fs\<rparr>, tmac := m', mac_reading := is_ok r\<rparr>)"
    by (simp add: handshake_def)
  show "r = Ok () \<or> r = Err Io \<or> r = Err (Protocol Proxy)"
    using w(2) by (simp add: answered_def)
qed

lemma handshake_step:
  assumes "tunnel_step opts enc ip t t'" "handshake t"
  shows "handshake t'"
  using assms
proof (induction rule: tunnel_step.induct)
  case (vm_moves t v')
  then have inv: "vm_inv (tvm t)" "vm_inv v'"
    by (auto simp: handshake_def intro: vm_local_inv)
  have "t\<lparr>tvm := v', tmac := (tmac t)\<lparr>to_vm := to_vm (tmac t)\<rparr>, vm_reading := vm_reading t\<rparr> = t\<lparr>tvm := v'\<rparr>"
    by simp
  with vm_local_cases [OF vm_moves(1) inv(1)] show ?case
    using handshake_opened [OF vm_moves(2) _ inv(2)]
      handshake_calm [OF vm_moves(2) _ inv(2), of None "to_vm (tmac t)" "[]" "vm_reading t"]
      reply_has_conn by auto
next
  case (mac_moves t m')
  have "t\<lparr>tvm := (tvm t)\<lparr>to_mac := to_mac (tvm t)\<rparr>, tmac := m', mac_reading := mac_reading t\<rparr> = t\<lparr>tmac := m'\<rparr>"
    by simp
  with handshake_mac_calm [OF mac_moves(2) mac_local_calm [OF mac_moves(1)], of "[]" "to_mac (tvm t)" "mac_reading t"]
  show ?case by simp
next
  case (vm_receives t f fs io r v')
  have inv: "vm_inv (tvm t)" using vm_receives.prems by (simp add: handshake_def)
  show ?case
  proof (rule handshake_calm [where c = "conn_of f" and gs = "[f]"])
    show "calm (conn_of f) (tvm t) v'" "vm_inv v'"
      using calm_session_frame [OF inv vm_receives(3)] vm_inv_session_frame [OF inv] vm_receives(4)
      by (metis snd_conv)+
  qed (use vm_receives in \<open>auto simp: handshake_def\<close>)
next
  case (mac_receives t f fs io r m')
  show ?case
  proof (cases "is_open f")
    case True
    then show ?thesis by (rule handshake_answered(1) [OF mac_receives(4,1,2) _ mac_receives(3)])
  next
    case False
    then have "mac_calm (tmac t) m'"
      using mac_frame_calm [of f "tmac t" io enc ip] mac_receives(3) by simp
    with False show ?thesis
      by (intro handshake_mac_calm [OF mac_receives(4), of _ "[f]"]) (auto simp: mac_receives opens_Cons)
  qed
qed

lemma handshake_start: "tunnel_start opts t \<Longrightarrow> handshake t"
  by (auto simp: tunnel_start_def serve_mac_start_def handshake_def opens_consecutive_def
      vm_session_start_def new_ids_def vm_inv_def ids_inv_def open_count_def new_hello_def
      dest!: mac_send_cases)

interpretation tunnel_sys: invariant_system "tunnel_start opts" "tunnel_step opts enc ip" handshake
  by unfold_locales (auto intro: handshake_start handshake_step)

section \<open>Connections the server closes\<close>

text \<open>
  One connection on the Mac side from its OPEN to the end of the stream from the mail server:
  the dial succeeds, the uplink starts, reads the end of the stream and sends CLOSE.
\<close>

definition server_closes :: "io_env \<Rightarrow> proxy_encoder \<Rightarrow> ipv4 \<Rightarrow> frame \<Rightarrow> mac \<Rightarrow> mac" where
  "server_closes io enc ip f m =
     mac_uplink_read io (conn_id f) ReadEof
       (mac_uplink_check (conn_id f) (snd (on_mac_frame io enc ip f m)))"

definition web_open :: "nat \<Rightarrow> frame" where
  "web_open k = Open (of_nat k) 80 4000 (Ipv4 192 0 2 1)"

fun closed_connections :: "io_env \<Rightarrow> proxy_encoder \<Rightarrow> ipv4 \<Rightarrow> nat \<Rightarrow> mac \<Rightarrow> mac" where
  "closed_connections io enc ip 0 m = m"
| "closed_connections io enc ip (Suc k) m =
     server_closes io enc ip (web_open (Suc k)) (closed_connections io enc ip k m)"

lemma loopback_80: "loopback_for 80 = Some 8088" "\<not> wants_proxy 80"
  by (simp_all add: loopback_for_def HELLO_PAIRS_def wants_proxy_def)

lemma server_closes_ids:
  assumes "mac_ids m = \<lparr>next_id = of_nat (Suc k), open_ids = of_nat ` {1..k}\<rparr>" "k < 64"
  shows "mac_ids (server_closes calm_io enc ip (web_open (Suc k)) m) =
    \<lparr>next_id = of_nat (Suc (Suc k)), open_ids = of_nat ` {1..Suc k}\<rparr>"
proof -
  have "card (of_nat ` {1..k} :: u64 set) \<le> k"
    using card_image_le [of "{1..k}" "of_nat :: nat \<Rightarrow> u64"] by simp
  moreover have "unat (of_nat (Suc k) :: u64) + 1 < 2 ^ 64"
    using assms(2) by (simp add: unat_of_nat del: of_nat_Suc)
  ultimately have "admit_id (mac_ids m) (of_nat (Suc k)) =
      Ok (\<lparr>next_id = of_nat (Suc (Suc k)), open_ids = of_nat ` {1..Suc k}\<rparr>, Opened)"
    using assms by (simp add: admit_id_def checked_add_def MAX_CONNS_def atLeastAtMostSuc_conv)
  then show ?thesis
    by (simp add: server_closes_def web_open_def on_mac_frame_def open_on_mac_def loopback_80 calm_io_def
        mac_splice_def mac_send_def ctrl_send_def encode_def mac_uplink_check_def mac_uplink_read_def
        mac_uplink_end_def Let_def)
qed

lemma closed_connections_ids:
  assumes "mac_ids m = new_ids" "k \<le> 64"
  shows "mac_ids (closed_connections calm_io enc ip k m) =
    \<lparr>next_id = of_nat (Suc k), open_ids = of_nat ` {1..k}\<rparr>"
  using assms(2)
proof (induction k)
  case 0
  then show ?case using assms(1) by (simp add: new_ids_def)
next
  case (Suc k)
  then show ?case by (simp only: closed_connections.simps) (rule server_closes_ids, simp_all)
qed

lemma vm_close_silent: "to_mac (snd (on_vm_frame io (Close cid r) v)) = to_mac v"
  by (auto simp: on_vm_frame_def retire_def Let_def split: option.splits result.splits)

section \<open>A concrete tunnel\<close>

text \<open>
  A run used by the witnesses: HELLO and its answer, one accepted connection, and the answer to
  its OPEN. The PROXY encoder is instantiated with one that writes a single byte.
\<close>

definition byte_proxy :: proxy_encoder where
  "byte_proxy source destination = Some [13]"

definition relay_ip :: ipv4 where
  "relay_ip = Ipv4 192 0 2 10"

definition mac0 :: mac where
  "mac0 = \<lparr>mac_ids = new_ids, mac_writers = (\<lambda>_. None), mac_closed = (\<lambda>_. False), mac_stop = False,
     mac_last_pong = 0, mac_uplinks = (\<lambda>_. None), to_vm = [], mac_ctrl_down = False,
     mac_delivered = [], mac_shut = [], mac_lines = [''hello-ok'']\<rparr>"

definition opening_tunnel :: tunnel where
  "opening_tunnel =
     \<lparr>tvm = accepted_session\<lparr>to_mac := [Open 1 25 4000 (Ipv4 192 0 2 1)]\<rparr>, tmac = mac0,
      vm_reading = True, mac_reading = True\<rparr>"

abbreviation smtp_tunnel_reach :: "tunnel \<Rightarrow> bool" where
  "smtp_tunnel_reach \<equiv> reach (tunnel_start smtp_opts) (tunnel_step smtp_opts byte_proxy relay_ip)"

lemma lists_keys_calm: "lists_keys calm_io"
  by (simp add: lists_keys_def calm_io_def)

lemma opening_tunnel_reach: "smtp_tunnel_reach opening_tunnel"
proof -
  let ?m = "mac0\<lparr>mac_lines := []\<rparr>"
  let ?t0 = "\<lparr>tvm = vm_session_start smtp_opts calm_io, tmac = ?m\<lparr>to_vm := [Hello]\<rparr>,
    vm_reading = True, mac_reading = True\<rparr>"
  let ?t1 = "\<lparr>tvm = hello_session, tmac = ?m, vm_reading = True, mac_reading = True\<rparr>"
  let ?t2 = "\<lparr>tvm = hello_session\<lparr>to_mac := []\<rparr>, tmac = mac0, vm_reading = True, mac_reading = True\<rparr>"
  have "serve_mac_start calm_io = (Ok (), ?m\<lparr>to_vm := [Hello]\<rparr>)"
    by (simp add: serve_mac_start_def mac_send_def ctrl_send_def encode_def calm_io_def mac0_def)
  then have "smtp_tunnel_reach ?t0"
    by (intro reach_start) (auto simp: tunnel_start_def)
  moreover have "tunnel_step smtp_opts byte_proxy relay_ip ?t0 ?t1"
    using vm_receives [of ?t0 Hello "[]" calm_io smtp_opts "Ok ()" hello_session byte_proxy relay_ip]
    by (simp add: lists_keys_calm to_hello_session mac0_def)
  moreover have "tunnel_step smtp_opts byte_proxy relay_ip ?t1 ?t2"
    using mac_receives [of ?t1 "HelloOk 0 QuotaOpen 1970 1" "[]" calm_io byte_proxy relay_ip "Ok ()" mac0 smtp_opts]
    by (simp add: on_mac_frame_def mac0_def hello_session_def)
  moreover have "tunnel_step smtp_opts byte_proxy relay_ip ?t2 opening_tunnel"
  proof -
    have "accept_turn calm_io (advertise_port smtp_opts) (Accepted 5 True (Some (Ipv4 192 0 2 1, 4000)))
        (hello_session\<lparr>to_mac := []\<rparr>) = tvm opening_tunnel"
      by (simp add: opening_tunnel_def accept_turn_def session_defs alloc_def checked_add_def
          MAX_CONNS_def Let_def vm_send_def ctrl_send_def encode_def data_allowed_def PAUSE_AT_value
          fun_eq_iff)
    then show ?thesis
      using vm_moves [of smtp_opts ?t2 "tvm opening_tunnel" byte_proxy relay_ip]
        local_accept [of smtp_opts "hello_session\<lparr>to_mac := []\<rparr>" calm_io "Accepted 5 True (Some (Ipv4 192 0 2 1, 4000))"]
      by (simp add: opening_tunnel_def)
  qed
  ultimately show ?thesis
    by (meson reach_step)
qed

definition answering_tunnel :: tunnel where
  "answering_tunnel =
     (let (r, m) = on_mac_frame calm_io byte_proxy relay_ip (Open 1 25 4000 (Ipv4 192 0 2 1)) mac0
      in opening_tunnel\<lparr>tvm := accepted_session\<lparr>to_mac := []\<rparr>, tmac := m\<rparr>)"

lemma answering_run:
  "\<exists>m. on_mac_frame calm_io byte_proxy relay_ip (Open 1 25 4000 (Ipv4 192 0 2 1)) mac0 = (Ok (), m) \<and>
     to_vm m = [OpenOk 1]"
  by (simp add: on_mac_frame_def open_on_mac_def admit_id_def mac0_def new_ids_def checked_add_def
      MAX_CONNS_def loopback_for_def HELLO_PAIRS_def calm_io_def mac_splice_def wants_proxy_def
      encode_proxy_v2_def byte_proxy_def mac_send_def ctrl_send_def encode_def)

lemma answering_tunnel_reach: "smtp_tunnel_reach answering_tunnel" "to_vm (tmac answering_tunnel) = [OpenOk 1]"
proof -
  obtain m where m: "on_mac_frame calm_io byte_proxy relay_ip (Open 1 25 4000 (Ipv4 192 0 2 1)) mac0 = (Ok (), m)"
    "to_vm m = [OpenOk 1]" using answering_run by blast
  then have t: "answering_tunnel = opening_tunnel\<lparr>tvm := accepted_session\<lparr>to_mac := []\<rparr>, tmac := m\<rparr>"
    by (simp add: answering_tunnel_def)
  have "tunnel_step smtp_opts byte_proxy relay_ip opening_tunnel answering_tunnel"
    using mac_receives [of opening_tunnel "Open 1 25 4000 (Ipv4 192 0 2 1)" "[]" calm_io byte_proxy relay_ip "Ok ()" m smtp_opts] m(1)
    unfolding t by (simp add: opening_tunnel_def)
  then show "smtp_tunnel_reach answering_tunnel"
    by (rule reach_step [OF opening_tunnel_reach])
  show "to_vm (tmac answering_tunnel) = [OpenOk 1]" unfolding t by (simp add: m(2))
qed

section \<open>Properties\<close>

text \<open>C7: in every reachable state of the tunnel the OPEN at the head of the control stream carries the
  id the Mac expects: it is accepted or refused with OPEN_FAIL, and only a failing socket or PROXY
  encoder ends the session. It is never taken for an unknown or reused id.\<close>

theorem open_is_expected:
  assumes "reach (tunnel_start opts) (tunnel_step opts enc ip) t" "mac_reading t"
    and "to_mac (tvm t) = Open cid port src a # fs"
  shows "fst (on_mac_frame io enc ip (Open cid port src a) (tmac t)) \<in> {Ok (), Err Io, Err (Protocol Proxy)}"
  using handshake_answered(2) [OF tunnel_sys.reach_invar [OF assms(1)] assms(2,3), of io enc ip]
  by (cases "on_mac_frame io enc ip (Open cid port src a) (tmac t)") auto

theorem open_is_expected_witness:
  "fst (on_mac_frame calm_io byte_proxy relay_ip (Open 1 25 4000 (Ipv4 192 0 2 1)) mac0)
     \<in> {Ok (), Err Io, Err (Protocol Proxy)}"
  using open_is_expected [OF opening_tunnel_reach, of 1 25 4000 "Ipv4 192 0 2 1" "[]" calm_io]
  by (simp add: opening_tunnel_def)

text \<open>C16: in every reachable state of the tunnel the VM finds the waiting public socket for the OPEN_OK
  or OPEN_FAIL at the head of the control stream, whatever other threads did meanwhile: the answer
  never ends the session.\<close>

theorem open_answer_finds_socket:
  assumes "reach (tunnel_start opts) (tunnel_step opts enc ip) t" "vm_reading t"
    and "to_vm (tmac t) = f # fs" "is_reply f"
  shows "fst (vm_session_frame io opts f (tvm t)) = Ok ()"
proof -
  have h: "handshake t" by (rule tunnel_sys.reach_invar [OF assms(1)])
  then obtain s where s: "waiting (tvm t) (conn_id f) = Some s"
    using assms(2-4) by (auto simp: handshake_def)
  then have "conn_id f \<in> open_ids (ids (tvm t))"
    using h vm_inv_waiting by (auto simp: handshake_def)
  with s assms(4) show ?thesis
    by (cases f) (auto simp: vm_session_frame_def on_vm_frame_def require_open_def close_id_def)
qed

theorem open_answer_finds_socket_witness:
  "fst (vm_session_frame calm_io smtp_opts (OpenOk 1) (tvm answering_tunnel)) = Ok ()"
  using open_answer_finds_socket [OF answering_tunnel_reach(1) _ answering_tunnel_reach(2), of calm_io]
  by (simp add: answering_tunnel_def opening_tunnel_def split: prod.splits)



text \<open>When the public client closes first, any DATA or CLOSE frame of that connection which the Mac
  had already sent is answered with a protocol error: it ends the reader of the whole session, not
  only the connection.\<close>

theorem inflight_frame_ends_session:
  assumes "uplinks v cid = Some (st, AtRead)" "\<not> closed v cid" "data_allowed (quota v)"
    and "f = Data cid pl \<or> f = Close cid r"
  shows "fst (vm_session_frame io opts f (uplink_read io' cid ReadEof v)) = Err (Protocol BadConn)"
proof -
  define v' where "v' = uplink_read io' cid ReadEof v"
  have "cid \<notin> open_ids (ids v')" "quota v' = quota v"
    using assms(1,2) unfolding v'_def
    by (auto simp: uplink_read_def uplink_end_def close_id_def Let_def)
  then show ?thesis
    using assms(3,4) unfolding v'_def [symmetric]
    by (auto simp: vm_session_frame_def on_vm_frame_def require_open_def retire_def close_id_def)
qed

theorem inflight_frame_ends_session_witness:
  "fst (vm_session_frame calm_io smtp_opts (Data 1 [65])
     (uplink_read calm_io 1 ReadEof (uplink_check 1 live_session))) = Err (Protocol BadConn)"
proof -
  have "uplinks (uplink_check 1 live_session) 1 = Some (5, AtRead)"
    "\<not> closed (uplink_check 1 live_session) 1" "data_allowed (quota (uplink_check 1 live_session))"
    by (simp_all add: uplink_check_def session_defs data_allowed_def PAUSE_AT_value)
  then show ?thesis
    by (rule inflight_frame_ends_session [where pl = "[65]" and r = Eof]) simp
qed

end
