(* ===== verification/Text.thy ===== *)
theory Text
  imports Prelude
begin

text \<open>
  Text as the bytes it is sent as: literals, ASCII classes and case, decimal numbers, and the
  UTF-8 check of \<^verbatim>\<open>String::from_utf8\<close>.
\<close>

section \<open>Literals and ASCII\<close>

definition lit :: "string \<Rightarrow> bytes" where
  "lit s = map of_char s"

lemma lit_simps [simp]: "lit [] = []" "lit (c # cs) = of_char c # lit cs"
  by (simp_all add: lit_def)

definition CR :: byte where "CR = 13"
definition LF :: byte where "LF = 10"
definition DOT :: byte where "DOT = 46"

lemmas ascii_defs = CR_def LF_def DOT_def

definition is_digit :: "byte \<Rightarrow> bool" where
  "is_digit b \<longleftrightarrow> 48 \<le> b \<and> b \<le> 57"

definition is_lower :: "byte \<Rightarrow> bool" where
  "is_lower b \<longleftrightarrow> 97 \<le> b \<and> b \<le> 122"

definition is_upper :: "byte \<Rightarrow> bool" where
  "is_upper b \<longleftrightarrow> 65 \<le> b \<and> b \<le> 90"

definition to_lower :: "byte \<Rightarrow> byte" where
  "to_lower b = (if is_upper b then b OR 32 else b)"

definition to_upper :: "byte \<Rightarrow> byte" where
  "to_upper b = (if is_lower b then b AND 0xDF else b)"

definition is_alnum :: "byte \<Rightarrow> bool" where
  "is_alnum b \<longleftrightarrow> is_digit b \<or> is_lower b \<or> is_upper b"

definition is_ascii_whitespace :: "byte \<Rightarrow> bool" where
  "is_ascii_whitespace b \<longleftrightarrow> b \<in> {32, 9, 10, 12, 13}"

definition eq_ignore_ascii_case :: "bytes \<Rightarrow> bytes \<Rightarrow> bool" where
  "eq_ignore_ascii_case xs ys \<longleftrightarrow> map to_lower xs = map to_lower ys"

section \<open>Decimal numbers\<close>

text \<open>\<^verbatim>\<open>n.to_string()\<close>.\<close>

fun show_nat :: "nat \<Rightarrow> bytes" where
  "show_nat n = (if n < 10 then [of_nat (48 + n)] else show_nat (n div 10) @ [of_nat (48 + n mod 10)])"

declare show_nat.simps [simp del]

definition digit_value :: "byte \<Rightarrow> nat" where
  "digit_value b = unat b - 48"

definition decimal :: "bytes \<Rightarrow> nat" where
  "decimal ds = foldl (\<lambda>a d. a * 10 + digit_value d) 0 ds"

lemma decimal_snoc [simp]: "decimal (ds @ [d]) = decimal ds * 10 + digit_value d"
  by (simp add: decimal_def)

lemma decimal_Nil [simp]: "decimal [] = 0"
  by (simp add: decimal_def)

lemma digit_of_nat: "n < 10 \<Longrightarrow> is_digit (of_nat (48 + n)) \<and> digit_value (of_nat (48 + n)) = n"
  by (simp add: is_digit_def digit_value_def word_le_nat_alt unat_of_nat del: of_nat_add)

lemma show_nat_digits: "\<forall>d \<in> set (show_nat n). is_digit d" "decimal (show_nat n) = n" "show_nat n \<noteq> []"
proof (induction n rule: show_nat.induct)
  case (1 n)
  { case 1 with "1.IH"(1) show ?case
      by (subst show_nat.simps) (use digit_of_nat [of n] digit_of_nat [of "n mod 10"] in auto) }
  { case 2 with "1.IH"(2) show ?case
      by (subst show_nat.simps) (use digit_of_nat [of n] digit_of_nat [of "n mod 10"] in \<open>auto simp: decimal_def\<close>) }
  { case 3 show ?case by (subst show_nat.simps) simp }
qed

text \<open>\<^verbatim>\<open>str::parse\<close> for the unsigned types: an optional plus sign, at least one digit, no overflow.\<close>

definition parse_digits :: "bytes \<Rightarrow> nat option" where
  "parse_digits ds = (if ds \<noteq> [] \<and> (\<forall>d \<in> set ds. is_digit d) then Some (decimal ds) else None)"

definition parse_uint :: "bytes \<Rightarrow> 'a::len word option" where
  "parse_uint s =
     (case s of
        [] \<Rightarrow> None
      | b # ds \<Rightarrow>
          (case (if b = 43 then parse_digits ds else parse_digits s) of
             None \<Rightarrow> None
           | Some n \<Rightarrow> if n < 2 ^ LENGTH('a) then Some (of_nat n) else None))"

lemma parse_digits_show: "parse_digits (show_nat n) = Some n"
  using show_nat_digits [of n] by (simp add: parse_digits_def)

lemma show_nat_head: "\<exists>d ds. show_nat n = d # ds \<and> d \<noteq> 45 \<and> d \<noteq> 43"
proof -
  obtain d ds where d: "show_nat n = d # ds" using show_nat_digits(3) [of n] by (cases "show_nat n") auto
  then have "is_digit d" using show_nat_digits(1) [of n] by simp
  then have "d \<noteq> 45" "d \<noteq> 43" by (auto simp: is_digit_def)
  with d show ?thesis by blast
qed

lemma parse_uint_show: "parse_uint (show_nat (unat n)) = Some n"
proof -
  obtain d ds where d: "show_nat (unat n) = d # ds" "d \<noteq> 43" using show_nat_head by blast
  then show ?thesis
    using parse_digits_show [of "unat n"] by (simp add: parse_uint_def unat_bound)
qed

section \<open>UTF-8\<close>

definition is_cont :: "byte \<Rightarrow> bool" where
  "is_cont b \<longleftrightarrow> 128 \<le> b \<and> b \<le> 191"

fun valid_utf8 :: "bytes \<Rightarrow> bool" where
  "valid_utf8 [] = True"
| "valid_utf8 (a # bs) =
     (if a < 128 then valid_utf8 bs
      else if 194 \<le> a \<and> a \<le> 223 then
        (case bs of b # r \<Rightarrow> is_cont b \<and> valid_utf8 r | _ \<Rightarrow> False)
      else if 224 \<le> a \<and> a \<le> 239 then
        (case bs of b # c # r \<Rightarrow>
           is_cont b \<and> (a = 224 \<longrightarrow> 160 \<le> b) \<and> (a = 237 \<longrightarrow> b \<le> 159) \<and> is_cont c \<and> valid_utf8 r
         | _ \<Rightarrow> False)
      else if 240 \<le> a \<and> a \<le> 244 then
        (case bs of b # c # d # r \<Rightarrow>
           is_cont b \<and> (a = 240 \<longrightarrow> 144 \<le> b) \<and> (a = 244 \<longrightarrow> b \<le> 143) \<and> is_cont c \<and> is_cont d \<and> valid_utf8 r
         | _ \<Rightarrow> False)
      else False)"

lemma ascii_valid_utf8: "\<forall>b \<in> set bs. b < 128 \<Longrightarrow> valid_utf8 bs"
  by (induction bs) auto

end
