(* ===== verification/Pop3_Request.thy ===== *)
theory Pop3_Request
  imports Text Contracts
begin

text \<open>
  POP3 commands and the incremental request parser
  (\<^verbatim>\<open>pop3/src/protocol/mod.rs\<close>, \<^verbatim>\<open>request.rs\<close>). The parser keeps its state
  between reads; one byte at a time it either moves on or returns a command or an error.
  A Rust \<^verbatim>\<open>String\<close> is its UTF-8 bytes.
\<close>

section \<open>Commands\<close>

datatype ('t, 'm) command =
    User 't | Pass 't | Apop 't 't | Quit
  | Stat | List "u32 option" | Retr u32 | Dele u32 | DeleMany "u32 list" | Noop | Rset
  | Top u32 u32 | Uidl "u32 option"
  | Capa | Stls | Utf8 | Auth 'm "'t list"

datatype mechanism =
    Plain | CramMd5 | DigestMd5 | ScramSha1 | ScramSha256 | MechApop | Ntlm | Gssapi
  | Anonymous | External | OAuthBearer | XOauth2

type_synonym raw_command = "(bytes, bytes) command"
type_synonym request = "(bytes, mechanism) command"

text \<open>The reasons a line is refused with; the last one quotes the mechanism.\<close>

datatype parse_reason =
    InvalidCommand | TooManyArguments | MissingArguments | InvalidUtf8 | NumericOutOfRange
  | InvalidDigit | UnsupportedMechanism bytes

datatype parser_state =
    Init
  | InCommand bytes nat
  | InArgument raw_command nat bool
  | InError parse_reason

definition MAX_ARG_LEN :: nat where
  "MAX_ARG_LEN = 256"

section \<open>Mechanisms\<close>

fun mechanism_as_str :: "mechanism \<Rightarrow> bytes" where
  "mechanism_as_str Plain = lit ''PLAIN''"
| "mechanism_as_str CramMd5 = lit ''CRAM-MD5''"
| "mechanism_as_str DigestMd5 = lit ''DIGEST-MD5''"
| "mechanism_as_str ScramSha1 = lit ''SCRAM-SHA-1''"
| "mechanism_as_str ScramSha256 = lit ''SCRAM-SHA-256''"
| "mechanism_as_str MechApop = lit ''APOP''"
| "mechanism_as_str Ntlm = lit ''NTLM''"
| "mechanism_as_str Gssapi = lit ''GSSAPI''"
| "mechanism_as_str Anonymous = lit ''ANONYMOUS''"
| "mechanism_as_str External = lit ''EXTERNAL''"
| "mechanism_as_str OAuthBearer = lit ''OAUTHBEARER''"
| "mechanism_as_str XOauth2 = lit ''XOAUTH2''"

definition mechanism_parse :: "bytes \<Rightarrow> (mechanism, parse_reason) result" where
  "mechanism_parse value =
     (if eq_ignore_ascii_case value (lit ''PLAIN'') then Ok Plain
      else if eq_ignore_ascii_case value (lit ''CRAM-MD5'') then Ok CramMd5
      else if eq_ignore_ascii_case value (lit ''DIGEST-MD5'') then Ok DigestMd5
      else if eq_ignore_ascii_case value (lit ''SCRAM-SHA-1'') then Ok ScramSha1
      else if eq_ignore_ascii_case value (lit ''SCRAM-SHA-256'') then Ok ScramSha256
      else if eq_ignore_ascii_case value (lit ''APOP'') then Ok MechApop
      else if eq_ignore_ascii_case value (lit ''NTLM'') then Ok Ntlm
      else if eq_ignore_ascii_case value (lit ''GSSAPI'') then Ok Gssapi
      else if eq_ignore_ascii_case value (lit ''ANONYMOUS'') then Ok Anonymous
      else if eq_ignore_ascii_case value (lit ''EXTERNAL'') then Ok External
      else if eq_ignore_ascii_case value (lit ''OAUTHBEARER'') then Ok OAuthBearer
      else if eq_ignore_ascii_case value (lit ''XOAUTH2'') then Ok XOauth2
      else Err (UnsupportedMechanism value))"

section \<open>Command words\<close>

definition command_parse :: "bytes \<Rightarrow> (raw_command, parse_reason) result" where
  "command_parse buf =
     (if buf = lit ''user'' then Ok (User [])
      else if buf = lit ''uidl'' then Ok (Uidl None)
      else if buf = lit ''utf8'' then Ok Utf8
      else if buf = lit ''pass'' then Ok (Pass [])
      else if buf = lit ''apop'' then Ok (Apop [] [])
      else if buf = lit ''auth'' then Ok (Auth [] [])
      else if buf = lit ''quit'' then Ok Quit
      else if buf = lit ''list'' then Ok (List None)
      else if buf = lit ''retr'' then Ok (Retr 0)
      else if buf = lit ''rset'' then Ok Rset
      else if buf = lit ''dele'' then Ok (Dele 0)
      else if buf = lit ''noop'' then Ok Noop
      else if buf = lit ''top'' @ [0] then Ok (Top 0 0)
      else if buf = lit ''capa'' then Ok Capa
      else if buf = lit ''stls'' then Ok Stls
      else if buf = lit ''stat'' then Ok Stat
      else Err InvalidCommand)"

section \<open>Arguments\<close>

definition add_digit :: "u32 \<Rightarrow> byte \<Rightarrow> (u32, parse_reason) result" where
  "add_digit num b =
     (if is_digit b then
        ok_or (Option.bind (checked_mul num 10) (\<lambda>n. checked_add n (ucast (b - 48)))) NumericOutOfRange
      else Err InvalidDigit)"

text \<open>\<^verbatim>\<open>msg.get_or_insert(0)\<close>.\<close>

definition or_zero :: "u32 option \<Rightarrow> u32" where
  "or_zero msg = (case msg of Some n \<Rightarrow> n | None \<Rightarrow> 0)"

definition map_ok :: "('a \<Rightarrow> 'b) \<Rightarrow> ('a, 'e) result \<Rightarrow> ('b, 'e) result" where
  "map_ok f r = and_then r (\<lambda>x. Ok (f x))"

text \<open>
  \<^verbatim>\<open>params.last_mut().unwrap().push(byte)\<close> after a new parameter was added if needed;
  for argument 0 \<^verbatim>\<open>arg_num - 1\<close> wraps around to the largest number.
\<close>

definition push_param :: "nat \<Rightarrow> byte \<Rightarrow> bytes list \<Rightarrow> (bytes list, parse_reason) result" where
  "push_param arg_num b params =
     (let ps = (if arg_num = 0 \<or> length params < arg_num - 1 then params @ [[]] else params) in
      if ps = [] then Panic else Ok (butlast ps @ [last ps @ [b]]))"

definition update_argument :: "raw_command \<Rightarrow> nat \<Rightarrow> byte \<Rightarrow> (raw_command, parse_reason) result" where
  "update_argument c arg_num b =
     (case c of
        User name \<Rightarrow>
          if arg_num = 1 \<and> length name < MAX_ARG_LEN then Ok (User (name @ [b])) else Err TooManyArguments
      | Pass string \<Rightarrow>
          if arg_num = 1 \<and> length string < MAX_ARG_LEN then Ok (Pass (string @ [b])) else Err TooManyArguments
      | Apop name digest \<Rightarrow>
          if arg_num \<le> 2 \<and> length name < MAX_ARG_LEN \<and> length digest < MAX_ARG_LEN then
            (if arg_num = 1 then Ok (Apop (name @ [b]) digest) else Ok (Apop name (digest @ [b])))
          else Err TooManyArguments
      | List msg \<Rightarrow>
          if arg_num = 1 then map_ok (\<lambda>n. List (Some n)) (add_digit (or_zero msg) b) else Err TooManyArguments
      | Retr msg \<Rightarrow> if arg_num = 1 then map_ok Retr (add_digit msg b) else Err TooManyArguments
      | Dele msg \<Rightarrow> if arg_num = 1 then map_ok Dele (add_digit msg b) else Err TooManyArguments
      | Top msg n \<Rightarrow>
          if arg_num \<le> 2 then
            (if arg_num = 1 then map_ok (\<lambda>msg. Top msg n) (add_digit msg b)
             else map_ok (\<lambda>n. Top msg n) (add_digit n b))
          else Err TooManyArguments
      | Uidl msg \<Rightarrow>
          if arg_num = 1 then map_ok (\<lambda>n. Uidl (Some n)) (add_digit (or_zero msg) b) else Err TooManyArguments
      | Auth mechanism params \<Rightarrow>
          if arg_num \<le> 4 \<and> length mechanism < 64 \<and> sum_list (map length params) < MAX_ARG_LEN * 4 then
            (if arg_num = 1 then Ok (Auth (mechanism @ [b]) params)
             else map_ok (\<lambda>ps. Auth mechanism ps) (push_param arg_num b params))
          else Err TooManyArguments
      | _ \<Rightarrow> Err TooManyArguments)"

definition into_string :: "bytes \<Rightarrow> (bytes, parse_reason) result" where
  "into_string bs = (if valid_utf8 bs then Ok bs else Err InvalidUtf8)"

fun into_strings :: "bytes list \<Rightarrow> (bytes list, parse_reason) result" where
  "into_strings [] = Ok []"
| "into_strings (p # ps) =
     and_then (into_string p) (\<lambda>s. and_then (into_strings ps) (\<lambda>ss. Ok (s # ss)))"

definition finalize :: "raw_command \<Rightarrow> nat \<Rightarrow> (request, parse_reason) result" where
  "finalize c num_args =
     (case c of
        User name \<Rightarrow> if num_args = 1 then map_ok User (into_string name) else Err MissingArguments
      | Pass string \<Rightarrow> if num_args = 1 then map_ok Pass (into_string string) else Err MissingArguments
      | Apop name digest \<Rightarrow>
          if num_args = 2 then
            and_then (into_string name) (\<lambda>name.
            and_then (into_string digest) (\<lambda>digest. Ok (Apop name digest)))
          else Err MissingArguments
      | Quit \<Rightarrow> Ok Quit
      | Stat \<Rightarrow> Ok Stat
      | List msg \<Rightarrow> Ok (List msg)
      | Retr msg \<Rightarrow> if num_args = 1 then Ok (Retr msg) else Err MissingArguments
      | Dele msg \<Rightarrow> if num_args = 1 then Ok (Dele msg) else Err MissingArguments
      | DeleMany _ \<Rightarrow> Err MissingArguments
      | Noop \<Rightarrow> Ok Noop
      | Rset \<Rightarrow> Ok Rset
      | Top msg n \<Rightarrow> if num_args = 2 then Ok (Top msg n) else Err MissingArguments
      | Uidl msg \<Rightarrow> Ok (Uidl msg)
      | Capa \<Rightarrow> Ok Capa
      | Stls \<Rightarrow> Ok Stls
      | Utf8 \<Rightarrow> Ok Utf8
      | Auth mechanism params \<Rightarrow>
          if num_args \<ge> 1 then
            and_then (mechanism_parse mechanism) (\<lambda>mechanism.
            and_then (into_strings params) (\<lambda>params. Ok (Auth mechanism params)))
          else Err MissingArguments)"

section \<open>The parser\<close>

definition is_blank :: "byte \<Rightarrow> bool" where
  "is_blank b \<longleftrightarrow> b = 32 \<or> b = 9"

text \<open>
  One byte: the new state, and the value \<^verbatim>\<open>parse\<close> returns with at this byte, if it does.
  The four-byte buffer is indexed below its length.
\<close>

definition parse_byte ::
  "parser_state \<Rightarrow> byte \<Rightarrow> parser_state \<times> (request, parse_reason) result option" where
  "parse_byte st b =
     (case st of
        Init \<Rightarrow>
          if is_blank b \<or> b = CR \<or> b = LF then (Init, None)
          else if is_lower b then (InCommand [b, 0, 0, 0] 1, None)
          else if is_upper b then (InCommand [b OR 32, 0, 0, 0] 1, None)
          else (InError InvalidCommand, None)
      | InCommand buf len \<Rightarrow>
          if (is_lower b \<or> b = 56) \<and> len < 4 then (InCommand (buf[len := b]) (len + 1), None)
          else if is_upper b \<and> len < 4 then (InCommand (buf[len := b OR 32]) (len + 1), None)
          else if is_blank b \<and> (len = 4 \<or> len = 3) then
            (case command_parse buf of
               Ok request \<Rightarrow> (InArgument request 0 True, None)
             | Err err \<Rightarrow> (InError err, None)
             | Panic \<Rightarrow> (Init, Some Panic))
          else if b = CR then (InCommand buf len, None)
          else if b = LF \<and> (len = 4 \<or> len = 3) then
            (case command_parse buf of
               Ok request \<Rightarrow> (Init, Some (finalize request 0))
             | Err err \<Rightarrow> (Init, Some (Err err))
             | Panic \<Rightarrow> (Init, Some Panic))
          else (InError InvalidCommand, None)
      | InArgument request num last_is_space \<Rightarrow>
          if is_blank b then (InArgument request num True, None)
          else if b = CR then (InArgument request num last_is_space, None)
          else if b = LF then (Init, Some (finalize request num))
          else
            let num' = (if last_is_space then num + 1 else num) in
            (case update_argument request num' b of
               Ok request' \<Rightarrow> (InArgument request' num' False, None)
             | Err err \<Rightarrow> (InError err, None)
             | Panic \<Rightarrow> (Init, Some Panic))
      | InError reason \<Rightarrow>
          if b = LF then (Init, Some (Err reason)) else (InError reason, None))"

text \<open>
  \<^verbatim>\<open>parse\<close> on the rest of a read: the state, the bytes it left, and its result;
  \<open>None\<close> is \<^verbatim>\<open>NeedsMoreData\<close>.
\<close>

fun parse :: "parser_state \<Rightarrow> bytes \<Rightarrow>
    parser_state \<times> bytes \<times> (request, parse_reason) result option" where
  "parse st [] = (st, [], None)"
| "parse st (b # bs) =
     (case parse_byte st b of
        (st', None) \<Rightarrow> parse st' bs
      | (st', Some r) \<Rightarrow> (st', bs, Some r))"

lemma parse_length: "parse st bs = (st', rest, Some r) \<Longrightarrow> length rest < length bs"
  by (induction st bs rule: parse.induct) (fastforce split: prod.splits option.splits)+

text \<open>The loop of \<^verbatim>\<open>ingest\<close> that parses until the read is used up.\<close>

function parse_all :: "parser_state \<Rightarrow> bytes \<Rightarrow>
    parser_state \<times> (request, parse_reason) result list" where
  "parse_all st bs =
     (case parse st bs of
        (st', _, None) \<Rightarrow> (st', [])
      | (st', rest, Some r) \<Rightarrow> (let (st'', rs) = parse_all st' rest in (st'', r # rs)))"
  by pat_completeness auto
termination
  by (relation "measure (\<lambda>(st, bs). length bs)") (simp_all del: parse.simps, metis parse_length)

declare parse_all.simps [simp del]

section \<open>Cutting the input\<close>

lemma parse_all_Nil [simp]: "parse_all st [] = (st, [])"
  by (subst parse_all.simps) simp

lemma parse_all_Cons:
  "parse_all st (b # bs) =
     (case parse_byte st b of
        (st', None) \<Rightarrow> parse_all st' bs
      | (st', Some r) \<Rightarrow> (let (st'', rs) = parse_all st' bs in (st'', r # rs)))"
proof (cases "parse_byte st b")
  case (Pair st' out)
  then show ?thesis
    by (cases out) (simp_all add: parse_all.simps [of st "b # bs"] parse_all.simps [of st' bs])
qed

lemma parse_all_append:
  "parse_all st (xs @ ys) =
     (let (st', rs) = parse_all st xs; (st'', rs') = parse_all st' ys in (st'', rs @ rs'))"
proof (induction xs arbitrary: st)
  case Nil
  then show ?case by (simp add: case_prod_unfold)
next
  case (Cons x xs)
  then show ?case
    by (auto simp: parse_all_Cons Let_def split: prod.splits option.splits)
qed

text \<open>The parser as an incremental decoder: it never fails, errors are among its outputs.\<close>

definition parser_feed :: "parser_state \<Rightarrow> bytes \<Rightarrow>
    (parser_state \<times> (request, parse_reason) result list, unit) result" where
  "parser_feed st bs = Ok (parse_all st bs)"

interpretation pop3_parser: stream_decoder parser_feed "\<lambda>_. True"
  by unfold_locales (auto simp: parser_feed_def parse_all_append Let_def split: prod.splits)

section \<open>Bounds\<close>

fun bounded_command :: "(bytes, 'm) command \<Rightarrow> bool" where
  "bounded_command (User name) = (length name \<le> 256)"
| "bounded_command (Pass string) = (length string \<le> 256)"
| "bounded_command (Apop name digest) = (length name \<le> 256 \<and> length digest \<le> 256)"
| "bounded_command (Auth _ params) = (length params \<le> 3 \<and> sum_list (map length params) \<le> 1024)"
| "bounded_command (DeleMany _) = False"
| "bounded_command _ = True"

fun parser_inv :: "parser_state \<Rightarrow> bool" where
  "parser_inv (InCommand buf len) = (length buf = 4 \<and> 1 \<le> len \<and> len \<le> 4)"
| "parser_inv (InArgument c num last_is_space) =
     (bounded_command c \<and> (\<forall>m ps. c = Auth m ps \<longrightarrow> length m \<le> 64) \<and> (last_is_space \<or> 1 \<le> num))"
| "parser_inv _ = True"

lemma command_parse_bounded: "command_parse buf = Ok c \<Longrightarrow> bounded_command c \<and> (\<forall>m ps. c = Auth m ps \<longrightarrow> m = [])"
  by (auto simp: command_parse_def split: if_split_asm)

lemma command_parse_no_panic [simp]: "command_parse buf \<noteq> Panic"
  by (simp add: command_parse_def)

lemma add_digit_no_panic [simp]: "add_digit n b \<noteq> Panic"
  by (simp add: add_digit_def ok_or_def split: option.splits)

lemma map_ok_iff [simp]:
  "map_ok f r = Ok y \<longleftrightarrow> (\<exists>x. r = Ok x \<and> y = f x)" "map_ok f r = Panic \<longleftrightarrow> r = Panic"
  "map_ok f r = Err e \<longleftrightarrow> r = Err e"
  by (cases r; auto simp: map_ok_def)+

lemma push_param_Ok:
  assumes "push_param num b ps = Ok ps'" "1 \<le> num" "num \<le> 4" "length ps \<le> 3"
  shows "length ps' \<le> 3 \<and> sum_list (map length ps') = Suc (sum_list (map length ps))"
proof -
  define qs where "qs = (if length ps < num - 1 then ps @ [[]] else ps)"
  have qs: "qs \<noteq> []" "ps' = butlast qs @ [last qs @ [b]]" "length qs \<le> 3"
    "sum_list (map length qs) = sum_list (map length ps)"
    using assms unfolding qs_def by (auto simp: push_param_def Let_def split: if_split_asm)
  then obtain as a where "qs = as @ [a]" by (metis append_butlast_last_id)
  with qs show ?thesis by simp
qed

lemma push_param_no_panic: "1 < num \<Longrightarrow> push_param num b ps \<noteq> Panic"
  by (auto simp: push_param_def Let_def)

lemma update_argument_inv:
  assumes "bounded_command c" "\<forall>m ps. c = Auth m ps \<longrightarrow> length m \<le> 64" "1 \<le> num"
  shows "update_argument c num b \<noteq> Panic"
    and "update_argument c num b = Ok c' \<Longrightarrow>
      bounded_command c' \<and> (\<forall>m ps. c' = Auth m ps \<longrightarrow> length m \<le> 64)"
proof -
  show "update_argument c num b \<noteq> Panic"
    using assms(3) push_param_no_panic [of num b]
    by (auto simp: update_argument_def split: command.splits)
  show "update_argument c num b = Ok c' \<Longrightarrow>
      bounded_command c' \<and> (\<forall>m ps. c' = Auth m ps \<longrightarrow> length m \<le> 64)"
    using assms
    by (cases c) (auto simp: update_argument_def MAX_ARG_LEN_def split: if_split_asm dest!: push_param_Ok)
qed

lemma into_strings_Ok: "into_strings ps = Ok ss \<longleftrightarrow> ss = ps \<and> (\<forall>p \<in> set ps. valid_utf8 p)"
  by (induction ps arbitrary: ss) (auto simp: into_string_def result_iff split: if_split_asm)

lemma into_strings_no_panic [simp]: "into_strings ps \<noteq> Panic"
  by (induction ps) (auto simp: into_string_def and_then_Panic_iff split: if_split_asm)

lemma mechanism_parse_no_panic [simp]: "mechanism_parse m \<noteq> Panic"
  by (simp add: mechanism_parse_def)

lemma finalize_bounded:
  "bounded_command c \<Longrightarrow> finalize c num \<noteq> Panic \<and> (\<forall>r. finalize c num = Ok r \<longrightarrow> bounded_command r)"
  by (cases c)
    (auto simp: finalize_def into_string_def into_strings_Ok result_iff and_then_Panic_iff
      split: if_split_asm)

lemma parse_byte_inv:
  assumes "parser_inv st" "parse_byte st b = (st', out)"
  shows "parser_inv st'" and "out = Some r \<Longrightarrow> r \<noteq> Panic \<and> (\<forall>c. r = Ok c \<longrightarrow> bounded_command c)"
proof -
  have "parser_inv st' \<and> (\<forall>r. out = Some r \<longrightarrow> r \<noteq> Panic \<and> (\<forall>c. r = Ok c \<longrightarrow> bounded_command c))"
  proof (cases st)
    case (InCommand buf len)
    show ?thesis
      using assms unfolding InCommand
      by (auto simp: parse_byte_def split: if_split_asm result.splits
          dest!: command_parse_bounded dest: finalize_bounded [of _ 0])
  next
    case (InArgument c num sp)
    note up = update_argument_inv [of c "if sp then num + 1 else num" b]
    show ?thesis
      using assms up finalize_bounded [of c num] unfolding InArgument
      by (auto simp: parse_byte_def Let_def split: if_split_asm result.splits)
  qed (use assms in \<open>auto simp: parse_byte_def split: if_split_asm\<close>)
  then show "parser_inv st'" "out = Some r \<Longrightarrow> r \<noteq> Panic \<and> (\<forall>c. r = Ok c \<longrightarrow> bounded_command c)"
    by auto
qed

lemma parse_all_inv:
  "parser_inv st \<Longrightarrow> parse_all st bs = (st', rs) \<Longrightarrow>
     parser_inv st' \<and> (\<forall>r \<in> set rs. r \<noteq> Panic \<and> (\<forall>c. r = Ok c \<longrightarrow> bounded_command c))"
proof (induction bs arbitrary: st rs)
  case Nil
  then show ?case by simp
next
  case (Cons b bs)
  obtain s1 out where step: "parse_byte st b = (s1, out)" by fastforce
  note inv = parse_byte_inv [OF Cons.prems(1) step]
  show ?case
  proof (cases out)
    case None
    then show ?thesis
      using Cons.IH [OF inv(1)] Cons.prems(2) step by (simp add: parse_all_Cons)
  next
    case (Some r)
    then obtain qs where "parse_all s1 bs = (st', qs)" "rs = r # qs"
      using Cons.prems(2) step by (auto simp: parse_all_Cons split: prod.splits)
    then show ?thesis
      using Cons.IH [OF inv(1)] inv(2) [OF Some] by auto
  qed
qed

section \<open>Printing and parsing back\<close>

definition word_ok :: "bytes \<Rightarrow> bool" where
  "word_ok w \<longleftrightarrow> w \<noteq> [] \<and> valid_utf8 w \<and> (\<forall>b \<in> set w. \<not> is_blank b \<and> b \<noteq> CR \<and> b \<noteq> LF)"

definition CRLF :: bytes where
  "CRLF = [CR, LF]"

definition show_u32 :: "u32 \<Rightarrow> bytes" where
  "show_u32 n = show_nat (unat n)"

text \<open>The line a client sends for a request.\<close>

fun pop3_line :: "request \<Rightarrow> bytes" where
  "pop3_line (User name) = lit ''USER'' @ 32 # name @ CRLF"
| "pop3_line (Pass string) = lit ''PASS'' @ 32 # string @ CRLF"
| "pop3_line (Apop name digest) = lit ''APOP'' @ 32 # name @ [32] @ digest @ CRLF"
| "pop3_line Quit = lit ''QUIT'' @ CRLF"
| "pop3_line Stat = lit ''STAT'' @ CRLF"
| "pop3_line (List None) = lit ''LIST'' @ CRLF"
| "pop3_line (List (Some n)) = lit ''LIST'' @ 32 # show_u32 n @ CRLF"
| "pop3_line (Retr n) = lit ''RETR'' @ 32 # show_u32 n @ CRLF"
| "pop3_line (Dele n) = lit ''DELE'' @ 32 # show_u32 n @ CRLF"
| "pop3_line (DeleMany ns) = []"
| "pop3_line Noop = lit ''NOOP'' @ CRLF"
| "pop3_line Rset = lit ''RSET'' @ CRLF"
| "pop3_line (Top n k) = lit ''TOP'' @ 32 # show_u32 n @ [32] @ show_u32 k @ CRLF"
| "pop3_line (Uidl None) = lit ''UIDL'' @ CRLF"
| "pop3_line (Uidl (Some n)) = lit ''UIDL'' @ 32 # show_u32 n @ CRLF"
| "pop3_line Capa = lit ''CAPA'' @ CRLF"
| "pop3_line Stls = lit ''STLS'' @ CRLF"
| "pop3_line Utf8 = lit ''UTF8'' @ CRLF"
| "pop3_line (Auth m ps) = lit ''AUTH'' @ 32 # mechanism_as_str m @ concat (map (\<lambda>p. 32 # p) ps) @ CRLF"

fun printable_request :: "request \<Rightarrow> bool" where
  "printable_request (User name) = (word_ok name \<and> length name \<le> 256)"
| "printable_request (Pass string) = (word_ok string \<and> length string \<le> 256)"
| "printable_request (Apop name digest) =
     (word_ok name \<and> word_ok digest \<and> length name < 256 \<and> length digest \<le> 256)"
| "printable_request (DeleMany _) = False"
| "printable_request (Auth _ ps) =
     ((\<forall>p \<in> set ps. word_ok p) \<and> length ps \<le> 3 \<and> sum_list (map length ps) \<le> 1024)"
| "printable_request _ = True"

fun args_fold :: "raw_command \<Rightarrow> nat \<Rightarrow> bytes \<Rightarrow> (raw_command, parse_reason) result" where
  "args_fold c num [] = Ok c"
| "args_fold c num (b # bs) = and_then (update_argument c num b) (\<lambda>c'. args_fold c' num bs)"

lemma parse_word_tail:
  "\<forall>b \<in> set w. \<not> is_blank b \<and> b \<noteq> CR \<and> b \<noteq> LF \<Longrightarrow> args_fold c num w = Ok c' \<Longrightarrow>
     parse_all (InArgument c num False) (w @ rest) = parse_all (InArgument c' num False) rest"
  by (induction w arbitrary: c) (auto simp: parse_all_Cons parse_byte_def result_iff)

lemma parse_word:
  assumes "word_ok w" "args_fold c (Suc num) w = Ok c'"
  shows "parse_all (InArgument c num True) (w @ rest) = parse_all (InArgument c' (Suc num) False) rest"
  using assms parse_word_tail [of "tl w"]
  by (cases w) (auto simp: word_ok_def parse_all_Cons parse_byte_def result_iff)

lemma add_digit_Ok:
  assumes "is_digit d" "unat n * 10 + digit_value d < 2 ^ 32"
  shows "add_digit n d = Ok (of_nat (unat n * 10 + digit_value d))"
proof -
  have d: "48 \<le> unat d" "unat d \<le> 57"
    using assms(1) by (auto simp: is_digit_def word_le_nat_alt)
  then have v: "unat (ucast (d - 48) :: u32) = digit_value d"
    by (simp add: digit_value_def unat_sub word_le_nat_alt unsigned_ucast_eq take_bit_nat_eq_self)
  have m: "checked_mul n 10 = Some (n * 10)" "unat (n * 10) = unat n * 10"
    using assms(2) by (simp_all add: checked_mul_def unat_word_ariths)
  show ?thesis
    using assms m v by (simp add: add_digit_def checked_add_def word_unat_eq_iff unat_word_ariths unat_of_nat)
qed

lemma decimal_from_ge: "a \<le> foldl (\<lambda>a d. a * 10 + digit_value d) a ds"
proof (induction ds arbitrary: a)
  case (Cons d ds)
  have "a \<le> a * 10 + digit_value d" by simp
  also have "\<dots> \<le> foldl (\<lambda>a d. a * 10 + digit_value d) (a * 10 + digit_value d) ds" by (rule Cons)
  finally show ?case by simp
qed simp

lemma digits_fold:
  assumes "\<And>n b. update_argument (f n) num b = map_ok f (add_digit n b)"
  shows "\<forall>d \<in> set ds. is_digit d \<Longrightarrow> foldl (\<lambda>a d. a * 10 + digit_value d) (unat n) ds < 2 ^ 32 \<Longrightarrow>
    args_fold (f n) num ds = Ok (f (of_nat (foldl (\<lambda>a d. a * 10 + digit_value d) (unat n) ds)))"
proof (induction ds arbitrary: n)
  case Nil
  then show ?case by simp
next
  case (Cons d ds)
  let ?a = "unat n * 10 + digit_value d"
  have "?a < 2 ^ 32"
    using Cons.prems(2) decimal_from_ge [of ?a ds] by simp
  then have "add_digit n d = Ok (of_nat ?a)" "unat (of_nat ?a :: u32) = ?a"
    using Cons.prems(1) by (simp_all only: add_digit_Ok list.set_intros unat_of_nat) simp_all
  with Cons show ?case
    by (simp add: assms map_ok_def)
qed

lemma show_u32_fold:
  assumes "\<And>n b. update_argument (f n) num b = map_ok f (add_digit n b)"
  shows "args_fold (f 0) num (show_u32 n) = Ok (f n)"
  using digits_fold [of f num, OF assms, of "show_u32 n" 0] show_nat_digits [of "unat n"] unat_bound [of n]
  by (simp add: show_u32_def decimal_def)

lemma show_u32_word: "word_ok (show_u32 n)"
proof -
  have "is_digit b \<Longrightarrow> b < 128 \<and> \<not> is_blank b \<and> b \<noteq> CR \<and> b \<noteq> LF" for b
    by (auto simp: is_digit_def is_blank_def CR_def LF_def word_le_nat_alt word_less_nat_alt word_unat_eq_iff)
  then show ?thesis
    using show_nat_digits [of "unat n"] by (auto simp: word_ok_def show_u32_def intro!: ascii_valid_utf8)
qed

lemma option_fold:
  "ds \<noteq> [] \<Longrightarrow> args_fold (List None) (Suc 0) ds = args_fold (List (Some 0)) (Suc 0) ds"
  "ds \<noteq> [] \<Longrightarrow> args_fold (Uidl None) (Suc 0) ds = args_fold (Uidl (Some 0)) (Suc 0) ds"
  by (cases ds; simp add: update_argument_def or_zero_def)+

lemma numeric_args:
  "args_fold (Retr 0) (Suc 0) (show_u32 n) = Ok (Retr n)" "args_fold (Dele 0) (Suc 0) (show_u32 n) = Ok (Dele n)"
  "args_fold (List None) (Suc 0) (show_u32 n) = Ok (List (Some n))"
  "args_fold (Uidl None) (Suc 0) (show_u32 n) = Ok (Uidl (Some n))"
  "args_fold (Top 0 k) (Suc 0) (show_u32 n) = Ok (Top n k)"
  "args_fold (Top k 0) (Suc (Suc 0)) (show_u32 n) = Ok (Top k n)"
  using show_u32_word [of n] show_u32_fold [of Retr "Suc 0" n] show_u32_fold [of Dele "Suc 0" n]
    show_u32_fold [of "\<lambda>n. List (Some n)" "Suc 0" n] show_u32_fold [of "\<lambda>n. Uidl (Some n)" "Suc 0" n]
    show_u32_fold [of "\<lambda>n. Top n k" "Suc 0" n] show_u32_fold [of "\<lambda>n. Top k n" "Suc (Suc 0)" n]
  by (simp_all add: update_argument_def or_zero_def option_fold word_ok_def)

lemma word_args:
  "length (n @ w) \<le> 256 \<Longrightarrow> args_fold (User n) (Suc 0) w = Ok (User (n @ w))"
  "length (n @ w) \<le> 256 \<Longrightarrow> args_fold (Pass n) (Suc 0) w = Ok (Pass (n @ w))"
  "length (n @ w) \<le> 256 \<Longrightarrow> args_fold (Apop n []) (Suc 0) w = Ok (Apop (n @ w) [])"
  "length m < 256 \<Longrightarrow> length (n @ w) \<le> 256 \<Longrightarrow> args_fold (Apop m n) (Suc (Suc 0)) w = Ok (Apop m (n @ w))"
  "length (n @ w) \<le> 64 \<Longrightarrow> args_fold (Auth n []) (Suc 0) w = Ok (Auth (n @ w) [])"
  by (induction w arbitrary: n; simp add: update_argument_def MAX_ARG_LEN_def)+

lemma push_params:
  assumes "length ps \<le> 2" "length m < 64"
  shows "sum_list (map length ps) + length q + length w \<le> 1024 \<Longrightarrow>
    args_fold (Auth m (ps @ [q])) (Suc (Suc (length ps))) w = Ok (Auth m (ps @ [q @ w]))"
  by (induction w arbitrary: q)
    (use assms in \<open>auto simp: update_argument_def MAX_ARG_LEN_def push_param_def map_ok_def\<close>)

lemma new_param:
  assumes "length ps \<le> 2" "length m < 64" "w \<noteq> []" "sum_list (map length ps) + length w \<le> 1024"
  shows "args_fold (Auth m ps) (Suc (Suc (length ps))) w = Ok (Auth m (ps @ [w]))"
  using assms push_params [OF assms(1,2), of "[hd w]" "tl w"]
  by (cases w) (auto simp: update_argument_def MAX_ARG_LEN_def push_param_def map_ok_def)

lemma parse_params:
  assumes "length m < 64"
  shows "\<forall>p \<in> set qs. word_ok p \<Longrightarrow> length (ps @ qs) \<le> 3 \<Longrightarrow> sum_list (map length (ps @ qs)) \<le> 1024 \<Longrightarrow>
    parse_all (InArgument (Auth m ps) (Suc (length ps)) False) (concat (map (\<lambda>p. 32 # p) qs) @ rest) =
    parse_all (InArgument (Auth m (ps @ qs)) (Suc (length (ps @ qs))) False) rest"
proof (induction qs arbitrary: ps)
  case Nil
  then show ?case by simp
next
  case (Cons q qs)
  have "args_fold (Auth m ps) (Suc (Suc (length ps))) q = Ok (Auth m (ps @ [q]))"
    using Cons.prems assms by (intro new_param) (auto simp: word_ok_def)
  then have "parse_all (InArgument (Auth m ps) (Suc (length ps)) True) (q @ r) =
      parse_all (InArgument (Auth m (ps @ [q])) (Suc (Suc (length ps))) False) r" for r
    using Cons.prems(1) by (intro parse_word) auto
  moreover have "parse_all (InArgument (Auth m ps) (Suc (length ps)) False) (32 # r) =
      parse_all (InArgument (Auth m ps) (Suc (length ps)) True) r" for r
    by (simp add: parse_all_Cons parse_byte_def is_blank_def)
  ultimately show ?case
    using Cons.IH [of "ps @ [q]"] Cons.prems by simp
qed

lemma mechanism_word:
  "word_ok (mechanism_as_str m)" "length (mechanism_as_str m) < 64"
  "mechanism_parse (mechanism_as_str m) = Ok m"
  by (cases m; simp add: word_ok_def ascii_defs is_blank_def mechanism_parse_def
      eq_ignore_ascii_case_def to_lower_def is_upper_def)+

lemma parse_end:
  "parse_all (InArgument c num b) CRLF = (Init, [finalize c num])"
  by (simp add: CRLF_def parse_all_Cons parse_byte_def is_blank_def ascii_defs)

text \<open>The command word and the separator or line end after it.\<close>

definition command_word :: "bytes \<Rightarrow> raw_command \<Rightarrow> bool" where
  "command_word w c \<longleftrightarrow>
     (\<forall>rest. parse_all Init (w @ 32 # rest) = parse_all (InArgument c 0 True) rest) \<and>
     parse_all Init (w @ CRLF) = (Init, [finalize c 0])"

lemma parse_letters:
  "\<forall>b \<in> set ws. is_upper b \<or> b = 56 \<Longrightarrow> length (xs @ ws) \<le> 4 \<Longrightarrow>
     parse_all (InCommand (xs @ replicate (4 - length xs) 0) (length xs)) (ws @ rest) =
     parse_all (InCommand ((xs @ map to_lower ws) @ replicate (4 - length (xs @ ws)) 0) (length (xs @ ws))) rest"
proof (induction ws arbitrary: xs)
  case Nil
  then show ?case by simp
next
  case (Cons w ws)
  have len: "length xs < 4" using Cons.prems(2) by simp
  then have "(xs @ replicate (4 - length xs) 0)[length xs := x] = (xs @ [x]) @ replicate (4 - length (xs @ [x])) 0" for x
    by (simp add: list_update_append Suc_diff_Suc [symmetric])
  moreover have "is_upper w \<and> \<not> is_lower w \<and> w \<noteq> 56 \<or> w = 56 \<and> \<not> is_upper w"
    using Cons.prems(1) by (auto simp: is_upper_def is_lower_def word_le_nat_alt)
  ultimately have "parse_byte (InCommand (xs @ replicate (4 - length xs) 0) (length xs)) w =
      (InCommand ((xs @ [to_lower w]) @ replicate (4 - length (xs @ [to_lower w])) 0) (length (xs @ [to_lower w])), None)"
    using len by (elim disjE) (simp_all add: parse_byte_def to_lower_def)
  then show ?case
    using Cons.IH [of "xs @ [to_lower w]"] Cons.prems by (simp add: parse_all_Cons)
qed

lemma command_wordI:
  assumes "is_upper w" "\<forall>b \<in> set ws. is_upper b \<or> b = 56" "length ws = 3 \<or> length ws = 2"
    and "command_parse (map to_lower (w # ws) @ replicate (3 - length ws) 0) = Ok c"
  shows "command_word (w # ws) c"
proof -
  define buf where "buf = map to_lower (w # ws) @ replicate (3 - length ws) 0"
  have "\<not> is_lower w" "\<not> is_blank w" "w \<noteq> CR" "w \<noteq> LF"
    using assms(1) by (auto simp: is_upper_def is_lower_def is_blank_def ascii_defs word_le_nat_alt word_unat_eq_iff)
  then have "parse_all Init (w # ws @ rest) = parse_all (InCommand [to_lower w, 0, 0, 0] 1) (ws @ rest)" for rest
    using assms(1) by (simp add: parse_all_Cons parse_byte_def to_lower_def)
  moreover have "parse_all (InCommand [to_lower w, 0, 0, 0] 1) (ws @ rest) =
      parse_all (InCommand buf (Suc (length ws))) rest" for rest
    using parse_letters [of ws "[to_lower w]" rest] assms(2,3)
    by (auto simp: buf_def numeral_3_eq_3)
  ultimately have letters: "parse_all Init ((w # ws) @ rest) = parse_all (InCommand buf (Suc (length ws))) rest" for rest
    by simp
  have len: "Suc (length ws) = 4 \<or> Suc (length ws) = 3" using assms(3) by auto
  have cmd: "command_parse buf = Ok c" using assms(4) by (simp add: buf_def)
  have "parse_byte (InCommand buf (Suc (length ws))) 32 = (InArgument c 0 True, None)"
    "parse_byte (InCommand buf (Suc (length ws))) CR = (InCommand buf (Suc (length ws)), None)"
    "parse_byte (InCommand buf (Suc (length ws))) LF = (Init, Some (finalize c 0))"
    using len cmd by (auto simp: parse_byte_def is_lower_def is_upper_def is_blank_def ascii_defs)
  then show ?thesis
    unfolding command_word_def letters by (simp add: CRLF_def parse_all_Cons)
qed

lemma command_words:
  "command_word (lit ''USER'') (User [])" "command_word (lit ''PASS'') (Pass [])"
  "command_word (lit ''APOP'') (Apop [] [])" "command_word (lit ''QUIT'') Quit"
  "command_word (lit ''STAT'') Stat" "command_word (lit ''LIST'') (List None)"
  "command_word (lit ''RETR'') (Retr 0)" "command_word (lit ''DELE'') (Dele 0)"
  "command_word (lit ''NOOP'') Noop" "command_word (lit ''RSET'') Rset"
  "command_word (lit ''TOP'') (Top 0 0)" "command_word (lit ''UIDL'') (Uidl None)"
  "command_word (lit ''CAPA'') Capa" "command_word (lit ''STLS'') Stls"
  "command_word (lit ''UTF8'') Utf8" "command_word (lit ''AUTH'') (Auth [] [])"
  by (simp_all only: lit_simps)
    (rule command_wordI; simp add: is_upper_def to_lower_def command_parse_def)+

lemma parse_args:
  assumes "command_word w c" "word_ok a" "args_fold c (Suc 0) a = Ok c'"
  shows "parse_all Init (w @ 32 # a @ rest) = parse_all (InArgument c' (Suc 0) False) rest"
  using assms parse_word [OF assms(2,3)] by (simp add: command_word_def)

lemma parse_second:
  assumes "word_ok a" "args_fold c (Suc (Suc 0)) a = Ok c'"
  shows "parse_all (InArgument c (Suc 0) False) (32 # a @ rest) =
    parse_all (InArgument c' (Suc (Suc 0)) False) rest"
  using parse_word [OF assms] by (simp add: parse_all_Cons [of _ 32] parse_byte_def is_blank_def)

lemma parse_pop3_line:
  assumes "printable_request r"
  shows "parse_all Init (pop3_line r) = (Init, [Ok r])"
proof -
  note parse = parse_args [OF command_words(1)] parse_args [OF command_words(2)]
    parse_args [OF command_words(3)] parse_args [OF command_words(6)] parse_args [OF command_words(7)]
    parse_args [OF command_words(8)] parse_args [OF command_words(11)] parse_args [OF command_words(12)]
    parse_args [OF command_words(16)]
  note ends = command_words [unfolded command_word_def, THEN conjunct2]
  have valid: "word_ok w \<Longrightarrow> into_string w = Ok w" for w
    by (simp add: word_ok_def into_string_def)
  show ?thesis
  proof (cases r)
    case (Auth m ps)
    have "parse_all Init (pop3_line r) =
        parse_all (InArgument (Auth (mechanism_as_str m) ps) (Suc (length ps)) False) CRLF"
      using assms Auth mechanism_word [of m] word_args(5) [of "[]" "mechanism_as_str m"]
        parse_params [of "mechanism_as_str m" ps "[]" CRLF]
      by (simp add: parse del: lit_simps)
    moreover have "into_strings ps = Ok ps"
      using assms Auth by (auto simp: into_strings_Ok word_ok_def)
    ultimately show ?thesis
      using Auth mechanism_word(3) [of m] by (simp add: parse_end finalize_def)
  next
    case (Apop name digest)
    then show ?thesis
      using assms word_args(3) [of "[]" name] word_args(4) [of name "[]" digest]
      by (simp add: parse parse_second parse_end finalize_def valid del: lit_simps)
  next
    case (List msg)
    then show ?thesis
      by (cases msg) (simp_all add: parse ends numeric_args show_u32_word parse_end finalize_def del: lit_simps)
  next
    case (Uidl msg)
    then show ?thesis
      by (cases msg) (simp_all add: parse ends numeric_args show_u32_word parse_end finalize_def del: lit_simps)
  qed (use assms word_args(1,2) [of "[]"] in \<open>simp_all add: parse parse_second ends numeric_args
      show_u32_word parse_end finalize_def valid map_ok_def del: lit_simps\<close>)
qed

definition parse_line :: "bytes \<Rightarrow> request option" where
  "parse_line bs = (case parse_all Init bs of (_, [Ok r]) \<Rightarrow> Some r | _ \<Rightarrow> None)"

interpretation pop3_text: text_code pop3_line parse_line printable_request
  by unfold_locales (simp add: parse_line_def parse_pop3_line)

lemma parse_pop3_lines:
  "\<forall>r \<in> set rs. printable_request r \<Longrightarrow>
     parse_all Init (concat (map pop3_line rs) @ rest) =
       (let (st, qs) = parse_all Init rest in (st, map Ok rs @ qs))"
  by (induction rs) (auto simp: parse_all_append parse_pop3_line split: prod.splits)

lemma add_digit_overflow:
  assumes "is_digit d" "\<not> unat n * 10 + digit_value d < 2 ^ 32"
  shows "add_digit n d = Err NumericOutOfRange"
proof -
  have d: "48 \<le> unat d" "unat d \<le> 57"
    using assms(1) by (auto simp: is_digit_def word_le_nat_alt)
  then have v: "unat (ucast (d - 48) :: u32) = digit_value d"
    by (simp add: digit_value_def unat_sub word_le_nat_alt unsigned_ucast_eq take_bit_nat_eq_self)
  show ?thesis
    using assms v by (auto simp: add_digit_def checked_mul_def checked_add_def unat_word_ariths)
qed

lemma digit_not_special: "is_digit b \<Longrightarrow> \<not> is_blank b \<and> b \<noteq> CR \<and> b \<noteq> LF \<and> b < 128"
  by (auto simp: is_digit_def is_blank_def CR_def LF_def word_le_nat_alt word_less_nat_alt word_unat_eq_iff)

lemma parse_error_line:
  "\<forall>d \<in> set ds. is_digit d \<Longrightarrow> parse_all (InError e) (ds @ CRLF) = (Init, [Err e])"
  by (induction ds) (auto simp: parse_all_Cons parse_byte_def CRLF_def CR_def LF_def dest: digit_not_special)

lemma parse_dele_digits:
  "\<forall>d \<in> set ds. is_digit d \<Longrightarrow>
     parse_all (InArgument (Dele n) (Suc 0) False) (ds @ CRLF) =
       (Init, [let v = foldl (\<lambda>a d. a * 10 + digit_value d) (unat n) ds in
               if v < 2 ^ 32 then Ok (Dele (of_nat v)) else Err NumericOutOfRange])"
proof (induction ds arbitrary: n)
  case Nil
  then show ?case using unat_bound [of n] by (simp add: parse_end finalize_def)
next
  case (Cons d ds)
  let ?a = "unat n * 10 + digit_value d"
  have d: "is_digit d" "\<not> is_blank d" "d \<noteq> CR" "d \<noteq> LF"
    using Cons.prems digit_not_special [of d] by auto
  show ?case
  proof (cases "?a < 2 ^ 32")
    case True
    then have "add_digit n d = Ok (of_nat ?a)" "unat (of_nat ?a :: u32) = ?a"
      using d(1) by (simp_all only: add_digit_Ok unat_of_nat) simp_all
    then show ?thesis
      using Cons d by (simp add: parse_all_Cons parse_byte_def update_argument_def map_ok_def)
  next
    case False
    then have "\<not> foldl (\<lambda>a d. a * 10 + digit_value d) ?a ds < 2 ^ 32"
      using decimal_from_ge [of ?a ds] by simp
    with False show ?thesis
      using Cons.prems d add_digit_overflow [OF d(1), of n]
      by (simp add: parse_all_Cons parse_byte_def update_argument_def map_ok_def parse_error_line)
  qed
qed

section \<open>Properties\<close>

text \<open>C37: requests a client writes in one pipelined stream, cut into reads anywhere, are parsed back to
  exactly these requests in order, with the parser ready for the next command.\<close>

theorem pop3_pipeline_roundtrip:
  assumes "\<forall>r \<in> set rs. printable_request r" and "concat cs = concat (map pop3_line rs)"
  shows "feed_chunks parser_feed Init cs = Ok (Init, map Ok rs)"
  using pop3_parser.feed_chunks_concat [of Init cs] assms parse_pop3_lines [OF assms(1), of "[]"]
  by (simp add: parser_feed_def)

theorem pop3_pipeline_roundtrip_witness:
  "feed_chunks parser_feed Init [lit ''DEL'', lit ''E 42'' @ [13, 10], lit ''NOOP'' @ [13, 10]] =
     Ok (Init, [Ok (Dele 42), Ok Noop])"
proof -
  have "concat [lit ''DEL'', lit ''E 42'' @ [13, 10], lit ''NOOP'' @ [13, 10]] =
      concat (map pop3_line [Dele 42, Noop])"
    by (simp add: CRLF_def ascii_defs show_u32_def show_nat.simps)
  moreover have "\<forall>r \<in> set [Dele 42, Noop]. printable_request r" by simp
  ultimately have "feed_chunks parser_feed Init [lit ''DEL'', lit ''E 42'' @ [13, 10], lit ''NOOP'' @ [13, 10]] =
      Ok (Init, map Ok [Dele 42, Noop])"
    by (intro pop3_pipeline_roundtrip)
  then show ?thesis by simp
qed

text \<open>Whatever bytes a client sends, in whatever reads, the request parser does not panic and every
  command it returns respects the argument limits: names and passwords of at most 256 bytes, at most
  three SASL parameters of at most 1024 bytes together.\<close>

theorem pop3_parser_bounded:
  "\<exists>st rs. feed_chunks parser_feed Init cs = Ok (st, rs) \<and> parser_inv st \<and>
     (\<forall>r \<in> set rs. r \<noteq> Panic \<and> (\<forall>c. r = Ok c \<longrightarrow> bounded_command c))"
proof -
  obtain st rs where run: "parse_all Init (concat cs) = (st, rs)" by fastforce
  show ?thesis
    using pop3_parser.feed_chunks_concat [of Init cs] parse_all_inv [OF _ run]
    by (auto simp: parser_feed_def run)
qed

theorem pop3_parser_bounded_witness:
  "\<exists>st rs. feed_chunks parser_feed Init [lit ''USER a'', [13, 10]] = Ok (st, rs) \<and> parser_inv st \<and>
     rs = [Ok (User (lit ''a''))] \<and> bounded_command (User (lit ''a''))"
  using pop3_parser_bounded [of "[lit ''USER a'', [13, 10]]"]
  by (auto simp: parser_feed_def parse_all_Cons parse_byte_def is_blank_def ascii_defs is_lower_def
      is_upper_def command_parse_def update_argument_def MAX_ARG_LEN_def finalize_def map_ok_def
      into_string_def)

text \<open>A numeric argument is read as its decimal value exactly when that value fits 32 bits; a larger
  one is refused instead of wrapping around.\<close>

theorem pop3_number_exact_or_refused:
  assumes "ds \<noteq> []" "\<forall>d \<in> set ds. is_digit d"
  shows "parse_all Init (lit ''DELE'' @ 32 # ds @ CRLF) =
    (Init, [if decimal ds < 2 ^ 32 then Ok (Dele (of_nat (decimal ds))) else Err NumericOutOfRange])"
proof -
  have "parse_all (InArgument (Dele 0) 0 True) (ds @ CRLF) =
      parse_all (InArgument (Dele 0) (Suc 0) False) (ds @ CRLF)"
    using assms digit_not_special [of "hd ds"]
    by (cases ds) (simp_all add: parse_all_Cons parse_byte_def)
  then show ?thesis
    using command_words(8) parse_dele_digits [OF assms(2), of 0]
    by (simp add: command_word_def decimal_def Let_def del: lit_simps)
qed

theorem pop3_number_exact_or_refused_witness:
  "parse_all Init (lit ''DELE'' @ 32 # lit ''4294967296'' @ CRLF) = (Init, [Err NumericOutOfRange])"
  using pop3_number_exact_or_refused [of "lit ''4294967296''"]
  by (simp add: is_digit_def decimal_def digit_value_def)

end
