(* ===== verification/Chained_Bytes.thy ===== *)
theory Chained_Bytes
  imports Prelude
begin

text \<open>
  Two byte slices read as one (\<^verbatim>\<open>utils/src/chained_bytes.rs\<close>): the headers and the body
  of a stored message. Ranges across the seam are shown to be ranges of the concatenation.
\<close>

section \<open>Operations\<close>

record chained_bytes =
  first :: bytes
  second :: bytes

datatype slice_range = Single bytes | Split bytes bytes | NoRange

definition new_chained :: "bytes \<Rightarrow> chained_bytes" where
  "new_chained bs = \<lparr>first = bs, second = []\<rparr>"

definition chained_append :: "bytes \<Rightarrow> chained_bytes \<Rightarrow> chained_bytes" where
  "chained_append bs c = c\<lparr>second := bs\<rparr>"

definition with_last :: "chained_bytes \<Rightarrow> bytes \<Rightarrow> chained_bytes" where
  "with_last c bs = c\<lparr>second := bs\<rparr>"

text \<open>
  \<^verbatim>\<open>end - first.len()\<close> underflows for a reversed range that ends inside the first slice;
  the workspace is built without overflow checks, so the difference wraps to a bound beyond any
  slice and nothing is found.
\<close>

definition chained_get :: "chained_bytes \<Rightarrow> nat \<Rightarrow> nat \<Rightarrow> bytes option" where
  "chained_get c a b =
     (case get_range (first c) a b of
        Some bs \<Rightarrow> Some bs
      | None \<Rightarrow>
          if b < length (first c) then None
          else if a \<ge> length (first c) then
            get_range (second c) (a - length (first c)) (b - length (first c))
          else
            (case (get_range (first c) a (length (first c)), get_range (second c) 0 (b - length (first c))) of
               (Some x, Some y) \<Rightarrow> Some (x @ y)
             | _ \<Rightarrow> None))"

definition get_slice_range :: "chained_bytes \<Rightarrow> nat \<Rightarrow> nat \<Rightarrow> slice_range" where
  "get_slice_range c a b =
     (case get_range (first c) a b of
        Some bs \<Rightarrow> Single bs
      | None \<Rightarrow>
          if b < length (first c) then NoRange
          else if a \<ge> length (first c) then
            (case get_range (second c) (a - length (first c)) (b - length (first c)) of
               Some bs \<Rightarrow> Single bs
             | None \<Rightarrow> NoRange)
          else
            (case (get_range (first c) a (length (first c)), get_range (second c) 0 (b - length (first c))) of
               (Some x, Some y) \<Rightarrow> Split x y
             | _ \<Rightarrow> NoRange))"

definition get_full_range :: "chained_bytes \<Rightarrow> slice_range" where
  "get_full_range c = (if second c = [] then Single (first c) else Split (first c) (second c))"

definition chained_to_bytes :: "chained_bytes \<Rightarrow> bytes" where
  "chained_to_bytes c = first c @ second c"

definition chained_len :: "chained_bytes \<Rightarrow> nat" where
  "chained_len c = length (first c) + length (second c)"

definition chained_is_empty :: "chained_bytes \<Rightarrow> bool" where
  "chained_is_empty c \<longleftrightarrow> chained_len c = 0"

fun range_len :: "slice_range \<Rightarrow> nat" where
  "range_len (Single bs) = length bs"
| "range_len (Split x y) = length x + length y"
| "range_len NoRange = 0"

fun try_into_bytes :: "slice_range \<Rightarrow> bytes option" where
  "try_into_bytes (Single bs) = Some bs"
| "try_into_bytes (Split x y) = Some (x @ y)"
| "try_into_bytes NoRange = None"

definition range_is_empty :: "slice_range \<Rightarrow> bool" where
  "range_is_empty r \<longleftrightarrow> range_len r = 0"

fun into_pairs :: "slice_range \<Rightarrow> bytes \<times> bytes" where
  "into_pairs (Single bs) = (bs, [])"
| "into_pairs (Split x y) = (x, y)"
| "into_pairs NoRange = ([], [])"

definition is_none :: "slice_range \<Rightarrow> bool" where
  "is_none r \<longleftrightarrow> r = NoRange"

definition is_some :: "slice_range \<Rightarrow> bool" where
  "is_some r \<longleftrightarrow> \<not> is_none r"

text \<open>The bytes an iteration over the range visits.\<close>

definition into_iter :: "slice_range \<Rightarrow> bytes" where
  "into_iter r = (let (x, y) = into_pairs r in x @ y)"

section \<open>Lemmas\<close>

lemma slice_across:
  assumes "a \<le> length xs" "length xs \<le> b"
  shows "slice_of a b (xs @ ys) = slice_of a (length xs) xs @ slice_of 0 (b - length xs) ys"
  using assms by (auto simp: slice_of_def)

lemma slice_beyond:
  assumes "length xs \<le> a"
  shows "slice_of a b (xs @ ys) = slice_of (a - length xs) (b - length xs) ys"
  using assms by (auto simp: slice_of_def)

lemma full_range_bytes:
  "into_iter (get_full_range c) = chained_to_bytes c"
  "range_len (get_full_range c) = chained_len c"
  "try_into_bytes (get_full_range c) = Some (chained_to_bytes c)"
  by (auto simp: get_full_range_def into_iter_def chained_to_bytes_def chained_len_def)

section \<open>Properties\<close>

text \<open>A range of the two slices is the same range of their concatenation, also across the seam,
  whether it is copied or kept as two slices; a range that ends beyond them, or is reversed, is
  refused.\<close>

theorem chained_range_is_concatenation:
  "chained_get c a b = get_range (chained_to_bytes c) a b \<and>
   try_into_bytes (get_slice_range c a b) = get_range (chained_to_bytes c) a b"
proof -
  consider (fst) "b \<le> length (first c)" | (snd) "length (first c) \<le> a" "length (first c) < b"
    | (both) "a < length (first c)" "length (first c) < b"
    by linarith
  then show ?thesis
    by cases (auto simp: chained_get_def get_slice_range_def get_range_def chained_to_bytes_def
        slice_append1 slice_beyond slice_across)
qed

end
