(* ===== verification/Pop3_Response.thy ===== *)
theory Pop3_Response
  imports Pop3_Request Chained_Bytes
begin

text \<open>
  POP3 responses as bytes (\<^verbatim>\<open>pop3/src/protocol/response.rs\<close>). The multi-line body of a
  message is checked against a reading client: it ends a response at a line that is a single
  dot and removes the dot a server adds to lines that start with one.
\<close>

section \<open>Serialization\<close>

datatype 'a response =
    RespOk bytes
  | RespErr bytes
  | RespList "'a list"
  | RespMessage slice_range u32
  | RespCapability "mechanism list" bool

text \<open>
  The transparency loop over the message bytes: the bytes written and the last byte read.
  \<open>k\<close> lines were counted so far; the loop stops after \<open>n\<close> of them if \<open>n > 0\<close>.
\<close>

fun stuff :: "nat \<Rightarrow> nat \<Rightarrow> byte \<Rightarrow> bytes \<Rightarrow> bytes \<times> byte" where
  "stuff n k prev [] = ([], prev)"
| "stuff n k prev (b # bs) =
     (let out = (if b = LF \<and> prev \<noteq> CR then [CR] else []) @
                (if b = DOT \<and> prev = LF then [DOT] else []) @ [b]
      in if n > 0 \<and> b = LF \<and> k + 1 = n then (out, b)
         else let (rest, last) = stuff n (if n > 0 \<and> b = LF then k + 1 else k) b bs
              in (out @ rest, last))"

definition message_body :: "nat \<Rightarrow> bytes \<Rightarrow> bytes" where
  "message_body n bs =
     (let (out, last) = stuff n 0 0 bs
      in out @ (if last \<noteq> LF then CRLF else []) @ DOT # CRLF)"

fun list_lines :: "('a \<Rightarrow> bytes) \<Rightarrow> nat \<Rightarrow> 'a list \<Rightarrow> bytes" where
  "list_lines disp num [] = []"
| "list_lines disp num (x # xs) =
     show_nat (num + 1) @ lit '' '' @ disp x @ CRLF @ list_lines disp (num + 1) xs"

definition CAPABILITIES :: "bytes list" where
  "CAPABILITIES =
     [lit ''TOP'', lit ''RESP-CODES'', lit ''PIPELINING'', lit ''EXPIRE NEVER'', lit ''UIDL'',
      lit ''UTF8'', lit ''IMPLEMENTATION Stalwart Server'']"

fun serialize :: "('a \<Rightarrow> bytes) \<Rightarrow> 'a response \<Rightarrow> bytes" where
  "serialize disp (RespOk message) = lit ''+OK '' @ message @ CRLF"
| "serialize disp (RespErr message) = lit ''-ERR '' @ message @ CRLF"
| "serialize disp (RespList octets) =
     lit ''+OK '' @ show_nat (length octets) @ lit '' messages'' @ CRLF @
     list_lines disp 0 octets @ DOT # CRLF"
| "serialize disp (RespMessage bs n) =
     lit ''+OK '' @ show_nat (range_len bs) @ lit '' octets'' @ CRLF @
     message_body (unat n) (into_iter bs)"
| "serialize disp (RespCapability mechanisms stls) =
     lit ''+OK Capability list follows'' @ CRLF @
     (if mechanisms \<noteq> [] then
        (if Plain \<in> set mechanisms then lit ''USER'' @ CRLF else []) @
        lit ''SASL'' @ concat (map (\<lambda>m. lit '' '' @ mechanism_as_str m) mechanisms) @ CRLF
      else []) @
     (if stls then lit ''STLS'' @ CRLF else []) @
     concat (map (\<lambda>c. c @ CRLF) CAPABILITIES) @ DOT # CRLF"

section \<open>A client reading a multi-line response\<close>

datatype client_state = LineStart | AfterDot | AfterDotCR | InLine bool

fun client_read :: "client_state \<Rightarrow> bytes \<Rightarrow> (bytes \<times> bytes) option" where
  "client_read st [] = None"
| "client_read LineStart (b # bs) =
     (if b = DOT then client_read AfterDot bs
      else map_option (apfst (Cons b)) (client_read (InLine (b = CR)) bs))"
| "client_read AfterDot (b # bs) =
     (if b = CR then client_read AfterDotCR bs
      else map_option (apfst (Cons b)) (client_read (InLine False) bs))"
| "client_read AfterDotCR (b # bs) =
     (if b = LF then Some ([], bs)
      else map_option (apfst (\<lambda>xs. CR # b # xs)) (client_read (InLine (b = CR)) bs))"
| "client_read (InLine cr) (b # bs) =
     (if cr \<and> b = LF then map_option (apfst (Cons b)) (client_read LineStart bs)
      else map_option (apfst (Cons b)) (client_read (InLine (b = CR)) bs))"

text \<open>The message with CRLF line ends, the last line ended too.\<close>

fun with_crlf :: "byte \<Rightarrow> bytes \<Rightarrow> bytes" where
  "with_crlf prev [] = (if prev \<noteq> LF then CRLF else [])"
| "with_crlf prev (b # bs) = (if b = LF \<and> prev \<noteq> CR then [CR] else []) @ b # with_crlf b bs"

definition client_at :: "byte \<Rightarrow> client_state" where
  "client_at prev = (if prev = LF then LineStart else InLine (prev = CR))"

lemma ascii_distinct [simp]:
  "CR \<noteq> LF" "LF \<noteq> CR" "DOT \<noteq> CR" "DOT \<noteq> LF" "CR \<noteq> DOT" "LF \<noteq> DOT" "(0 :: byte) \<noteq> LF" "(0 :: byte) \<noteq> CR"
  by (simp_all add: ascii_defs)

lemma client_reads_stuffed:
  "client_read (client_at prev)
     (fst (stuff 0 k prev bs) @ (if snd (stuff 0 k prev bs) \<noteq> LF then CRLF else []) @ DOT # CRLF @ rest) =
   Some (with_crlf prev bs, rest)"
proof (induction bs arbitrary: prev)
  case Nil
  then show ?case by (simp add: client_at_def CRLF_def)
next
  case (Cons b bs)
  let ?tail = "fst (stuff 0 k b bs) @ (if snd (stuff 0 k b bs) \<noteq> LF then CRLF else []) @ DOT # CRLF @ rest"
  have IH: "client_read (client_at b) ?tail = Some (with_crlf b bs, rest)" by (rule Cons.IH)
  show ?case
    using IH by (auto simp: client_at_def case_prod_unfold Let_def split: if_splits)
qed

lemma client_first_byte:
  "bs \<noteq> [] \<Longrightarrow> hd bs \<noteq> DOT \<Longrightarrow> client_read LineStart bs = client_read (InLine False) bs"
  by (cases bs) auto

lemma stuffed_head:
  "bs = [] \<or> hd bs \<noteq> DOT \<Longrightarrow>
     hd (fst (stuff 0 k 0 bs) @ (if snd (stuff 0 k 0 bs) \<noteq> LF then CRLF else []) @ ys) \<noteq> DOT"
  by (cases bs) (auto simp: case_prod_unfold Let_def CRLF_def)

section \<open>Properties\<close>

text \<open>A message sent whole is received as it is stored, up to its line ends: a client that follows
  the multi-line rules reads the message with CRLF line ends and stops exactly at the end of the
  response. The message must not start with a dot.\<close>

theorem message_transparent:
  assumes "bs = [] \<or> hd bs \<noteq> DOT"
  shows "client_read LineStart (message_body 0 bs @ rest) = Some (with_crlf 0 bs, rest)"
proof -
  let ?out = "fst (stuff 0 0 0 bs) @ (if snd (stuff 0 0 0 bs) \<noteq> LF then CRLF else []) @ DOT # CRLF @ rest"
  have "?out \<noteq> []" by simp
  then have "client_read LineStart ?out = client_read (client_at 0) ?out"
    using stuffed_head [OF assms] by (simp add: client_first_byte client_at_def)
  then show ?thesis
    using client_reads_stuffed [of 0 0 bs rest]
    by (simp add: message_body_def case_prod_unfold Let_def)
qed

theorem message_transparent_witness:
  "client_read LineStart (message_body 0 (lit ''a'' @ [10] @ lit ''.b'')) =
     Some (lit ''a'' @ [13, 10] @ lit ''.b'' @ [13, 10], [])"
  using message_transparent [of "lit ''a'' @ [10] @ lit ''.b''" "[]"]
  by (simp add: ascii_defs CRLF_def)

text \<open>A message whose first line is a single dot is cut off: the first byte is never stuffed, so the
  client takes it for the end of the response and reads the rest of the message as the next
  response.\<close>

theorem leading_dot_ends_response:
  "client_read LineStart (message_body 0 (DOT # CR # LF # bs)) =
     Some ([], fst (stuff 0 0 LF bs) @ (if snd (stuff 0 0 LF bs) \<noteq> LF then CRLF else []) @ DOT # CRLF)"
  by (simp add: message_body_def case_prod_unfold Let_def)

end
