(* ===== verification/Sasl.thy ===== *)
theory Sasl
  imports Text Contracts
begin

text \<open>
  SASL challenges (\<^verbatim>\<open>directory/src/core/sasl.rs\<close>): the PLAIN mechanism's two
  NUL-separated strings and the bearer token of OAUTHBEARER and XOAUTH2. Reading an address
  out of a JWT (base64 and JSON libraries) is the argument \<open>email_from_jwt\<close>.
\<close>

section \<open>PLAIN\<close>

datatype credentials =
    Basic (cred_username: bytes) (cred_secret: bytes) (mfa_token: "bytes option")
  | Bearer (bearer_username: "bytes option") (bearer_token: bytes)

fun plain_loop :: "nat \<Rightarrow> bytes \<Rightarrow> bytes \<Rightarrow> bytes \<Rightarrow> bytes \<times> bytes" where
  "plain_loop arg_num username secret [] = (username, secret)"
| "plain_loop arg_num username secret (ch # chs) =
     (if ch \<noteq> 0 then
        (if arg_num = 1 then plain_loop arg_num (username @ [ch]) secret chs
         else if arg_num = 2 then plain_loop arg_num username (secret @ [ch]) chs
         else plain_loop arg_num username secret chs)
      else plain_loop (arg_num + 1) username secret chs)"

definition decode_sasl_challenge_plain :: "bytes \<Rightarrow> credentials option" where
  "decode_sasl_challenge_plain challenge =
     (let (username, secret) = plain_loop 0 [] [] challenge in
      if valid_utf8 username \<and> valid_utf8 secret \<and> username \<noteq> [] \<and> secret \<noteq> []
      then Some (Basic username secret None)
      else None)"

text \<open>The challenge a client writes: an authorization identity, the user name and the password.\<close>

definition encode_plain :: "bytes \<Rightarrow> credentials \<Rightarrow> bytes" where
  "encode_plain authzid c = authzid @ [0] @ cred_username c @ [0] @ cred_secret c"

definition plain_credentials :: "credentials \<Rightarrow> bool" where
  "plain_credentials c \<longleftrightarrow>
     (\<exists>u s. c = Basic u s None \<and> valid_utf8 u \<and> valid_utf8 s \<and> u \<noteq> [] \<and> s \<noteq> [] \<and>
        0 \<notin> set u \<and> 0 \<notin> set s)"

lemma plain_loop_skip:
  "0 \<notin> set xs \<Longrightarrow> plain_loop 0 u s (xs @ ys) = plain_loop 0 u s ys"
  "0 \<notin> set xs \<Longrightarrow> plain_loop (Suc 0) u s (xs @ ys) = plain_loop (Suc 0) (u @ xs) s ys"
  "0 \<notin> set xs \<Longrightarrow> plain_loop (Suc (Suc 0)) u s (xs @ ys) = plain_loop (Suc (Suc 0)) u (s @ xs) ys"
  by (induction xs arbitrary: u s) auto

lemma decode_encode_plain:
  assumes "0 \<notin> set authzid" "plain_credentials c"
  shows "decode_sasl_challenge_plain (encode_plain authzid c) = Some c"
  using assms plain_loop_skip(3) [of _ _ _ "[]"]
  by (auto simp: plain_credentials_def decode_sasl_challenge_plain_def encode_plain_def plain_loop_skip)

interpretation sasl_plain: text_code "encode_plain []" decode_sasl_challenge_plain plain_credentials
  by unfold_locales (simp add: decode_encode_plain)

section \<open>Bearer tokens\<close>

definition COMMA :: byte where "COMMA = 44"
definition AT_SIGN :: byte where "AT_SIGN = 64"

text \<open>The inner loop over the same iterator: the position of the next comma or separator.\<close>

function next_separator :: "bytes \<Rightarrow> nat \<Rightarrow> nat option" where
  "next_separator bs pos =
     (if pos \<ge> length bs then None
      else if bs ! pos = COMMA \<or> bs ! pos = 1 then Some pos
      else next_separator bs (pos + 1))"
  by pat_completeness auto
termination by (relation "measure (\<lambda>(bs, pos). length bs - pos)") auto

declare next_separator.simps [simp del]

lemma next_separator_bounds:
  "next_separator bs pos = Some p \<Longrightarrow> pos \<le> p \<and> p < length bs"
proof (induction bs pos rule: next_separator.induct)
  case (1 bs pos)
  then show ?case
    by (subst (asm) (2) next_separator.simps) (auto split: if_split_asm)
qed

definition filter_address :: "bytes option \<Rightarrow> bytes option" where
  "filter_address s =
     (case s of Some v \<Rightarrow> if valid_utf8 v \<and> AT_SIGN \<in> set v then Some v else None | None \<Rightarrow> None)"

definition bearer_result ::
  "(bytes \<Rightarrow> bytes option) \<Rightarrow> bytes option \<Rightarrow> bytes option \<Rightarrow> (bytes \<times> bytes option) option" where
  "bearer_result email_from_jwt a found =
     (case found of
        Some token \<Rightarrow>
          if valid_utf8 token
          then Some (token, case a of Some v \<Rightarrow> Some v | None \<Rightarrow> email_from_jwt token)
          else None
      | None \<Rightarrow> None)"

function oauth_loop ::
  "(bytes \<Rightarrow> bytes option) \<Rightarrow> bytes \<Rightarrow> nat \<Rightarrow> nat \<Rightarrow> bytes option \<Rightarrow> (bytes \<times> bytes option) option" where
  "oauth_loop jwt bs pos start_pos a =
     (if pos \<ge> length bs then None
      else
        let ch = bs ! pos in
        if ch = COMMA \<and>
           (case get_range bs (pos + 1) (pos + 3) of
              Some s \<Rightarrow> eq_ignore_ascii_case s (lit ''a='') | None \<Rightarrow> False)
        then
          (case next_separator bs (pos + 1) of
             None \<Rightarrow> None
           | Some to_pos \<Rightarrow>
               oauth_loop jwt bs (to_pos + 1) start_pos
                 (if to_pos > pos + 3 then filter_address (get_range bs (pos + 3) to_pos) else a))
        else
          let is_separator = (ch = 1) in
          if is_separator \<or> pos = length bs - 1 then
            (if (case get_range bs start_pos (start_pos + 12) of
                   Some s \<Rightarrow> eq_ignore_ascii_case s (lit ''auth=Bearer '') | None \<Rightarrow> False)
             then bearer_result jwt a
                    (get_range bs (start_pos + 12) (if is_separator then pos else length bs))
             else oauth_loop jwt bs (pos + 1) (pos + 1) a)
          else oauth_loop jwt bs (pos + 1) start_pos a)"
  by pat_completeness auto
termination
  by (relation "measure (\<lambda>(jwt, bs, pos, start_pos, a). length bs - pos)")
    (auto dest!: next_separator_bounds)

declare oauth_loop.simps [simp del]

definition extract_oauth_bearer ::
  "(bytes \<Rightarrow> bytes option) \<Rightarrow> bytes \<Rightarrow> (bytes \<times> bytes option) option" where
  "extract_oauth_bearer jwt bs = oauth_loop jwt bs 0 0 None"

definition decode_sasl_challenge_oauth :: "(bytes \<Rightarrow> bytes option) \<Rightarrow> bytes \<Rightarrow> credentials option" where
  "decode_sasl_challenge_oauth jwt challenge =
     map_option (\<lambda>(token, username). Bearer username token) (extract_oauth_bearer jwt challenge)"

text \<open>
  A token stands in the challenge right after the marker and runs to a separator or the end; a
  user name that comes with it is an address of the challenge or of the token.
\<close>

definition bearer_sound ::
  "(bytes \<Rightarrow> bytes option) \<Rightarrow> bytes \<Rightarrow> bytes \<times> bytes option \<Rightarrow> bool" where
  "bearer_sound jwt bs res \<longleftrightarrow>
     (case res of (token, username) \<Rightarrow>
        valid_utf8 token \<and>
        (\<exists>pre marker post. bs = pre @ marker @ token @ post \<and>
           eq_ignore_ascii_case marker (lit ''auth=Bearer '') \<and> (post = [] \<or> hd post = 1)) \<and>
        (username = jwt token \<or> (\<exists>v. username = Some v \<and> valid_utf8 v \<and> AT_SIGN \<in> set v)))"

lemma get_range_split:
  "get_range bs a b = Some x \<Longrightarrow> bs = take a bs @ x @ drop b bs"
proof -
  assume "get_range bs a b = Some x"
  then have "a \<le> b" "b \<le> length bs" "x = take (b - a) (drop a bs)"
    by (auto simp: get_range_def slice_of_def split: if_split_asm)
  then have "drop a bs = x @ drop b bs"
    by (metis append_take_drop_id drop_drop le_add_diff_inverse2)
  then show ?thesis by (metis append_take_drop_id)
qed

lemma bearer_result_sound:
  assumes "get_range bs s (s + 12) = Some marker" "eq_ignore_ascii_case marker (lit ''auth=Bearer '')"
    and "bearer_result jwt a (get_range bs (s + 12) e) = Some res"
    and "e = length bs \<or> e < length bs \<and> bs ! e = 1"
    and "\<forall>v. a = Some v \<longrightarrow> valid_utf8 v \<and> AT_SIGN \<in> set v"
  shows "bearer_sound jwt bs res"
proof -
  obtain token where t: "get_range bs (s + 12) e = Some token" "valid_utf8 token"
    "res = (token, case a of Some v \<Rightarrow> Some v | None \<Rightarrow> jwt token)"
    using assms(3) by (auto simp: bearer_result_def split: option.splits if_split_asm)
  have "bs = take s bs @ marker @ drop (s + 12) bs" by (rule get_range_split [OF assms(1)])
  moreover have "drop (s + 12) bs = token @ drop e bs"
    using get_range_split [OF t(1)] by (metis append_take_drop_id same_append_eq)
  ultimately have "bs = take s bs @ marker @ token @ drop e bs" by simp
  moreover have "drop e bs = [] \<or> hd (drop e bs) = 1"
    using assms(4) by (auto simp: hd_drop_conv_nth)
  ultimately have "\<exists>pre marker post. bs = pre @ marker @ token @ post \<and>
      eq_ignore_ascii_case marker (lit ''auth=Bearer '') \<and> (post = [] \<or> hd post = 1)"
    using assms(2) by blast
  then show ?thesis
    using t(2) assms(5) unfolding bearer_sound_def t(3) by (cases a) (simp_all del: lit_simps)
qed

lemma oauth_loop_sound:
  "oauth_loop jwt bs pos s a = Some res \<Longrightarrow> \<forall>v. a = Some v \<longrightarrow> valid_utf8 v \<and> AT_SIGN \<in> set v \<Longrightarrow>
     bearer_sound jwt bs res"
proof (induction "length bs - pos" arbitrary: pos s a rule: less_induct)
  case less
  have addr: "filter_address x = Some v \<Longrightarrow> valid_utf8 v \<and> AT_SIGN \<in> set v" for x v
    by (auto simp: filter_address_def split: option.splits if_split_asm)
  have pos: "pos < length bs"
    using less.prems(1) by (subst (asm) oauth_loop.simps) (simp split: if_split_asm)
  then have further: "bearer_sound jwt bs res"
    if "oauth_loop jwt bs pos' s' a' = Some res" "\<forall>v. a' = Some v \<longrightarrow> valid_utf8 v \<and> AT_SIGN \<in> set v" "pos < pos'"
    for pos' s' a'
    using less.hyps [OF _ that(1,2)] that(3) by simp
  show ?case
  proof (cases "bs ! pos = COMMA \<and> (case get_range bs (pos + 1) (pos + 3) of
      Some s \<Rightarrow> eq_ignore_ascii_case s (lit ''a='') | None \<Rightarrow> False)")
    case True
    then obtain to_pos where "next_separator bs (pos + 1) = Some to_pos"
      "oauth_loop jwt bs (to_pos + 1) s
         (if to_pos > pos + 3 then filter_address (get_range bs (pos + 3) to_pos) else a) = Some res"
      using less.prems(1) pos by (subst (asm) oauth_loop.simps) (simp split: option.splits)
    then show ?thesis
      using further [of "to_pos + 1"] next_separator_bounds [of bs "pos + 1" to_pos] less.prems(2) addr
      by (auto split: if_split_asm)
  next
    case False
    note step = less.prems(1) [unfolded oauth_loop.simps [of jwt bs pos s a] Let_def if_not_P [OF False]]
    show ?thesis
    proof (cases "(bs ! pos = 1 \<or> pos = length bs - 1) \<and> (case get_range bs s (s + 12) of
        Some s \<Rightarrow> eq_ignore_ascii_case s (lit ''auth=Bearer '') | None \<Rightarrow> False)")
      case True
      then obtain marker where "get_range bs s (s + 12) = Some marker"
        "eq_ignore_ascii_case marker (lit ''auth=Bearer '')" by (auto split: option.splits)
      then show ?thesis
        using step True pos less.prems(2)
        by (intro bearer_result_sound [of bs s marker jwt a "if bs ! pos = 1 then pos else length bs" res])
          (auto split: if_split_asm)
    next
      case False
      then have "\<exists>s'. oauth_loop jwt bs (pos + 1) s' a = Some res"
        using step pos by (auto split: if_split_asm)
      then show ?thesis using further [of "pos + 1"] less.prems(2) by auto
    qed
  qed
qed

section \<open>Properties\<close>

text \<open>A PLAIN challenge written for any authorization identity, user name and password without NUL
  bytes is read back to exactly this user name and password.\<close>

theorem sasl_plain_roundtrip:
  assumes "0 \<notin> set authzid" "plain_credentials c"
  shows "decode_sasl_challenge_plain (encode_plain authzid c) = Some c"
  by (rule decode_encode_plain [OF assms])

theorem sasl_plain_roundtrip_witness:
  "decode_sasl_challenge_plain (lit ''me'' @ [0] @ lit ''bob'' @ [0] @ lit ''pw'') =
     Some (Basic (lit ''bob'') (lit ''pw'') None)"
  using sasl_plain_roundtrip [of "lit ''me''" "Basic (lit ''bob'') (lit ''pw'') None"]
  by (simp add: plain_credentials_def encode_plain_def)

text \<open>The extraction of a bearer token terminates on every challenge, and a token it returns stands in
  the challenge right after the marker \<open>auth=Bearer\<close> and runs to a separator or the end; a user
  name it returns is an address with an at sign from the challenge, or the one read from the token.\<close>

theorem oauth_token_from_challenge:
  assumes "extract_oauth_bearer jwt bs = Some res"
  shows "bearer_sound jwt bs res"
  using oauth_loop_sound [of jwt bs 0 0 None res] assms by (simp add: extract_oauth_bearer_def)

theorem oauth_token_from_challenge_witness:
  "bearer_sound (\<lambda>_. None) (lit ''n,a=u@h,'' @ [1] @ lit ''auth=Bearer t'' @ [1, 1])
     (lit ''t'', Some (lit ''u@h''))"
proof (rule oauth_token_from_challenge)
  show "extract_oauth_bearer (\<lambda>_. None) (lit ''n,a=u@h,'' @ [1] @ lit ''auth=Bearer t'' @ [1, 1]) =
      Some (lit ''t'', Some (lit ''u@h''))"
    by (simp add: extract_oauth_bearer_def oauth_loop.simps next_separator.simps get_range_def slice_of_def
        COMMA_def AT_SIGN_def eq_ignore_ascii_case_def to_lower_def is_upper_def filter_address_def
        bearer_result_def)
qed

end
