(* ===== verification/Pop3_Session.thy ===== *)
theory Pop3_Session
  imports Pop3_Response Sasl
begin

text \<open>
  The POP3 session (\<^verbatim>\<open>pop3/src/client.rs\<close>, \<^verbatim>\<open>session.rs\<close>, \<^verbatim>\<open>mailbox.rs\<close>,
  \<^verbatim>\<open>op/*.rs\<close>): authorization, the mailbox snapshot and its delete marks, and every
  command handler. What other crates decide (authentication, permissions, limits, the message
  cache and stores, the socket) is the argument \<open>pop3_env\<close>. The output, and the messages handed
  to the store for deletion, are recorded in the session.
\<close>

section \<open>Mailbox\<close>

definition INBOX_ID :: u32 where
  "INBOX_ID = 0"

record message =
  msg_id :: u32
  msg_uid :: u32
  msg_size :: u32
  deleted :: bool

record mailbox =
  messages :: "message list"
  account_id :: u32
  uid_validity :: u32
  total_count :: u32
  box_size :: u32

text \<open>The cached messages of an account: document id, size, and the mailboxes with the UID there.\<close>

record cached_message =
  cached_mailboxes :: "(u32 \<times> u32) list"
  document_id :: u32
  cached_size :: u32

record message_cache =
  cached_items :: "cached_message list"
  inbox_validity :: "u32 option"

definition default_mailbox :: mailbox where
  "default_mailbox =
     \<lparr>messages = [], account_id = 0, uid_validity = 0, total_count = 0, box_size = 0\<rparr>"

text \<open>Insertion into a \<^verbatim>\<open>BTreeMap\<close> listed in key order.\<close>

fun btree_insert :: "u32 \<Rightarrow> 'v \<Rightarrow> (u32 \<times> 'v) list \<Rightarrow> (u32 \<times> 'v) list" where
  "btree_insert k v [] = [(k, v)]"
| "btree_insert k v ((k', v') # xs) =
     (if k < k' then (k, v) # (k', v') # xs
      else if k = k' then (k, v) # xs
      else (k', v') # btree_insert k v xs)"

definition inbox_entry :: "cached_message \<Rightarrow> (u32 \<times> u32 \<times> u32) option" where
  "inbox_entry m =
     map_option (\<lambda>(_, uid). (uid, document_id m, cached_size m))
       (find (\<lambda>(mailbox, _). mailbox = INBOX_ID) (cached_mailboxes m))"

definition message_map :: "cached_message list \<Rightarrow> (u32 \<times> u32 \<times> u32) list" where
  "message_map items =
     foldl (\<lambda>xs (uid, v). btree_insert uid v xs) [] (List.map_filter inbox_entry items)"

definition push_message :: "mailbox \<Rightarrow> u32 \<times> u32 \<times> u32 \<Rightarrow> mailbox" where
  "push_message box entry =
     (case entry of (uid, doc, octets) \<Rightarrow>
        box\<lparr>messages := messages box @ [\<lparr>msg_id = doc, msg_uid = uid, msg_size = octets, deleted = False\<rparr>],
            total_count := total_count box + 1, box_size := box_size box + octets\<rparr>)"

definition build_mailbox :: "u32 \<Rightarrow> message_cache \<Rightarrow> mailbox" where
  "build_mailbox account cache =
     (if cached_items cache = [] then default_mailbox
      else
        foldl push_message
          (default_mailbox\<lparr>uid_validity := (case inbox_validity cache of Some v \<Rightarrow> v | None \<Rightarrow> 0),
                           account_id := account\<rparr>)
          (message_map (cached_items cache)))"

section \<open>Errors and environment\<close>

datatype pop3_error =
    Pop3Error bytes | AuthFailed | AuthError bytes | TooManyAttempts | Unauthorized
  | ConcurrentRequest | TooManyRequests | WriteError | OtherError bytes

fun must_disconnect :: "pop3_error \<Rightarrow> bool" where
  "must_disconnect WriteError = True"
| "must_disconnect TooManyAttempts = True"
| "must_disconnect ConcurrentRequest = True"
| "must_disconnect TooManyRequests = True"
| "must_disconnect Unauthorized = True"
| "must_disconnect _ = False"

fun should_write_err :: "pop3_error \<Rightarrow> bool" where
  "should_write_err WriteError = False"
| "should_write_err Unauthorized = False"
| "should_write_err _ = True"

datatype permission =
    Pop3Authenticate | Pop3Dele | Pop3Retr | Pop3List | Pop3Uidl | Pop3Stat

record 'tok pop3_env =
  allow_plain_auth :: bool
  max_auth_failures :: u32
  rate_limited :: bool
  rate_allowed :: "u32 \<Rightarrow> (bool, pop3_error) result"
  scanner_banned :: "(bool, pop3_error) result"
  authenticate :: "credentials \<Rightarrow> ('tok, pop3_error) result"
  has_permission :: "'tok \<Rightarrow> permission \<Rightarrow> bool"
  request_allowed :: "'tok \<Rightarrow> bool"
  token_account :: "'tok \<Rightarrow> u32"
  cached_messages :: "u32 \<Rightarrow> (message_cache, pop3_error) result"
  message_metadata :: "u32 \<Rightarrow> u32 \<Rightarrow> ((bytes \<times> bytes \<times> nat) option, pop3_error) result"
  get_blob :: "bytes \<Rightarrow> (bytes option, pop3_error) result"
  emails_delete :: "u32 \<Rightarrow> u32 list \<Rightarrow> (u32 list, pop3_error) result"
  sock_write :: "bytes \<Rightarrow> bool"
  base64_decode :: "bytes \<Rightarrow> bytes option"
  email_from_jwt :: "bytes \<Rightarrow> bytes option"
  utf8_lossy :: "bytes \<Rightarrow> bytes"
  event_message :: "pop3_error \<Rightarrow> bytes"

section \<open>Session state\<close>

datatype 'tok session_state =
    NotAuthenticated (auth_failures: u32) (auth_username: "bytes option")
  | Authenticated mailbox 'tok

record 'tok session =
  receiver :: parser_state
  sstate :: "'tok session_state"
  is_tls :: bool
  written :: "bytes list"
  purged :: "(u32 \<times> u32 list) list"

type_synonym ('tok, 'a) handler = "'tok session \<Rightarrow> ('a, pop3_error) result \<times> 'tok session"

definition new_session :: "bool \<Rightarrow> 'tok session" where
  "new_session tls =
     \<lparr>receiver = Init, sstate = NotAuthenticated 0 None, is_tls = tls, written = [], purged = []\<rparr>"

definition with_mailbox :: "'tok session \<Rightarrow> (mailbox \<Rightarrow> 'tok \<Rightarrow> ('a, pop3_error) result \<times> 'tok session) \<Rightarrow>
    ('a, pop3_error) result \<times> 'tok session" where
  "with_mailbox s f =
     (case sstate s of Authenticated box tok \<Rightarrow> f box tok | NotAuthenticated _ _ \<Rightarrow> (Panic, s))"

definition write_bytes :: "'tok pop3_env \<Rightarrow> bytes \<Rightarrow> ('tok, unit) handler" where
  "write_bytes env bs s =
     (if sock_write env bs then (Ok (), s\<lparr>written := written s @ [bs]\<rparr>) else (Err WriteError, s))"

definition write_ok :: "'tok pop3_env \<Rightarrow> bytes \<Rightarrow> ('tok, unit) handler" where
  "write_ok env message s = write_bytes env (serialize show_u32 (RespOk message)) s"

definition error_text :: "'tok pop3_env \<Rightarrow> pop3_error \<Rightarrow> bytes" where
  "error_text env e =
     (case e of
        Pop3Error details \<Rightarrow> details
      | AuthError details \<Rightarrow> details
      | OtherError details \<Rightarrow> details
      | _ \<Rightarrow> event_message env e)"

definition serialize_error :: "'tok pop3_env \<Rightarrow> pop3_error \<Rightarrow> bytes" where
  "serialize_error env e = lit ''-ERR '' @ error_text env e @ CRLF"

text \<open>\<open>False\<close> when the connection must be closed.\<close>

definition write_err :: "'tok pop3_env \<Rightarrow> pop3_error \<Rightarrow> 'tok session \<Rightarrow> bool \<times> 'tok session" where
  "write_err env e s =
     (if should_write_err e then
        (case write_bytes env (serialize_error env e) s of
           (Ok _, s') \<Rightarrow> (\<not> must_disconnect e, s')
         | (_, s') \<Rightarrow> (False, s'))
      else (\<not> must_disconnect e, s))"

section \<open>Authentication\<close>

definition fetch_mailbox :: "'tok pop3_env \<Rightarrow> u32 \<Rightarrow> (mailbox, pop3_error) result" where
  "fetch_mailbox env account =
     and_then (cached_messages env account) (\<lambda>cache. Ok (build_mailbox account cache))"

definition handle_auth :: "'tok pop3_env \<Rightarrow> credentials \<Rightarrow> ('tok, unit) handler" where
  "handle_auth env c s =
     (case authenticate env c of
        Ok tok \<Rightarrow>
          if \<not> has_permission env tok Pop3Authenticate then (Err Unauthorized, s)
          else if \<not> request_allowed env tok then (Err ConcurrentRequest, s)
          else
            (case fetch_mailbox env (token_account env tok) of
               Ok box \<Rightarrow>
                 write_ok env (lit ''Authentication successful'') (s\<lparr>sstate := Authenticated box tok\<rparr>)
             | Err e \<Rightarrow> (Err e, s)
             | Panic \<Rightarrow> (Panic, s))
      | Err e \<Rightarrow>
          if e = AuthFailed then
            (case sstate s of
               NotAuthenticated failures username \<Rightarrow>
                 if failures < max_auth_failures env
                 then (Err e, s\<lparr>sstate := NotAuthenticated (failures + 1) username\<rparr>)
                 else (Err TooManyAttempts, s)
             | Authenticated _ _ \<Rightarrow> (Err TooManyAttempts, s))
          else (Err e, s)
      | Panic \<Rightarrow> (Panic, s))"

definition decode_challenge :: "'tok pop3_env \<Rightarrow> mechanism \<Rightarrow> bytes \<Rightarrow> credentials option" where
  "decode_challenge env mechanism param =
     Option.bind (base64_decode env param) (\<lambda>challenge.
       if mechanism = Plain then decode_sasl_challenge_plain challenge
       else decode_sasl_challenge_oauth (email_from_jwt env) challenge)"

definition handle_sasl :: "'tok pop3_env \<Rightarrow> mechanism \<Rightarrow> bytes list \<Rightarrow> ('tok, unit) handler" where
  "handle_sasl env mechanism params s =
     (if mechanism = Plain \<or> mechanism = OAuthBearer \<or> mechanism = XOauth2 then
        (if params \<noteq> [] then
           (case decode_challenge env mechanism (last params) of
              Some c \<Rightarrow> handle_auth env c s
            | None \<Rightarrow> (Err (AuthError (lit ''Invalid SASL challenge'')), s))
         else
           write_bytes env (lit ''+'' @ CRLF)
             (s\<lparr>receiver := InArgument (Auth (mechanism_as_str mechanism) []) 1 True\<rparr>))
      else (Err (AuthError (lit ''Authentication mechanism not supported.'')), s))"

section \<open>Mailbox commands\<close>

text \<open>\<^verbatim>\<open>messages.get(msg.saturating_sub(1) as usize)\<close>.\<close>

definition msg_index :: "u32 \<Rightarrow> nat" where
  "msg_index msg = unat (saturating_sub msg 1)"

definition dele_one :: "message list \<times> bytes \<Rightarrow> u32 \<Rightarrow> message list \<times> bytes" where
  "dele_one acc msg =
     (case acc of (ms, response) \<Rightarrow>
        (case get_at ms (msg_index msg) of
           Some m \<Rightarrow>
             if \<not> deleted m then
               (ms[msg_index msg := m\<lparr>deleted := True\<rparr>],
                response @ lit ''+OK message '' @ show_u32 msg @ lit '' deleted'' @ CRLF)
             else (ms, response @ lit ''-ERR message '' @ show_u32 msg @ lit '' already deleted'' @ CRLF)
         | None \<Rightarrow> (ms, response @ lit ''-ERR no such message'' @ CRLF)))"

definition handle_dele :: "'tok pop3_env \<Rightarrow> u32 list \<Rightarrow> ('tok, unit) handler" where
  "handle_dele env msgs s =
     with_mailbox s (\<lambda>box tok.
       if \<not> has_permission env tok Pop3Dele then (Err Unauthorized, s)
       else
         let (ms, response) = foldl dele_one (messages box, []) msgs
         in write_bytes env response (s\<lparr>sstate := Authenticated (box\<lparr>messages := ms\<rparr>) tok\<rparr>))"

definition handle_rset :: "'tok pop3_env \<Rightarrow> ('tok, unit) handler" where
  "handle_rset env s =
     with_mailbox s (\<lambda>box tok.
       let count = length (filter deleted (messages box));
           box' = box\<lparr>messages := map (\<lambda>m. m\<lparr>deleted := False\<rparr>) (messages box)\<rparr>
       in write_ok env (show_nat count @ lit '' messages undeleted'')
            (s\<lparr>sstate := Authenticated box' tok\<rparr>))"

definition handle_quit :: "'tok pop3_env \<Rightarrow> ('tok, unit) handler" where
  "handle_quit env s =
     (case sstate s of
        Authenticated box _ \<Rightarrow>
          let ids = remdups (map msg_id (filter deleted (messages box))) in
          if ids \<noteq> [] then
            (case emails_delete env (account_id box) ids of
               Ok not_deleted \<Rightarrow>
                 let s1 = s\<lparr>purged := purged s @ [(account_id box, ids)]\<rparr> in
                 if not_deleted = []
                 then write_ok env (lit ''Stalwart POP3 bids you farewell ('' @ show_nat (length ids) @
                        lit '' messages deleted).'') s1
                 else write_bytes env
                        (serialize show_u32 (RespErr (lit ''Some messages could not be deleted''))) s1
             | Err e \<Rightarrow> (Err e, s)
             | Panic \<Rightarrow> (Panic, s))
          else write_ok env (lit ''Stalwart POP3 bids you farewell (no messages deleted).'') s
      | NotAuthenticated _ _ \<Rightarrow> write_ok env (lit ''Stalwart POP3 bids you farewell.'') s)"

definition handle_fetch :: "'tok pop3_env \<Rightarrow> u32 \<Rightarrow> u32 option \<Rightarrow> ('tok, unit) handler" where
  "handle_fetch env msg line_limit s =
     with_mailbox s (\<lambda>box tok.
       if \<not> has_permission env tok Pop3Retr then (Err Unauthorized, s)
       else
         (case get_at (messages box) (msg_index msg) of
            None \<Rightarrow> (Err (Pop3Error (lit ''No such message.'')), s)
          | Some m \<Rightarrow>
              (let gone = Pop3Error (lit ''Failed to fetch message. Perhaps another session deleted it?'') in
               case message_metadata env (account_id box) (msg_id m) of
                 Ok (Some (raw_headers, blob_hash, body_offset)) \<Rightarrow>
                   (case get_blob env blob_hash of
                      Ok (Some blob) \<Rightarrow>
                        write_bytes env
                          (serialize show_u32
                             (RespMessage
                               (get_full_range
                                 (with_last (new_chained raw_headers)
                                   (if body_offset \<le> length blob then drop body_offset blob else [])))
                               (case line_limit of Some n \<Rightarrow> n | None \<Rightarrow> 0)))
                          s
                    | Ok None \<Rightarrow> (Err gone, s)
                    | Err e \<Rightarrow> (Err e, s)
                    | Panic \<Rightarrow> (Panic, s))
               | Ok None \<Rightarrow> (Err gone, s)
               | Err e \<Rightarrow> (Err e, s)
               | Panic \<Rightarrow> (Panic, s))))"

definition handle_list :: "'tok pop3_env \<Rightarrow> u32 option \<Rightarrow> ('tok, unit) handler" where
  "handle_list env msg s =
     with_mailbox s (\<lambda>box tok.
       if \<not> has_permission env tok Pop3List then (Err Unauthorized, s)
       else
         (case msg of
            Some n \<Rightarrow>
              (case get_at (messages box) (msg_index n) of
                 Some m \<Rightarrow> write_ok env (show_u32 n @ lit '' '' @ show_u32 (msg_size m)) s
               | None \<Rightarrow> (Err (Pop3Error (lit ''No such message.'')), s))
          | None \<Rightarrow> write_bytes env (serialize show_u32 (RespList (map msg_size (messages box)))) s))"

definition unique_id :: "mailbox \<Rightarrow> message \<Rightarrow> bytes" where
  "unique_id box m = show_u32 (uid_validity box) @ show_u32 (msg_uid m)"

definition handle_uidl :: "'tok pop3_env \<Rightarrow> u32 option \<Rightarrow> ('tok, unit) handler" where
  "handle_uidl env msg s =
     with_mailbox s (\<lambda>box tok.
       if \<not> has_permission env tok Pop3Uidl then (Err Unauthorized, s)
       else
         (case msg of
            Some n \<Rightarrow>
              (case get_at (messages box) (msg_index n) of
                 Some m \<Rightarrow> write_ok env (show_u32 n @ lit '' '' @ unique_id box m) s
               | None \<Rightarrow> (Err (Pop3Error (lit ''No such message.'')), s))
          | None \<Rightarrow> write_bytes env (serialize (unique_id box) (RespList (messages box))) s))"

definition handle_stat :: "'tok pop3_env \<Rightarrow> ('tok, unit) handler" where
  "handle_stat env s =
     with_mailbox s (\<lambda>box tok.
       if \<not> has_permission env tok Pop3Stat then (Err Unauthorized, s)
       else write_ok env (show_u32 (total_count box) @ lit '' '' @ show_u32 (box_size box)) s)"

definition handle_capa :: "'tok pop3_env \<Rightarrow> ('tok, unit) handler" where
  "handle_capa env s =
     (let mechanisms = (if is_tls s \<or> allow_plain_auth env then [Plain, OAuthBearer, XOauth2]
                        else [OAuthBearer, XOauth2])
      in write_bytes env (serialize show_u32 (RespCapability mechanisms (\<not> is_tls s))) s)"

definition handle_stls :: "'tok pop3_env \<Rightarrow> ('tok, unit) handler" where
  "handle_stls env s = write_ok env (lit ''Begin TLS negotiation now'') s"

definition handle_utf8 :: "'tok pop3_env \<Rightarrow> ('tok, unit) handler" where
  "handle_utf8 env s = write_ok env (lit ''UTF8 enabled'') s"


section \<open>Requests of one read\<close>

datatype session_result = Continue | Close | UpgradeTls

type_synonym queued = "(request, pop3_error) result"

definition reason_text :: "'tok pop3_env \<Rightarrow> parse_reason \<Rightarrow> bytes" where
  "reason_text env reason =
     (case reason of
        InvalidCommand \<Rightarrow> lit ''Invalid command''
      | TooManyArguments \<Rightarrow> lit ''Too many arguments''
      | MissingArguments \<Rightarrow> lit ''Missing arguments''
      | InvalidUtf8 \<Rightarrow> lit ''Invalid UTF-8''
      | NumericOutOfRange \<Rightarrow> lit ''Numeric argument out of range''
      | InvalidDigit \<Rightarrow> lit ''Invalid digit''
      | UnsupportedMechanism m \<Rightarrow> lit ''Unsupported mechanism '' @ [39] @ utf8_lossy env m @ [39] @ lit ''.'')"

text \<open>Consecutive \<^verbatim>\<open>DELE\<close> commands of a read are grouped into one request.\<close>

definition enqueue :: "queued list \<Rightarrow> request \<Rightarrow> queued list" where
  "enqueue requests request =
     (case (request, if requests = [] then None else Some (last requests)) of
        (Dele msg, Some (Ok (DeleMany msgs))) \<Rightarrow> butlast requests @ [Ok (DeleMany (msgs @ [msg]))]
      | (Dele msg, Some (Ok (Dele other_msg))) \<Rightarrow> butlast requests @ [Ok (DeleMany [other_msg, msg])]
      | (request, _) \<Rightarrow> requests @ [Ok request])"

text \<open>The first loop of \<^verbatim>\<open>ingest\<close>; \<open>Ok None\<close> is the return with \<^verbatim>\<open>Close\<close>.\<close>

function gather :: "'tok pop3_env \<Rightarrow> bool \<Rightarrow> parser_state \<Rightarrow> bytes \<Rightarrow> queued list \<Rightarrow>
    parser_state \<times> (queued list option, pop3_error) result" where
  "gather env unauthenticated st bs requests =
     (case parse st bs of
        (st', _, None) \<Rightarrow> (st', Ok (Some requests))
      | (st', rest, Some (Ok request)) \<Rightarrow> gather env unauthenticated st' rest (enqueue requests request)
      | (st', rest, Some (Err reason)) \<Rightarrow>
          if unauthenticated \<and> scanner_banned env = Ok True then (st', Ok None)
          else gather env unauthenticated st' rest (requests @ [Err (Pop3Error (reason_text env reason))])
      | (st', _, Some Panic) \<Rightarrow> (st', Panic))"
  by pat_completeness auto
termination
  by (relation "measure (\<lambda>(env, u, st, bs, rs). length bs)") (simp_all del: parse.simps, (metis parse_length)+)

declare gather.simps [simp del]

section \<open>Executing requests\<close>

definition not_authenticated :: "'tok session \<Rightarrow> bool" where
  "not_authenticated s = (case sstate s of NotAuthenticated _ _ \<Rightarrow> True | _ \<Rightarrow> False)"

definition pop3_err :: "string \<Rightarrow> ('a, pop3_error) result" where
  "pop3_err details = Err (Pop3Error (lit details))"

definition validate_password :: "'tok pop3_env \<Rightarrow> 'tok session \<Rightarrow> request \<Rightarrow> (request, pop3_error) result" where
  "validate_password env s command =
     (case sstate s of
        NotAuthenticated _ username \<Rightarrow>
          if is_tls s \<or> allow_plain_auth env then
            (case command of
               Pass _ \<Rightarrow> if username \<noteq> None then Ok command else pop3_err ''Username was not provided.''
             | _ \<Rightarrow> Ok command)
          else pop3_err ''Cannot authenticate over plain-text.''
      | Authenticated _ _ \<Rightarrow> pop3_err ''Already authenticated.'')"

definition validate_mailbox_command ::
  "'tok pop3_env \<Rightarrow> 'tok session \<Rightarrow> request \<Rightarrow> (request, pop3_error) result" where
  "validate_mailbox_command env s command =
     (case sstate s of
        Authenticated box _ \<Rightarrow>
          if rate_limited env then
            and_then (rate_allowed env (account_id box)) (\<lambda>allowed.
              if allowed then Ok command else Err TooManyRequests)
          else Ok command
      | NotAuthenticated _ _ \<Rightarrow> pop3_err ''Not authenticated.'')"

definition validate_request :: "'tok pop3_env \<Rightarrow> 'tok session \<Rightarrow> request \<Rightarrow> (request, pop3_error) result" where
  "validate_request env s command =
     (case command of
        Capa \<Rightarrow> Ok command
      | Quit \<Rightarrow> Ok command
      | Noop \<Rightarrow> Ok command
      | User _ \<Rightarrow> validate_password env s command
      | Pass _ \<Rightarrow> validate_password env s command
      | Apop _ _ \<Rightarrow> validate_password env s command
      | Auth mechanism _ \<Rightarrow>
          if mechanism = Plain then validate_password env s command
          else if not_authenticated s then Ok command
          else pop3_err ''Already authenticated.''
      | Stls \<Rightarrow> if \<not> is_tls s then Ok command else pop3_err ''Already in TLS mode.''
      | _ \<Rightarrow> validate_mailbox_command env s command)"

definition handle_user :: "'tok pop3_env \<Rightarrow> bytes \<Rightarrow> ('tok, unit) handler" where
  "handle_user env name s =
     (case sstate s of
        NotAuthenticated failures _ \<Rightarrow>
          write_ok env (name @ lit '' is a valid mailbox'')
            (s\<lparr>sstate := NotAuthenticated failures (Some name)\<rparr>)
      | Authenticated _ _ \<Rightarrow> (Panic, s))"

definition handle_pass :: "'tok pop3_env \<Rightarrow> bytes \<Rightarrow> ('tok, unit) handler" where
  "handle_pass env secret s =
     (case sstate s of
        NotAuthenticated failures (Some username) \<Rightarrow>
          handle_auth env (Basic username secret None) (s\<lparr>sstate := NotAuthenticated failures None\<rparr>)
      | _ \<Rightarrow> (Panic, s))"

definition on_ok :: "session_result \<Rightarrow> (unit, pop3_error) result \<times> 'tok session \<Rightarrow>
    (session_result, pop3_error) result \<times> 'tok session" where
  "on_ok r p = (and_then (fst p) (\<lambda>_. Ok r), snd p)"

definition execute :: "'tok pop3_env \<Rightarrow> request \<Rightarrow> ('tok, session_result) handler" where
  "execute env command s =
     (case command of
        User name \<Rightarrow> on_ok Continue (handle_user env name s)
      | Pass string \<Rightarrow> on_ok Continue (handle_pass env string s)
      | Quit \<Rightarrow> on_ok Close (handle_quit env s)
      | Stat \<Rightarrow> on_ok Continue (handle_stat env s)
      | List msg \<Rightarrow> on_ok Continue (handle_list env msg s)
      | Retr msg \<Rightarrow> on_ok Continue (handle_fetch env msg None s)
      | Dele msg \<Rightarrow> on_ok Continue (handle_dele env [msg] s)
      | DeleMany msgs \<Rightarrow> on_ok Continue (handle_dele env msgs s)
      | Top msg n \<Rightarrow> on_ok Continue (handle_fetch env msg (Some n) s)
      | Uidl msg \<Rightarrow> on_ok Continue (handle_uidl env msg s)
      | Noop \<Rightarrow> on_ok Continue (write_ok env (lit ''NOOP'') s)
      | Rset \<Rightarrow> on_ok Continue (handle_rset env s)
      | Capa \<Rightarrow> on_ok Continue (handle_capa env s)
      | Stls \<Rightarrow> on_ok UpgradeTls (handle_stls env s)
      | Utf8 \<Rightarrow> on_ok Continue (handle_utf8 env s)
      | Auth mechanism params \<Rightarrow> on_ok Continue (handle_sasl env mechanism params s)
      | Apop _ _ \<Rightarrow> (pop3_err ''APOP not supported.'', s))"

definition run_request :: "'tok pop3_env \<Rightarrow> queued \<Rightarrow> ('tok, session_result) handler" where
  "run_request env request s =
     (case request of
        Ok command \<Rightarrow>
          (case validate_request env s command of
             Ok command' \<Rightarrow> execute env command' s
           | Err e \<Rightarrow> (Err e, s)
           | Panic \<Rightarrow> (Panic, s))
      | Err e \<Rightarrow> (Err e, s)
      | Panic \<Rightarrow> (Panic, s))"

fun run_requests :: "'tok pop3_env \<Rightarrow> queued list \<Rightarrow> ('tok, session_result) handler" where
  "run_requests env [] s = (Ok Continue, s)"
| "run_requests env (request # requests) s =
     (case run_request env request s of
        (Ok Continue, s1) \<Rightarrow> run_requests env requests s1
      | (Ok r, s1) \<Rightarrow> (Ok r, s1)
      | (Err e, s1) \<Rightarrow>
          (case write_err env e s1 of
             (True, s2) \<Rightarrow> run_requests env requests s2
           | (False, s2) \<Rightarrow> (Ok Close, s2))
      | (Panic, s1) \<Rightarrow> (Panic, s1))"

definition ingest :: "'tok pop3_env \<Rightarrow> bytes \<Rightarrow> ('tok, session_result) handler" where
  "ingest env bs s =
     (case gather env (not_authenticated s) (receiver s) bs [] of
        (st, Ok (Some requests)) \<Rightarrow> run_requests env requests (s\<lparr>receiver := st\<rparr>)
      | (st, Ok None) \<Rightarrow> (Ok Close, s\<lparr>receiver := st\<rparr>)
      | (st, Err e) \<Rightarrow> (Err e, s\<lparr>receiver := st\<rparr>)
      | (st, Panic) \<Rightarrow> (Panic, s\<lparr>receiver := st\<rparr>))"

section \<open>The connection\<close>

text \<open>
  What the select of \<^verbatim>\<open>handle_conn\<close> delivers; the surroundings may have changed from one
  event to the next.
\<close>

datatype conn_event = ReadBytes bytes | ReadError | TimedOut | ServerShutdown

text \<open>\<open>Ok (Some True)\<close> asks for TLS, \<open>Ok None\<close> is still waiting when the events run out.\<close>

fun handle_conn :: "('tok pop3_env \<times> conn_event) list \<Rightarrow> 'tok session \<Rightarrow>
    (bool option, pop3_error) result \<times> ('tok pop3_env \<times> conn_event) list \<times> 'tok session" where
  "handle_conn [] s = (Ok None, [], s)"
| "handle_conn ((env, ReadBytes bs) # events) s =
     (if bs \<noteq> [] then
        (case ingest env bs s of
           (Ok Continue, s') \<Rightarrow> handle_conn events s'
         | (Ok UpgradeTls, s') \<Rightarrow> (Ok (Some True), events, s')
         | (Ok Close, s') \<Rightarrow> (Ok (Some False), events, s')
         | (Err e, s') \<Rightarrow> (Err e, events, s')
         | (Panic, s') \<Rightarrow> (Panic, events, s'))
      else (Ok (Some False), events, s))"
| "handle_conn ((env, ReadError) # events) s = (Ok (Some False), events, s)"
| "handle_conn ((env, TimedOut) # events) s =
     (Ok (Some False), events, snd (write_bytes env (lit ''-ERR Connection timed out.'' @ CRLF) s))"
| "handle_conn ((env, ServerShutdown) # events) s =
     (Ok (Some False), events, snd (write_bytes env (lit ''* BYE Server shutting down.'' @ CRLF) s))"

definition into_tls :: "'tok session \<Rightarrow> 'tok session" where
  "into_tls s = s\<lparr>is_tls := True\<rparr>"

definition SERVER_GREETING :: bytes where
  "SERVER_GREETING = lit ''+OK Stalwart POP3 at your service.'' @ CRLF"

definition handle :: "'tok pop3_env \<Rightarrow> bool \<Rightarrow> bool \<Rightarrow> bool \<Rightarrow> ('tok pop3_env \<times> conn_event) list \<Rightarrow>
    (bool option, pop3_error) result \<times> 'tok session" where
  "handle env tls acceptor_is_tls tls_accepted events =
     (case write_bytes env SERVER_GREETING (new_session tls) of
        (Ok _, s) \<Rightarrow>
          (case handle_conn events s of
             (Ok (Some True), rest, s') \<Rightarrow>
               if acceptor_is_tls \<and> tls_accepted
               then (case handle_conn rest (into_tls s') of (r, _, s'') \<Rightarrow> (r, s''))
               else (Ok (Some False), s')
           | (r, _, s') \<Rightarrow> (r, s'))
      | (_, s) \<Rightarrow> (Ok (Some False), s))"

end
