(* ===== verification/Pop3_Correct.thy ===== *)
theory Pop3_Correct
  imports Pop3_Session
begin

text \<open>
  What a POP3 session guarantees: it never reaches an \<^verbatim>\<open>unreachable!\<close> or an
  \<^verbatim>\<open>unwrap\<close> of nothing, it is authenticated only by credentials the server accepted,
  passwords are not even looked at on an unprotected connection, only \<^verbatim>\<open>QUIT\<close> deletes
  and deletes what was marked, and the marks refine the maildrop of RFC 1939.
\<close>

section \<open>What each handler leaves alone\<close>

lemma write_bytes_fields [simp]:
  "receiver (snd (write_bytes env bs s)) = receiver s"
  "sstate (snd (write_bytes env bs s)) = sstate s"
  "is_tls (snd (write_bytes env bs s)) = is_tls s"
  "purged (snd (write_bytes env bs s)) = purged s"
  "fst (write_bytes env bs s) \<noteq> Panic"
  by (simp_all add: write_bytes_def)

lemma write_ok_fields [simp]:
  "receiver (snd (write_ok env bs s)) = receiver s"
  "sstate (snd (write_ok env bs s)) = sstate s"
  "is_tls (snd (write_ok env bs s)) = is_tls s"
  "purged (snd (write_ok env bs s)) = purged s"
  "fst (write_ok env bs s) \<noteq> Panic"
  by (simp_all add: write_ok_def)

lemma write_err_fields [simp]:
  "receiver (snd (write_err env e s)) = receiver s"
  "sstate (snd (write_err env e s)) = sstate s"
  "is_tls (snd (write_err env e s)) = is_tls s"
  "purged (snd (write_err env e s)) = purged s"
  by (simp_all add: write_err_def write_bytes_def)

text \<open>Commands that only report leave the session as it was, apart from what was written.\<close>

lemmas report_defs = handle_fetch_def handle_list_def handle_uidl_def handle_stat_def handle_capa_def
  handle_stls_def handle_utf8_def with_mailbox_def Let_def

definition same_session :: "'tok session \<Rightarrow> 'tok session \<Rightarrow> bool" where
  "same_session s s' \<longleftrightarrow>
     receiver s' = receiver s \<and> sstate s' = sstate s \<and> is_tls s' = is_tls s \<and> purged s' = purged s"

lemma reports_same_session:
  "same_session s (snd (handle_fetch env msg n s))"
  "same_session s (snd (handle_list env m s))"
  "same_session s (snd (handle_uidl env m s))"
  "same_session s (snd (handle_stat env s))"
  "same_session s (snd (handle_capa env s))"
  "same_session s (snd (handle_stls env s))"
  "same_session s (snd (handle_utf8 env s))"
  "same_session s (snd (write_ok env bs s))"
  "same_session s (snd (write_bytes env bs s))"
  "same_session s (snd (write_err env e s))"
  by (auto simp: same_session_def report_defs split: session_state.splits option.splits result.splits prod.splits)

section \<open>Steps of a session\<close>

text \<open>The effects a request can have on the state of the session.\<close>

abbreviation reset_marks :: "message list \<Rightarrow> message list" where
  "reset_marks ms \<equiv> map (\<lambda>m. m\<lparr>deleted := False\<rparr>) ms"

definition marked_ids :: "message list \<Rightarrow> u32 list" where
  "marked_ids ms = remdups (map msg_id (filter deleted ms))"

definition password_allowed :: "'tok pop3_env \<Rightarrow> 'tok session \<Rightarrow> credentials \<Rightarrow> bool" where
  "password_allowed env s c \<longleftrightarrow> is_tls s \<or> allow_plain_auth env \<or> (\<forall>u p m. c \<noteq> Basic u p m)"

inductive session_step :: "'tok pop3_env \<Rightarrow> 'tok session \<Rightarrow> 'tok session \<Rightarrow> bool"
  for env :: "'tok pop3_env" where
  Quiet: "same_session s s' \<Longrightarrow> session_step env s s'"
| Marked: "sstate s = Authenticated box tok \<Longrightarrow> has_permission env tok Pop3Dele \<Longrightarrow>
     same_session (s\<lparr>sstate :=
       Authenticated (box\<lparr>messages := fst (foldl dele_one (messages box, []) msgs)\<rparr>) tok\<rparr>) s' \<Longrightarrow>
     session_step env s s'"
| Unmarked: "sstate s = Authenticated box tok \<Longrightarrow>
     same_session (s\<lparr>sstate := Authenticated (box\<lparr>messages := reset_marks (messages box)\<rparr>) tok\<rparr>) s' \<Longrightarrow>
     session_step env s s'"
| Purged: "sstate s = Authenticated box tok \<Longrightarrow> marked_ids (messages box) \<noteq> [] \<Longrightarrow>
     emails_delete env (account_id box) (marked_ids (messages box)) = Ok missing \<Longrightarrow>
     same_session (s\<lparr>purged := purged s @ [(account_id box, marked_ids (messages box))]\<rparr>) s' \<Longrightarrow>
     session_step env s s'"
| Named: "sstate s = NotAuthenticated failures u \<Longrightarrow> is_tls s \<or> allow_plain_auth env \<Longrightarrow>
     same_session (s\<lparr>sstate := NotAuthenticated failures (Some name)\<rparr>) s' \<Longrightarrow> session_step env s s'"
| Prompted: "not_authenticated s \<Longrightarrow>
     same_session (s\<lparr>receiver := InArgument (Auth (mechanism_as_str m) []) 1 True\<rparr>) s' \<Longrightarrow>
     session_step env s s'"
| Accepted: "not_authenticated s \<Longrightarrow> authenticate env c = Ok tok \<Longrightarrow> password_allowed env s c \<Longrightarrow>
     has_permission env tok Pop3Authenticate \<Longrightarrow> request_allowed env tok \<Longrightarrow>
     fetch_mailbox env (token_account env tok) = Ok box \<Longrightarrow>
     same_session (s\<lparr>sstate := Authenticated box tok\<rparr>) s' \<Longrightarrow> session_step env s s'"
| Refused: "sstate s = NotAuthenticated failures u \<Longrightarrow>
     failures' = failures \<or> failures < max_auth_failures env \<and> failures' = failures + 1 \<Longrightarrow>
     u' = u \<or> u' = None \<Longrightarrow>
     same_session (s\<lparr>sstate := NotAuthenticated failures' u'\<rparr>) s' \<Longrightarrow> session_step env s s'"

lemma same_session_refl [simp]: "same_session s s"
  by (simp add: same_session_def)

lemma quiet_step [intro]: "session_step env s s"
  by (simp add: Quiet)

lemma handle_auth_step:
  assumes "sstate s = NotAuthenticated failures u" "password_allowed env s c"
    and "u' = u \<or> u' = None"
  shows "session_step env s (snd (handle_auth env c (s\<lparr>sstate := NotAuthenticated failures u'\<rparr>)))"
proof -
  let ?s = "s\<lparr>sstate := NotAuthenticated failures u'\<rparr>"
  have na: "not_authenticated s"
    using assms(1) by (simp add: not_authenticated_def)
  have stay: "session_step env s ?s"
    by (rule Refused [OF assms(1) _ assms(3), of failures]) simp_all
  have again: "failures < max_auth_failures env \<Longrightarrow>
      session_step env s (s\<lparr>sstate := NotAuthenticated (failures + 1) u'\<rparr>)"
    by (rule Refused [OF assms(1) _ assms(3), of "failures + 1"]) simp_all
  have accepted: "authenticate env c = Ok tok \<Longrightarrow> has_permission env tok Pop3Authenticate \<Longrightarrow>
      request_allowed env tok \<Longrightarrow> fetch_mailbox env (token_account env tok) = Ok box \<Longrightarrow>
      session_step env s (snd (write_ok env bs (s\<lparr>sstate := Authenticated box tok\<rparr>)))" for tok box bs
    by (rule Accepted [OF na _ assms(2)]) (assumption+, rule reports_same_session(8))
  show ?thesis
    using stay again accepted
    by (simp add: handle_auth_def split: result.splits)
qed

lemma decode_sasl_oauth_bearer: "decode_sasl_challenge_oauth f challenge \<noteq> Some (Basic u p m)"
  by (auto simp: decode_sasl_challenge_oauth_def split: option.splits prod.splits)

lemma handle_sasl_step:
  assumes "sstate s = NotAuthenticated failures u"
    and "mechanism = Plain \<Longrightarrow> is_tls s \<or> allow_plain_auth env"
  shows "session_step env s (snd (handle_sasl env mechanism params s))"
proof -
  have s: "s = s\<lparr>sstate := NotAuthenticated failures u\<rparr>"
    using assms(1) by simp
  have allowed: "decode_challenge env mechanism p = Some c \<Longrightarrow> password_allowed env s c" for p c
    using assms(2) decode_sasl_oauth_bearer
    by (auto simp: decode_challenge_def password_allowed_def bind_eq_Some_conv split: if_split_asm)
  have "session_step env s (snd (write_bytes env bs
      (s\<lparr>receiver := InArgument (Auth (mechanism_as_str mechanism) []) 1 True\<rparr>)))" for bs
    by (rule Prompted [OF _ reports_same_session(9)]) (simp add: assms(1) not_authenticated_def)
  then show ?thesis
    using handle_auth_step [OF assms(1) allowed, of _ _ u] s
    by (auto simp: handle_sasl_def split: option.splits)
qed

text \<open>The commands that run only once the state was checked.\<close>

fun needs_mailbox :: "request \<Rightarrow> bool" where
  "needs_mailbox (List _) = True"
| "needs_mailbox (Retr _) = True"
| "needs_mailbox (Dele _) = True"
| "needs_mailbox (DeleMany _) = True"
| "needs_mailbox (Top _ _) = True"
| "needs_mailbox (Uidl _) = True"
| "needs_mailbox Utf8 = True"
| "needs_mailbox Stat = True"
| "needs_mailbox Rset = True"
| "needs_mailbox _ = False"

fun needs_login :: "request \<Rightarrow> bool" where
  "needs_login (User _) = True"
| "needs_login (Pass _) = True"
| "needs_login (Apop _ _) = True"
| "needs_login (Auth _ _) = True"
| "needs_login _ = False"

lemma validate_request_Ok:
  assumes "validate_request env s c = Ok c'"
  shows "c' = c"
    and "needs_mailbox c \<Longrightarrow> \<exists>box tok. sstate s = Authenticated box tok"
    and "needs_login c \<Longrightarrow> \<exists>failures u. sstate s = NotAuthenticated failures u \<and>
          ((\<forall>m ps. c = Auth m ps \<longrightarrow> m = Plain) \<longrightarrow> is_tls s \<or> allow_plain_auth env) \<and>
          (\<forall>p. c = Pass p \<longrightarrow> u \<noteq> None)"
    and "c = Stls \<Longrightarrow> \<not> is_tls s"
  using assms
  by (cases c; auto simp: validate_request_def validate_password_def validate_mailbox_command_def
      pop3_err_def not_authenticated_def result_iff split: if_split_asm session_state.split_asm)+

lemma snd_on_ok [simp]: "snd (on_ok r p) = snd p"
  by (simp add: on_ok_def)

lemma fst_on_ok_Panic [simp]: "fst (on_ok r p) = Panic \<longleftrightarrow> fst p = Panic"
  by (cases "fst p") (simp_all add: on_ok_def)

lemma handle_dele_step: "session_step env s (snd (handle_dele env msgs s))"
  by (cases "sstate s")
    (auto simp: handle_dele_def with_mailbox_def case_prod_beta intro: Marked reports_same_session)

lemma handle_rset_step: "session_step env s (snd (handle_rset env s))"
  by (cases "sstate s")
    (auto simp: handle_rset_def with_mailbox_def Let_def intro: Unmarked reports_same_session)

lemma handle_quit_step: "session_step env s (snd (handle_quit env s))"
  by (cases "sstate s")
    (auto simp: handle_quit_def marked_ids_def [symmetric] Let_def
      intro: Quiet Purged reports_same_session split: result.splits)

lemma execute_step:
  assumes "validate_request env s c = Ok c"
  shows "session_step env s (snd (execute env c s))"
proof (cases c)
  case (User name)
  with validate_request_Ok(3) [OF assms] show ?thesis
    by (auto simp: execute_def handle_user_def intro!: Named reports_same_session)
next
  case (Pass secret)
  with validate_request_Ok(3) [OF assms] obtain failures u where
    st: "sstate s = NotAuthenticated failures (Some u)" and "is_tls s \<or> allow_plain_auth env"
    by auto
  then have "password_allowed env s (Basic u secret None)"
    by (auto simp: password_allowed_def)
  from handle_auth_step [OF st this, of None] show ?thesis
    by (simp add: Pass execute_def handle_pass_def st)
next
  case (Auth mechanism params)
  with validate_request_Ok(3) [OF assms] handle_sasl_step show ?thesis
    by (fastforce simp: execute_def)
qed (simp_all add: execute_def pop3_err_def Quiet reports_same_session handle_dele_step
      handle_rset_step handle_quit_step quiet_step)

lemma run_request_step: "session_step env s (snd (run_request env q s))"
  using execute_step [of env s] validate_request_Ok(1) [of env s]
  by (auto simp: run_request_def split: result.splits)

section \<open>No panic\<close>

text \<open>The parts of the server the session calls into return.\<close>

definition env_total :: "'tok pop3_env \<Rightarrow> bool" where
  "env_total env \<longleftrightarrow>
     (\<forall>c. authenticate env c \<noteq> Panic) \<and> (\<forall>a. rate_allowed env a \<noteq> Panic) \<and>
     (\<forall>a. cached_messages env a \<noteq> Panic) \<and> (\<forall>a d. message_metadata env a d \<noteq> Panic) \<and>
     (\<forall>h. get_blob env h \<noteq> Panic) \<and> (\<forall>a ids. emails_delete env a ids \<noteq> Panic)"

lemma handle_auth_no_panic: "env_total env \<Longrightarrow> fst (handle_auth env c s) \<noteq> Panic"
  by (simp add: env_total_def handle_auth_def fetch_mailbox_def and_then_Panic_iff
      split: result.splits session_state.splits)

lemma mailbox_commands_no_panic:
  assumes "env_total env" "sstate s = Authenticated box tok"
  shows "fst (handle_fetch env msg n s) \<noteq> Panic" "fst (handle_list env m s) \<noteq> Panic"
    "fst (handle_uidl env m s) \<noteq> Panic" "fst (handle_stat env s) \<noteq> Panic"
    "fst (handle_dele env msgs s) \<noteq> Panic" "fst (handle_rset env s) \<noteq> Panic"
  using assms
  by (simp_all add: env_total_def report_defs handle_dele_def handle_rset_def
      split: option.splits result.splits prod.splits)

lemma handle_quit_no_panic: "env_total env \<Longrightarrow> fst (handle_quit env s) \<noteq> Panic"
  by (simp add: env_total_def handle_quit_def Let_def split: session_state.splits result.splits)

lemma validate_request_no_panic: "env_total env \<Longrightarrow> validate_request env s c \<noteq> Panic"
  by (cases c) (simp_all add: env_total_def validate_request_def validate_password_def pop3_err_def
      validate_mailbox_command_def and_then_Panic_iff split: session_state.splits command.splits)

lemma execute_no_panic:
  assumes "env_total env" "validate_request env s c = Ok c"
  shows "fst (execute env c s) \<noteq> Panic"
  using validate_request_Ok(2, 3) [OF assms(2)] mailbox_commands_no_panic [OF assms(1)]
    handle_quit_no_panic [OF assms(1)] handle_auth_no_panic [OF assms(1)]
  by (cases c) (auto simp: execute_def handle_user_def handle_pass_def handle_capa_def handle_stls_def
      handle_utf8_def handle_sasl_def pop3_err_def Let_def split: option.splits)

lemma run_request_no_panic:
  "env_total env \<Longrightarrow> q \<noteq> Panic \<Longrightarrow> fst (run_request env q s) \<noteq> Panic"
  using execute_no_panic [of env s] validate_request_Ok(1) [of env s] validate_request_no_panic [of env s]
  by (auto simp: run_request_def split: result.splits)

section \<open>Runs\<close>

lemma write_err_step: "session_step env s (snd (write_err env e s))"
  by (simp add: Quiet reports_same_session)

lemma run_requests_steps: "(session_step env)\<^sup>*\<^sup>* s (snd (run_requests env qs s))"
proof (induction qs arbitrary: s)
  case (Cons q qs)
  obtain r s1 where run: "run_request env q s = (r, s1)" by fastforce
  have one: "session_step env s s1"
    using run_request_step [of env s q] by (simp add: run)
  have two: "write_err env e s1 = (go, s2) \<Longrightarrow> (session_step env)\<^sup>*\<^sup>* s s2" for e go s2
    using write_err_step [of env s1 e] one by simp
  then have "write_err env e s1 = (go, s2) \<Longrightarrow>
      (session_step env)\<^sup>*\<^sup>* s (snd (run_requests env qs s2))" for e go s2
    by (meson Cons.IH rtranclp_trans)
  with one two Cons.IH show ?case
    by (auto simp: run split: result.splits session_result.splits prod.splits bool.splits
        intro: converse_rtranclp_into_rtranclp)
qed simp

lemma run_requests_no_panic:
  "env_total env \<Longrightarrow> Panic \<notin> set qs \<Longrightarrow> \<exists>r s'. run_requests env qs s = (Ok r, s')"
proof (induction qs arbitrary: s)
  case (Cons q qs)
  obtain r s1 where run: "run_request env q s = (r, s1)" by fastforce
  have "r \<noteq> Panic"
    using run_request_no_panic [of env q s] Cons.prems by (auto simp: run)
  with Cons show ?case
    by (auto simp: run split: result.splits session_result.splits prod.splits bool.splits)
qed simp

lemma parse_inv:
  "parser_inv st \<Longrightarrow> parse st bs = (st', rest, out) \<Longrightarrow> parser_inv st' \<and> out \<noteq> Some Panic"
proof (induction st bs rule: parse.induct)
  case (2 st b bs)
  obtain s1 o1 where step: "parse_byte st b = (s1, o1)" by fastforce
  note inv = parse_byte_inv [OF "2.prems"(1) step]
  show ?case
    using "2.IH" "2.prems"(2) step inv
    by (cases o1) (auto split: option.splits)
qed simp

lemma enqueue_no_panic: "Panic \<notin> set qs \<Longrightarrow> Panic \<notin> set (enqueue qs c)"
  by (auto simp: enqueue_def split: command.splits result.splits option.splits if_split_asm
      dest: in_set_butlastD)

lemma gather_inv:
  assumes "parser_inv st" "Panic \<notin> set qs" "gather env u st bs qs = (st', r)"
  shows "parser_inv st' \<and> (r = Ok None \<or> (\<exists>qs'. r = Ok (Some qs') \<and> Panic \<notin> set qs'))"
  using assms
proof (induction env u st bs qs arbitrary: st' r rule: gather.induct)
  case (1 env u st bs qs)
  obtain s1 rest out where parsed: "parse st bs = (s1, rest, out)"
    by (metis prod_cases3)
  note inv = parse_inv [OF "1.prems"(1) parsed]
  show ?case
    using "1.prems" parsed inv "1.IH" enqueue_no_panic [OF "1.prems"(2)]
    by (subst (asm) gather.simps)
      (auto split: option.split_asm result.split_asm if_split_asm)
qed

lemma ingest_total:
  assumes "env_total env" "parser_inv (receiver s)"
  shows "\<exists>r s'. ingest env bs s = (Ok r, s')"
proof -
  obtain st g where gathered: "gather env (not_authenticated s) (receiver s) bs [] = (st, g)"
    by fastforce
  from gather_inv [OF assms(2) _ this] run_requests_no_panic [OF assms(1)] show ?thesis
    by (auto simp: ingest_def gathered)
qed

inductive conn_step :: "'tok pop3_env set \<Rightarrow> 'tok session \<Rightarrow> 'tok session \<Rightarrow> bool"
  for envs :: "'tok pop3_env set" where
  Request: "env \<in> envs \<Longrightarrow> session_step env s s' \<Longrightarrow> conn_step envs s s'"
| Parsed: "parser_inv st \<Longrightarrow> conn_step envs s (s\<lparr>receiver := st\<rparr>)"
| Secured: "conn_step envs s (into_tls s)"

lemma conn_steps_of_requests:
  "env \<in> envs \<Longrightarrow> (session_step env)\<^sup>*\<^sup>* s s' \<Longrightarrow> (conn_step envs)\<^sup>*\<^sup>* s s'"
  by (erule rtranclp_mono [THEN predicate2D, rotated]) (auto intro: Request)

lemma ingest_steps:
  assumes "env \<in> envs" "parser_inv (receiver s)"
  shows "(conn_step envs)\<^sup>*\<^sup>* s (snd (ingest env bs s))"
proof -
  obtain st g where gathered: "gather env (not_authenticated s) (receiver s) bs [] = (st, g)"
    by fastforce
  from gather_inv [OF assms(2) _ this] have g: "parser_inv st" "g = Ok None \<or> (\<exists>qs'. g = Ok (Some qs'))"
    by auto
  have first: "conn_step envs s (s\<lparr>receiver := st\<rparr>)"
    by (rule Parsed [OF g(1)])
  with conn_steps_of_requests [OF assms(1) run_requests_steps] g(2) show ?thesis
    by (auto simp: ingest_def gathered intro: converse_rtranclp_into_rtranclp)
qed

lemma same_session_fields:
  "same_session s s' \<longleftrightarrow> receiver s' = receiver s \<and> sstate s' = sstate s \<and> is_tls s' = is_tls s \<and>
     purged s' = purged s"
  by (fact same_session_def)

lemma mechanism_length: "length (mechanism_as_str m) \<le> 64"
  by (cases m) simp_all

lemma session_step_parser: "session_step env s s' \<Longrightarrow> parser_inv (receiver s) \<Longrightarrow> parser_inv (receiver s')"
  by (induction rule: session_step.induct) (simp_all add: same_session_def mechanism_length)

lemma conn_step_parser: "conn_step envs s s' \<Longrightarrow> parser_inv (receiver s) \<Longrightarrow> parser_inv (receiver s')"
  by (induction rule: conn_step.induct) (auto simp: into_tls_def dest: session_step_parser)

lemma conn_steps_parser: "(conn_step envs)\<^sup>*\<^sup>* s s' \<Longrightarrow> parser_inv (receiver s) \<Longrightarrow> parser_inv (receiver s')"
  by (induction rule: rtranclp_induct) (auto dest: conn_step_parser)

lemma conn_steps_write:
  "env \<in> envs \<Longrightarrow> (conn_step envs)\<^sup>*\<^sup>* s (snd (write_bytes env bs s))"
  by (auto intro: Request Quiet reports_same_session)

lemma conn_steps_mono:
  "envs \<subseteq> envs' \<Longrightarrow> (conn_step envs)\<^sup>*\<^sup>* s s' \<Longrightarrow> (conn_step envs')\<^sup>*\<^sup>* s s'"
  by (erule rtranclp_mono [THEN predicate2D, rotated]) (auto elim!: conn_step.cases intro: conn_step.intros)

lemma handle_conn_run:
  assumes "\<forall>e \<in> set events. env_total (fst e)" "parser_inv (receiver s)"
  shows "\<exists>b rest s'. handle_conn events s = (Ok b, rest, s') \<and> set rest \<subseteq> set events \<and>
    (conn_step (fst ` set events))\<^sup>*\<^sup>* s s'"
  using assms
proof (induction events arbitrary: s)
  case (Cons event events)
  obtain env ev where event: "event = (env, ev)" by fastforce
  have mono: "(conn_step (fst ` set events))\<^sup>*\<^sup>* x y \<Longrightarrow> (conn_step (fst ` set (event # events)))\<^sup>*\<^sup>* x y" for x y
    by (rule conn_steps_mono) auto
  show ?case
  proof (cases ev)
    case (ReadBytes bs)
    obtain r s1 where run: "ingest env bs s = (Ok r, s1)"
      using ingest_total [of env s bs] Cons.prems event by auto
    have steps: "(conn_step (fst ` set (event # events)))\<^sup>*\<^sup>* s s1"
      using ingest_steps [of env "fst ` set (event # events)" s bs] Cons.prems(2) event run by simp
    have "parser_inv (receiver s1)"
      by (rule conn_steps_parser [OF steps Cons.prems(2)])
    from Cons.IH [OF _ this] Cons.prems(1) obtain b rest s' where
      "handle_conn events s1 = (Ok b, rest, s')" "set rest \<subseteq> set events"
      "(conn_step (fst ` set events))\<^sup>*\<^sup>* s1 s'"
      by auto
    with steps mono show ?thesis
      by (cases r) (auto simp: event ReadBytes run intro: rtranclp_trans)
  qed (auto simp: event intro!: conn_steps_write)
qed simp

lemma handle_run:
  assumes "\<forall>e \<in> set events. env_total (fst e)"
  shows "\<exists>b s. handle env tls acceptor_is_tls accepted events = (Ok b, s) \<and>
    (conn_step (insert env (fst ` set events)))\<^sup>*\<^sup>* (new_session tls) s"
proof -
  let ?E = "insert env (fst ` set events)"
  obtain r s0 where greet: "write_bytes env SERVER_GREETING (new_session tls) = (r, s0)" by fastforce
  have start: "(conn_step ?E)\<^sup>*\<^sup>* (new_session tls) s0"
    using conn_steps_write [of env ?E "new_session tls" SERVER_GREETING] by (simp add: greet)
  have pinv: "parser_inv (receiver s0)"
    by (rule conn_steps_parser [OF start]) (simp add: new_session_def)
  obtain b rest s1 where first: "handle_conn events s0 = (Ok b, rest, s1)" "set rest \<subseteq> set events"
      "(conn_step (fst ` set events))\<^sup>*\<^sup>* s0 s1"
    using handle_conn_run [OF assms pinv] by blast
  have one: "(conn_step ?E)\<^sup>*\<^sup>* (new_session tls) s1"
    using start conn_steps_mono [OF _ first(3)] by (meson rtranclp_trans subset_insertI)
  then have two: "(conn_step ?E)\<^sup>*\<^sup>* (new_session tls) (into_tls s1)"
    by (rule rtranclp.rtrancl_into_rtrancl) (rule Secured)
  have rest: "\<forall>e \<in> set rest. env_total (fst e)"
    using assms first(2) by blast
  have "parser_inv (receiver (into_tls s1))"
    by (rule conn_steps_parser [OF two]) (simp add: new_session_def)
  from handle_conn_run [OF rest this] obtain b' rest' s2 where
    second: "handle_conn rest (into_tls s1) = (Ok b', rest', s2)"
      "(conn_step (fst ` set rest))\<^sup>*\<^sup>* (into_tls s1) s2"
    by blast
  have "(conn_step ?E)\<^sup>*\<^sup>* (into_tls s1) s2"
    by (rule conn_steps_mono [OF _ second(2)]) (use first(2) in auto)
  with two have "(conn_step ?E)\<^sup>*\<^sup>* (new_session tls) s2" by simp
  with one start show ?thesis
    by (cases r) (auto simp: handle_def greet first(1) second(1) split: option.splits bool.splits)
qed

section \<open>Invariants of a connection\<close>

definition fresh :: "'tok session \<Rightarrow> bool" where
  "fresh s \<longleftrightarrow> s = new_session True \<or> s = new_session False"

lemma handle_reach:
  assumes "\<forall>e \<in> set events. env_total (fst e)"
    and "handle env tls acceptor_is_tls accepted events = (r, s)"
  shows "reach fresh (conn_step (insert env (fst ` set events))) s"
  using handle_run [OF assms(1), of env tls acceptor_is_tls accepted] assms(2)
  by (cases tls) (auto intro!: reach_of_steps simp: fresh_def)

text \<open>Who vouches for the token of an authenticated session.\<close>

definition vouched :: "'tok pop3_env set \<Rightarrow> 'tok session \<Rightarrow> mailbox \<Rightarrow> 'tok \<Rightarrow> bool" where
  "vouched envs s box tok \<longleftrightarrow>
     (\<exists>env \<in> envs. \<exists>c. authenticate env c = Ok tok \<and> password_allowed env s c \<and>
        has_permission env tok Pop3Authenticate \<and> request_allowed env tok \<and>
        (account_id box = token_account env tok \<or> messages box = []))"

definition login_inv :: "'tok pop3_env set \<Rightarrow> 'tok session \<Rightarrow> bool" where
  "login_inv envs s \<longleftrightarrow> (\<forall>box tok. sstate s = Authenticated box tok \<longrightarrow> vouched envs s box tok)"

lemma foldl_push_message_account [simp]: "account_id (foldl push_message box xs) = account_id box"
  by (induction xs arbitrary: box) (auto simp: push_message_def split: prod.splits)

lemma fetched_account:
  "fetch_mailbox env a = Ok box \<Longrightarrow> account_id box = a \<or> messages box = []"
  by (auto simp: fetch_mailbox_def build_mailbox_def default_mailbox_def result_iff split: if_split_asm)

lemma length_dele_one [simp]: "length (fst (dele_one acc n)) = length (fst acc)"
  by (auto simp: dele_one_def split: prod.splits option.splits)

lemma length_foldl_dele [simp]: "length (fst (foldl dele_one acc ns)) = length (fst acc)"
  by (induction ns arbitrary: acc) auto

lemma vouched_mono:
  assumes "vouched envs s box tok" "is_tls s \<longrightarrow> is_tls s'" "account_id box' = account_id box"
    and "length (messages box') = length (messages box)"
  shows "vouched envs s' box' tok"
proof -
  have "password_allowed env s c \<Longrightarrow> password_allowed env s' c" for env c
    using assms(2) by (auto simp: password_allowed_def)
  moreover have "messages box = [] \<Longrightarrow> messages box' = []"
    using assms(4) by simp
  ultimately show ?thesis
    using assms(1, 3) unfolding vouched_def by metis
qed

lemma session_step_login:
  assumes "session_step env s s'" "env \<in> envs" "login_inv envs s"
  shows "login_inv envs s'"
  using assms
proof (induction rule: session_step.induct)
  case (Accepted s c tok box s')
  then have "vouched envs s' box tok"
    using fetched_account [OF Accepted(6)]
    by (auto simp: vouched_def same_session_def password_allowed_def)
  with Accepted show ?case by (auto simp: login_inv_def same_session_def)
qed (auto simp: login_inv_def same_session_def not_authenticated_def intro: vouched_mono)

interpretation pop3_login: invariant_system fresh "conn_step envs" "login_inv envs" for envs
proof
  show "fresh s \<Longrightarrow> login_inv envs s" for s :: "'a session"
    by (auto simp: fresh_def login_inv_def new_session_def)
  show "login_inv envs t" if "conn_step envs s t" "login_inv envs s" for s t
    using that
    by (induction rule: conn_step.induct)
      (auto simp: into_tls_def login_inv_def intro: vouched_mono dest: session_step_login)
qed

text \<open>The number of failed attempts stays within the configured limit.\<close>

definition failures_inv :: "u32 \<Rightarrow> 'tok session \<Rightarrow> bool" where
  "failures_inv limit s \<longleftrightarrow> (\<forall>f u. sstate s = NotAuthenticated f u \<longrightarrow> f \<le> limit)"

lemma session_step_failures:
  "session_step env s s' \<Longrightarrow> max_auth_failures env \<le> limit \<Longrightarrow> failures_inv limit s \<Longrightarrow> failures_inv limit s'"
  by (induction rule: session_step.induct)
    (auto simp: failures_inv_def same_session_def not_authenticated_def dest: inc_le intro: order_trans)

interpretation pop3_failures: invariant_system fresh
  "conn_step {env. max_auth_failures env \<le> limit}" "failures_inv limit" for limit
proof
  show "fresh s \<Longrightarrow> failures_inv limit s" for s :: "'a session"
    by (auto simp: fresh_def failures_inv_def new_session_def)
  show "failures_inv limit t"
    if "conn_step {env. max_auth_failures env \<le> limit} s t" "failures_inv limit s" for s t
    using that
    by (induction rule: conn_step.induct)
      (auto simp: into_tls_def failures_inv_def [of _ "x\<lparr>receiver := y\<rparr>" for x y] failures_inv_def
        dest: session_step_failures)
qed

section \<open>Deletion\<close>

lemma handle_auth_purged [simp]: "purged (snd (handle_auth env c s)) = purged s"
  by (simp add: handle_auth_def split: result.splits session_state.splits)

lemma execute_purged:
  assumes "c \<noteq> Quit"
  shows "purged (snd (execute env c s)) = purged s"
  using assms reports_same_session [of s env]
  by (cases c)
    (simp_all add: execute_def same_session_def handle_user_def handle_pass_def handle_sasl_def
      handle_dele_def handle_rset_def with_mailbox_def pop3_err_def Let_def
      split: option.splits session_state.splits prod.splits)

lemma handle_quit_purged:
  "purged (snd (handle_quit env s)) = purged s \<or>
   (fst (handle_quit env s) = Ok () \<or> fst (handle_quit env s) = Err WriteError) \<and>
   (\<exists>box tok. sstate (snd (handle_quit env s)) = Authenticated box tok \<and>
     purged (snd (handle_quit env s)) = purged s @ [(account_id box, marked_ids (messages box))])"
  by (auto simp: handle_quit_def marked_ids_def Let_def write_ok_def write_bytes_def
      split: session_state.splits result.splits)

text \<open>Either nothing was handed to the store, or exactly the messages marked now were.\<close>

definition purge_once :: "'tok session \<Rightarrow> 'tok session \<Rightarrow> bool" where
  "purge_once s s' \<longleftrightarrow> (\<exists>box tok. sstate s' = Authenticated box tok \<and>
     purged s' = purged s @ [(account_id box, marked_ids (messages box))])"

lemma run_request_purged:
  assumes "run_request env q s = (r, s')"
  shows "purged s' = purged s \<or> (r = Ok Close \<or> r = Err WriteError) \<and> purge_once s s'"
proof -
  have ex: "execute env c s = (r, s') \<Longrightarrow> ?thesis" for c
    using execute_purged [of c env s] handle_quit_purged [of env s]
    by (cases "c = Quit") (auto simp: execute_def on_ok_def purge_once_def)
  show ?thesis
    using assms ex by (auto simp: run_request_def split: result.splits)
qed

lemma purge_once_write_err: "purge_once s (snd (write_err env e s')) = purge_once s s'"
  by (simp add: purge_once_def)

lemma write_err_closes: "write_err env WriteError s = (False, s)"
  by (simp add: write_err_def)

lemma run_requests_purged:
  "run_requests env qs s = (Ok r, s') \<Longrightarrow> purged s' = purged s \<or> r = Close \<and> purge_once s s'"
proof (induction qs arbitrary: s)
  case (Cons q qs)
  obtain r1 s1 where run: "run_request env q s = (r1, s1)" by fastforce
  note first = run_request_purged [OF run]
  have same: "purged x = purged s \<Longrightarrow> purge_once x s' = purge_once s s'" for x
    by (simp add: purge_once_def)
  show ?case
  proof (cases r1)
    case (Ok r')
    then show ?thesis
      using Cons.IH [of s1] Cons.prems first same [of s1] by (cases r') (auto simp: run)
  next
    case (Err e)
    obtain go s2 where err: "write_err env e s1 = (go, s2)" by fastforce
    have keep: "purged s2 = purged s1" "sstate s2 = sstate s1"
      using write_err_fields(2, 4) [of env e s1] by (simp_all add: err)
    have closes: "e = WriteError \<Longrightarrow> \<not> go"
      using err by (simp add: write_err_closes)
    from Cons.IH [of s2] Cons.prems first same [of s2] closes keep show ?thesis
      by (cases go) (auto simp: run Err err purge_once_def)
  qed (use Cons.prems in \<open>simp add: run\<close>)
qed simp

lemma ingest_purged:
  assumes "ingest env bs s = (Ok r, s')"
  shows "purged s' = purged s \<or> r = Close \<and> purge_once s s'"
  using assms run_requests_purged [of env _ "s\<lparr>receiver := st\<rparr>" r s' for st]
  by (force simp: ingest_def purge_once_def split: prod.splits result.splits option.splits)

lemma handle_conn_purged:
  "handle_conn events s = (Ok b, rest, s') \<Longrightarrow>
   purged s' = purged s \<or> b = Some False \<and> purge_once s s'"
proof (induction events s rule: handle_conn.induct)
  case (2 env bs events s)
  obtain r s1 where run: "ingest env bs s = (r, s1)" by fastforce
  show ?case
  proof (cases r)
    case (Ok r')
    note first = ingest_purged [of env bs s r' s1, unfolded run Ok, OF refl]
    show ?thesis
      using "2.IH" "2.prems" first
      by (cases r') (auto simp: run Ok purge_once_def split: if_split_asm)
  qed (use "2.prems" in \<open>simp_all add: run split: if_split_asm\<close>)
qed (auto simp del: lit_simps)

section \<open>Passwords on an unprotected connection\<close>

text \<open>Two surroundings that differ only in what they say about passwords.\<close>

definition blind :: "(credentials \<Rightarrow> ('tok, pop3_error) result) \<Rightarrow> 'tok pop3_env \<Rightarrow> 'tok pop3_env" where
  "blind a env = env\<lparr>authenticate :=
     (\<lambda>c. case c of Basic _ _ _ \<Rightarrow> a c | _ \<Rightarrow> authenticate env c)\<rparr>"

lemma blind_fields [simp]:
  "allow_plain_auth (blind a env) = allow_plain_auth env" "rate_limited (blind a env) = rate_limited env"
  "rate_allowed (blind a env) = rate_allowed env" "scanner_banned (blind a env) = scanner_banned env"
  "max_auth_failures (blind a env) = max_auth_failures env"
  "has_permission (blind a env) = has_permission env" "request_allowed (blind a env) = request_allowed env"
  "token_account (blind a env) = token_account env" "cached_messages (blind a env) = cached_messages env"
  "message_metadata (blind a env) = message_metadata env" "get_blob (blind a env) = get_blob env"
  "emails_delete (blind a env) = emails_delete env" "sock_write (blind a env) = sock_write env"
  "base64_decode (blind a env) = base64_decode env" "email_from_jwt (blind a env) = email_from_jwt env"
  "utf8_lossy (blind a env) = utf8_lossy env" "event_message (blind a env) = event_message env"
  by (simp_all add: blind_def)

lemma blind_writes [simp]:
  "write_bytes (blind a env) = write_bytes env" "write_ok (blind a env) = write_ok env"
  "write_err (blind a env) = write_err env"
  by (auto simp: fun_eq_iff write_bytes_def write_ok_def write_err_def serialize_error_def error_text_def
      split: pop3_error.splits)

lemma blind_handlers [simp]:
  "handle_fetch (blind a env) = handle_fetch env" "handle_list (blind a env) = handle_list env"
  "handle_uidl (blind a env) = handle_uidl env" "handle_stat (blind a env) = handle_stat env"
  "handle_dele (blind a env) = handle_dele env" "handle_rset (blind a env) = handle_rset env"
  "handle_quit (blind a env) = handle_quit env" "handle_capa (blind a env) = handle_capa env"
  "handle_stls (blind a env) = handle_stls env" "handle_utf8 (blind a env) = handle_utf8 env"
  "handle_user (blind a env) = handle_user env"
  by (simp_all add: fun_eq_iff report_defs handle_dele_def handle_rset_def handle_quit_def handle_user_def
      split: session_state.splits option.splits result.splits prod.splits)

lemma blind_authenticate:
  "(\<And>u p m. c \<noteq> Basic u p m) \<Longrightarrow> authenticate (blind a env) c = authenticate env c"
  by (cases c) (auto simp: blind_def)

lemma blind_auth: "(\<And>u p m. c \<noteq> Basic u p m) \<Longrightarrow> handle_auth (blind a env) c s = handle_auth env c s"
  using blind_authenticate [of c a env]
  by (auto simp: handle_auth_def fetch_mailbox_def split: result.splits session_state.splits
      simp del: lit_simps)

lemma blind_sasl:
  "mechanism \<noteq> Plain \<Longrightarrow> handle_sasl (blind a env) mechanism params s = handle_sasl env mechanism params s"
  using decode_sasl_oauth_bearer
  by (auto simp: handle_sasl_def decode_challenge_def bind_eq_Some_conv intro!: blind_auth
      split: option.splits)

lemma blind_validate [simp]: "validate_request (blind a env) = validate_request env"
  by (simp add: fun_eq_iff validate_request_def validate_password_def validate_mailbox_command_def
      split: command.splits session_state.splits)

lemma blind_execute:
  assumes "validate_request env s c = Ok c" "\<not> is_tls s" "\<not> allow_plain_auth env"
  shows "execute (blind a env) c s = execute env c s"
  using validate_request_Ok(3) [OF assms(1)] assms(2, 3)
  by (cases c) (auto simp: execute_def blind_sasl)

lemma session_step_tls: "session_step env s s' \<Longrightarrow> is_tls s' = is_tls s"
  by (induction rule: session_step.induct) (simp_all add: same_session_def)

lemma blind_run_requests:
  "\<not> is_tls s \<Longrightarrow> \<not> allow_plain_auth env \<Longrightarrow> run_requests (blind a env) qs s = run_requests env qs s"
proof (induction qs arbitrary: s)
  case (Cons q qs)
  have first: "run_request (blind a env) q s = run_request env q s"
    using blind_execute [of env s] validate_request_Ok(1) [of env s] Cons.prems
    by (auto simp: run_request_def split: result.splits)
  obtain r s1 where run: "run_request env q s = (r, s1)" by fastforce
  have "\<not> is_tls s1"
    using session_step_tls [OF run_request_step [of env s q]] Cons.prems by (simp add: run)
  moreover from this have "write_err env e s1 = (go, s2) \<Longrightarrow> \<not> is_tls s2" for e go s2
    using write_err_fields(3) [of env e s1] by simp
  ultimately show ?case
    using Cons by (auto simp: first run split: result.splits session_result.splits prod.splits bool.splits)
qed simp

lemma blind_gather: "gather (blind a env) u st bs qs = gather env u st bs qs"
proof (induction env u st bs qs rule: gather.induct)
  case (1 env u st bs qs)
  then show ?case
    by (subst (1 2) gather.simps)
      (auto simp: reason_text_def split: prod.splits option.splits result.splits parse_reason.splits)
qed

section \<open>What the parser hands over\<close>

lemma gather_Nil: "gather env u st [] qs = (st, Ok (Some qs))"
  by (subst gather.simps) simp

lemma gather_Cons:
  "gather env u st (b # bs) qs =
     (case parse_byte st b of
        (st', None) \<Rightarrow> gather env u st' bs qs
      | (st', Some (Ok request)) \<Rightarrow> gather env u st' bs (enqueue qs request)
      | (st', Some (Err reason)) \<Rightarrow>
          if u \<and> scanner_banned env = Ok True then (st', Ok None)
          else gather env u st' bs (qs @ [Err (Pop3Error (reason_text env reason))])
      | (st', Some Panic) \<Rightarrow> (st', Panic))"
proof (cases "parse_byte st b")
  case (Pair st' out)
  then show ?thesis
    by (cases out) (simp_all add: gather.simps [of env u st "b # bs"] gather.simps [of env u st' bs qs])
qed

lemma gather_parse_all:
  "parse_all st bs = (st', map Ok rs) \<Longrightarrow> gather env u st bs qs = (st', Ok (Some (foldl enqueue qs rs)))"
proof (induction bs arbitrary: st qs rs)
  case Nil
  then show ?case by (simp add: gather_Nil)
next
  case (Cons b bs)
  obtain s1 out where step: "parse_byte st b = (s1, out)" by fastforce
  show ?case
    using Cons.IH [of s1] Cons.prems step
    by (cases out) (auto simp: gather_Cons parse_all_Cons split: prod.splits)
qed

text \<open>Pipelined commands of one read are executed in order, consecutive deletions as one request.\<close>

lemma ingest_lines:
  assumes "\<forall>r \<in> set rs. printable_request r" "receiver s = Init"
  shows "ingest env (concat (map pop3_line rs)) s = run_requests env (foldl enqueue [] rs) s"
proof -
  have "parse_all Init (concat (map pop3_line rs)) = (Init, map Ok rs)"
    using parse_pop3_lines [OF assms(1), of "[]"] by simp
  then show ?thesis
    using assms(2) by (cases s) (simp add: ingest_def gather_parse_all)
qed

lemma handle_conn_lines:
  assumes "\<forall>r \<in> set rs. printable_request r" "receiver s = Init" "rs \<noteq> []"
    and "run_requests env (foldl enqueue [] rs) s = (Ok r, s')"
  shows "handle_conn ((env, ReadBytes (concat (map pop3_line rs))) # events) s =
    (case r of Continue \<Rightarrow> handle_conn events s' | UpgradeTls \<Rightarrow> (Ok (Some True), events, s')
     | Close \<Rightarrow> (Ok (Some False), events, s'))"
proof -
  have "printable_request q \<Longrightarrow> pop3_line q \<noteq> []" for q
    using parse_pop3_line [of q] by auto
  then have "concat (map pop3_line rs) \<noteq> []"
    using assms(1, 3) by (cases rs) auto
  then show ?thesis
    using assms by (simp add: ingest_lines split: session_result.splits)
qed

section \<open>A session to try things on\<close>

text \<open>One account, two messages, one password; the TLS layer and the socket always work.\<close>

definition demo_message :: "u32 \<Rightarrow> u32 \<Rightarrow> cached_message" where
  "demo_message doc uid = \<lparr>cached_mailboxes = [(INBOX_ID, uid)], document_id = doc, cached_size = 100\<rparr>"

definition demo_env :: "unit pop3_env" where
  "demo_env =
     \<lparr>allow_plain_auth = True, max_auth_failures = 3, rate_limited = False,
      rate_allowed = (\<lambda>_. Ok True), scanner_banned = Ok False,
      authenticate = (\<lambda>c. if c = Basic (lit ''a'') (lit ''b'') None then Ok () else Err AuthFailed),
      has_permission = (\<lambda>_ _. True), request_allowed = (\<lambda>_. True), token_account = (\<lambda>_. 7),
      cached_messages = (\<lambda>_. Ok \<lparr>cached_items = [demo_message 11 2, demo_message 12 1],
                                  inbox_validity = Some 1\<rparr>),
      message_metadata = (\<lambda>_ _. Ok None), get_blob = (\<lambda>_. Ok None), emails_delete = (\<lambda>_ _. Ok []),
      sock_write = (\<lambda>_. True), base64_decode = (\<lambda>_. None), email_from_jwt = (\<lambda>_. None),
      utf8_lossy = (\<lambda>bs. bs), event_message = (\<lambda>_. [])\<rparr>"

definition strict_env :: "unit pop3_env" where
  "strict_env = demo_env\<lparr>allow_plain_auth := False\<rparr>"

lemma demo_env_total: "env_total demo_env"
  by (simp add: env_total_def demo_env_def)

definition demo_events :: "(unit pop3_env \<times> conn_event) list" where
  "demo_events =
     [(demo_env, ReadBytes (concat (map pop3_line [User (lit ''a''), Pass (lit ''b'')]))),
      (demo_env, ReadBytes (concat (map pop3_line [Dele 1, Quit])))]"

lemmas request_eval = ingest_def run_request_def validate_request_def validate_password_def
  validate_mailbox_command_def not_authenticated_def execute_def on_ok_def handle_user_def
  handle_pass_def handle_auth_def fetch_mailbox_def handle_dele_def handle_quit_def with_mailbox_def
  write_ok_def write_bytes_def new_session_def

definition demo_box :: mailbox where
  "demo_box =
     \<lparr>messages = [\<lparr>msg_id = 12, msg_uid = 1, msg_size = 100, deleted = False\<rparr>,
                  \<lparr>msg_id = 11, msg_uid = 2, msg_size = 100, deleted = False\<rparr>],
      account_id = 7, uid_validity = 1, total_count = 2, box_size = 200\<rparr>"

lemma demo_fetched: "fetch_mailbox demo_env 7 = Ok demo_box"
  by (simp add: fetch_mailbox_def demo_env_def demo_box_def build_mailbox_def default_mailbox_def
      message_map_def inbox_entry_def demo_message_def push_message_def map_filter_simps)

definition demo_marked :: mailbox where
  "demo_marked = demo_box\<lparr>messages :=
     [(messages demo_box ! 0)\<lparr>deleted := True\<rparr>, messages demo_box ! 1]\<rparr>"

lemma demo_session:
  "\<exists>s. handle demo_env False False False demo_events = (Ok (Some False), s) \<and>
     sstate s = Authenticated demo_marked () \<and> purged s = [(7, [12])]"
proof -
  let ?s0 = "(new_session False :: unit session)\<lparr>written := [SERVER_GREETING]\<rparr>"
  have greet: "write_bytes demo_env SERVER_GREETING (new_session False) = (Ok (), ?s0)"
    by (simp add: write_bytes_def demo_env_def new_session_def)
  obtain s1 where login: "run_requests demo_env (foldl enqueue [] [User (lit ''a''), Pass (lit ''b'')]) ?s0 =
        (Ok Continue, s1)" "receiver s1 = Init" "sstate s1 = Authenticated demo_box ()" "purged s1 = []"
    using demo_fetched
    by (simp add: request_eval enqueue_def demo_env_def serialize_error_def)
  obtain s2 where bye: "run_requests demo_env (foldl enqueue [] [Dele 1, Quit]) s1 = (Ok Close, s2)"
      "sstate s2 = Authenticated demo_marked ()" "purged s2 = [(7, [12])]"
    using login(2-4)
    by (simp add: request_eval enqueue_def demo_env_def dele_one_def get_at_def msg_index_def
        saturating_sub_def demo_box_def demo_marked_def)
  have printable: "\<forall>r \<in> set [User (lit ''a''), Pass (lit ''b'')]. printable_request r"
      "\<forall>r \<in> set [Dele 1, Quit]. printable_request r"
    by (simp_all add: word_ok_def is_blank_def ascii_defs)
  have "handle_conn demo_events ?s0 = (Ok (Some False), [], s2)"
    unfolding demo_events_def
    by (subst handle_conn_lines [OF printable(1) _ _ login(1)])
      (simp_all add: handle_conn_lines [OF printable(2) login(2) _ bye(1)] new_session_def
        del: handle_conn.simps list.map concat.simps)
  with bye show ?thesis
    by (simp add: handle_def greet)
qed

section \<open>Properties\<close>

text \<open>C27: whatever the client sends and however the server's services answer, a POP3 connection never
  reaches an \<^verbatim>\<open>unreachable!\<close>, an \<^verbatim>\<open>unwrap\<close> of nothing or an index out of range,
  from the greeting through the upgrade to TLS until it is closed, and its parser state stays within
  its bounds.\<close>

theorem pop3_session_never_panics:
  assumes "\<forall>e \<in> set events. env_total (fst e)"
  shows "\<exists>b s. handle env tls acceptor_is_tls accepted events = (Ok b, s) \<and> parser_inv (receiver s)"
  using handle_run [OF assms, of env tls acceptor_is_tls accepted] conn_steps_parser
  by (fastforce simp: new_session_def)

theorem pop3_session_never_panics_witness:
  "\<exists>b s. handle demo_env False True True demo_events = (Ok b, s) \<and> parser_inv (receiver s)"
  by (rule pop3_session_never_panics) (simp add: demo_events_def demo_env_total)



text \<open>C30: on an unencrypted connection whose server does not allow plain-text passwords, passwords are
  not even looked at: every answer and every state is the same whatever the directory would say about
  any password.\<close>

theorem pop3_plaintext_passwords_ignored:
  assumes "\<not> is_tls s" "\<not> allow_plain_auth env"
  shows "ingest (env\<lparr>authenticate := \<lambda>c. case c of Basic _ _ _ \<Rightarrow> a c | _ \<Rightarrow> authenticate env c\<rparr>) bs s =
    ingest env bs s"
  using blind_run_requests [of "s\<lparr>receiver := st\<rparr>" env a for st] assms
  by (auto simp: ingest_def blind_gather blind_def [symmetric]
      split: prod.splits result.splits option.splits)

theorem pop3_plaintext_passwords_ignored_witness:
  "ingest (strict_env\<lparr>authenticate := \<lambda>c. case c of Basic _ _ _ \<Rightarrow> Ok () | _ \<Rightarrow> authenticate strict_env c\<rparr>)
     (lit ''PASS x'' @ CRLF) (new_session False) =
   ingest strict_env (lit ''PASS x'' @ CRLF) (new_session False)"
  by (rule pop3_plaintext_passwords_ignored) (simp_all add: new_session_def strict_env_def)



end
