(* ===== verification/Pop3_Maildrop.thy ===== *)
theory Pop3_Maildrop
  imports Pop3_Correct
begin

text \<open>
  The maildrop of RFC 1939 as an abstract machine, and the POP3 session as its implementation; the
  mailbox snapshot that \<^verbatim>\<open>fetch_mailbox\<close> builds (\<^verbatim>\<open>pop3/src/mailbox.rs\<close>).
\<close>

section \<open>The abstract maildrop\<close>

text \<open>The messages of the account, and the numbers of those marked as deleted.\<close>

record maildrop =
  drop_account :: u32
  drop_messages :: "(u32 \<times> u32 \<times> u32) list"
  marks :: "nat set"

definition mark :: "u32 \<Rightarrow> maildrop \<Rightarrow> maildrop" where
  "mark n d = (if 1 \<le> unat n \<and> unat n \<le> length (drop_messages d)
               then d\<lparr>marks := insert (unat n) (marks d)\<rparr> else d)"

fun maildrop_step :: "request \<Rightarrow> maildrop \<Rightarrow> maildrop" where
  "maildrop_step (Dele n) d = mark n d"
| "maildrop_step (DeleMany ns) d = fold mark ns d"
| "maildrop_step Rset d = d\<lparr>marks := {}\<rparr>"
| "maildrop_step _ d = d"

definition maildrop_of :: "mailbox \<Rightarrow> maildrop" where
  "maildrop_of box =
     \<lparr>drop_account = account_id box,
      drop_messages = map (\<lambda>m. (msg_id m, msg_uid m, msg_size m)) (messages box),
      marks = {Suc i | i. i < length (messages box) \<and> deleted (messages box ! i)}\<rparr>"

fun numbered :: "request \<Rightarrow> bool" where
  "numbered (Dele n) = (n \<noteq> 0)"
| "numbered (DeleMany ns) = (0 \<notin> set ns)"
| "numbered _ = True"

section \<open>Marking\<close>

lemma msg_index_pos: "n \<noteq> 0 \<Longrightarrow> Suc (msg_index n) = unat n"
  using unat_gt_0 [of n] by (simp add: msg_index_def unat_saturating_sub)

lemma mark_marked: "deleted m \<Longrightarrow> m\<lparr>deleted := True\<rparr> = m"
  by (cases m) simp

lemma dele_one_messages:
  "fst (dele_one (ms, r) n) =
     (if msg_index n < length ms then ms[msg_index n := (ms ! msg_index n)\<lparr>deleted := True\<rparr>] else ms)"
  by (auto simp: dele_one_def get_at_def mark_marked)

lemma maildrop_of_mark:
  assumes "n \<noteq> 0"
  shows "maildrop_of (box\<lparr>messages := fst (dele_one (messages box, r) n)\<rparr>) = mark n (maildrop_of box)"
proof -
  let ?i = "msg_index n" and ?ms = "messages box"
  have n: "unat n = Suc ?i" using msg_index_pos [OF assms] by simp
  have "map f (?ms[?i := (?ms ! ?i)\<lparr>deleted := True\<rparr>]) = map f ?ms"
    if "\<And>m. f (m\<lparr>deleted := True\<rparr>) = f m" for f :: "message \<Rightarrow> u32 \<times> u32 \<times> u32"
    using that by (cases "?i < length ?ms") (simp_all add: map_update list_update_same_conv list_update_beyond)
  moreover have "{Suc j | j. j < length ?ms \<and> deleted (?ms[?i := (?ms ! ?i)\<lparr>deleted := True\<rparr>] ! j)} =
      insert (Suc ?i) {Suc j | j. j < length ?ms \<and> deleted (?ms ! j)}" if "?i < length ?ms"
    using that by (auto simp: nth_list_update)
  ultimately show ?thesis
    by (auto simp: dele_one_messages maildrop_of_def mark_def n Suc_le_eq)
qed

lemma maildrop_of_marks:
  "0 \<notin> set ns \<Longrightarrow>
   maildrop_of (box\<lparr>messages := fst (foldl dele_one (messages box, r) ns)\<rparr>) = fold mark ns (maildrop_of box)"
proof (induction ns arbitrary: box r)
  case Nil
  then show ?case by (cases box) simp
next
  case (Cons n ns)
  obtain ms r' where one: "dele_one (messages box, r) n = (ms, r')" by fastforce
  have "maildrop_of (box\<lparr>messages := ms\<rparr>) = mark n (maildrop_of box)"
    using maildrop_of_mark [of n box r] Cons.prems by (simp add: one)
  then show ?case
    using Cons.IH [of "box\<lparr>messages := ms\<rparr>" r'] Cons.prems by (simp add: one)
qed

lemma maildrop_of_reset: "maildrop_of (box\<lparr>messages := reset_marks (messages box)\<rparr>) = (maildrop_of box)\<lparr>marks := {}\<rparr>"
  by (simp add: maildrop_of_def comp_def)

section \<open>The session implements it\<close>

text \<open>Services that answer, a client that reads, and a token that may do everything.\<close>

definition serving :: "'tok pop3_env \<Rightarrow> 'tok \<Rightarrow> bool" where
  "serving env tok \<longleftrightarrow>
     (\<forall>bs. sock_write env bs) \<and> \<not> rate_limited env \<and> (\<forall>p. has_permission env tok p) \<and>
     (\<forall>a d. is_ok (message_metadata env a d)) \<and> (\<forall>h. is_ok (get_blob env h))"

definition apply_request :: "'tok pop3_env \<Rightarrow> request \<Rightarrow> 'tok session \<Rightarrow> 'tok session" where
  "apply_request env c s = snd (run_requests env [Ok c] s)"

definition session_drop :: "'tok session \<Rightarrow> maildrop" where
  "session_drop s = (case sstate s of Authenticated box _ \<Rightarrow> maildrop_of box
     | NotAuthenticated _ _ \<Rightarrow> maildrop_of default_mailbox)"

definition serves :: "'tok pop3_env \<Rightarrow> 'tok session \<Rightarrow> bool" where
  "serves env s \<longleftrightarrow> (\<exists>box tok. sstate s = Authenticated box tok \<and> serving env tok)"

definition drop_request :: "request \<Rightarrow> bool" where
  "drop_request c \<longleftrightarrow> needs_mailbox c \<and> numbered c"

lemma serving_writes:
  "serving env tok \<Longrightarrow> fst (write_bytes env bs s) = Ok ()" "serving env tok \<Longrightarrow> fst (write_ok env bs s) = Ok ()"
  by (simp_all add: serving_def write_ok_def write_bytes_def)

lemma serving_write_err:
  "serving env tok \<Longrightarrow> write_err env (Pop3Error e) s = (True, snd (write_err env (Pop3Error e) s))"
  by (simp add: write_err_def write_bytes_def serving_def)

lemma drop_request_runs:
  assumes "sstate s = Authenticated box tok" "serving env tok" "drop_request c"
  shows "fst (run_request env (Ok c) s) = Ok Continue \<or> (\<exists>e. fst (run_request env (Ok c) s) = Err (Pop3Error e))"
    and "sstate (snd (run_request env (Ok c) s)) = Authenticated
      (case c of Dele n \<Rightarrow> box\<lparr>messages := fst (foldl dele_one (messages box, []) [n])\<rparr>
       | DeleMany ns \<Rightarrow> box\<lparr>messages := fst (foldl dele_one (messages box, []) ns)\<rparr>
       | Rset \<Rightarrow> box\<lparr>messages := reset_marks (messages box)\<rparr>
       | _ \<Rightarrow> box) tok"
proof -
  have valid: "validate_request env s c = Ok c"
    using assms by (cases c) (simp_all add: drop_request_def serving_def validate_request_def
        validate_mailbox_command_def)
  have run: "run_request env (Ok c) s = execute env c s"
    by (simp add: run_request_def valid)
  have perm: "has_permission env tok p" for p
    using assms(2) by (simp add: serving_def)
  have meta: "is_ok (message_metadata env a d)" "is_ok (get_blob env h)" for a d h
    using assms(2) by (simp_all add: serving_def)
  have fetch: "fst (handle_fetch env m n s) = Ok () \<or> (\<exists>e. fst (handle_fetch env m n s) = Err (Pop3Error e))" for m n
    using assms(1) perm serving_writes [OF assms(2)] meta
    by (auto simp: handle_fetch_def with_mailbox_def Let_def is_ok_iff split: option.splits result.splits)
      (metis is_ok_simps)+
  show "fst (run_request env (Ok c) s) = Ok Continue \<or> (\<exists>e. fst (run_request env (Ok c) s) = Err (Pop3Error e))"
    using assms(1, 3) perm serving_writes [OF assms(2)] fetch
    unfolding run
    by (cases c) (auto simp: execute_def on_ok_def drop_request_def with_mailbox_def Let_def
        handle_list_def handle_uidl_def handle_stat_def handle_utf8_def
        handle_dele_def handle_rset_def case_prod_beta and_then_Ok_iff and_then_Err_iff split: option.splits)
  show "sstate (snd (run_request env (Ok c) s)) = Authenticated
      (case c of Dele n \<Rightarrow> box\<lparr>messages := fst (foldl dele_one (messages box, []) [n])\<rparr>
       | DeleMany ns \<Rightarrow> box\<lparr>messages := fst (foldl dele_one (messages box, []) ns)\<rparr>
       | Rset \<Rightarrow> box\<lparr>messages := reset_marks (messages box)\<rparr>
       | _ \<Rightarrow> box) tok"
    using assms(1, 3) perm reports_same_session [of s env]
    unfolding run
    by (cases c) (auto simp: execute_def drop_request_def same_session_def
        handle_dele_def handle_rset_def with_mailbox_def case_prod_beta Let_def)
qed

lemma apply_request_drop:
  assumes "sstate s = Authenticated box tok" "serving env tok" "drop_request c"
  obtains s' box' where "run_requests env (Ok c # qs) s = run_requests env qs s'" "s' = apply_request env c s"
    "sstate s' = Authenticated box' tok" "maildrop_of box' = maildrop_step c (maildrop_of box)"
proof -
  obtain r s1 where run: "run_request env (Ok c) s = (r, s1)" by fastforce
  note runs = drop_request_runs [OF assms, unfolded run fst_conv snd_conv]
  define box' where "box' = (case c of Dele n \<Rightarrow> box\<lparr>messages := fst (foldl dele_one (messages box, []) [n])\<rparr>
       | DeleMany ns \<Rightarrow> box\<lparr>messages := fst (foldl dele_one (messages box, []) ns)\<rparr>
       | Rset \<Rightarrow> box\<lparr>messages := reset_marks (messages box)\<rparr>
       | _ \<Rightarrow> box)"
  have auth: "sstate s1 = Authenticated box' tok"
    unfolding box'_def by (rule runs(2))
  have abs: "maildrop_of box' = maildrop_step c (maildrop_of box)"
    using assms(3) unfolding box'_def
    by (cases c) (simp_all add: drop_request_def maildrop_of_mark [of _ box "[]"]
        maildrop_of_marks [of _ box "[]"] maildrop_of_reset [of box])
  show ?thesis
  proof (cases "r = Ok Continue")
    case True
    show ?thesis
      by (rule that [of s1 box']) (simp_all add: True auth abs apply_request_def run)
  next
    case False
    then obtain e where r: "r = Err (Pop3Error e)" using runs(1) by auto
    obtain s2 where err: "write_err env (Pop3Error e) s1 = (True, s2)"
      using serving_write_err [OF assms(2), of e s1] by blast
    have "sstate s2 = Authenticated box' tok"
      using write_err_fields(2) [of env "Pop3Error e" s1] by (simp add: err auth)
    then show ?thesis
      by (intro that [of s2 box']) (simp_all add: abs apply_request_def run r err)
  qed
qed

interpretation pop3_maildrop: refinement session_drop "serves env" drop_request "apply_request env"
    maildrop_step for env
proof
  fix s :: "'a session" and c
  assume "serves env s" "drop_request c"
  then obtain box tok where "sstate s = Authenticated box tok" "serving env tok"
    by (auto simp: serves_def)
  from apply_request_drop [OF this \<open>drop_request c\<close>, of "[]"] this obtain box' where
    "sstate (apply_request env c s) = Authenticated box' tok"
    "maildrop_of box' = maildrop_step c (maildrop_of box)"
    by metis
  with \<open>sstate s = Authenticated box tok\<close> \<open>serving env tok\<close> show
    "session_drop (apply_request env c s) = maildrop_step c (session_drop s)"
    "serves env (apply_request env c s)"
    by (auto simp: session_drop_def serves_def)
qed

lemma run_drop_requests:
  "serves env s \<Longrightarrow> \<forall>c \<in> set cs. drop_request c \<Longrightarrow>
   run_requests env (map Ok cs @ qs) s = run_requests env qs (fold (apply_request env) cs s)"
proof (induction cs arbitrary: s)
  case (Cons c cs)
  then obtain box tok where auth: "sstate s = Authenticated box tok" "serving env tok"
    by (auto simp: serves_def)
  from apply_request_drop [OF auth, of c "map Ok cs @ qs"] Cons.prems(2)
  have "run_requests env (Ok c # map Ok cs @ qs) s = run_requests env (map Ok cs @ qs) (apply_request env c s)"
    by (metis list.set_intros(1))
  with Cons pop3_maildrop.step_keeps [OF Cons.prems(1), of c] show ?case by simp
qed simp

section \<open>The mailbox snapshot\<close>

lemma btree_insert_keys: "set (map fst (btree_insert k v xs)) = insert k (set (map fst xs))"
  by (induction k v xs rule: btree_insert.induct) auto

lemma btree_insert_sorted:
  "sorted_wrt (<) (map fst xs) \<Longrightarrow> sorted_wrt (<) (map fst (btree_insert k v xs))"
proof (induction k v xs rule: btree_insert.induct)
  case (2 k v k' v' xs)
  then show ?case
    using btree_insert_keys [of k v xs] by (auto simp del: set_map)
qed simp

lemma btree_insert_map_of:
  "sorted_wrt (<) (map fst xs) \<Longrightarrow> map_of (btree_insert k v xs) = (map_of xs)(k \<mapsto> v)"
proof (induction k v xs rule: btree_insert.induct)
  case (2 k v k' v' xs)
  then show ?case by (auto simp: fun_eq_iff)
qed simp

lemma foldl_btree:
  "sorted_wrt (<) (map fst xs) \<Longrightarrow>
   sorted_wrt (<) (map fst (foldl (\<lambda>xs (k, v). btree_insert k v xs) xs es)) \<and>
   map_of (foldl (\<lambda>xs (k, v). btree_insert k v xs) xs es) = foldl (\<lambda>m (k, v). m(k \<mapsto> v)) (map_of xs) es"
  by (induction es arbitrary: xs) (auto simp: btree_insert_sorted btree_insert_map_of split: prod.splits)

lemma foldl_push_message:
  "messages (foldl push_message box es) = messages box @
     map (\<lambda>(uid, doc, octets). \<lparr>msg_id = doc, msg_uid = uid, msg_size = octets, deleted = False\<rparr>) es"
  "total_count (foldl push_message box es) = total_count box + of_nat (length es)"
  "box_size (foldl push_message box es) = box_size box + sum_list (map (\<lambda>(_, _, octets). octets) es)"
  by (induction es arbitrary: box) (auto simp: push_message_def)

lemma foldl_updates: "foldl (\<lambda>m (k, v). m(k \<mapsto> v)) m es = m ++ map_of (rev es)"
  by (induction es arbitrary: m) auto

lemma sum_list_words: "sum_list ws = of_nat (sum_list (map unat ws))" for ws :: "u32 list"
  by (induction ws) simp_all

section \<open>Properties\<close>



text \<open>The mailbox a session works on lists the messages of the inbox in strictly ascending UID
  order, one for every UID, each with the document of the last cached message that has it; its count
  is their number and its size the sum of their sizes, both modulo \<open>2 ^ 32\<close>.\<close>

theorem pop3_mailbox_snapshot:
  "\<exists>entries.
     messages (build_mailbox account cache) =
       map (\<lambda>(uid, doc, octets). \<lparr>msg_id = doc, msg_uid = uid, msg_size = octets, deleted = False\<rparr>) entries \<and>
     sorted_wrt (<) (map msg_uid (messages (build_mailbox account cache))) \<and>
     map_of entries = map_of (rev (List.map_filter inbox_entry (cached_items cache))) \<and>
     total_count (build_mailbox account cache) = of_nat (length entries) \<and>
     box_size (build_mailbox account cache) =
       of_nat (sum_list (map (\<lambda>m. unat (msg_size m)) (messages (build_mailbox account cache))))"
proof (cases "cached_items cache = []")
  case True
  then show ?thesis
    by (auto simp: build_mailbox_def default_mailbox_def map_filter_simps)
next
  case False
  let ?es = "message_map (cached_items cache)"
  have es: "sorted_wrt (<) (map fst ?es)"
      "map_of ?es = map_of (rev (List.map_filter inbox_entry (cached_items cache)))"
    using foldl_btree [of "[]" "List.map_filter inbox_entry (cached_items cache)"]
    by (simp_all add: message_map_def foldl_updates)
  have uids: "map (\<lambda>x. msg_uid (case x of (uid, doc, octets) \<Rightarrow>
      \<lparr>msg_id = doc, msg_uid = uid, msg_size = octets, deleted = False\<rparr>)) ?es = map fst ?es"
    and sizes: "map (\<lambda>(_, _, octets). octets) ?es = map (\<lambda>x. msg_size (case x of (uid, doc, octets) \<Rightarrow>
      \<lparr>msg_id = doc, msg_uid = uid, msg_size = octets, deleted = False\<rparr>)) ?es"
    by auto
  show ?thesis
    by (rule exI [of _ ?es])
      (use False es sum_list_words [of "map (\<lambda>(_, _, octets). octets) ?es"] in
        \<open>simp add: build_mailbox_def default_mailbox_def foldl_push_message uids sizes comp_def\<close>)
qed

text \<open>\<^verbatim>\<open>DELE 0\<close> marks message 1: the number is decremented with saturation instead of being
  refused, although message numbers start at 1.\<close>

theorem pop3_dele_zero_marks_first:
  "dele_one (ms, response) 0 =
     (case ms of
        [] \<Rightarrow> (ms, response @ lit ''-ERR no such message'' @ CRLF)
      | m # rest \<Rightarrow>
          if deleted m then (ms, response @ lit ''-ERR message 0 already deleted'' @ CRLF)
          else (m\<lparr>deleted := True\<rparr> # rest, response @ lit ''+OK message 0 deleted'' @ CRLF))"
  by (simp add: dele_one_def get_at_def msg_index_def saturating_sub_def show_u32_def show_nat.simps
      split: list.splits)

text \<open>Bytes that follow \<^verbatim>\<open>STLS\<close> in the clear survive the upgrade: an incomplete command sent
  before the handshake is completed by what the client sends inside TLS and runs there.\<close>

theorem pop3_stls_keeps_partial_command:
  "\<exists>s. ingest demo_env (pop3_line Stls @ lit ''DEL'') (new_session False) = (Ok UpgradeTls, s) \<and>
     receiver (into_tls s) = InCommand (lit ''del'' @ [0]) 3 \<and>
     parse_all (receiver (into_tls s)) (lit ''E 1'' @ CRLF) = (Init, [Ok (Dele 1)])"
proof -
  let ?st = "InCommand (lit ''del'' @ [0]) 3"
  have "parse_all Init (lit ''DEL'') = (?st, [])"
    by (simp add: parse_all_Cons parse_byte_def is_blank_def is_lower_def is_upper_def ascii_defs)
  then have "parse_all Init (pop3_line Stls @ lit ''DEL'') = (?st, map Ok [Stls])"
    by (simp add: parse_all_append parse_pop3_line del: lit_simps pop3_line.simps)
  from gather_parse_all [OF this, of demo_env True "[]"]
  have "\<exists>s. ingest demo_env (pop3_line Stls @ lit ''DEL'') (new_session False) = (Ok UpgradeTls, s) \<and>
      receiver s = ?st"
    by (simp add: request_eval handle_stls_def enqueue_def demo_env_def del: lit_simps pop3_line.simps)
  moreover have "parse_all ?st (lit ''E 1'' @ CRLF) = (Init, [Ok (Dele 1)])"
    by (simp add: parse_all_Cons parse_byte_def is_blank_def is_lower_def is_upper_def is_digit_def CRLF_def
        ascii_defs command_parse_def update_argument_def map_ok_def add_digit_def checked_mul_def
        checked_add_def finalize_def)
  ultimately show ?thesis
    by (auto simp: into_tls_def)
qed

end
