(* ===== verification/Imap_Sequence.thy ===== *)
theory Imap_Sequence
  imports Text
begin

text \<open>
  The sequence sets of IMAP (\<^verbatim>\<open>imap-proto/src/protocol/mod.rs\<close> and \<^verbatim>\<open>parser/mod.rs\<close>): the parser of
  the sets a client names messages with, membership and expansion, and the printer of the sets the server
  answers with.
\<close>

section \<open>Sequences\<close>

datatype sequence =
    SeqNumber u32
  | SeqRange "u32 option" "u32 option"
  | SavedSearch
  | SeqList "sequence list"

fun seq_contains :: "sequence \<Rightarrow> u32 \<Rightarrow> u32 \<Rightarrow> bool" where
  "seq_contains (SeqNumber number) v max_value \<longleftrightarrow> number = v"
| "seq_contains (SeqRange (Some start) (Some fin)) v max_value \<longleftrightarrow>
     start \<le> v \<and> v \<le> fin \<or> fin \<le> v \<and> v \<le> start"
| "seq_contains (SeqRange (Some r) None) v max_value \<longleftrightarrow> r \<le> v \<and> v \<le> max_value \<or> max_value \<le> v \<and> v \<le> r"
| "seq_contains (SeqRange None (Some r)) v max_value \<longleftrightarrow> r \<le> v \<and> v \<le> max_value \<or> max_value \<le> v \<and> v \<le> r"
| "seq_contains (SeqRange None None) v max_value \<longleftrightarrow> v = max_value"
| "seq_contains (SeqList items) v max_value \<longleftrightarrow> (\<exists>item \<in> set items. seq_contains item v max_value)"
| "seq_contains SavedSearch v max_value \<longleftrightarrow> False"

fun is_saved_search :: "sequence \<Rightarrow> bool" where
  "is_saved_search SavedSearch = True"
| "is_saved_search (SeqList items) = (\<exists>item \<in> set items. is_saved_search item)"
| "is_saved_search _ = False"

definition unwrap_or :: "'a option \<Rightarrow> 'a \<Rightarrow> 'a" where
  "unwrap_or x d = (case x of Some v \<Rightarrow> v | None \<Rightarrow> d)"

definition expand_range :: "u32 option \<Rightarrow> u32 option \<Rightarrow> u32 \<Rightarrow> u32 set" where
  "expand_range start fin max_value =
     (let start = unwrap_or start max_value; fin = unwrap_or fin max_value
      in if start = fin then {start} else if start < fin then {start..fin} else {fin..start})"

definition expand_item :: "u32 \<Rightarrow> sequence \<Rightarrow> u32 set" where
  "expand_item max_value item =
     (case item of SeqNumber v \<Rightarrow> {v} | SeqRange start fin \<Rightarrow> expand_range start fin max_value | _ \<Rightarrow> {})"

definition seq_expand :: "sequence \<Rightarrow> u32 \<Rightarrow> u32 set" where
  "seq_expand s max_value =
     (case s of
        SeqNumber v \<Rightarrow> {v}
      | SeqList items \<Rightarrow> foldl (\<lambda>result item. result \<union> expand_item max_value item) {} items
      | SeqRange start fin \<Rightarrow> expand_range start fin max_value
      | SavedSearch \<Rightarrow> {})"

section \<open>Parsing\<close>

datatype sequence_error =
    NumberBeforeColon
  | ColonTwice
  | InvalidStar
  | StarTwice
  | AfterDollar
  | InvalidSequenceChar byte nat
  | ExpectedNumber
  | SliceError
  | NotUtf8Number
  | NotANumber bytes
  | EmptySequence

definition imap_parse_number :: "bytes \<Rightarrow> (u32, sequence_error) result" where
  "imap_parse_number bs = (if valid_utf8 bs then ok_or (parse_uint bs) (NotANumber bs) else Err NotUtf8Number)"

record seq_scan =
  sq_set :: "sequence list"
  sq_range_start :: "u32 option"
  sq_token :: "nat option"
  sq_wildcard :: bool
  sq_range :: bool
  sq_saved :: bool

text \<open>One character: \<open>Inl\<close> when the function returns at once, else whether it ends an item.\<close>

definition seq_char :: "bytes \<Rightarrow> nat \<Rightarrow> byte \<Rightarrow> seq_scan \<Rightarrow> (sequence + bool \<times> seq_scan, sequence_error) result" where
  "seq_char text pos ch st =
     (if ch = 44 then Ok (Inr (True, st))
      else if ch = 58 then
        (if \<not> sq_range st then
           (case sq_token st of
              Some from_pos \<Rightarrow>
                and_then (ok_or (get_range text from_pos pos) SliceError) (\<lambda>bs.
                and_then (imap_parse_number bs) (\<lambda>n.
                  Ok (Inr (False, st\<lparr>sq_range_start := Some n, sq_token := None, sq_range := True\<rparr>))))
            | None \<Rightarrow>
                if sq_wildcard st then Ok (Inr (False, st\<lparr>sq_wildcard := False, sq_range := True\<rparr>))
                else Err NumberBeforeColon)
         else Err ColonTwice)
      else if ch = 42 then
        (if \<not> sq_wildcard st then
           (if length text = 1 then Ok (Inl (SeqRange None None))
            else if sq_token st = None then Ok (Inr (False, st\<lparr>sq_wildcard := True\<rparr>))
            else Err InvalidStar)
         else Err StarTwice)
      else if ch = 36 then
        (case get_at text (pos + 1) of
           Some next \<Rightarrow> if next = 44 then Ok (Inr (False, st\<lparr>sq_saved := True\<rparr>)) else Err AfterDollar
         | None \<Rightarrow> Ok (Inr (False, st\<lparr>sq_saved := True\<rparr>)))
      else if is_digit ch then
        (if sq_wildcard st then Err InvalidStar
         else Ok (Inr (False, if sq_token st = None then st\<lparr>sq_token := Some pos\<rparr> else st)))
      else Err (InvalidSequenceChar ch pos))"

definition token_number :: "bytes \<Rightarrow> nat \<Rightarrow> seq_scan \<Rightarrow> (u32, sequence_error) result" where
  "token_number text fin st =
     and_then (ok_or (sq_token st) ExpectedNumber) (\<lambda>from_pos.
     and_then (ok_or (get_range text from_pos fin) SliceError) imap_parse_number)"

text \<open>The end of an item, at a comma or at the last character.\<close>

definition seq_item :: "bytes \<Rightarrow> nat \<Rightarrow> bool \<Rightarrow> seq_scan \<Rightarrow> (seq_scan, sequence_error) result" where
  "seq_item text pos add_token st =
     (let fin = (if \<not> add_token then pos + 1 else pos)
      in and_then
           (if sq_range st then
              (if \<not> sq_wildcard st then
                 and_then (token_number text fin st) (\<lambda>n.
                   Ok (st\<lparr>sq_set := sq_set st @ [SeqRange (sq_range_start st) (Some n)],
                          sq_range := False, sq_range_start := None\<rparr>))
               else
                 Ok (st\<lparr>sq_set := sq_set st @ [SeqRange (sq_range_start st) None],
                        sq_wildcard := False, sq_range := False, sq_range_start := None\<rparr>))
            else if sq_wildcard st then
              Ok (st\<lparr>sq_set := sq_set st @ [SeqRange None None], sq_wildcard := False\<rparr>)
            else if sq_saved st then Ok (st\<lparr>sq_set := sq_set st @ [SavedSearch], sq_saved := False\<rparr>)
            else and_then (token_number text fin st) (\<lambda>n. Ok (st\<lparr>sq_set := sq_set st @ [SeqNumber n]\<rparr>)))
           (\<lambda>st. Ok (st\<lparr>sq_token := None\<rparr>)))"

fun seq_loop :: "bytes \<Rightarrow> nat \<Rightarrow> bytes \<Rightarrow> seq_scan \<Rightarrow> (sequence + seq_scan, sequence_error) result" where
  "seq_loop text pos [] st = Ok (Inr st)"
| "seq_loop text pos (ch # rest) st =
     and_then (seq_char text pos ch st) (\<lambda>r.
       case r of
         Inl s \<Rightarrow> Ok (Inl s)
       | Inr (add_token, st') \<Rightarrow>
           and_then
             (if add_token \<or> pos = length text - 1 then seq_item text pos add_token st' else Ok st')
             (seq_loop text (pos + 1) rest))"

definition seq_fresh :: "sequence list \<Rightarrow> seq_scan" where
  "seq_fresh items = \<lparr>sq_set = items, sq_range_start = None, sq_token = None, sq_wildcard = False,
     sq_range = False, sq_saved = False\<rparr>"

definition parse_sequence_set :: "bytes \<Rightarrow> (sequence, sequence_error) result" where
  "parse_sequence_set text =
     and_then (seq_loop text 0 text (seq_fresh [])) (\<lambda>r.
       case r of
         Inl s \<Rightarrow> Ok s
       | Inr st \<Rightarrow>
           (case sq_set st of
              [] \<Rightarrow> Err EmptySequence
            | [s] \<Rightarrow> Ok s
            | items \<Rightarrow> Ok (SeqList items)))"

section \<open>Printing\<close>

text \<open>The inner loop of \<^verbatim>\<open>serialize_sequence\<close>: the numbers that continue a range.\<close>

fun seq_run :: "u32 \<Rightarrow> u32 list \<Rightarrow> u32 \<times> u32 list" where
  "seq_run range_id (next # ids) = (if next = range_id + 1 then seq_run (range_id + 1) ids else (range_id, next # ids))"
| "seq_run range_id [] = (range_id, [])"

lemma seq_run_length: "length (snd (seq_run r ids)) \<le> length ids"
  by (induction r ids rule: seq_run.induct) (auto intro: le_SucI)

definition show_number :: "u32 \<Rightarrow> bytes" where
  "show_number n = show_nat (unat n)"

function serialize_sequence :: "u32 list \<Rightarrow> bytes" where
  "serialize_sequence [] = []"
| "serialize_sequence (i # ids) =
     (case seq_run i ids of
        (range_id, rest) \<Rightarrow>
          show_number i @ (if range_id \<noteq> i then [58] @ show_number range_id else []) @
          (if rest \<noteq> [] then [44] else []) @ serialize_sequence rest)"
  by pat_completeness auto
termination
  by (relation "measure length") (use seq_run_length in \<open>auto simp: less_Suc_eq_le\<close>, metis seq_run_length snd_conv)

section \<open>Membership and expansion\<close>

fun flat_item :: "sequence \<Rightarrow> bool" where
  "flat_item (SeqList _) = False"
| "flat_item _ = True"

definition flat_sequence :: "sequence \<Rightarrow> bool" where
  "flat_sequence s = (case s of SeqList items \<Rightarrow> list_all flat_item items | _ \<Rightarrow> True)"

lemma contains_range: "seq_contains (SeqRange a b) v m \<longleftrightarrow> v \<in> expand_range a b m"
  by (cases a; cases b) (auto simp: expand_range_def unwrap_or_def Let_def)

lemma contains_item: "flat_item s \<Longrightarrow> seq_contains s v m \<longleftrightarrow> v \<in> expand_item m s"
  by (cases s) (auto simp: expand_item_def contains_range)

lemma foldl_union: "foldl (\<lambda>result item. result \<union> f item) A xs = A \<union> (\<Union>x \<in> set xs. f x)"
  by (induction xs arbitrary: A) auto

lemma contains_expand: "flat_sequence s \<Longrightarrow> seq_contains s v m \<longleftrightarrow> v \<in> seq_expand s m"
  by (cases s) (auto simp: seq_expand_def flat_sequence_def contains_range foldl_union list_all_iff contains_item)

lemma seq_item_flat: "seq_item text pos add st = Ok st' \<Longrightarrow> list_all flat_item (sq_set st) \<Longrightarrow> list_all flat_item (sq_set st')"
  by (auto simp: seq_item_def Let_def result_iff split: if_splits)

lemma seq_char_flat:
  "seq_char text pos ch st = Ok (Inr (add, st')) \<Longrightarrow> sq_set st' = sq_set st"
  "seq_char text pos ch st = Ok (Inl s) \<Longrightarrow> flat_sequence s"
  by (auto simp: seq_char_def flat_sequence_def result_iff split: if_splits option.splits)

lemma seq_loop_flat:
  "seq_loop text pos rest st = Ok r \<Longrightarrow> list_all flat_item (sq_set st) \<Longrightarrow>
     (case r of Inl s \<Rightarrow> flat_sequence s | Inr st' \<Rightarrow> list_all flat_item (sq_set st'))"
proof (induction rest arbitrary: pos st)
  case (Cons ch rest)
  then obtain c where c: "seq_char text pos ch st = Ok c" by (auto simp: result_iff)
  show ?case
  proof (cases c)
    case (Inl s)
    with c Cons.prems show ?thesis by (auto simp: seq_char_flat(2))
  next
    case (Inr p)
    then obtain add st1 where p: "c = Inr (add, st1)" by (cases p) auto
    with c Cons.prems obtain st2 where st2: "seq_loop text (pos + 1) rest st2 = Ok r"
      "st2 = st1 \<or> seq_item text pos add st1 = Ok st2"
      by (auto simp: result_iff split: if_splits)
    have "list_all flat_item (sq_set st1)" using c p Cons.prems(2) by (simp add: seq_char_flat(1))
    with st2(2) have "list_all flat_item (sq_set st2)" by (auto dest: seq_item_flat)
    with st2(1) show ?thesis by (rule Cons.IH)
  qed
qed auto

lemma parse_sequence_flat:
  assumes "parse_sequence_set text = Ok s"
  shows "flat_sequence s"
proof -
  obtain r where r: "seq_loop text 0 text (seq_fresh []) = Ok r"
    using assms by (auto simp: parse_sequence_set_def result_iff)
  then have flat: "case r of Inl s \<Rightarrow> flat_sequence s | Inr st' \<Rightarrow> list_all flat_item (sq_set st')"
    by (rule seq_loop_flat) (simp add: seq_fresh_def)
  show ?thesis
  proof (cases r)
    case (Inl s')
    with r assms flat show ?thesis by (simp add: parse_sequence_set_def)
  next
    case (Inr st)
    with r assms flat have "s \<in> set (sq_set st) \<or> s = SeqList (sq_set st)" "list_all flat_item (sq_set st)"
      by (auto simp: parse_sequence_set_def split: list.splits)
    then show ?thesis
      by (cases s) (auto simp: flat_sequence_def list_all_iff)
  qed
qed

text \<open>
  C33: For every sequence set a client can write, the membership test that decides which messages a command
  touches agrees with the expansion into numbers, whatever the largest number of the mailbox.
\<close>

theorem sequence_contains_expand:
  assumes "parse_sequence_set text = Ok s"
  shows "seq_contains s v max_value \<longleftrightarrow> v \<in> seq_expand s max_value"
  using parse_sequence_flat [OF assms] by (rule contains_expand)

theorem sequence_contains_expand_witness:
  "parse_sequence_set (lit ''2,9:*'') = Ok (SeqList [SeqNumber 2, SeqRange (Some 9) None]) \<and>
   (seq_contains (SeqList [SeqNumber 2, SeqRange (Some 9) None]) 7 6 \<longleftrightarrow>
     7 \<in> seq_expand (SeqList [SeqNumber 2, SeqRange (Some 9) None]) 6)"
proof -
  have p: "parse_sequence_set (lit ''2,9:*'') = Ok (SeqList [SeqNumber 2, SeqRange (Some 9) None])"
    by (simp add: parse_sequence_set_def seq_char_def seq_item_def seq_fresh_def is_digit_def token_number_def
        get_range_def slice_of_def imap_parse_number_def parse_uint_def parse_digits_def decimal_def digit_value_def)
  then show ?thesis using sequence_contains_expand [OF p] by blast
qed


section \<open>Reading back a printed set\<close>

definition show_bound :: "u32 option \<Rightarrow> bytes" where
  "show_bound b = (case b of None \<Rightarrow> [42] | Some n \<Rightarrow> show_number n)"

fun show_item :: "sequence \<Rightarrow> bytes" where
  "show_item (SeqNumber n) = show_number n"
| "show_item (SeqRange None None) = [42]"
| "show_item (SeqRange a b) = show_bound a @ [58] @ show_bound b"
| "show_item SavedSearch = [36]"
| "show_item (SeqList _) = []"

fun show_set :: "sequence list \<Rightarrow> bytes" where
  "show_set [] = []"
| "show_set (item # items) = show_item item @ (if items = [] then [] else [44] @ show_set items)"

lemma show_item_ne: "flat_item item \<Longrightarrow> show_item item \<noteq> []"
  using show_nat_digits(3) by (cases item rule: show_item.cases) (auto simp: show_bound_def show_number_def split: option.splits)

lemma show_number_digits: "list_all is_digit (show_number n)" "show_number n \<noteq> []"
  using show_nat_digits(1,3) [of "unat n"] by (auto simp: show_number_def list_all_iff)

lemma parse_show_number: "imap_parse_number (show_number n) = Ok n"
proof -
  have "valid_utf8 (show_number n)"
    using show_number_digits(1) [of n]
    by (intro ascii_valid_utf8) (auto simp: list_all_iff is_digit_def word_le_nat_alt word_less_nat_alt)
  then show ?thesis
    using parse_uint_show [of n] by (simp add: imap_parse_number_def show_number_def)
qed

lemma digit_step:
  "is_digit d \<Longrightarrow> \<not> sq_wildcard st \<Longrightarrow> seq_char text pos d st =
     Ok (Inr (False, if sq_token st = None then st\<lparr>sq_token := Some pos\<rparr> else st))"
  by (auto simp: seq_char_def is_digit_def)

lemma seq_item_last: "seq_item text pos False st = seq_item text (pos + 1) True st"
  by (simp add: seq_item_def)

text \<open>A number and what ends it: the item is completed with the number's position as its token.\<close>

lemma number_end:
  assumes "list_all is_digit ds" "ds \<noteq> []" "\<not> sq_wildcard st" "suf = [] \<or> hd suf = 44"
    and "text = pre @ ds @ suf" "sq_token st = None \<and> q = length pre \<or> sq_token st = Some q"
  shows "seq_loop text (length pre) (ds @ suf) st =
    and_then (seq_item text (length pre + length ds) True (st\<lparr>sq_token := Some q\<rparr>))
      (seq_loop text (length pre + length ds + 1) (tl suf))"
  using assms
proof (induction ds arbitrary: pre st)
  case (Cons d ds)
  have st: "(if sq_token st = None then st\<lparr>sq_token := Some (length pre)\<rparr> else st) = st\<lparr>sq_token := Some q\<rparr>"
    using Cons.prems(6) by (cases st) auto
  show ?case
  proof (cases "ds = []")
    case True
    show ?thesis
    proof (cases suf)
      case Nil
      with True Cons.prems st show ?thesis
        by (simp add: digit_step seq_item_last) (cases "seq_item text (Suc (length pre)) True (st\<lparr>sq_token := Some q\<rparr>)"; simp)
    next
      case (Cons c suf')
      with True Cons.prems st show ?thesis
        by (simp add: digit_step) (simp add: seq_char_def)
    qed
  next
    case False
    have "seq_loop text (length pre) ((d # ds) @ suf) st = seq_loop text (length (pre @ [d])) (ds @ suf) (st\<lparr>sq_token := Some q\<rparr>)"
      using Cons.prems False st by (simp add: digit_step)
    then show ?thesis
      using Cons.IH [of "st\<lparr>sq_token := Some q\<rparr>" "pre @ [d]"] Cons.prems False by simp
  qed
qed simp

lemma star_end:
  assumes "\<not> sq_wildcard st" "sq_token st = None" "suf = [] \<or> hd suf = 44" "text = pre @ [42] @ suf" "length text \<noteq> 1"
  shows "seq_loop text (length pre) ([42] @ suf) st =
    and_then (seq_item text (length pre + 1) True (st\<lparr>sq_wildcard := True\<rparr>))
      (seq_loop text (length pre + 2) (tl suf))"
proof (cases suf)
  case Nil
  with assms show ?thesis
    by (simp add: seq_char_def seq_item_last) (cases "seq_item text (Suc (length pre)) True (st\<lparr>sq_wildcard := True\<rparr>)"; simp)
next
  case (Cons c suf')
  with assms show ?thesis by (simp add: seq_char_def)
qed

text \<open>The digits before a colon.\<close>

lemma digits_colon:
  assumes "list_all is_digit ds" "ds \<noteq> []" "\<not> sq_wildcard st" "\<not> sq_range st"
    and "text = pre @ ds @ [58] @ suf" "suf \<noteq> []" "sq_token st = None \<and> q = length pre \<or> sq_token st = Some q"
    and "get_range text q (length pre + length ds) = Some (show_number n)"
  shows "seq_loop text (length pre) (ds @ [58] @ suf) st =
    seq_loop text (length pre + length ds + 1) suf (st\<lparr>sq_range_start := Some n, sq_token := None, sq_range := True\<rparr>)"
  using assms
proof (induction ds arbitrary: pre st)
  case (Cons d ds)
  have st: "(if sq_token st = None then st\<lparr>sq_token := Some (length pre)\<rparr> else st) = st\<lparr>sq_token := Some q\<rparr>"
    using Cons.prems(7) by (cases st) auto
  have step: "seq_loop text (length pre) ((d # ds) @ [58] @ suf) st = seq_loop text (length (pre @ [d])) (ds @ [58] @ suf) (st\<lparr>sq_token := Some q\<rparr>)"
    using Cons.prems st by (simp add: digit_step)
  show ?case
  proof (cases "ds = []")
    case True
    with step Cons.prems show ?thesis by (simp add: seq_char_def parse_show_number)
  next
    case False
    then show ?thesis
      using step Cons.IH [of "st\<lparr>sq_token := Some q\<rparr>" "pre @ [d]"] Cons.prems by simp
  qed
qed simp

lemma get_range_middle: "get_range (pre @ ds @ suf) (length pre) (length pre + length ds) = Some ds"
  by (simp add: get_range_def slice_of_def)


text \<open>The second bound of a range, or the bound that is an item of its own.\<close>

lemma bound_end:
  assumes "suf = [] \<or> hd suf = 44" "text = pre @ show_bound b @ suf" "length text \<noteq> 1"
    and "st = (seq_fresh items)\<lparr>sq_range := True, sq_range_start := a\<rparr>"
  shows "seq_loop text (length pre) (show_bound b @ suf) st =
    seq_loop text (length pre + length (show_bound b) + 1) (tl suf) (seq_fresh (items @ [SeqRange a b]))"
proof (cases b)
  case None
  with assms show ?thesis
    using star_end [of st suf "text" pre] by (simp add: show_bound_def seq_item_def seq_fresh_def)
next
  case (Some n)
  with assms show ?thesis
    using number_end [of "show_number n" st suf "text" pre "length pre"] show_number_digits [of n]
      get_range_middle [of pre "show_number n" suf]
    by (simp add: show_bound_def seq_item_def seq_fresh_def token_number_def parse_show_number)
qed

lemma bound_colon:
  assumes "text = pre @ show_bound a @ [58] @ suf" "suf \<noteq> []" "st = seq_fresh items"
  shows "seq_loop text (length pre) (show_bound a @ [58] @ suf) st =
    seq_loop text (length pre + length (show_bound a) + 1) suf (st\<lparr>sq_range := True, sq_range_start := a\<rparr>)"
proof (cases a)
  case None
  with assms show ?thesis by (simp add: show_bound_def seq_char_def seq_fresh_def)
next
  case (Some n)
  with assms show ?thesis
    using digits_colon [of "show_number n" st "text" pre suf "length pre" n] show_number_digits [of n]
      get_range_middle [of pre "show_number n" "[58] @ suf"]
    by (simp add: show_bound_def seq_fresh_def)
qed

lemma item_loop:
  assumes "flat_item item" "suf = [] \<or> hd suf = 44" "text = pre @ show_item item @ suf"
    and "length text \<noteq> 1 \<or> item \<noteq> SeqRange None None"
  shows "seq_loop text (length pre) (show_item item @ suf) (seq_fresh items) =
    seq_loop text (length pre + length (show_item item) + 1) (tl suf) (seq_fresh (items @ [item]))"
proof -
  consider (number) n where "item = SeqNumber n" | (star) "item = SeqRange None None"
    | (range) a b where "item = SeqRange a b" "\<not> (a = None \<and> b = None)" | (saved) "item = SavedSearch"
    using assms(1) by (cases item rule: show_item.cases) auto
  then show ?thesis
  proof cases
    case number
    with assms show ?thesis
      using number_end [of "show_number n" "seq_fresh items" suf "text" pre "length pre"] show_number_digits [of n]
        get_range_middle [of pre "show_number n" suf]
      by (simp add: seq_item_def seq_fresh_def token_number_def parse_show_number)
  next
    case star
    with assms show ?thesis
      using star_end [of "seq_fresh items" suf "text" pre] by (simp add: seq_item_def seq_fresh_def)
  next
    case range
    then have txt_item: "show_item item = show_bound a @ [58] @ show_bound b" by (cases a; cases b) simp_all
    have ne: "show_bound b \<noteq> []" using show_number_digits(2) by (auto simp: show_bound_def split: option.splits)
    have "seq_loop text (length pre) (show_item item @ suf) (seq_fresh items) =
      seq_loop text (length (pre @ show_bound a @ [58])) (show_bound b @ suf) ((seq_fresh items)\<lparr>sq_range := True, sq_range_start := a\<rparr>)"
      using bound_colon [of "text" pre a "show_bound b @ suf" "seq_fresh items" items] assms(3) txt_item ne by simp
    also have "\<dots> = seq_loop text (length pre + length (show_item item) + 1) (tl suf) (seq_fresh (items @ [item]))"
      using bound_end [of suf "text" "pre @ show_bound a @ [58]" b _ a items] assms(2,3) txt_item range(1) ne
      by (cases "show_bound b") (simp_all add: ac_simps)
    finally show ?thesis .
  next
    case saved
    have "get_at text (length pre + 1) = None \<or> get_at text (length pre + 1) = Some 44"
      using assms(2,3) saved by (cases suf) (auto simp: get_at_def nth_append)
    with assms(2,3) saved show ?thesis
      by (cases suf) (auto simp: seq_char_def seq_item_def seq_fresh_def get_at_def nth_append)
  qed
qed

lemma set_loop:
  assumes "list_all flat_item items" "text = pre @ show_set items" "length text \<noteq> 1 \<or> items \<noteq> [SeqRange None None]"
    "pre = [] \<or> 2 \<le> length text"
  shows "seq_loop text (length pre) (show_set items) (seq_fresh acc) = Ok (Inr (seq_fresh (acc @ items)))"
  using assms
proof (induction items arbitrary: pre acc)
  case (Cons item items)
  let ?suf = "if items = [] then [] else [44] @ show_set items"
  have "length text \<noteq> 1 \<or> item \<noteq> SeqRange None None"
    using Cons.prems by (cases items) auto
  then have step: "seq_loop text (length pre) (show_set (item # items)) (seq_fresh acc) =
      seq_loop text (length pre + length (show_item item) + 1) (tl ?suf) (seq_fresh (acc @ [item]))"
    using item_loop [of item ?suf "text" pre acc] Cons.prems by simp
  show ?case
  proof (cases "items = []")
    case False
    then have "seq_loop text (length (pre @ show_item item @ [44])) (show_set items) (seq_fresh (acc @ [item])) =
        Ok (Inr (seq_fresh ((acc @ [item]) @ items)))"
      using Cons.prems show_item_ne [of item] by (intro Cons.IH) (auto simp: Suc_le_eq)
    with step False show ?thesis by (simp add: ac_simps)
  qed (use step in simp)
qed simp

lemma parse_show_set:
  assumes "list_all flat_item items" "items \<noteq> []"
  shows "parse_sequence_set (show_set items) = Ok (case items of [item] \<Rightarrow> item | _ \<Rightarrow> SeqList items)"
proof (cases "length (show_set items) = 1 \<and> items = [SeqRange None None]")
  case True
  then show ?thesis by (simp add: parse_sequence_set_def seq_char_def seq_fresh_def)
next
  case False
  then have "seq_loop (show_set items) 0 (show_set items) (seq_fresh []) = Ok (Inr (seq_fresh items))"
    using set_loop [of items "show_set items" "[]" "[]"] assms by simp
  with assms(2) show ?thesis
    by (cases items; cases "List.tl items") (simp_all add: parse_sequence_set_def seq_fresh_def)
qed

section \<open>The sets the server prints\<close>

function seq_runs :: "u32 list \<Rightarrow> sequence list" where
  "seq_runs [] = []"
| "seq_runs (i # ids) =
     (case seq_run i ids of
        (r, rest) \<Rightarrow> (if r \<noteq> i then SeqRange (Some i) (Some r) else SeqNumber i) # seq_runs rest)"
  by pat_completeness auto
termination
  by (relation "measure length") (use seq_run_length in \<open>auto simp: less_Suc_eq_le\<close>, metis seq_run_length snd_conv)

lemma seq_runs_facts:
  "list_all flat_item (seq_runs ids)" "seq_runs ids = [] \<longleftrightarrow> ids = []" "serialize_sequence ids = show_set (seq_runs ids)"
  by (induction ids rule: seq_runs.induct) (auto simp: show_bound_def split: prod.splits)

lemma seq_run_set:
  assumes "seq_run i ids = (r, rest)" "0 \<notin> set ids"
  shows "i \<le> r \<and> {i..r} \<union> set rest = insert i (set ids) \<and> (0 \<notin> set rest)"
  using assms
proof (induction i ids rule: seq_run.induct)
  case (1 i nxt ids)
  show ?case
  proof (cases "nxt = i + 1")
    case True
    with 1 have IH: "i + 1 \<le> r" "{i + 1..r} \<union> set rest = insert (i + 1) (set ids)" "0 \<notin> set rest" "i + 1 \<noteq> 0"
      by auto
    have "unat (i + 1) = unat i + 1" using unat_minus_one [OF IH(4)] IH(4) by (simp add: unat_gt_0 word_neq_0_conv)
    then have le: "x \<ge> i \<longleftrightarrow> x = i \<or> x \<ge> i + 1" for x
      by (auto simp: word_le_nat_alt word_unat_eq_iff)
    then have "{i..r} = insert i {i + 1..r}" "i \<le> r"
      using IH(1) by (auto simp: order_trans)
    with IH True show ?thesis by auto
  qed (use 1 in auto)
qed auto

text \<open>
  C34: A set of message numbers that the server prints (\<^verbatim>\<open>COPYUID\<close>, \<^verbatim>\<open>MODIFIED\<close>, \<^verbatim>\<open>VANISHED\<close>) is a
  sequence set that reads back as exactly those numbers: for any non-empty list of valid (non-zero)
  numbers, in any order.
\<close>

theorem printed_sequence_reads_back:
  assumes "ids \<noteq> []" "0 \<notin> set ids"
  shows "\<exists>s. parse_sequence_set (serialize_sequence ids) = Ok s \<and> seq_expand s max_value = set ids"
proof -
  let ?s = "case seq_runs ids of [item] \<Rightarrow> item | _ \<Rightarrow> SeqList (seq_runs ids)"
  have "parse_sequence_set (serialize_sequence ids) = Ok ?s"
    using parse_show_set [OF seq_runs_facts(1)] seq_runs_facts(2,3) assms(1) by auto
  moreover have "(\<Union>item \<in> set (seq_runs ids). expand_item max_value item) = set ids"
    using assms(2)
  proof (induction ids rule: seq_runs.induct)
    case (2 i ids)
    obtain r rest where run: "seq_run i ids = (r, rest)" by fastforce
    with 2 seq_run_set [OF run] have "(\<Union>item \<in> set (seq_runs rest). expand_item max_value item) = set rest"
      by simp
    with run seq_run_set [OF run] 2 show ?case
      by (auto simp: expand_item_def expand_range_def unwrap_or_def Let_def)
  qed simp
  then have "seq_expand ?s max_value = set ids"
    using seq_runs_facts(1) [of ids]
    by (cases "seq_runs ids"; cases "List.tl (seq_runs ids)"; cases "hd (seq_runs ids)")
      (auto simp: seq_expand_def foldl_union expand_item_def)
  ultimately show ?thesis by blast
qed

theorem printed_sequence_reads_back_witness:
  "serialize_sequence [4, 5, 6, 9] = lit ''4:6,9'' \<and>
   (\<exists>s. parse_sequence_set (serialize_sequence [4, 5, 6, 9]) = Ok s \<and> seq_expand s 9 = set [4, 5, 6, 9])"
proof -
  have "serialize_sequence [4, 5, 6, 9] = lit ''4:6,9''"
    by (simp add: show_number_def show_nat.simps)
  then show ?thesis
    using printed_sequence_reads_back [of "[4, 5, 6, 9]" 9] by simp
qed

end
