(* ===== verification/Imap_Receiver.thy ===== *)
theory Imap_Receiver
  imports Text Contracts
begin

text \<open>
  The request receiver of the IMAP and ManageSieve servers (\<^verbatim>\<open>imap-proto/src/receiver.rs\<close>): an
  incremental parser that turns the bytes of the connection into tagged requests. The command table is
  its type parameter \<^verbatim>\<open>T: CommandParser\<close>, here the record \<open>command_parser\<close>. Sizes are natural
  numbers: a request is counted in bytes received, and the count is compared with the configured
  maximum after every token.
\<close>

section \<open>Data\<close>

record 'c command_parser =
  cmd_parse :: "bytes \<Rightarrow> bool \<Rightarrow> 'c option"
  cmd_tokenize_brackets :: "'c \<Rightarrow> bool"
  cmd_default :: 'c

datatype imap_token =
    TokArgument bytes
  | TokParenthesisOpen
  | TokParenthesisClose
  | TokBracketOpen
  | TokBracketClose
  | TokLt
  | TokGt
  | TokDot
  | TokNil

record 'c imap_request =
  rq_tag :: bytes
  rq_command :: 'c
  rq_tokens :: "imap_token list"

datatype recv_state =
    RStart
  | RTag
  | RCommand bool
  | RArgument byte
  | RArgumentQuoted bool
  | RLiteral bool
  | RLiteralSeek u32 bool
  | RLiteralData u32
  | RLiteralDiscard u32

record 'c receiver =
  rv_buf :: bytes
  rv_request :: "'c imap_request"
  rv_state :: recv_state
  rv_max :: nat
  rv_current :: nat
  rv_start :: recv_state

text \<open>The messages of the errors, with what they quote, and \<^verbatim>\<open>Error::err\<close>: the tag when there is one.\<close>

datatype recv_message =
    RequestTooLarge nat
  | TagNotUtf8
  | MissingCommand bytes
  | TagTooLong
  | CommandTooLong
  | UnrecognizedCommand bytes
  | InvalidCommandChar byte
  | ArgumentTooLong
  | QuotedTooLong
  | UnterminatedQuoted
  | InvalidLiteralSize
  | LiteralTooLarge nat
  | EmptyLiteral
  | InvalidNonSync
  | LiteralDigits
  | InvalidLiteral
  | InvalidLiteralChar byte
  | ExpectedCrlf

datatype 'c recv_outcome =
    Received "'c imap_request"
  | NeedsMoreData
  | NeedsLiteral u32
  | RecvError "bytes option" recv_message

definition ARG_MAX_LEN :: nat where "ARG_MAX_LEN = 8000"

definition default_request :: "'c command_parser \<Rightarrow> 'c imap_request" where
  "default_request cp = \<lparr>rq_tag = [], rq_command = cmd_default cp, rq_tokens = []\<rparr>"

definition receiver_default :: "'c command_parser \<Rightarrow> 'c receiver" where
  "receiver_default cp = \<lparr>rv_buf = [], rv_request = default_request cp, rv_state = RStart,
     rv_max = 25 * 1024 * 1024, rv_current = 0, rv_start = RStart\<rparr>"

definition with_start_state :: "recv_state \<Rightarrow> 'c receiver \<Rightarrow> 'c receiver" where
  "with_start_state st r = r\<lparr>rv_state := st, rv_start := st\<rparr>"

definition with_max_request_size :: "'c command_parser \<Rightarrow> nat \<Rightarrow> 'c receiver" where
  "with_max_request_size cp n = (receiver_default cp)\<lparr>rv_max := n\<rparr>"

section \<open>Helpers of the receiver\<close>

definition error_reset ::
  "'c command_parser \<Rightarrow> recv_message \<Rightarrow> 'c receiver \<Rightarrow> 'c receiver \<times> 'c recv_outcome" where
  "error_reset cp msg r =
     (let tag = rq_tag (rv_request r)
      in (r\<lparr>rv_request := default_request cp, rv_buf := [], rv_state := rv_start r, rv_current := 0\<rparr>,
          RecvError (if tag \<noteq> [] then Some tag else None) msg))"

text \<open>What \<^verbatim>\<open>Result<(), Error>\<close> of a helper leaves: the reset receiver and its error, or the receiver.\<close>

type_synonym 'c recv_result = "'c receiver \<times> 'c recv_outcome + 'c receiver"

definition push_tok :: "imap_token \<Rightarrow> 'c receiver \<Rightarrow> 'c receiver" where
  "push_tok t r = r\<lparr>rv_request := rv_request r\<lparr>rq_tokens := rq_tokens (rv_request r) @ [t]\<rparr>\<rparr>"

definition push_argument :: "'c command_parser \<Rightarrow> bool \<Rightarrow> 'c receiver \<Rightarrow> 'c recv_result" where
  "push_argument cp in_quote r =
     (if rv_buf r \<noteq> [] then
        (let r = r\<lparr>rv_current := rv_current r + length (rv_buf r)\<rparr>
         in if rv_max r < rv_current r then Inl (error_reset cp (RequestTooLarge (rv_max r)) r)
            else Inr ((push_tok (TokArgument (rv_buf r)) r)\<lparr>rv_buf := []\<rparr>))
      else if in_quote then Inr (push_tok TokNil r)
      else Inr r)"

definition push_token :: "'c command_parser \<Rightarrow> imap_token \<Rightarrow> 'c receiver \<Rightarrow> 'c recv_result" where
  "push_token cp t r =
     (let r = r\<lparr>rv_current := rv_current r + 1\<rparr>
      in if rv_max r < rv_current r then Inl (error_reset cp (RequestTooLarge (rv_max r)) r)
         else Inr (push_tok t r))"

definition push_unchecked :: "byte \<Rightarrow> 'c receiver \<Rightarrow> 'c receiver" where
  "push_unchecked b r = r\<lparr>rv_buf := rv_buf r @ [b]\<rparr>"

text \<open>\<^verbatim>\<open>buf.push_checked(byte, limit).map_err(|_| self.error_reset(msg))\<close>.\<close>

definition push_checked ::
  "'c command_parser \<Rightarrow> byte \<Rightarrow> nat \<Rightarrow> recv_message \<Rightarrow> 'c receiver \<Rightarrow> 'c recv_result" where
  "push_checked cp b limit msg r =
     (if length (rv_buf r) < limit then Inr (push_unchecked b r) else Inl (error_reset cp msg r))"

definition set_state :: "recv_state \<Rightarrow> 'c receiver \<Rightarrow> 'c receiver" where
  "set_state st r = r\<lparr>rv_state := st\<rparr>"

text \<open>The end of a request: \<^verbatim>\<open>state = start_state\<close>, the count restarts, the request is taken.\<close>

definition finish_request :: "'c command_parser \<Rightarrow> 'c receiver \<Rightarrow> 'c receiver \<times> 'c recv_outcome option" where
  "finish_request cp r =
     (r\<lparr>rv_state := rv_start r, rv_current := 0, rv_request := default_request cp\<rparr>,
      Some (Received (rv_request r)))"

text \<open>The body of one arm of the loop: go on with the next byte, or return.\<close>

type_synonym 'c recv_step = "'c receiver \<times> 'c recv_outcome option"

definition go_on :: "'c receiver \<Rightarrow> 'c recv_step" where
  "go_on r = (r, None)"

definition fail :: "'c command_parser \<Rightarrow> recv_message \<Rightarrow> 'c receiver \<Rightarrow> 'c recv_step" where
  "fail cp msg r = map_prod (\<lambda>r. r) Some (error_reset cp msg r)"

definition try_then :: "'c recv_result \<Rightarrow> ('c receiver \<Rightarrow> 'c recv_step) \<Rightarrow> 'c recv_step" where
  "try_then m k = (case m of Inr r \<Rightarrow> k r | Inl p \<Rightarrow> map_prod (\<lambda>r. r) Some p)"

section \<open>One byte in each state\<close>

definition start_byte :: "byte \<Rightarrow> 'c receiver \<Rightarrow> 'c recv_step" where
  "start_byte ch r =
     (if \<not> is_ascii_whitespace ch then go_on (set_state RTag (push_unchecked ch r)) else go_on r)"

text \<open>\<^verbatim>\<open>ArgumentBuffer::as_str\<close>: the empty string when the bytes are not UTF-8.\<close>

definition as_str :: "bytes \<Rightarrow> bytes" where
  "as_str bs = (if valid_utf8 bs then bs else [])"

definition tag_byte :: "'c command_parser \<Rightarrow> byte \<Rightarrow> 'c receiver \<Rightarrow> 'c recv_step" where
  "tag_byte cp ch r =
     (if ch = 32 then
        (if rv_buf r \<noteq> [] then
           (if valid_utf8 (rv_buf r) then
              go_on (set_state (RCommand False)
                (r\<lparr>rv_request := rv_request r\<lparr>rq_tag := rv_buf r\<rparr>, rv_buf := []\<rparr>))
            else fail cp TagNotUtf8 (r\<lparr>rv_buf := []\<rparr>))
         else go_on r)
      else if ch = 9 \<or> ch = 13 then go_on r
      else if ch = 10 then fail cp (MissingCommand (as_str (rv_buf r))) r
      else try_then (push_checked cp ch 128 TagTooLong r) go_on)"

definition command_byte :: "'c command_parser \<Rightarrow> bool \<Rightarrow> byte \<Rightarrow> 'c receiver \<Rightarrow> 'c recv_step" where
  "command_byte cp is_uid ch r =
     (if is_alnum ch then try_then (push_checked cp (to_upper ch) 15 CommandTooLong r) go_on
      else if is_ascii_whitespace ch then
        (if rv_buf r \<noteq> [] then
           (if \<not> eq_ignore_ascii_case (rv_buf r) (lit ''UID'') then
              (case cmd_parse cp (rv_buf r) is_uid of
                 None \<Rightarrow> fail cp (UnrecognizedCommand (rv_buf r)) r
               | Some c \<Rightarrow>
                   let r = r\<lparr>rv_request := rv_request r\<lparr>rq_command := c\<rparr>, rv_buf := []\<rparr>
                   in if ch \<noteq> 10 then go_on (set_state (RArgument 32) r) else finish_request cp r)
            else go_on (set_state (RCommand True) (r\<lparr>rv_buf := []\<rparr>)))
         else go_on r)
      else fail cp (InvalidCommandChar ch) r)"

text \<open>The single-byte tokens of an argument list; brackets only for the commands that use them.\<close>

definition byte_token :: "'c command_parser \<Rightarrow> byte \<Rightarrow> 'c receiver \<Rightarrow> imap_token option" where
  "byte_token cp ch r =
     (let brackets = cmd_tokenize_brackets cp (rq_command (rv_request r))
      in if ch = 40 then Some TokParenthesisOpen
         else if ch = 41 then Some TokParenthesisClose
         else if ch = 91 \<and> brackets then Some TokBracketOpen
         else if ch = 93 \<and> brackets then Some TokBracketClose
         else if ch = 60 \<and> brackets then Some TokLt
         else if ch = 62 \<and> brackets then Some TokGt
         else if ch = 46 \<and> brackets then Some TokDot
         else None)"

definition argument_byte :: "'c command_parser \<Rightarrow> byte \<Rightarrow> byte \<Rightarrow> 'c receiver \<Rightarrow> 'c recv_step" where
  "argument_byte cp last_ch ch r =
     (if ch = 34 \<and> is_ascii_whitespace last_ch then
        try_then (push_argument cp False r) (\<lambda>r. go_on (set_state (RArgumentQuoted False) r))
      else if ch = 123 \<and> (is_ascii_whitespace last_ch \<or> last_ch = 126 \<and> length (rv_buf r) = 1) then
        try_then (if last_ch \<noteq> 126 then push_argument cp False r else Inr (r\<lparr>rv_buf := []\<rparr>))
          (\<lambda>r. go_on (set_state (RLiteral False) r))
      else
        (case byte_token cp ch r of
           Some t \<Rightarrow> try_then (push_argument cp False r) (\<lambda>r. try_then (push_token cp t r) go_on)
         | None \<Rightarrow>
             if ch = 10 then try_then (push_argument cp False r) (finish_request cp)
             else if is_ascii_whitespace ch then
               try_then (push_argument cp False r) (\<lambda>r. go_on (set_state (RArgument ch) r))
             else
               try_then (push_checked cp ch ARG_MAX_LEN ArgumentTooLong r)
                 (\<lambda>r. go_on (set_state (RArgument ch) r))))"

definition quoted_byte :: "'c command_parser \<Rightarrow> bool \<Rightarrow> byte \<Rightarrow> 'c receiver \<Rightarrow> 'c recv_step" where
  "quoted_byte cp escaped ch r =
     (if ch = 34 then
        (if \<not> escaped then
           try_then (push_argument cp True r) (\<lambda>r. go_on (set_state (RArgument 32) r))
         else
           try_then (push_checked cp ch ARG_MAX_LEN QuotedTooLong r)
             (\<lambda>r. go_on (set_state (RArgumentQuoted False) r)))
      else if ch = 92 then
        try_then (if escaped then push_checked cp ch ARG_MAX_LEN QuotedTooLong r else Inr r)
          (\<lambda>r. go_on (set_state (RArgumentQuoted (\<not> escaped)) r))
      else if ch = 10 then fail cp UnterminatedQuoted r
      else
        try_then (push_checked cp ch ARG_MAX_LEN QuotedTooLong (if escaped then push_unchecked 92 r else r))
          (\<lambda>r. go_on (set_state (RArgumentQuoted False) r)))"

definition literal_byte :: "'c command_parser \<Rightarrow> bool \<Rightarrow> byte \<Rightarrow> 'c receiver \<Rightarrow> 'c recv_step" where
  "literal_byte cp non_sync ch r =
     (if ch = 125 then
        (if rv_buf r \<noteq> [] then
           (case parse_uint (as_str (rv_buf r)) :: u32 option of
              None \<Rightarrow> fail cp InvalidLiteralSize r
            | Some n \<Rightarrow>
                if rv_max r < rv_current r + unat n \<and> \<not> non_sync
                then fail cp (LiteralTooLarge (rv_max r)) r
                else go_on ((set_state (RLiteralSeek n non_sync) r)\<lparr>rv_buf := []\<rparr>))
         else fail cp EmptyLiteral r)
      else if ch = 43 then
        (if rv_buf r \<noteq> [] then go_on (set_state (RLiteral True) r) else fail cp InvalidNonSync r)
      else if is_digit ch then
        (if \<not> non_sync then try_then (push_checked cp ch 15 LiteralDigits r) go_on
         else fail cp InvalidLiteral r)
      else fail cp (InvalidLiteralChar ch) r)"

definition needs_literal :: "u32 \<Rightarrow> bool \<Rightarrow> 'c receiver \<Rightarrow> 'c recv_step" where
  "needs_literal n non_sync r = (r, if \<not> non_sync then Some (NeedsLiteral n) else None)"

definition seek_byte :: "'c command_parser \<Rightarrow> u32 \<Rightarrow> bool \<Rightarrow> byte \<Rightarrow> 'c receiver \<Rightarrow> 'c recv_step" where
  "seek_byte cp n non_sync ch r =
     (if ch = 10 then
        (if non_sync \<and> rv_max r < rv_current r + unat n then go_on (set_state (RLiteralDiscard n) r)
         else if 0 < n then needs_literal n non_sync (set_state (RLiteralData n) r)
         else try_then (push_token cp TokNil (set_state (RArgument 32) r)) (needs_literal n non_sync))
      else if \<not> is_ascii_whitespace ch then fail cp ExpectedCrlf r
      else go_on r)"

definition discard_byte :: "'c command_parser \<Rightarrow> u32 \<Rightarrow> 'c receiver \<Rightarrow> 'c recv_step" where
  "discard_byte cp remaining r =
     (if 1 < remaining then go_on (set_state (RLiteralDiscard (remaining - 1)) r)
      else fail cp (LiteralTooLarge (rv_max r)) r)"

definition data_byte :: "'c command_parser \<Rightarrow> u32 \<Rightarrow> byte \<Rightarrow> 'c receiver \<Rightarrow> 'c recv_step" where
  "data_byte cp remaining ch r =
     (let r = push_unchecked ch r
      in if 1 < remaining then go_on (set_state (RLiteralData (remaining - 1)) r)
         else try_then (push_argument cp False r) (\<lambda>r. go_on (set_state (RArgument 32) r)))"

definition recv_byte :: "'c command_parser \<Rightarrow> byte \<Rightarrow> 'c receiver \<Rightarrow> 'c recv_step" where
  "recv_byte cp ch r =
     (case rv_state r of
        RStart \<Rightarrow> start_byte ch r
      | RTag \<Rightarrow> tag_byte cp ch r
      | RCommand is_uid \<Rightarrow> command_byte cp is_uid ch r
      | RArgument last_ch \<Rightarrow> argument_byte cp last_ch ch r
      | RArgumentQuoted escaped \<Rightarrow> quoted_byte cp escaped ch r
      | RLiteral non_sync \<Rightarrow> literal_byte cp non_sync ch r
      | RLiteralSeek n non_sync \<Rightarrow> seek_byte cp n non_sync ch r
      | RLiteralDiscard remaining \<Rightarrow> discard_byte cp remaining r
      | RLiteralData remaining \<Rightarrow> data_byte cp remaining ch r)"

text \<open>\<^verbatim>\<open>Receiver::parse\<close>: the loop over the bytes of a read, which leaves the rest to the next call.\<close>

fun recv_parse :: "'c command_parser \<Rightarrow> 'c receiver \<Rightarrow> bytes \<Rightarrow> 'c receiver \<times> 'c recv_outcome \<times> bytes" where
  "recv_parse cp r [] = (r, NeedsMoreData, [])"
| "recv_parse cp r (ch # rest) =
     (case recv_byte cp ch r of
        (r', None) \<Rightarrow> recv_parse cp r' rest
      | (r', Some out) \<Rightarrow> (r', out, rest))"


section \<open>Tokens\<close>

text \<open>\<^verbatim>\<open>Token::as_bytes\<close>, \<^verbatim>\<open>unwrap_bytes\<close>, \<^verbatim>\<open>unwrap_string\<close> and \<^verbatim>\<open>eq_ignore_ascii_case\<close>.\<close>

fun token_as_bytes :: "imap_token \<Rightarrow> bytes" where
  "token_as_bytes (TokArgument v) = v"
| "token_as_bytes TokParenthesisOpen = [40]"
| "token_as_bytes TokParenthesisClose = [41]"
| "token_as_bytes TokBracketOpen = [91]"
| "token_as_bytes TokBracketClose = [93]"
| "token_as_bytes TokGt = [62]"
| "token_as_bytes TokLt = [60]"
| "token_as_bytes TokDot = [46]"
| "token_as_bytes TokNil = []"

definition unwrap_bytes :: "imap_token \<Rightarrow> bytes" where
  "unwrap_bytes t = (case t of TokArgument v \<Rightarrow> v | other \<Rightarrow> token_as_bytes other)"

definition unwrap_string :: "imap_token \<Rightarrow> bytes option" where
  "unwrap_string t =
     (case t of TokArgument v \<Rightarrow> if valid_utf8 v then Some v else None | other \<Rightarrow> Some (token_as_bytes other))"

definition token_eq_ignore_case :: "imap_token \<Rightarrow> bytes \<Rightarrow> bool" where
  "token_eq_ignore_case t bs =
     (case t of
        TokArgument a \<Rightarrow> eq_ignore_ascii_case a bs
      | other \<Rightarrow> bs = token_as_bytes other)"

section \<open>A receiver fed byte by byte\<close>

text \<open>Everything the receiver reports for a sequence of bytes, when nothing is dropped.\<close>

fun recv_run :: "'c command_parser \<Rightarrow> 'c receiver \<Rightarrow> bytes \<Rightarrow> 'c receiver \<times> 'c recv_outcome list" where
  "recv_run cp r [] = (r, [])"
| "recv_run cp r (ch # rest) =
     (case recv_byte cp ch r of
        (r', None) \<Rightarrow> recv_run cp r' rest
      | (r', Some out) \<Rightarrow> (case recv_run cp r' rest of (r'', outs) \<Rightarrow> (r'', out # outs)))"

lemma recv_run_append:
  "recv_run cp r (xs @ ys) =
     (case recv_run cp r xs of (r', outs) \<Rightarrow>
      case recv_run cp r' ys of (r'', outs') \<Rightarrow> (r'', outs @ outs'))"
  by (induction xs arbitrary: r) (auto split: prod.splits option.splits)

interpretation recv: stream_decoder "\<lambda>r bs. Ok (recv_run cp r bs)" "\<lambda>_. True"
  for cp :: "'c command_parser"
  by unfold_locales (auto simp: recv_run_append split: prod.splits)

text \<open>The requests of one read, as the server takes them: up to the first error or literal header.\<close>

function recv_read :: "'c command_parser \<Rightarrow> 'c receiver \<Rightarrow> bytes \<Rightarrow>
    'c receiver \<times> 'c imap_request list \<times> 'c recv_outcome" where
  "recv_read cp r bs =
     (case recv_parse cp r bs of
        (r', Received q, rest) \<Rightarrow> (case recv_read cp r' rest of (r'', qs, out) \<Rightarrow> (r'', q # qs, out))
      | (r', out, rest) \<Rightarrow> (r', [], out))"
  by pat_completeness auto

lemma recv_parse_rest: "recv_parse cp r bs = (r', Received q, rest) \<Longrightarrow> length rest < length bs"
  by (induction bs arbitrary: r) (force split: prod.splits option.splits)+

termination recv_read
  by (relation "measure (\<lambda>(cp, r, bs). length bs)") (auto dest: recv_parse_rest [OF sym])

declare recv_read.simps [simp del]


lemma recv_parse_run_Nil: "recv_run cp r bs = (r', []) \<Longrightarrow> recv_parse cp r bs = (r', NeedsMoreData, [])"
  by (induction bs arbitrary: r) (auto split: prod.splits option.splits)

lemma recv_parse_run_Cons:
  "recv_run cp r bs = (r', out # outs) \<Longrightarrow>
     \<exists>r1 rest. recv_parse cp r bs = (r1, out, rest) \<and> recv_run cp r1 rest = (r', outs)"
  by (induction bs arbitrary: r) (auto split: prod.splits option.splits)

lemma recv_read_requests:
  "recv_run cp r bs = (r', map Received qs) \<Longrightarrow> recv_read cp r bs = (r', qs, NeedsMoreData)"
proof (induction qs arbitrary: r bs)
  case Nil
  then show ?case by (simp add: recv_read.simps recv_parse_run_Nil)
next
  case (Cons q qs)
  then show ?case
    by (subst recv_read.simps) (auto dest!: recv_parse_run_Cons)
qed

text \<open>The reads of a connection, one after the other.\<close>

fun recv_reads :: "'c command_parser \<Rightarrow> 'c receiver \<Rightarrow> bytes list \<Rightarrow> 'c receiver \<times> 'c imap_request list" where
  "recv_reads cp r [] = (r, [])"
| "recv_reads cp r (c # cs) =
     (case recv_read cp r c of (r', qs, _) \<Rightarrow> case recv_reads cp r' cs of (r'', qs') \<Rightarrow> (r'', qs @ qs'))"

lemma recv_reads_requests:
  "recv_run cp r (concat cs) = (r', map Received qs) \<Longrightarrow> recv_reads cp r cs = (r', qs)"
proof (induction cs arbitrary: r qs)
  case Nil
  then show ?case by simp
next
  case (Cons c cs)
  obtain r1 outs r2 outs' where run: "recv_run cp r c = (r1, outs)" "recv_run cp r1 (concat cs) = (r2, outs')"
    by fastforce
  with Cons.prems obtain qs1 qs2 where qs: "qs = qs1 @ qs2" "outs = map Received qs1" "outs' = map Received qs2" "r2 = r'"
    by (auto simp: recv_run_append map_eq_append_conv dest!: sym [of "_ @ _"])
  then show ?case
    using run Cons.IH [of r1 qs2] recv_read_requests [of cp r c r1 qs1] by simp
qed

section \<open>What the receiver retains\<close>

fun token_bytes :: "imap_token \<Rightarrow> nat" where
  "token_bytes (TokArgument bs) = length bs"
| "token_bytes TokNil = 0"
| "token_bytes _ = 1"

text \<open>
  The invariant of the receiver: the tokens of the request in progress weigh at most what has been
  counted, which is within the maximum, and the buffer is bounded by its state.
\<close>

definition buf_bound :: "'c receiver \<Rightarrow> bool" where
  "buf_bound r =
     (case rv_state r of
        RStart \<Rightarrow> rv_buf r = []
      | RTag \<Rightarrow> length (rv_buf r) \<le> 128
      | RCommand _ \<Rightarrow> length (rv_buf r) \<le> 15
      | RArgument _ \<Rightarrow> length (rv_buf r) \<le> ARG_MAX_LEN
      | RArgumentQuoted _ \<Rightarrow> length (rv_buf r) \<le> ARG_MAX_LEN
      | RLiteral _ \<Rightarrow> length (rv_buf r) \<le> 15 \<and> (\<forall>b \<in> set (rv_buf r). is_digit b)
      | RLiteralSeek n ns \<Rightarrow> rv_buf r = [] \<and> (\<not> ns \<longrightarrow> rv_current r + unat n \<le> rv_max r)
      | RLiteralData n \<Rightarrow> 0 < n \<and> rv_current r + length (rv_buf r) + unat n \<le> rv_max r
      | RLiteralDiscard n \<Rightarrow> 0 < n \<and> rv_buf r = [])"

definition recv_counts :: "nat \<Rightarrow> 'c receiver \<Rightarrow> bool" where
  "recv_counts m r \<longleftrightarrow>
     rv_max r = m \<and> rv_start r \<in> {RStart, RCommand False} \<and>
     (\<Sum>t \<leftarrow> rq_tokens (rv_request r). token_bytes t) \<le> rv_current r \<and> rv_current r \<le> m"

definition recv_inv :: "nat \<Rightarrow> 'c receiver \<Rightarrow> bool" where
  "recv_inv m r \<longleftrightarrow> recv_counts m r \<and> buf_bound r"

definition retained :: "'c receiver \<Rightarrow> nat" where
  "retained r = length (rv_buf r) + (\<Sum>t \<leftarrow> rq_tokens (rv_request r). token_bytes t)"

lemmas recv_defs = go_on_def fail_def try_then_def error_reset_def finish_request_def set_state_def
  push_unchecked_def push_tok_def default_request_def needs_literal_def

named_theorems recv_intro \<open>the receiver's invariant through its helpers\<close>

lemma error_reset_inv: "rv_max r = m \<Longrightarrow> rv_start r \<in> {RStart, RCommand False} \<Longrightarrow> recv_inv m (fst (error_reset cp msg r))"
  by (auto simp: error_reset_def Let_def recv_inv_def recv_counts_def buf_bound_def default_request_def)

lemma counts_start: "recv_counts m r \<Longrightarrow> rv_max r = m \<and> rv_start r \<in> {RStart, RCommand False}"
  by (simp add: recv_counts_def)

lemma fail_inv [recv_intro]: "recv_counts m r \<Longrightarrow> recv_inv m (fst (fail cp msg r))"
  using error_reset_inv [of r m cp msg] counts_start [of m r] by (simp add: fail_def)

lemma finish_inv: "recv_counts m r \<Longrightarrow> rv_buf r = [] \<Longrightarrow> recv_inv m (fst (finish_request cp r))"
  by (auto simp: finish_request_def recv_inv_def recv_counts_def buf_bound_def default_request_def)

lemma try_then_inv:
  "(\<And>p. x = Inl p \<Longrightarrow> recv_inv m (fst p)) \<Longrightarrow> (\<And>r. x = Inr r \<Longrightarrow> recv_inv m (fst (k r))) \<Longrightarrow> recv_inv m (fst (try_then x k))"
  by (auto simp: try_then_def split: sum.splits)

lemma push_argument_Inl: "push_argument cp q r = Inl p \<Longrightarrow> recv_counts m r \<Longrightarrow> recv_inv m (fst p)"
  by (auto simp: push_argument_def Let_def counts_start split: if_splits intro!: error_reset_inv dest: counts_start)

lemma push_argument_Inr:
  "push_argument cp q r = Inr r' \<Longrightarrow> recv_counts m r \<Longrightarrow> recv_counts m r' \<and> rv_buf r' = [] \<and> rv_state r' = rv_state r"
  by (auto simp: push_argument_def Let_def push_tok_def recv_counts_def split: if_splits)

lemma push_argument_inv [recv_intro]:
  "recv_counts m r \<Longrightarrow> (\<And>r'. recv_counts m r' \<Longrightarrow> rv_buf r' = [] \<Longrightarrow> rv_state r' = rv_state r \<Longrightarrow> recv_inv m (fst (k r'))) \<Longrightarrow>
   recv_inv m (fst (try_then (push_argument cp q r) k))"
  by (rule try_then_inv) (auto dest: push_argument_Inl push_argument_Inr)

lemma error_reset_pair:
  "error_reset cp msg r = p \<Longrightarrow> rv_max r = m \<Longrightarrow> rv_start r = RStart \<or> rv_start r = RCommand False \<Longrightarrow> recv_inv m (fst p)"
  using error_reset_inv [of r m cp msg] by auto

lemma push_token_inv [recv_intro]:
  assumes "recv_counts m r" "token_bytes t \<le> 1"
    and "\<And>r'. recv_counts m r' \<Longrightarrow> rv_buf r' = rv_buf r \<Longrightarrow> rv_state r' = rv_state r \<Longrightarrow> recv_inv m (fst (k r'))"
  shows "recv_inv m (fst (try_then (push_token cp t r) k))"
proof (rule try_then_inv)
  fix p assume "push_token cp t r = Inl p"
  then have "p = error_reset cp (RequestTooLarge m) (r\<lparr>rv_current := Suc (rv_current r)\<rparr>)"
    using counts_start [OF assms(1)] by (auto simp: push_token_def Let_def split: if_splits)
  then show "recv_inv m (fst p)"
    using counts_start [OF assms(1)] by (simp add: error_reset_inv)
next
  fix r' assume "push_token cp t r = Inr r'"
  then have "recv_counts m r' \<and> rv_buf r' = rv_buf r \<and> rv_state r' = rv_state r"
    using assms(1,2) by (auto simp: push_token_def push_tok_def Let_def recv_counts_def split: if_splits)
  then show "recv_inv m (fst (k r'))"
    by (simp add: assms(3))
qed

lemma push_checked_inv [recv_intro]:
  assumes "recv_counts m r" and "length (rv_buf r) < n \<Longrightarrow> recv_inv m (fst (k (push_unchecked b r)))"
  shows "recv_inv m (fst (try_then (push_checked cp b n msg r) k))"
  using assms counts_start [OF assms(1)]
  by (intro try_then_inv) (auto simp: push_checked_def split: if_splits dest!: error_reset_pair)

lemma byte_token_weight: "byte_token cp ch r = Some t \<Longrightarrow> token_bytes t = 1"
  by (auto simp: byte_token_def Let_def split: if_splits)

lemma try_then_Inr [simp]: "try_then (Inr r) k = k r"
  by (simp add: try_then_def)

lemma push_unchecked_counts [simp]: "recv_counts m (push_unchecked b r) = recv_counts m r"
  by (simp add: push_unchecked_def recv_counts_def)

lemma set_state_counts [simp]: "recv_counts m (set_state st r) = recv_counts m r"
  by (simp add: set_state_def recv_counts_def)

lemma set_buf_counts [simp]: "recv_counts m (r\<lparr>rv_buf := b\<rparr>) = recv_counts m r"
  by (simp add: recv_counts_def)

lemma go_on_inv [simp]: "recv_inv m (fst (go_on r)) \<longleftrightarrow> recv_counts m r \<and> buf_bound r"
  by (simp add: go_on_def recv_inv_def)

lemma needs_literal_inv [simp]: "recv_inv m (fst (needs_literal n s r)) \<longleftrightarrow> recv_counts m r \<and> buf_bound r"
  by (simp add: needs_literal_def recv_inv_def)

lemma request_counts [simp]:
  "recv_counts m (r\<lparr>rv_request := q\<rparr>) = recv_counts m r" if "rq_tokens q = rq_tokens (rv_request r)"
  using that by (simp add: recv_counts_def)

lemma u32_pred: "1 < n \<Longrightarrow> 0 < n - 1 \<and> unat (n - 1) = unat n - 1 \<and> 1 < unat n" for n :: u32
proof -
  assume "1 < n"
  then have "n \<noteq> 0" "1 < unat n" by (auto simp: word_less_nat_alt)
  then show ?thesis by (simp add: unat_minus_one word_less_nat_alt)
qed

lemmas bound_simps = buf_bound_def set_state_def push_unchecked_def

lemma start_byte_inv:
  "recv_counts m r \<Longrightarrow> buf_bound r \<Longrightarrow> rv_state r = RStart \<Longrightarrow> recv_inv m (fst (start_byte ch r))"
  by (auto simp: start_byte_def) (simp add: bound_simps)

lemma tag_byte_inv:
  "recv_counts m r \<Longrightarrow> buf_bound r \<Longrightarrow> rv_state r = RTag \<Longrightarrow> recv_inv m (fst (tag_byte cp ch r))"
  by (auto simp: tag_byte_def intro!: recv_intro) (simp_all add: bound_simps)

lemma command_byte_inv:
  "recv_counts m r \<Longrightarrow> buf_bound r \<Longrightarrow> rv_state r = RCommand u \<Longrightarrow> recv_inv m (fst (command_byte cp u ch r))"
  by (auto simp: command_byte_def Let_def split: option.splits intro!: recv_intro finish_inv)
    (simp_all add: bound_simps)

lemma argument_byte_inv:
  "recv_counts m r \<Longrightarrow> buf_bound r \<Longrightarrow> rv_state r = RArgument l \<Longrightarrow> recv_inv m (fst (argument_byte cp l ch r))"
  by (auto simp: argument_byte_def byte_token_weight split: option.splits intro!: recv_intro finish_inv)
    (simp_all add: bound_simps)

lemma quoted_byte_inv:
  "recv_counts m r \<Longrightarrow> buf_bound r \<Longrightarrow> rv_state r = RArgumentQuoted e \<Longrightarrow> recv_inv m (fst (quoted_byte cp e ch r))"
  by (auto simp: quoted_byte_def split: option.splits intro!: recv_intro)
    (simp_all add: bound_simps)

lemma literal_byte_inv:
  "recv_counts m r \<Longrightarrow> buf_bound r \<Longrightarrow> rv_state r = RLiteral ns \<Longrightarrow> recv_inv m (fst (literal_byte cp ns ch r))"
  by (auto simp: literal_byte_def split: option.splits intro!: recv_intro)
    (simp_all add: bound_simps)

lemma seek_byte_inv:
  "recv_counts m r \<Longrightarrow> buf_bound r \<Longrightarrow> rv_state r = RLiteralSeek n ns \<Longrightarrow> recv_inv m (fst (seek_byte cp n ns ch r))"
  by (auto simp: seek_byte_def split: option.splits intro!: recv_intro)
    (auto simp: bound_simps recv_counts_def word_less_nat_alt)

lemma discard_byte_inv:
  "recv_counts m r \<Longrightarrow> buf_bound r \<Longrightarrow> rv_state r = RLiteralDiscard n \<Longrightarrow> recv_inv m (fst (discard_byte cp n r))"
  by (auto simp: discard_byte_def intro!: recv_intro) (use u32_pred [of n] in \<open>auto simp: bound_simps\<close>)

lemma data_byte_inv:
  "recv_counts m r \<Longrightarrow> buf_bound r \<Longrightarrow> rv_state r = RLiteralData n \<Longrightarrow> recv_inv m (fst (data_byte cp n ch r))"
  by (auto simp: data_byte_def Let_def intro!: recv_intro) (use u32_pred [of n] in \<open>auto simp: bound_simps\<close>)


lemma recv_byte_inv: "recv_inv m r \<Longrightarrow> recv_inv m (fst (recv_byte cp ch r))"
  unfolding recv_inv_def [of m r]
  by (auto simp: recv_byte_def start_byte_inv tag_byte_inv command_byte_inv argument_byte_inv quoted_byte_inv
      literal_byte_inv seek_byte_inv discard_byte_inv data_byte_inv split: recv_state.splits)

lemma recv_run_inv: "recv_inv m r \<Longrightarrow> recv_inv m (fst (recv_run cp r bs))"
proof (induction bs arbitrary: r)
  case (Cons ch rest)
  then have "recv_inv m (fst (recv_byte cp ch r))" by (simp add: recv_byte_inv)
  with Cons.IH show ?case
    by (fastforce split: prod.splits option.splits)
qed simp

lemma recv_parse_inv: "recv_inv m r \<Longrightarrow> recv_inv m (fst (recv_parse cp r bs))"
proof (induction bs arbitrary: r)
  case (Cons ch rest)
  with Cons.IH recv_byte_inv [of m r cp ch] show ?case
    by (fastforce split: prod.splits option.splits)
qed simp

lemma recv_read_inv: "recv_inv m r \<Longrightarrow> recv_inv m (fst (recv_read cp r bs))"
proof (induction bs arbitrary: r rule: length_induct)
  case (1 bs)
  obtain r' out rest where p: "recv_parse cp r bs = (r', out, rest)" by (cases "recv_parse cp r bs") auto
  then have r': "recv_inv m r'" using recv_parse_inv [OF "1.prems", of cp bs] by simp
  show ?case
  proof (cases out)
    case (Received q)
    with p have "length rest < length bs" by (simp add: recv_parse_rest)
    with 1 r' have "recv_inv m (fst (recv_read cp r' rest))" by blast
    with p Received show ?thesis by (subst recv_read.simps) (auto split: prod.splits)
  qed (use p r' in \<open>simp_all add: recv_read.simps\<close>)
qed

lemma recv_reads_inv: "recv_inv m r \<Longrightarrow> recv_inv m (fst (recv_reads cp r cs))"
proof (induction cs arbitrary: r)
  case (Cons c cs)
  with recv_read_inv [of m r cp c] show ?case
    by (fastforce split: prod.splits)
qed simp

lemma recv_inv_init: "recv_inv m (with_max_request_size cp m)"
  by (simp add: with_max_request_size_def receiver_default_def default_request_def recv_inv_def
      recv_counts_def buf_bound_def)

lemma recv_inv_retained: "recv_inv m r \<Longrightarrow> retained r \<le> m + ARG_MAX_LEN"
  by (auto simp: recv_inv_def recv_counts_def buf_bound_def retained_def ARG_MAX_LEN_def split: recv_state.splits)

text \<open>
  C18: Whatever is sent, and however it is cut into reads, the buffer and the arguments of the request in
  progress together never exceed the configured maximum by more than the \<open>ARG_MAX_LEN\<close> bytes of one
  argument.
\<close>

theorem imap_receiver_bounded:
  "retained (fst (recv_reads cp (with_max_request_size cp m) cs)) \<le> m + ARG_MAX_LEN"
  by (intro recv_inv_retained recv_reads_inv recv_inv_init)

end
