(* ===== verification/Imap_Wire.thy ===== *)
theory Imap_Wire
  imports Imap_Receiver
begin

text \<open>
  What a client writes, and that the receiver reads it back: a tagged command whose arguments are
  atoms, quoted strings, literals and the single-byte tokens, with the spaces a client may leave out.
\<close>

section \<open>The client's side\<close>

datatype wire_arg = WAtom bytes | WQuoted bytes | WLiteral bool bytes | WMark imap_token

definition escape_byte :: "byte \<Rightarrow> bytes" where
  "escape_byte b = (if b = 34 \<or> b = 92 then [92, b] else [b])"

fun print_arg :: "wire_arg \<Rightarrow> bytes" where
  "print_arg (WAtom bs) = bs"
| "print_arg (WQuoted bs) = [34] @ concat (map escape_byte bs) @ [34]"
| "print_arg (WLiteral non_sync bs) =
     [123] @ show_nat (length bs) @ (if non_sync then [43] else []) @ [125, 13, 10] @ bs"
| "print_arg (WMark t) = token_as_bytes t"

fun arg_token :: "wire_arg \<Rightarrow> imap_token" where
  "arg_token (WAtom bs) = TokArgument bs"
| "arg_token (WQuoted bs) = (if bs = [] then TokNil else TokArgument bs)"
| "arg_token (WLiteral _ bs) = (if bs = [] then TokNil else TokArgument bs)"
| "arg_token (WMark t) = t"

text \<open>What an argument adds to the size of the request.\<close>

fun arg_weight :: "wire_arg \<Rightarrow> nat" where
  "arg_weight (WAtom bs) = length bs"
| "arg_weight (WQuoted bs) = length bs"
| "arg_weight (WLiteral _ bs) = max 1 (length bs)"
| "arg_weight (WMark _) = 1"

fun arg_events :: "wire_arg \<Rightarrow> 'c recv_outcome list" where
  "arg_events (WLiteral False bs) = [NeedsLiteral (of_nat (length bs))]"
| "arg_events _ = []"

fun no_sync :: "wire_arg \<Rightarrow> bool" where
  "no_sync (WLiteral non_sync _) = non_sync"
| "no_sync _ = True"

definition atom_byte :: "bool \<Rightarrow> byte \<Rightarrow> bool" where
  "atom_byte brackets b \<longleftrightarrow>
     \<not> is_ascii_whitespace b \<and> b \<notin> {34, 123, 40, 41} \<and> (brackets \<longrightarrow> b \<notin> {91, 93, 60, 62, 46})"

fun valid_arg :: "bool \<Rightarrow> wire_arg \<Rightarrow> bool" where
  "valid_arg brackets (WAtom bs) \<longleftrightarrow> bs \<noteq> [] \<and> length bs \<le> ARG_MAX_LEN \<and> list_all (atom_byte brackets) bs"
| "valid_arg brackets (WQuoted bs) \<longleftrightarrow> length bs \<le> ARG_MAX_LEN \<and> 10 \<notin> set bs"
| "valid_arg brackets (WLiteral _ bs) \<longleftrightarrow> length bs < 2 ^ 32"
| "valid_arg brackets (WMark t) \<longleftrightarrow>
     t \<in> {TokParenthesisOpen, TokParenthesisClose} \<or>
     brackets \<and> t \<in> {TokBracketOpen, TokBracketClose, TokLt, TokGt, TokDot}"

text \<open>
  Which spaces may be left out: \<open>pending\<close> when the argument before is an atom that nothing has ended
  yet, \<open>fresh\<close> when a quoted string or a literal may follow.
\<close>

fun spaced :: "bool \<Rightarrow> bool \<Rightarrow> (bool \<times> wire_arg) list \<Rightarrow> bool" where
  "spaced pending fresh [] = True"
| "spaced pending fresh ((space, a) # args) =
     (let pending = (pending \<and> \<not> space); fresh = (fresh \<or> space)
      in case a of
           WAtom _ \<Rightarrow> \<not> pending \<and> spaced True False args
         | WMark _ \<Rightarrow> spaced False fresh args
         | _ \<Rightarrow> \<not> pending \<and> fresh \<and> spaced False True args)"

definition print_args :: "(bool \<times> wire_arg) list \<Rightarrow> bytes" where
  "print_args args = concat (map (\<lambda>(space, a). (if space then [32] else []) @ print_arg a) args)"

record wire_request =
  w_tag :: bytes
  w_uid :: bool
  w_name :: bytes
  w_args :: "(bool \<times> wire_arg) list"

definition print_head :: "wire_request \<Rightarrow> bytes" where
  "print_head w = w_tag w @ [32] @ (if w_uid w then lit ''UID '' else []) @ w_name w @ [32]"

definition print_request :: "wire_request \<Rightarrow> bytes" where
  "print_request w = print_head w @ print_args (w_args w) @ [13, 10]"

definition valid_tag :: "bytes \<Rightarrow> bool" where
  "valid_tag tag \<longleftrightarrow> tag \<noteq> [] \<and> length tag \<le> 128 \<and> valid_utf8 tag \<and> list_all (\<lambda>b. \<not> is_ascii_whitespace b) tag"

definition valid_request :: "'c command_parser \<Rightarrow> nat \<Rightarrow> wire_request \<Rightarrow> bool" where
  "valid_request cp m w \<longleftrightarrow>
     valid_tag (w_tag w) \<and> w_name w \<noteq> [] \<and> length (w_name w) \<le> 15 \<and> list_all is_alnum (w_name w) \<and>
     \<not> eq_ignore_ascii_case (map to_upper (w_name w)) (lit ''UID'') \<and>
     (case cmd_parse cp (map to_upper (w_name w)) (w_uid w) of
        None \<Rightarrow> False
      | Some c \<Rightarrow> list_all (valid_arg (cmd_tokenize_brackets cp c)) (map snd (w_args w))) \<and>
     spaced False True (w_args w) \<and> (\<Sum>a \<leftarrow> map snd (w_args w). arg_weight a) \<le> m"

definition request_of :: "'c command_parser \<Rightarrow> wire_request \<Rightarrow> 'c imap_request" where
  "request_of cp w = \<lparr>rq_tag = w_tag w, rq_command = the (cmd_parse cp (map to_upper (w_name w)) (w_uid w)),
     rq_tokens = map (arg_token \<circ> snd) (w_args w)\<rparr>"

section \<open>The receiver in each state\<close>

definition rst :: "nat \<Rightarrow> bytes \<Rightarrow> 'c \<Rightarrow> recv_state \<Rightarrow> bytes \<Rightarrow> imap_token list \<Rightarrow> nat \<Rightarrow> 'c receiver" where
  "rst m tag c st buf ts cur = \<lparr>rv_buf = buf, rv_request = \<lparr>rq_tag = tag, rq_command = c, rq_tokens = ts\<rparr>,
     rv_state = st, rv_max = m, rv_current = cur, rv_start = RStart\<rparr>"

definition flush :: "imap_token list \<Rightarrow> bytes \<Rightarrow> imap_token list" where
  "flush ts buf = ts @ (if buf = [] then [] else [TokArgument buf])"

lemma flush_Nil [simp]: "flush ts [] = ts"
  by (simp add: flush_def)

lemma push_argument_rst:
  "cur + length buf \<le> m \<Longrightarrow>
   push_argument cp False (rst m tag c st buf ts cur) = Inr (rst m tag c st [] (flush ts buf) (cur + length buf))"
  by (simp add: push_argument_def rst_def push_tok_def flush_def)

lemma rst_simps [simp]:
  "rv_buf (rst m tag c st buf ts cur) = buf" "rv_state (rst m tag c st buf ts cur) = st"
  "rv_max (rst m tag c st buf ts cur) = m" "rv_current (rst m tag c st buf ts cur) = cur"
  "set_state st' (rst m tag c st buf ts cur) = rst m tag c st' buf ts cur"
  "push_unchecked b (rst m tag c st buf ts cur) = rst m tag c st (buf @ [b]) ts cur"
  "(rst m tag c st buf ts cur)\<lparr>rv_buf := buf'\<rparr> = rst m tag c st buf' ts cur"
  "rq_command (rv_request (rst m tag c st buf ts cur)) = c"
  by (simp_all add: rst_def set_state_def push_unchecked_def)

lemma push_checked_rst [simp]:
  "length buf < n \<Longrightarrow> push_checked cp b n msg (rst m tag c st buf ts cur) = Inr (rst m tag c st (buf @ [b]) ts cur)"
  by (simp add: push_checked_def)

lemma push_token_rst [simp]:
  "cur < m \<Longrightarrow> push_token cp t (rst m tag c st buf ts cur) = Inr (rst m tag c st buf (ts @ [t]) (cur + 1))"
  by (simp add: push_token_def rst_def push_tok_def)

lemma byte_token_atom:
  "atom_byte (cmd_tokenize_brackets cp c) b \<Longrightarrow> byte_token cp b (rst m tag c st buf ts cur) = None"
  by (cases "cmd_tokenize_brackets cp c") (simp_all add: byte_token_def atom_byte_def)

lemma atom_step:
  assumes "atom_byte (cmd_tokenize_brackets cp c) b" "length buf < ARG_MAX_LEN"
  shows "recv_byte cp b (rst m tag c (RArgument lc) buf ts cur) = (rst m tag c (RArgument b) (buf @ [b]) ts cur, None)"
proof -
  have "b \<noteq> 34" "b \<noteq> 123" "\<not> is_ascii_whitespace b"
    using assms(1) by (simp_all add: atom_byte_def)
  moreover from this have "b \<noteq> 10" by (auto simp: is_ascii_whitespace_def)
  ultimately show ?thesis
    using assms by (simp add: recv_byte_def argument_byte_def go_on_def byte_token_atom)
qed

lemma atom_run:
  "list_all (atom_byte (cmd_tokenize_brackets cp c)) bs \<Longrightarrow> length buf + length bs \<le> ARG_MAX_LEN \<Longrightarrow> bs \<noteq> [] \<Longrightarrow>
   recv_run cp (rst m tag c (RArgument lc) buf ts cur) bs = (rst m tag c (RArgument (List.last bs)) (buf @ bs) ts cur, [])"
proof (induction bs arbitrary: buf lc)
  case (Cons b bs)
  then show ?case
    by (cases "bs = []") (simp_all add: atom_step)
qed simp


lemma byte_token_space [simp]: "is_ascii_whitespace b \<Longrightarrow> byte_token cp b r = None"
  by (auto simp: byte_token_def is_ascii_whitespace_def)

lemma space_step:
  assumes "is_ascii_whitespace b" "b \<noteq> 10" "cur + length buf \<le> m"
  shows "recv_byte cp b (rst m tag c (RArgument lc) buf ts cur) =
    (rst m tag c (RArgument b) [] (flush ts buf) (cur + length buf), None)"
proof -
  have "b \<noteq> 34" "b \<noteq> 123" using assms(1) by (auto simp: is_ascii_whitespace_def)
  with assms show ?thesis
    by (simp add: recv_byte_def argument_byte_def go_on_def push_argument_rst)
qed

lemma mark_step:
  assumes "valid_arg (cmd_tokenize_brackets cp c) (WMark t)" "cur + length buf < m"
  shows "recv_run cp (rst m tag c (RArgument lc) buf ts cur) (token_as_bytes t) =
    (rst m tag c (RArgument lc) [] (flush ts buf @ [t]) (cur + length buf + 1), [])"
  using assms
  by (auto simp: recv_byte_def argument_byte_def byte_token_def go_on_def push_argument_rst)

lemma quoted_body:
  "length buf + length bs \<le> ARG_MAX_LEN \<Longrightarrow> 10 \<notin> set bs \<Longrightarrow>
   recv_run cp (rst m tag c (RArgumentQuoted False) buf ts cur) (concat (map escape_byte bs)) =
     (rst m tag c (RArgumentQuoted False) (buf @ bs) ts cur, [])"
proof (induction bs arbitrary: buf)
  case (Cons b bs)
  have "recv_run cp (rst m tag c (RArgumentQuoted False) buf ts cur) (escape_byte b) =
     (rst m tag c (RArgumentQuoted False) (buf @ [b]) ts cur, [])"
    using Cons.prems by (simp add: escape_byte_def recv_byte_def quoted_byte_def go_on_def)
  with Cons show ?case by (simp add: recv_run_append)
qed simp

lemma quoted_run:
  assumes "valid_arg b (WQuoted bs)" "is_ascii_whitespace lc" "cur + length bs \<le> m"
  shows "recv_run cp (rst m tag c (RArgument lc) [] ts cur) (print_arg (WQuoted bs)) =
    (rst m tag c (RArgument 32) [] (ts @ [arg_token (WQuoted bs)]) (cur + length bs), [])"
proof -
  have "recv_byte cp 34 (rst m tag c (RArgument lc) [] ts cur) = (rst m tag c (RArgumentQuoted False) [] ts cur, None)"
    using assms(2,3) by (simp add: recv_byte_def argument_byte_def push_argument_rst go_on_def)
  moreover have "recv_byte cp 34 (rst m tag c (RArgumentQuoted False) bs ts cur) =
    (rst m tag c (RArgument 32) [] (ts @ [arg_token (WQuoted bs)]) (cur + length bs), None)"
    using assms(3) by (simp add: recv_byte_def quoted_byte_def push_argument_def rst_def push_tok_def go_on_def set_state_def)
  ultimately show ?thesis
    using assms(1) quoted_body [of "[]" bs cp m tag c ts cur] by (simp add: recv_run_append)
qed

lemma digits_run:
  "list_all is_digit ds \<Longrightarrow> length buf + length ds \<le> 15 \<Longrightarrow>
   recv_run cp (rst m tag c (RLiteral False) buf ts cur) ds = (rst m tag c (RLiteral False) (buf @ ds) ts cur, [])"
proof (induction ds arbitrary: buf)
  case (Cons d ds)
  then have "d \<noteq> 125" "d \<noteq> 43" by (auto simp: is_digit_def)
  with Cons show ?case by (simp add: recv_byte_def literal_byte_def go_on_def)
qed simp

lemma show_nat_length: "n < 10 ^ k \<Longrightarrow> 0 < k \<Longrightarrow> length (show_nat n) \<le> k"
proof (induction n arbitrary: k rule: show_nat.induct)
  case (1 n)
  show ?case
  proof (cases "n < 10")
    case False
    then obtain j where k: "k = Suc j" "0 < j" using "1.prems" by (cases k; cases "k - 1") auto
    with False 1 have "length (show_nat (n div 10)) \<le> j" by (simp add: less_mult_imp_div_less)
    with False k show ?thesis by (subst show_nat.simps) simp
  qed (use "1.prems" in \<open>subst show_nat.simps, simp\<close>)
qed


lemma of_nat_pred_u32:
  "0 < k \<Longrightarrow> Suc k < 2 ^ 32 \<Longrightarrow> 1 < (of_nat (Suc k) :: u32) \<and> of_nat (Suc k) - 1 = (of_nat k :: u32)"
  by (simp add: word_less_nat_alt unat_of_nat del: of_nat_Suc)
    (simp add: of_nat_Suc)

lemma literal_body:
  "bs \<noteq> [] \<Longrightarrow> length bs < 2 ^ 32 \<Longrightarrow> cur + length buf + length bs \<le> m \<Longrightarrow>
   recv_run cp (rst m tag c (RLiteralData (of_nat (length bs))) buf ts cur) bs =
     (rst m tag c (RArgument 32) [] (ts @ [TokArgument (buf @ bs)]) (cur + length buf + length bs), [])"
proof (induction bs arbitrary: buf)
  case (Cons b bs)
  show ?case
  proof (cases "bs = []")
    case True
    with Cons.prems show ?thesis
      by (simp add: recv_byte_def data_byte_def push_argument_rst flush_def go_on_def)
  next
    case False
    then have "1 < (of_nat (Suc (length bs)) :: u32)" "of_nat (Suc (length bs)) - 1 = (of_nat (length bs) :: u32)"
      using of_nat_pred_u32 [of "length bs"] Cons.prems by auto
    with Cons False show ?thesis
      by (simp add: recv_byte_def data_byte_def go_on_def del: of_nat_Suc)
  qed
qed simp

lemma literal_head:
  assumes "n < 2 ^ 32" "is_ascii_whitespace lc" "cur + n \<le> m"
  shows "recv_run cp (rst m tag c (RArgument lc) [] ts cur) ([123] @ show_nat n @ (if ns then [43] else []) @ [125, 13]) =
    (rst m tag c (RLiteralSeek (of_nat n) ns) [] ts cur, [])"
proof -
  have "lc \<noteq> 126" using assms(2) by (auto simp: is_ascii_whitespace_def)
  then have opens: "recv_byte cp 123 (rst m tag c (RArgument lc) [] ts cur) = (rst m tag c (RLiteral False) [] ts cur, None)"
    using assms(2,3) by (simp add: recv_byte_def argument_byte_def push_argument_rst go_on_def)
  have "length (show_nat n) \<le> 10" using show_nat_length [of n 10] assms(1) by simp
  then have digits: "recv_run cp (rst m tag c (RLiteral False) [] ts cur) (show_nat n) =
      (rst m tag c (RLiteral False) (show_nat n) ts cur, [])"
    using digits_run [of "show_nat n" "[]" cp m tag c ts cur] show_nat_digits(1) [of n]
    by (simp add: list_all_iff)
  have un: "unat (of_nat n :: u32) = n" using assms(1) by (simp add: unat_of_nat)
  have "valid_utf8 (show_nat n)"
    using show_nat_digits(1) [of n] by (intro ascii_valid_utf8) (auto simp: is_digit_def word_le_nat_alt word_less_nat_alt)
  then have parse: "parse_uint (as_str (show_nat n)) = Some (of_nat n :: u32)"
    using parse_uint_show [of "of_nat n :: u32"] un by (simp add: as_str_def)
  have close: "recv_byte cp 125 (rst m tag c (RLiteral s) (show_nat n) ts cur) =
      (rst m tag c (RLiteralSeek (of_nat n) s) [] ts cur, None)" for s
    using parse un assms(3) show_nat_digits(3) [of n] by (simp add: recv_byte_def literal_byte_def go_on_def)
  have plus: "recv_byte cp 43 (rst m tag c (RLiteral False) (show_nat n) ts cur) =
      (rst m tag c (RLiteral True) (show_nat n) ts cur, None)"
    using show_nat_digits(3) [of n] by (simp add: recv_byte_def literal_byte_def go_on_def)
  have cr: "recv_byte cp 13 (rst m tag c (RLiteralSeek k s) [] ts cur) = (rst m tag c (RLiteralSeek k s) [] ts cur, None)" for k s
    by (simp add: recv_byte_def seek_byte_def is_ascii_whitespace_def go_on_def)
  show ?thesis
    by (cases ns) (simp_all add: recv_run_append opens digits close plus cr)
qed

lemma literal_run:
  assumes "valid_arg b (WLiteral ns bs)" "is_ascii_whitespace lc" "cur + arg_weight (WLiteral ns bs) \<le> m"
  shows "recv_run cp (rst m tag c (RArgument lc) [] ts cur) (print_arg (WLiteral ns bs)) =
    (rst m tag c (RArgument 32) [] (ts @ [arg_token (WLiteral ns bs)]) (cur + arg_weight (WLiteral ns bs)),
     arg_events (WLiteral ns bs))"
proof -
  let ?n = "of_nat (length bs) :: u32"
  have un: "unat ?n = length bs" using assms(1) by (simp add: unat_of_nat)
  have lf: "recv_byte cp 10 (rst m tag c (RLiteralSeek ?n ns) [] ts cur) =
      ((if bs = [] then rst m tag c (RArgument 32) [] (ts @ [TokNil]) (cur + 1)
        else rst m tag c (RLiteralData ?n) [] ts cur), if ns then None else Some (NeedsLiteral ?n))"
    using assms(3) un by (auto simp: recv_byte_def seek_byte_def needs_literal_def word_less_nat_alt)
  have "recv_run cp (rst m tag c (RArgument lc) [] ts cur) (print_arg (WLiteral ns bs)) =
    (case recv_run cp (rst m tag c (RLiteralSeek ?n ns) [] ts cur) (10 # bs) of (r, outs) \<Rightarrow> (r, outs))"
    using literal_head [of "length bs" lc cur m cp tag c ts ns] assms
    by (simp add: recv_run_append [of cp _ "[123] @ show_nat (length bs) @ (if ns then [43] else []) @ [125, 13]" "10 # bs", simplified])
  then show ?thesis
    using literal_body [of bs cur "[]" m cp tag c ts] assms lf
    by (cases ns; cases "bs = []") (simp_all add: max_def Suc_le_eq)
qed


section \<open>Reading back what was written\<close>

text \<open>A step of the argument list: the optional space, then the argument.\<close>

lemma space_run:
  assumes "cur + length buf \<le> m" "\<not> sp \<Longrightarrow> P lc buf ts cur" "sp \<Longrightarrow> P 32 [] (flush ts buf) (cur + length buf)"
  shows "\<exists>lc' buf' ts' cur'. recv_run cp (rst m tag c (RArgument lc) buf ts cur) (if sp then [32] else []) =
      (rst m tag c (RArgument lc') buf' ts' cur', []) \<and> P lc' buf' ts' cur'"
proof (cases sp)
  case True
  moreover have "recv_byte cp 32 (rst m tag c (RArgument lc) buf ts cur) =
      (rst m tag c (RArgument 32) [] (flush ts buf) (cur + length buf), None)"
    using assms(1) by (intro space_step) (simp_all add: is_ascii_whitespace_def)
  ultimately have "recv_run cp (rst m tag c (RArgument lc) buf ts cur) (if sp then [32] else []) =
      (rst m tag c (RArgument 32) [] (flush ts buf) (cur + length buf), [])" by simp
  with assms(3) True show ?thesis by blast
qed (use assms in auto)

lemma spaced_space:
  "spaced p f ((sp, a) # args) \<Longrightarrow> spaced (p \<and> \<not> sp) (f \<or> sp) ((False, a) # args)"
  by (simp add: Let_def)

lemma arg_run:
  assumes "valid_arg (cmd_tokenize_brackets cp c) a" "spaced (buf \<noteq> []) (is_ascii_whitespace lc) ((False, a) # args)"
    "cur + length buf + arg_weight a \<le> m"
  shows "\<exists>lc' buf' ts' cur'. recv_run cp (rst m tag c (RArgument lc) buf ts cur) (print_arg a) =
      (rst m tag c (RArgument lc') buf' ts' cur', arg_events a) \<and>
    flush ts' buf' = flush ts buf @ [arg_token a] \<and> cur' + length buf' = cur + length buf + arg_weight a \<and>
    spaced (buf' \<noteq> []) (is_ascii_whitespace lc') args"
proof (cases a)
  case (WAtom bs)
  with assms have "buf = []" "bs \<noteq> []" "spaced True False args" "\<not> is_ascii_whitespace (List.last bs)"
    by (auto simp: Let_def list_all_iff atom_byte_def)
  with WAtom assms atom_run [of cp c bs "[]" m tag lc ts cur] show ?thesis
    by (intro exI [of _ "List.last bs"] exI [of _ bs] exI [of _ ts] exI [of _ cur]) (simp add: flush_def)
next
  case (WQuoted bs)
  with assms have "buf = []" "is_ascii_whitespace lc" "spaced False True args"
    by (auto simp: Let_def)
  with WQuoted assms quoted_run [of _ bs lc cur m cp tag c ts] show ?thesis
    by (intro exI [of _ 32] exI [of _ "[]"] exI [of _ "ts @ [arg_token a]"] exI [of _ "cur + length bs"])
      (simp add: is_ascii_whitespace_def)
next
  case (WLiteral ns bs)
  with assms have "buf = []" "is_ascii_whitespace lc" "spaced False True args"
    by (auto simp: Let_def)
  with WLiteral assms literal_run [of _ ns bs lc cur m cp tag c ts] show ?thesis
    by (intro exI [of _ 32] exI [of _ "[]"] exI [of _ "ts @ [arg_token a]"] exI [of _ "cur + arg_weight a"])
      (simp add: is_ascii_whitespace_def)
next
  case (WMark t)
  with assms mark_step [of cp c t cur buf m tag lc ts] show ?thesis
    by (intro exI [of _ lc] exI [of _ "[]"] exI [of _ "flush ts buf @ [t]"] exI [of _ "cur + length buf + 1"])
      (simp add: Let_def)
qed

lemma args_run:
  "list_all (valid_arg (cmd_tokenize_brackets cp c)) (map snd args) \<Longrightarrow>
   spaced (buf \<noteq> []) (is_ascii_whitespace lc) args \<Longrightarrow>
   cur + length buf + (\<Sum>a \<leftarrow> map snd args. arg_weight a) \<le> m \<Longrightarrow>
   \<exists>lc' buf' ts' cur'. recv_run cp (rst m tag c (RArgument lc) buf ts cur) (print_args args) =
      (rst m tag c (RArgument lc') buf' ts' cur', concat (map (arg_events \<circ> snd) args)) \<and>
     flush ts' buf' = flush ts buf @ map (arg_token \<circ> snd) args \<and>
     cur' + length buf' = cur + length buf + (\<Sum>a \<leftarrow> map snd args. arg_weight a)"
proof (induction args arbitrary: lc buf ts cur)
  case Nil
  then show ?case by (auto simp: print_args_def)
next
  case (Cons p args)
  obtain sp a where p: "p = (sp, a)" by (cases p)
  let ?P = "\<lambda>lc' buf' ts' cur'. flush ts' buf' = flush ts buf \<and> cur' + length buf' = cur + length buf \<and>
      spaced (buf' \<noteq> []) (is_ascii_whitespace lc') ((False, a) # args)"
  have ws: "is_ascii_whitespace 32" by (simp add: is_ascii_whitespace_def)
  obtain lc1 buf1 ts1 cur1 where
    sp: "recv_run cp (rst m tag c (RArgument lc) buf ts cur) (if sp then [32] else []) =
      (rst m tag c (RArgument lc1) buf1 ts1 cur1, [])" "?P lc1 buf1 ts1 cur1"
    using space_run [of cur buf m sp ?P lc ts cp tag c] Cons.prems(3) p ws
      spaced_space [OF Cons.prems(2) [unfolded p]] by (cases sp) (auto simp del: spaced.simps)
  obtain lc2 buf2 ts2 cur2 where
    a: "recv_run cp (rst m tag c (RArgument lc1) buf1 ts1 cur1) (print_arg a) =
      (rst m tag c (RArgument lc2) buf2 ts2 cur2, arg_events a)"
    "flush ts2 buf2 = flush ts1 buf1 @ [arg_token a]" "cur2 + length buf2 = cur1 + length buf1 + arg_weight a"
    "spaced (buf2 \<noteq> []) (is_ascii_whitespace lc2) args"
    using arg_run [of cp c a buf1 lc1 args cur1 m tag ts1] Cons.prems p sp(2) by auto
  have "list_all (valid_arg (cmd_tokenize_brackets cp c)) (map snd args)"
    "cur2 + length buf2 + (\<Sum>a \<leftarrow> map snd args. arg_weight a) \<le> m"
    using Cons.prems(1,3) p sp(2) a(3) by simp_all
  from Cons.IH [OF this(1) a(4) this(2), of ts2] obtain lc3 buf3 ts3 cur3 where
    "recv_run cp (rst m tag c (RArgument lc2) buf2 ts2 cur2) (print_args args) =
      (rst m tag c (RArgument lc3) buf3 ts3 cur3, concat (map (arg_events \<circ> snd) args))"
    "flush ts3 buf3 = flush ts2 buf2 @ map (arg_token \<circ> snd) args"
    "cur3 + length buf3 = cur2 + length buf2 + (\<Sum>a \<leftarrow> map snd args. arg_weight a)"
    by blast
  moreover have "print_args (p # args) = (if sp then [32] else []) @ print_arg a @ print_args args"
    by (simp add: print_args_def p)
  ultimately show ?case
    using sp a p by (intro exI [of _ lc3] exI [of _ buf3] exI [of _ ts3] exI [of _ cur3]) (simp add: recv_run_append comp_def)
qed


lemma run_then:
  "recv_run cp r xs = (r', outs) \<Longrightarrow>
     recv_run cp r (xs @ ys) = (case recv_run cp r' ys of (r'', outs') \<Rightarrow> (r'', outs @ outs'))"
  by (simp add: recv_run_append)

lemma arg_events_Nil: "no_sync a \<Longrightarrow> arg_events a = []"
  by (cases a rule: arg_events.cases) auto

lemma tag_run:
  assumes "valid_tag tag"
  shows "recv_run cp (rst m [] c RStart [] [] 0) (tag @ [32]) = (rst m tag c (RCommand False) [] [] 0, [])"
proof -
  obtain b bs where tag: "tag = b # bs" using assms by (cases tag) (auto simp: valid_tag_def)
  have first: "recv_byte cp b (rst m [] c RStart [] [] 0) = (rst m [] c RTag [b] [] 0, None)"
    using assms tag by (simp add: valid_tag_def recv_byte_def start_byte_def go_on_def)
  have "recv_run cp (rst m [] c RTag buf [] 0) bs = (rst m [] c RTag (buf @ bs) [] 0, [])"
    if "length buf + length bs \<le> 128" "list_all (\<lambda>b. \<not> is_ascii_whitespace b) bs" for buf bs
    using that
  proof (induction bs arbitrary: buf)
    case (Cons b bs)
    then have "b \<noteq> 32" "b \<noteq> 9" "b \<noteq> 13" "b \<noteq> 10" by (auto simp: is_ascii_whitespace_def)
    with Cons show ?case by (simp add: recv_byte_def tag_byte_def go_on_def)
  qed simp
  then have "recv_run cp (rst m [] c RTag [b] [] 0) bs = (rst m [] c RTag tag [] 0, [])"
    using assms tag by (simp add: valid_tag_def)
  moreover have "recv_byte cp 32 (rst m [] c RTag tag [] 0) = (rst m tag c (RCommand False) [] [] 0, None)"
    using assms by (simp add: recv_byte_def tag_byte_def go_on_def valid_tag_def rst_def set_state_def del: valid_utf8.simps)
  ultimately show ?thesis
    using first by (simp add: tag recv_run_append)
qed

lemma name_run:
  "list_all is_alnum bs \<Longrightarrow> length buf + length bs \<le> 15 \<Longrightarrow>
   recv_run cp (rst m tag c (RCommand u) buf [] 0) bs = (rst m tag c (RCommand u) (buf @ map to_upper bs) [] 0, [])"
  by (induction bs arbitrary: buf) (simp_all add: recv_byte_def command_byte_def go_on_def)

lemma not_alnum_space [simp]: "\<not> is_alnum 32" "is_ascii_whitespace 32"
  by (simp_all add: is_alnum_def is_digit_def is_lower_def is_upper_def is_ascii_whitespace_def)

lemma uid_run:
  "recv_run cp (rst m tag c (RCommand False) [] [] 0) (if uid then lit ''UID '' else []) =
     (rst m tag c (RCommand uid) [] [] 0, [])"
proof (cases uid)
  case True
  have "recv_run cp (rst m tag c (RCommand False) [] [] 0) (lit ''UID'') = (rst m tag c (RCommand False) (lit ''UID'') [] 0, [])"
    using name_run [of "lit ''UID''" "[]" cp m tag c False]
    by (simp add: is_alnum_def is_digit_def is_lower_def is_upper_def to_upper_def)
  then have "recv_run cp (rst m tag c (RCommand False) [] [] 0) (lit ''UID'' @ [32]) = (rst m tag c (RCommand True) [] [] 0, [])"
    by (subst recv_run_append) (simp add: recv_byte_def command_byte_def eq_ignore_ascii_case_def go_on_def)
  with True show ?thesis by simp
qed simp

lemma head_run:
  assumes "valid_request cp m w" "cmd_parse cp (map to_upper (w_name w)) (w_uid w) = Some c"
  shows "recv_run cp (rst m [] d RStart [] [] 0) (print_head w) = (rst m (w_tag w) c (RArgument 32) [] [] 0, [])"
proof -
  have name: "recv_run cp (rst m tag d (RCommand (w_uid w)) [] [] 0) (w_name w @ [32]) =
      (rst m tag c (RArgument 32) [] [] 0, [])" for tag d
    using assms name_run [of "w_name w" "[]" cp m tag d "w_uid w"]
    by (simp add: valid_request_def recv_run_append)
      (simp add: recv_byte_def command_byte_def go_on_def rst_def set_state_def)
  have tag: "recv_run cp (rst m [] d RStart [] [] 0) (w_tag w @ [32]) = (rst m (w_tag w) d (RCommand False) [] [] 0, [])"
    using tag_run [of "w_tag w" cp m d] assms by (simp add: valid_request_def)
  have "print_head w = (w_tag w @ [32]) @ (if w_uid w then lit ''UID '' else []) @ (w_name w @ [32])"
    by (simp add: print_head_def del: lit_simps)
  then show ?thesis
    by (simp only: run_then [OF tag] run_then [OF uid_run] name prod.case append_Nil)
qed

lemma request_run:
  assumes "valid_request cp m w"
  shows "recv_run cp (rst m [] (cmd_default cp) RStart [] [] 0) (print_request w) =
    (rst m [] (cmd_default cp) RStart [] [] 0,
     concat (map (arg_events \<circ> snd) (w_args w)) @ [Received (request_of cp w)])"
proof -
  obtain c where c: "cmd_parse cp (map to_upper (w_name w)) (w_uid w) = Some c"
    and args: "list_all (valid_arg (cmd_tokenize_brackets cp c)) (map snd (w_args w))"
    using assms by (auto simp: valid_request_def split: option.splits)
  obtain lc buf ts cur where
    run: "recv_run cp (rst m (w_tag w) c (RArgument 32) [] [] 0) (print_args (w_args w)) =
      (rst m (w_tag w) c (RArgument lc) buf ts cur, concat (map (arg_events \<circ> snd) (w_args w)))"
    and ts: "flush ts buf = map (arg_token \<circ> snd) (w_args w)" "cur + length buf \<le> m"
    using args_run [OF args, of "[]" 32 0 m "w_tag w" "[]"] assms by (auto simp: valid_request_def)
  have cr: "recv_byte cp 13 (rst m (w_tag w) c (RArgument lc) buf ts cur) =
      (rst m (w_tag w) c (RArgument 13) [] (flush ts buf) (cur + length buf), None)"
    using ts(2) by (intro space_step) (simp_all add: is_ascii_whitespace_def)
  have lf: "recv_byte cp 10 (rst m (w_tag w) c (RArgument 13) [] (flush ts buf) (cur + length buf)) =
      (rst m [] (cmd_default cp) RStart [] [] 0, Some (Received (request_of cp w)))"
    using ts c by (simp add: recv_byte_def argument_byte_def byte_token_def push_argument_rst)
      (simp add: finish_request_def rst_def default_request_def request_of_def)
  have crlf: "recv_run cp (rst m (w_tag w) c (RArgument lc) buf ts cur) [13, 10] =
      (rst m [] (cmd_default cp) RStart [] [] 0, [Received (request_of cp w)])"
    by (simp add: cr lf)
  show ?thesis
    by (simp only: print_request_def run_then [OF head_run [OF assms c]] run_then [OF run] crlf prod.case append_Nil)
qed

text \<open>Requests written one after the other, without synchronizing literals, in any reads.\<close>

lemma requests_run:
  assumes "list_all (valid_request cp m) ws" "list_all (\<lambda>w. list_all (no_sync \<circ> snd) (w_args w)) ws"
  shows "recv_run cp (with_max_request_size cp m) (concat (map print_request ws)) =
    (with_max_request_size cp m, map Received (map (request_of cp) ws))"
proof -
  let ?r = "rst m [] (cmd_default cp) RStart [] [] 0"
  have r: "with_max_request_size cp m = ?r"
    by (simp add: with_max_request_size_def receiver_default_def rst_def default_request_def)
  have "recv_run cp ?r (concat (map print_request ws)) = (?r, map Received (map (request_of cp) ws))"
    using assms
  proof (induction ws)
    case (Cons w ws)
    then have "concat (map (arg_events \<circ> snd) (w_args w)) = []"
      by (auto simp: list_all_iff arg_events_Nil)
    with Cons request_run [of cp m w] show ?case
      by (simp add: recv_run_append)
  qed simp
  then show ?thesis by (simp add: r)
qed

end
