(* ===== verification/Imap_Command.thy ===== *)
theory Imap_Command
  imports Imap_Wire
begin

text \<open>
  The commands of the IMAP server (\<^verbatim>\<open>imap-proto/src/lib.rs\<close>), the table that names them
  (\<^verbatim>\<open>parser/mod.rs\<close>) and their \<^verbatim>\<open>Display\<close> (\<^verbatim>\<open>protocol/mod.rs\<close>): the receiver of
  \<open>Imap_Receiver\<close> with this table is what an IMAP connection reads with.
\<close>

section \<open>Commands\<close>

datatype imap_command =
    ICapability | INoop | ILogout | IStartTls | IAuthenticate | ILogin | IEnable | ISelect | IExamine
    | ICreate | IDelete | IRename | ISubscribe | IUnsubscribe | IList | INamespace | IStatus | IAppend
    | IIdle | IClose | IUnselect | IExpunge bool | ISearch bool | IFetch bool | IStore bool | ICopy bool
    | IMove bool | ILsub | ICheck | ISort bool | IThread bool | ISetAcl | IDeleteAcl | IGetAcl
    | IListRights | IMyRights | IUnauthenticate | IId | IGetQuota | IGetQuotaRoot | IGetJmapAccess

definition command_is_uid :: "imap_command \<Rightarrow> bool" where
  "command_is_uid c \<longleftrightarrow>
     c \<in> {IFetch True, ISearch True, ICopy True, IMove True, IStore True, IExpunge True, ISort True, IThread True}"

definition imap_commands :: "(bytes \<times> (bool \<Rightarrow> imap_command)) list" where
  "imap_commands =
    [(lit ''CAPABILITY'', \<lambda>_. ICapability), (lit ''NOOP'', \<lambda>_. INoop), (lit ''LOGOUT'', \<lambda>_. ILogout),
     (lit ''STARTTLS'', \<lambda>_. IStartTls), (lit ''AUTHENTICATE'', \<lambda>_. IAuthenticate), (lit ''LOGIN'', \<lambda>_. ILogin),
     (lit ''ENABLE'', \<lambda>_. IEnable), (lit ''SELECT'', \<lambda>_. ISelect), (lit ''EXAMINE'', \<lambda>_. IExamine),
     (lit ''CREATE'', \<lambda>_. ICreate), (lit ''DELETE'', \<lambda>_. IDelete), (lit ''RENAME'', \<lambda>_. IRename),
     (lit ''SUBSCRIBE'', \<lambda>_. ISubscribe), (lit ''UNSUBSCRIBE'', \<lambda>_. IUnsubscribe), (lit ''LIST'', \<lambda>_. IList),
     (lit ''NAMESPACE'', \<lambda>_. INamespace), (lit ''STATUS'', \<lambda>_. IStatus), (lit ''APPEND'', \<lambda>_. IAppend),
     (lit ''IDLE'', \<lambda>_. IIdle), (lit ''CLOSE'', \<lambda>_. IClose), (lit ''UNSELECT'', \<lambda>_. IUnselect),
     (lit ''EXPUNGE'', IExpunge), (lit ''SEARCH'', ISearch), (lit ''FETCH'', IFetch),
     (lit ''STORE'', IStore), (lit ''COPY'', ICopy), (lit ''MOVE'', IMove),
     (lit ''SORT'', ISort), (lit ''THREAD'', IThread), (lit ''LSUB'', \<lambda>_. ILsub),
     (lit ''CHECK'', \<lambda>_. ICheck), (lit ''SETACL'', \<lambda>_. ISetAcl), (lit ''DELETEACL'', \<lambda>_. IDeleteAcl),
     (lit ''GETACL'', \<lambda>_. IGetAcl), (lit ''LISTRIGHTS'', \<lambda>_. IListRights), (lit ''MYRIGHTS'', \<lambda>_. IMyRights),
     (lit ''UNAUTHENTICATE'', \<lambda>_. IUnauthenticate), (lit ''ID'', \<lambda>_. IId), (lit ''GETQUOTA'', \<lambda>_. IGetQuota),
     (lit ''GETQUOTAROOT'', \<lambda>_. IGetQuotaRoot), (lit ''GETJMAPACCESS'', \<lambda>_. IGetJmapAccess)]"

definition parse_command :: "bytes \<Rightarrow> bool \<Rightarrow> imap_command option" where
  "parse_command name uid = map_option (\<lambda>f. f uid) (map_of imap_commands name)"

definition tokenize_brackets :: "imap_command \<Rightarrow> bool" where
  "tokenize_brackets c = (case c of IFetch _ \<Rightarrow> True | _ \<Rightarrow> False)"

definition imap_parser :: "imap_command command_parser" where
  "imap_parser = \<lparr>cmd_parse = parse_command, cmd_tokenize_brackets = tokenize_brackets, cmd_default = INoop\<rparr>"

fun show_command :: "imap_command \<Rightarrow> bytes" where
  "show_command ICapability = lit ''CAPABILITY''"
| "show_command INoop = lit ''NOOP''"
| "show_command ILogout = lit ''LOGOUT''"
| "show_command IStartTls = lit ''STARTTLS''"
| "show_command IAuthenticate = lit ''AUTHENTICATE''"
| "show_command ILogin = lit ''LOGIN''"
| "show_command IEnable = lit ''ENABLE''"
| "show_command ISelect = lit ''SELECT''"
| "show_command IExamine = lit ''EXAMINE''"
| "show_command ICreate = lit ''CREATE''"
| "show_command IDelete = lit ''DELETE''"
| "show_command IRename = lit ''RENAME''"
| "show_command ISubscribe = lit ''SUBSCRIBE''"
| "show_command IUnsubscribe = lit ''UNSUBSCRIBE''"
| "show_command IList = lit ''LIST''"
| "show_command INamespace = lit ''NAMESPACE''"
| "show_command IStatus = lit ''STATUS''"
| "show_command IAppend = lit ''APPEND''"
| "show_command IIdle = lit ''IDLE''"
| "show_command IClose = lit ''CLOSE''"
| "show_command IUnselect = lit ''UNSELECT''"
| "show_command (IExpunge False) = lit ''EXPUNGE''"
| "show_command (ISearch False) = lit ''SEARCH''"
| "show_command (IFetch False) = lit ''FETCH''"
| "show_command (IStore False) = lit ''STORE''"
| "show_command (ICopy False) = lit ''COPY''"
| "show_command (IMove False) = lit ''MOVE''"
| "show_command (ISort False) = lit ''SORT''"
| "show_command (IThread False) = lit ''THREAD''"
| "show_command (IExpunge True) = lit ''UID EXPUNGE''"
| "show_command (ISearch True) = lit ''UID SEARCH''"
| "show_command (IFetch True) = lit ''UID FETCH''"
| "show_command (IStore True) = lit ''UID STORE''"
| "show_command (ICopy True) = lit ''UID COPY''"
| "show_command (IMove True) = lit ''UID MOVE''"
| "show_command (ISort True) = lit ''UID SORT''"
| "show_command (IThread True) = lit ''UID THREAD''"
| "show_command ILsub = lit ''LSUB''"
| "show_command ICheck = lit ''CHECK''"
| "show_command ISetAcl = lit ''SETACL''"
| "show_command IDeleteAcl = lit ''DELETEACL''"
| "show_command IGetAcl = lit ''GETACL''"
| "show_command IListRights = lit ''LISTRIGHTS''"
| "show_command IMyRights = lit ''MYRIGHTS''"
| "show_command IUnauthenticate = lit ''UNAUTHENTICATE''"
| "show_command IId = lit ''ID''"
| "show_command IGetQuota = lit ''GETQUOTA''"
| "show_command IGetQuotaRoot = lit ''GETQUOTAROOT''"
| "show_command IGetJmapAccess = lit ''GETJMAPACCESS''"

text \<open>The name of a command without the prefix \<^verbatim>\<open>UID\<close>.\<close>

definition command_name :: "imap_command \<Rightarrow> bytes" where
  "command_name c = (if command_is_uid c then drop 4 (show_command c) else show_command c)"

lemma show_command_name: "show_command c = (if command_is_uid c then lit ''UID '' else []) @ command_name c"
  by (cases c rule: show_command.cases) (simp_all add: command_name_def command_is_uid_def)

lemma drop_lit: "drop n (lit s) = lit (drop n s)"
  by (simp add: lit_def drop_map)

lemma unat_of_char: "unat (of_char c :: byte) = (of_char c :: nat)"
  by (simp add: of_char_def unat_word_ariths)

lemma lit_eq_iff: "lit s = lit t \<longleftrightarrow> s = t"
proof -
  have "inj (of_char :: char \<Rightarrow> byte)"
    by (rule injI) (metis of_char_eq_iff unat_of_char)
  then show ?thesis by (simp add: lit_def inj_map_eq_map)
qed

lemma parse_command_name: "parse_command (command_name c) (command_is_uid c) = Some c"
  by (cases c rule: show_command.cases)
    (simp_all add: command_name_def command_is_uid_def parse_command_def imap_commands_def drop_lit lit_eq_iff del: lit_simps)

definition upper_name :: "bytes \<Rightarrow> bool" where
  "upper_name bs \<longleftrightarrow> bs \<noteq> [] \<and> length bs \<le> 15 \<and> list_all is_upper bs \<and> \<not> eq_ignore_ascii_case bs (lit ''UID'')"

lemma command_name_upper: "upper_name (command_name c)"
  by (cases c rule: show_command.cases)
    (simp_all add: command_name_def command_is_uid_def upper_name_def is_upper_def eq_ignore_ascii_case_def to_lower_def)

lemma upper_facts: "is_upper b \<Longrightarrow> is_alnum b \<and> to_upper b = b"
  by (auto simp: is_upper_def is_alnum_def to_upper_def is_lower_def word_le_nat_alt)


section \<open>Requests of a client\<close>

record client_request =
  c_tag :: bytes
  c_command :: imap_command
  c_args :: "(bool \<times> wire_arg) list"

definition client_text :: "client_request \<Rightarrow> bytes" where
  "client_text q = c_tag q @ [32] @ show_command (c_command q) @ [32] @ print_args (c_args q) @ [13, 10]"

definition client_request_of :: "client_request \<Rightarrow> imap_command imap_request" where
  "client_request_of q = \<lparr>rq_tag = c_tag q, rq_command = c_command q, rq_tokens = map (arg_token \<circ> snd) (c_args q)\<rparr>"

definition well_written :: "nat \<Rightarrow> client_request \<Rightarrow> bool" where
  "well_written m q \<longleftrightarrow>
     valid_tag (c_tag q) \<and> list_all (valid_arg (tokenize_brackets (c_command q))) (map snd (c_args q)) \<and>
     list_all (no_sync \<circ> snd) (c_args q) \<and> spaced False True (c_args q) \<and>
     (\<Sum>a \<leftarrow> map snd (c_args q). arg_weight a) \<le> m"

definition wire_of :: "client_request \<Rightarrow> wire_request" where
  "wire_of q = \<lparr>w_tag = c_tag q, w_uid = command_is_uid (c_command q), w_name = command_name (c_command q),
     w_args = c_args q\<rparr>"

lemma upper_name_map: "list_all is_upper bs \<Longrightarrow> map to_upper bs = bs \<and> list_all is_alnum bs"
  by (induction bs) (auto simp: upper_facts)

lemma wire_of_valid: "well_written m q \<Longrightarrow> valid_request imap_parser m (wire_of q)"
  using command_name_upper [of "c_command q"] parse_command_name [of "c_command q"]
    upper_name_map [of "command_name (c_command q)"]
  by (simp add: well_written_def valid_request_def wire_of_def upper_name_def imap_parser_def)

lemma wire_of_text: "print_request (wire_of q) = client_text q"
  by (simp add: print_request_def print_head_def wire_of_def client_text_def show_command_name del: lit_simps)

lemma wire_of_request: "request_of imap_parser (wire_of q) = client_request_of q"
  using command_name_upper [of "c_command q"] parse_command_name [of "c_command q"]
    upper_name_map [of "command_name (c_command q)"]
  by (simp add: request_of_def wire_of_def client_request_of_def upper_name_def imap_parser_def)

lemma client_run:
  assumes "list_all (well_written m) qs"
  shows "recv_run imap_parser (with_max_request_size imap_parser m) (concat (map client_text qs)) =
    (with_max_request_size imap_parser m, map Received (map client_request_of qs))"
proof -
  have "list_all (valid_request imap_parser m) (map wire_of qs)"
    using assms by (auto simp: list_all_iff wire_of_valid)
  moreover have "list_all (\<lambda>w. list_all (no_sync \<circ> snd) (w_args w)) (map wire_of qs)"
    using assms by (simp add: list_all_iff well_written_def wire_of_def)
  ultimately show ?thesis
    using requests_run [of imap_parser m "map wire_of qs"] by (simp add: wire_of_request wire_of_text comp_def)
qed



text \<open>
  C35: The size limit does not bound a request: an empty quoted string adds a token without adding to the
  count, so one line of a client, before it has logged in, makes the receiver keep as many tokens as the
  line has pairs of quotes, whatever the configured maximum.
\<close>

theorem empty_quotes_uncounted:
  "let r = fst (recv_reads imap_parser (with_max_request_size imap_parser m)
             [lit ''a NOOP '' @ concat (replicate n [34, 34])])
   in rq_tokens (rv_request r) = replicate n TokNil \<and> rv_current r = 0"
proof -
  let ?s = "\<lambda>n. rst m (lit ''a'') INoop (RArgument 32) [] (replicate n TokNil) 0"
  let ?q = "\<lparr>c_tag = lit ''a'', c_command = INoop, c_args = []\<rparr>"
  have "well_written m ?q" by (simp add: well_written_def valid_tag_def is_ascii_whitespace_def)
  then have "valid_request imap_parser m (wire_of ?q)" by (rule wire_of_valid)
  moreover have "print_head (wire_of ?q) = lit ''a NOOP ''"
    by (simp add: print_head_def wire_of_def command_name_def command_is_uid_def)
  moreover have "map to_upper (w_name (wire_of ?q)) = command_name INoop" "w_uid (wire_of ?q) = command_is_uid INoop"
    using command_name_upper [of INoop] upper_name_map [of "command_name INoop"] by (simp_all add: wire_of_def upper_name_def)
  ultimately have head: "recv_run imap_parser (rst m [] INoop RStart [] [] 0) (lit ''a NOOP '') = (?s 0, [])"
    using head_run [of imap_parser m "wire_of ?q" INoop INoop] parse_command_name [of INoop]
    by (simp add: imap_parser_def wire_of_def del: lit_simps)
  have pair: "recv_run imap_parser (?s k) [34, 34] = (?s (Suc k), [])" for k
    by (simp add: recv_byte_def argument_byte_def quoted_byte_def push_argument_def go_on_def rst_def set_state_def
        push_tok_def replicate_append_same)
  have "recv_run imap_parser (?s k) (concat (replicate n [34, 34])) = (?s (k + n), [])" for k
  proof (induction n arbitrary: k)
    case (Suc n)
    show ?case
      using run_then [OF pair [of k], of "concat (replicate n [34, 34])"] Suc [of "Suc k"] by simp
  qed simp
  from this [of 0] have "recv_run imap_parser (rst m [] INoop RStart [] [] 0) (lit ''a NOOP '' @ concat (replicate n [34, 34])) =
      (?s n, map Received [])"
    by (simp add: run_then [OF head] del: lit_simps)
  moreover have "with_max_request_size imap_parser m = rst m [] INoop RStart [] [] 0"
    by (simp add: with_max_request_size_def receiver_default_def rst_def default_request_def imap_parser_def)
  ultimately show ?thesis
    using recv_reads_requests [of imap_parser _ "[lit ''a NOOP '' @ concat (replicate n [34, 34])]"]
    by (simp add: rst_def del: lit_simps)
qed

end
