(* ===== verification/Base32.thy ===== *)
theory Base32
  imports Text Contracts
begin

text \<open>
  The base-32 text form of binary keys (\<^verbatim>\<open>utils/src/codec/base32_custom.rs\<close>): a writer that
  turns bytes into characters as they come, and the reader that iterates over the bytes again. Five
  bytes are eight characters of five bits; both sides keep the last byte or the last character, since
  the groups do not end at byte boundaries.
\<close>

section \<open>Alphabet\<close>

definition BASE32_ALPHABET :: bytes where
  "BASE32_ALPHABET = lit ''abcdefghijklmnopqrstuvwxyz792013''"

definition BASE32_INVERSE :: bytes where
  "BASE32_INVERSE =
    [255, 255, 255, 255, 255, 255, 255, 255, 255, 255, 255, 255, 255, 255, 255, 255,
     255, 255, 255, 255, 255, 255, 255, 255, 255, 255, 255, 255, 255, 255, 255, 255,
     255, 255, 255, 255, 255, 255, 255, 255, 255, 255, 255, 255, 255, 255, 255, 255,
     29, 30, 28, 31, 255, 255, 255, 26, 255, 27, 255, 255, 255, 255, 255, 255,
     255, 255, 255, 255, 255, 255, 255, 255, 255, 255, 255, 10, 11, 12, 13, 14,
     15, 16, 17, 18, 19, 20, 21, 22, 23, 24, 25, 255, 255, 255, 255, 255,
     255, 0, 1, 2, 3, 4, 5, 6, 7, 8, 9, 10, 11, 12, 13, 14,
     15, 16, 17, 18, 19, 20, 21, 22, 23, 24, 25, 255, 255, 255, 255, 255,
     255, 255, 255, 255, 255, 255, 255, 255, 255, 255, 255, 255, 255, 255, 255, 255,
     255, 255, 255, 255, 255, 255, 255, 255, 255, 255, 255, 255, 255, 255, 255, 255,
     255, 255, 255, 255, 255, 255, 255, 255, 255, 255, 255, 255, 255, 255, 255, 255,
     255, 255, 255, 255, 255, 255, 255, 255, 255, 255, 255, 255, 255, 255, 255, 255,
     255, 255, 255, 255, 255, 255, 255, 255, 255, 255, 255, 255, 255, 255, 255, 255,
     255, 255, 255, 255, 255, 255, 255, 255, 255, 255, 255, 255, 255, 255, 255, 255,
     255, 255, 255, 255, 255, 255, 255, 255, 255, 255, 255, 255, 255, 255, 255, 255,
     255, 255, 255, 255, 255, 255, 255, 255, 255, 255, 255, 255, 255, 255, 255, 255]"

lemma alphabet_length: "length BASE32_ALPHABET = 32" and inverse_length: "length BASE32_INVERSE = 256"
  by (simp_all add: BASE32_ALPHABET_def BASE32_INVERSE_def)

section \<open>Writer\<close>

record base32_writer =
  w_last_byte :: byte
  w_pos :: nat
  w_result :: bytes

definition new_writer :: base32_writer where
  "new_writer = \<lparr>w_last_byte = 0, w_pos = 0, w_result = []\<rparr>"

definition push_string :: "bytes \<Rightarrow> base32_writer \<Rightarrow> base32_writer" where
  "push_string s w = w\<lparr>w_result := w_result w @ s\<rparr>"

text \<open>The one or two five-bit values a byte completes; 255 stands for none.\<close>

definition byte_chars :: "nat \<Rightarrow> byte \<Rightarrow> byte \<Rightarrow> byte \<times> byte" where
  "byte_chars phase prev b =
     (if phase = 0 then (drop_bit 3 (b AND 0xF8), 255)
      else if phase = 1 then
        (push_bit 2 (prev AND 0x07) OR drop_bit 6 (b AND 0xC0), drop_bit 1 (b AND 0x3E))
      else if phase = 2 then (push_bit 4 (prev AND 0x01) OR drop_bit 4 (b AND 0xF0), 255)
      else if phase = 3 then
        (push_bit 1 (prev AND 0x0F) OR drop_bit 7 b, drop_bit 2 (b AND 0x7C))
      else (push_bit 3 (prev AND 0x03) OR drop_bit 5 (b AND 0xE0), b AND 0x1F))"

text \<open>An index past the alphabet panics.\<close>

definition alphabet_char :: "byte \<Rightarrow> (byte, unit) result" where
  "alphabet_char c = index_at BASE32_ALPHABET (unat c)"

definition push_byte :: "byte \<Rightarrow> bool \<Rightarrow> base32_writer \<Rightarrow> (base32_writer, unit) result" where
  "push_byte b is_remainder w =
     (let (ch1, ch2) = byte_chars (w_pos w mod 5) (w_last_byte w) b in
      and_then (alphabet_char ch1) (\<lambda>c1.
      if is_remainder then Ok (w\<lparr>w_result := w_result w @ [c1]\<rparr>)
      else
        and_then (if ch2 \<noteq> 255 then and_then (alphabet_char ch2) (\<lambda>c. Ok [c]) else Ok []) (\<lambda>c2.
        Ok (w\<lparr>w_result := w_result w @ c1 # c2, w_last_byte := b, w_pos := w_pos w + 1\<rparr>))))"

fun write_bytes32 :: "bytes \<Rightarrow> base32_writer \<Rightarrow> (base32_writer, unit) result" where
  "write_bytes32 [] w = Ok w"
| "write_bytes32 (b # bs) w = and_then (push_byte b False w) (write_bytes32 bs)"

definition finalize32 :: "base32_writer \<Rightarrow> (bytes, unit) result" where
  "finalize32 w =
     (if w_pos w mod 5 \<noteq> 0 then and_then (push_byte 0 True w) (\<lambda>w. Ok (w_result w))
      else Ok (w_result w))"

definition from_bytes32 :: "bytes \<Rightarrow> (base32_writer, unit) result" where
  "from_bytes32 bs = write_bytes32 bs new_writer"

section \<open>Reader\<close>

record base32_reader =
  r_bytes :: bytes
  r_last_byte :: byte
  r_pos :: nat

definition new_reader :: "bytes \<Rightarrow> base32_reader" where
  "new_reader bs = \<lparr>r_bytes = bs, r_last_byte = 0, r_pos = 0\<rparr>"

definition map_byte :: "base32_reader \<Rightarrow> byte option \<times> base32_reader" where
  "map_byte r =
     (case r_bytes r of
        [] \<Rightarrow> (None, r)
      | c # cs \<Rightarrow>
          (let v = BASE32_INVERSE ! unat c; r' = r\<lparr>r_bytes := cs\<rparr> in
           if v \<noteq> 255 then (Some v, r'\<lparr>r_last_byte := v\<rparr>) else (None, r')))"

definition or_0 :: "byte option \<Rightarrow> byte" where
  "or_0 x = (case x of Some v \<Rightarrow> v | None \<Rightarrow> 0)"

definition reader_next :: "base32_reader \<Rightarrow> byte option \<times> base32_reader" where
  "reader_next r =
     (let phase = r_pos r mod 5; last_byte = r_last_byte r in
      case map_byte r of
        (None, r1) \<Rightarrow> (None, r1)
      | (Some b, r1) \<Rightarrow>
          (let r2 = r1\<lparr>r_pos := r_pos r1 + 1\<rparr>; (extra, r3) = map_byte r2 in
           if phase = 0 then (Some (push_bit 3 b OR drop_bit 2 (or_0 extra)), r3)
           else if phase = 1 then
             (Some (push_bit 6 last_byte OR push_bit 1 b OR drop_bit 4 (or_0 extra)), r3)
           else if phase = 2 then (Some (push_bit 4 last_byte OR drop_bit 1 b), r2)
           else if phase = 3 then
             (Some (push_bit 7 last_byte OR push_bit 2 b OR drop_bit 3 (or_0 extra)), r3)
           else (Some (push_bit 5 last_byte OR b), r2)))"

lemma map_byte_length:
  "length (r_bytes (snd (map_byte r))) \<le> length (r_bytes r)"
  "map_byte r = (Some v, r') \<Longrightarrow> length (r_bytes r') < length (r_bytes r)"
  by (auto simp: map_byte_def Let_def split: list.splits if_split_asm)

lemma reader_next_length:
  assumes "reader_next r = (Some v, r')"
  shows "length (r_bytes r') < length (r_bytes r)"
proof -
  obtain b r1 where one: "map_byte r = (Some b, r1)"
    using assms by (cases "map_byte r"; cases "fst (map_byte r)") (auto simp: reader_next_def Let_def)
  define r2 where "r2 = r1\<lparr>r_pos := r_pos r1 + 1\<rparr>"
  have "r' = r2 \<or> r' = snd (map_byte r2)"
    using assms by (auto simp: reader_next_def Let_def one r2_def split: prod.splits if_split_asm)
  then have "length (r_bytes r') \<le> length (r_bytes r1)"
    using map_byte_length(1) [of r2] by (auto simp: r2_def)
  with map_byte_length(2) [OF one] show ?thesis by simp
qed

text \<open>A \<^verbatim>\<open>for\<close> loop over the reader.\<close>

function read_all :: "base32_reader \<Rightarrow> bytes" where
  "read_all r = (case reader_next r of (Some b, r') \<Rightarrow> b # read_all r' | (None, _) \<Rightarrow> [])"
  by pat_completeness auto
termination
  by (relation "measure (\<lambda>r. length (r_bytes r))") (simp_all, metis reader_next_length)

declare read_all.simps [simp del]

section \<open>The stream of five-bit values\<close>

fun enc5 :: "nat \<Rightarrow> byte \<Rightarrow> bytes \<Rightarrow> bytes" where
  "enc5 q prev [] = (if q = 0 then [] else [fst (byte_chars q prev 0)])"
| "enc5 q prev (b # bs) =
     fst (byte_chars q prev b) # (if q = 0 \<or> q = 2 then [] else [snd (byte_chars q prev b)]) @
     enc5 (Suc q mod 5) b bs"

lemma byte_eqI:
  assumes "bit a 0 = bit b 0" "bit a 1 = bit b 1" "bit a 2 = bit b 2" "bit a 3 = bit b 3"
    "bit a 4 = bit b 4" "bit a 5 = bit b 5" "bit a 6 = bit b 6" "bit a 7 = bit b 7"
  shows "a = (b :: byte)"
proof (rule bit_word_eqI)
  fix i assume "i < LENGTH(8)"
  then have "i \<in> {0, 1, 2, 3, 4, 5, 6, 7}" by auto
  with assms show "bit a i = bit b i" by auto
qed

lemma phase_cases: "q < 5 \<Longrightarrow> q = 0 \<or> q = 1 \<or> q = 2 \<or> q = 3 \<or> q = (4 :: nat)"
  by auto

lemma byte_bit_beyond: "8 \<le> n \<Longrightarrow> \<not> bit b n" for b :: byte
  using bit_imp_le_length [of b n] by auto

lemma bit_Suc_numerals: "bit b (Suc (Suc 0)) = bit b 2" "bit b (Suc (Suc (Suc 0))) = bit b 3" for b :: byte
  by (simp_all add: numeral_2_eq_2 numeral_3_eq_3)

lemmas byte_bits = bit_Suc_numerals bit_simps bit_double_iff mult.commute [of _ "2 :: byte"] byte_bit_beyond

lemma byte_less_32:
  assumes "\<not> bit c 5" "\<not> bit c 6" "\<not> bit c 7"
  shows "unat (c :: byte) < 32"
proof -
  have "take_bit 5 c = c" by (rule byte_eqI) (simp_all add: bit_simps assms)
  then have "take_bit 5 (unat c) = unat c" by (metis unsigned_take_bit_eq)
  then show ?thesis using take_bit_nat_less_exp [of 5 "unat c"] by simp
qed

lemma byte_chars_small:
  assumes "q < 5"
  shows "unat (fst (byte_chars q prev b)) < 32"
    and "q \<noteq> 0 \<Longrightarrow> q \<noteq> 2 \<Longrightarrow> unat (snd (byte_chars q prev b)) < 32"
    and "q = 0 \<or> q = 2 \<Longrightarrow> snd (byte_chars q prev b) = 255"
  using phase_cases [OF assms]
  by (auto simp: byte_chars_def byte_bits intro!: byte_less_32)

lemma enc5_small: "q < 5 \<Longrightarrow> c \<in> set (enc5 q prev bs) \<Longrightarrow> unat c < 32"
proof (induction q prev bs rule: enc5.induct)
  case (2 q prev b bs)
  then show ?case
    using byte_chars_small [OF "2.prems"(1), of prev b] by (auto split: if_split_asm)
qed (auto simp: byte_chars_small split: if_split_asm)

definition alpha :: "byte \<Rightarrow> byte" where
  "alpha c = BASE32_ALPHABET ! unat c"

lemma inverse_alpha: "unat c < 32 \<Longrightarrow> BASE32_INVERSE ! unat (alpha c) = c"
proof -
  assume "unat c < 32"
  moreover have "\<forall>i \<in> set [0..<32]. BASE32_INVERSE ! unat (BASE32_ALPHABET ! i) = of_nat i"
    by (simp add: upt_rec BASE32_INVERSE_def BASE32_ALPHABET_def)
  ultimately show ?thesis by (simp add: alpha_def)
qed

lemma small_not_255: "unat c < 32 \<Longrightarrow> c \<noteq> (255 :: byte)"
  by auto

section \<open>Writer and stream\<close>

lemma alphabet_char_small: "unat c < 32 \<Longrightarrow> alphabet_char c = Ok (alpha c)"
  by (simp add: alphabet_char_def alphabet_length alpha_def)

lemma push_byte_stream:
  "push_byte b False w = Ok
     (w\<lparr>w_result := w_result w @ map alpha (fst (byte_chars (w_pos w mod 5) (w_last_byte w) b) #
          (if w_pos w mod 5 = 0 \<or> w_pos w mod 5 = 2 then [] else [snd (byte_chars (w_pos w mod 5) (w_last_byte w) b)])),
        w_last_byte := b, w_pos := w_pos w + 1\<rparr>)"
  using byte_chars_small [of "w_pos w mod 5" "w_last_byte w" b]
  by (auto simp: push_byte_def case_prod_beta alphabet_char_small small_not_255)

lemma write_stream:
  "and_then (write_bytes32 bs w) finalize32 =
     Ok (w_result w @ map alpha (enc5 (w_pos w mod 5) (w_last_byte w) bs))"
proof (induction bs arbitrary: w)
  case Nil
  then show ?case
    using byte_chars_small(1) [of "w_pos w mod 5" "w_last_byte w" 0]
    by (simp add: finalize32_def push_byte_def case_prod_beta alphabet_char_small)
next
  case (Cons b bs)
  then show ?case by (simp add: push_byte_stream mod_Suc_eq)
qed

section \<open>Reader and stream\<close>

lemma map_byte_alpha:
  "r_bytes r = map alpha (c # cs) \<Longrightarrow> unat c < 32 \<Longrightarrow>
   map_byte r = (Some c, r\<lparr>r_bytes := map alpha cs, r_last_byte := c\<rparr>)"
  by (simp add: map_byte_def inverse_alpha small_not_255)

lemma join_bits:
  "push_bit 3 (drop_bit 3 (b AND 0xF8)) OR drop_bit 2 (push_bit 2 (b AND 0x07) OR drop_bit 6 (x AND 0xC0)) = b"
  "push_bit 6 (push_bit 2 (l AND 0x07) OR drop_bit 6 (b AND 0xC0)) OR push_bit 1 (drop_bit 1 (b AND 0x3E)) OR
     drop_bit 4 (push_bit 4 (b AND 0x01) OR drop_bit 4 (x AND 0xF0)) = b"
  "push_bit 4 (push_bit 4 (l AND 0x01) OR drop_bit 4 (b AND 0xF0)) OR
     drop_bit 1 (push_bit 1 (b AND 0x0F) OR drop_bit 7 x) = b"
  "push_bit 7 (push_bit 1 (l AND 0x0F) OR drop_bit 7 b) OR push_bit 2 (drop_bit 2 (b AND 0x7C)) OR
     drop_bit 3 (push_bit 3 (b AND 0x03) OR drop_bit 5 (x AND 0xE0)) = b"
  "push_bit 5 (push_bit 3 (l AND 0x03) OR drop_bit 5 (b AND 0xE0)) OR (b AND 0x1F) = b"
  for b l x :: byte
  by (rule byte_eqI; simp add: byte_bits)+

text \<open>
  The reader between two bytes: in phase 0 nothing is pending, in the others the first value of the
  rest of the stream has been read already.
\<close>

definition reads :: "base32_reader \<Rightarrow> byte \<Rightarrow> bytes \<Rightarrow> bool" where
  "reads r prev bs \<longleftrightarrow>
     (let q = r_pos r mod 5; cs = enc5 q prev bs in
      if q = 0 then r_bytes r = map alpha cs
      else r_last_byte r = hd cs \<and> r_bytes r = map alpha (tl cs))"

lemma enc5_pending: "q \<noteq> 0 \<Longrightarrow> \<exists>x cs. enc5 q prev bs = fst (byte_chars q prev x) # cs"
  by (cases bs) auto

lemma join_chars:
  "push_bit 3 (fst (byte_chars 0 l b)) OR drop_bit 2 (fst (byte_chars 1 b x)) = b"
  "push_bit 6 (fst (byte_chars 1 l b)) OR push_bit 1 (snd (byte_chars 1 l b)) OR
     drop_bit 4 (fst (byte_chars 2 b x)) = b"
  "push_bit 4 (fst (byte_chars 2 l b)) OR drop_bit 1 (fst (byte_chars 3 b x)) = b"
  "push_bit 7 (fst (byte_chars 3 l b)) OR push_bit 2 (snd (byte_chars 3 l b)) OR
     drop_bit 3 (fst (byte_chars 4 b x)) = b"
  "push_bit 5 (fst (byte_chars 4 l b)) OR snd (byte_chars 4 l b) = b"
  using join_bits(1) [of b x] join_bits(2, 3, 4) [of l b x] join_bits(5) [of l b]
  by (simp_all add: byte_chars_def)

lemmas join_chars_simps = join_chars [simplified] join_chars(2) [unfolded numeral_2_eq_2, simplified]

lemma reader_next_two:
  assumes "r_bytes r = map alpha (c # d # cs)" "unat c < 32" "unat d < 32"
  defines "r' \<equiv> r\<lparr>r_bytes := map alpha cs, r_last_byte := d, r_pos := Suc (r_pos r)\<rparr>"
  shows "r_pos r mod 5 = 0 \<Longrightarrow> reader_next r = (Some (push_bit 3 c OR drop_bit 2 d), r')"
    and "r_pos r mod 5 = 1 \<Longrightarrow>
      reader_next r = (Some (push_bit 6 (r_last_byte r) OR push_bit 1 c OR drop_bit 4 d), r')"
    and "r_pos r mod 5 = 3 \<Longrightarrow>
      reader_next r = (Some (push_bit 7 (r_last_byte r) OR push_bit 2 c OR drop_bit 3 d), r')"
  using assms(2, 3) map_byte_alpha [OF assms(1, 2)]
    map_byte_alpha [of "r\<lparr>r_bytes := map alpha (d # cs), r_last_byte := c, r_pos := Suc (r_pos r)\<rparr>" d cs]
  by (simp_all add: reader_next_def Let_def or_0_def r'_def)

lemma reader_next_one:
  assumes "r_bytes r = map alpha (c # cs)" "unat c < 32"
  defines "r' \<equiv> r\<lparr>r_bytes := map alpha cs, r_last_byte := c, r_pos := Suc (r_pos r)\<rparr>"
  shows "r_pos r mod 5 = 2 \<Longrightarrow> reader_next r = (Some (push_bit 4 (r_last_byte r) OR drop_bit 1 c), r')"
    and "r_pos r mod 5 = 4 \<Longrightarrow> reader_next r = (Some (push_bit 5 (r_last_byte r) OR c), r')"
  using map_byte_alpha [OF assms(1, 2)] by (simp_all add: reader_next_def Let_def r'_def split: prod.split)

lemma reader_next_stream:
  assumes "reads r prev (b # bs)"
  shows "\<exists>r'. reader_next r = (Some b, r') \<and> reads r' b bs"
proof -
  have q: "r_pos r mod 5 < 5" by simp
  let ?q = "r_pos r mod 5"
  have suc: "Suc (r_pos r) mod 5 = Suc ?q mod 5" by (simp add: mod_Suc_eq)
  have small: "unat c < 32" if "c \<in> set (enc5 ?q prev (b # bs))" for c
    using enc5_small [OF q that] .
  obtain x cs where rest: "Suc ?q mod 5 \<noteq> 0 \<longrightarrow>
      enc5 (Suc ?q mod 5) b bs = fst (byte_chars (Suc ?q mod 5) b x) # cs"
    using enc5_pending [of "Suc ?q mod 5" b bs] by blast
  show ?thesis
    using phase_cases [OF q] assms small rest
    by (elim disjE)
      (simp_all add: reads_def suc reader_next_two reader_next_one join_chars_simps Let_def)
qed

lemma read_all_stream: "reads r prev bs \<Longrightarrow> read_all r = bs"
proof (induction bs arbitrary: r prev)
  case Nil
  then have "r_bytes r = []" by (simp add: reads_def Let_def split: if_split_asm)
  then show ?case by (simp add: read_all.simps [of r] reader_next_def map_byte_def Let_def)
next
  case (Cons b bs)
  from reader_next_stream [OF Cons.prems] Cons.IH show ?case
    by (auto simp: read_all.simps [of r])
qed

section \<open>Properties\<close>

text \<open>Writing any bytes in base 32 never panics, uses only the 32 characters of the alphabet, and
  iterating over the text yields exactly these bytes.\<close>

theorem base32_roundtrip:
  "\<exists>s. and_then (from_bytes32 bs) finalize32 = Ok s \<and> set s \<subseteq> set BASE32_ALPHABET \<and>
     read_all (new_reader s) = bs"
proof -
  let ?s = "map alpha (enc5 0 0 bs)"
  have "and_then (from_bytes32 bs) finalize32 = Ok ?s"
    using write_stream [of bs new_writer] by (simp add: from_bytes32_def new_writer_def)
  moreover have "alpha c \<in> set BASE32_ALPHABET" if "c \<in> set (enc5 0 0 bs)" for c
    using enc5_small [OF _ that] by (simp add: alpha_def alphabet_length)
  moreover have "read_all (new_reader ?s) = bs"
    by (rule read_all_stream [of _ 0]) (simp add: reads_def new_reader_def)
  ultimately show ?thesis by (auto simp del: enc5.simps)
qed


end
