(* ===== verification/Jmap_Id.thy ===== *)
theory Jmap_Id
  imports Base32
begin

text \<open>
  JMAP identifiers (\<^verbatim>\<open>types/src/id.rs\<close>): a 64-bit number printed in base 32 without leading zeros
  and read back. The printing loop shifts a stop bit through the word and would not end on a word
  without one, so it is a partial function; that it ends on every identifier is proved.
\<close>

section \<open>Identifiers\<close>

type_synonym jmap_id = u64

definition invalid_id :: jmap_id where
  "invalid_id = - 1"

definition singleton :: jmap_id where
  "singleton = 20080258862541"

definition is_singleton :: "jmap_id \<Rightarrow> bool" where
  "is_singleton n \<longleftrightarrow> n = 20080258862541"

definition is_valid :: "jmap_id \<Rightarrow> bool" where
  "is_valid n \<longleftrightarrow> n \<noteq> - 1"

definition from_parts :: "u32 \<Rightarrow> u32 \<Rightarrow> jmap_id" where
  "from_parts prefix_id doc_id = push_bit 32 (ucast prefix_id) OR ucast doc_id"

definition document_id_of :: "jmap_id \<Rightarrow> u32" where
  "document_id_of n = ucast n"

definition prefix_id_of :: "jmap_id \<Rightarrow> u32" where
  "prefix_id_of n = ucast (drop_bit 32 n)"

section \<open>Reading\<close>

fun from_str_loop :: "u64 \<Rightarrow> bytes \<Rightarrow> jmap_id option" where
  "from_str_loop n [] = Some n"
| "from_str_loop n (ch # s) =
     (let i = BASE32_INVERSE ! unat ch in
      if i \<noteq> 255 then from_str_loop (push_bit 5 n OR ucast i) s else None)"

definition from_str :: "bytes \<Rightarrow> jmap_id option" where
  "from_str s = from_str_loop 0 s"

section \<open>Printing\<close>

definition STOP_BIT :: u64 where
  "STOP_BIT = push_bit 60 1"

definition leading_zeros :: "u64 \<Rightarrow> nat" where
  "leading_zeros n = length (takeWhile (\<lambda>i. \<not> bit n i) (rev [0..<64]))"

partial_function (option) id_loop :: "u64 \<Rightarrow> bytes \<Rightarrow> bytes option" where
  "id_loop n buf =
     (if n = STOP_BIT then Some buf
      else id_loop (push_bit 5 n) (buf @ [BASE32_ALPHABET ! unat (drop_bit 59 n)]))"

definition as_string :: "jmap_id \<Rightarrow> bytes option" where
  "as_string n =
     (if n = 0 then Some (lit ''a'')
      else
        let i = unat (drop_bit 60 n); n' = push_bit 4 n OR 1 in
        if i = 0 then id_loop (push_bit (leading_zeros n' div 5 * 5) n') []
        else id_loop n' [BASE32_ALPHABET ! i])"

section \<open>Digits\<close>

fun digits32 :: "nat \<Rightarrow> nat \<Rightarrow> nat list" where
  "digits32 0 p = []"
| "digits32 (Suc m) p = p div 32 ^ m # digits32 m (p mod 32 ^ m)"

lemma length_digits32 [simp]: "length (digits32 m p) = m"
  by (induction m arbitrary: p) auto

lemma digits32_less: "p < 32 ^ m \<Longrightarrow> d \<in> set (digits32 m p) \<Longrightarrow> d < 32"
proof (induction m arbitrary: p)
  case (Suc m)
  then show ?case
    using Suc.IH [of "p mod 32 ^ m"] by (auto simp: less_mult_imp_div_less)
qed simp

text \<open>The word in the middle of the loop: \<open>p\<close> is left to print, above the stop bit.\<close>

definition holds :: "nat \<Rightarrow> nat \<Rightarrow> u64 \<Rightarrow> bool" where
  "holds m p n \<longleftrightarrow> m \<le> 12 \<and> p < 32 ^ m \<and> unat n = (16 * p + 1) * 32 ^ (12 - m)"

lemma unat_push_bit_u64: "unat (push_bit k n) = unat n * 2 ^ k mod 2 ^ 64" for n :: u64
  by (simp add: unsigned_push_bit_eq push_bit_eq_mult [where 'a = nat] take_bit_eq_mod [where 'a = nat])

lemma holds_0: "holds 0 p n \<Longrightarrow> n = STOP_BIT"
  by (simp add: holds_def STOP_BIT_def word_unat_eq_iff unat_push_bit_u64)

lemma holds_SucE:
  assumes "holds (Suc m) p n"
  obtains K where "unat n = (16 * p + 1) * K" "K * 32 ^ m = 32 ^ 11" "K * 32 = 32 ^ (12 - m)" "0 < K"
proof
  have le: "m \<le> 11" using assms by (simp add: holds_def)
  show "unat n = (16 * p + 1) * 32 ^ (11 - m)" "0 < (32 :: nat) ^ (11 - m)"
    using assms by (simp_all add: holds_def)
  show "(32 :: nat) ^ (11 - m) * 32 ^ m = 32 ^ 11"
    using le by (simp only: power_add [symmetric]) simp
  have "12 - m = Suc (11 - m)" using le by simp
  then show "(32 :: nat) ^ (11 - m) * 32 = 32 ^ (12 - m)" by simp
qed

lemma holds_not_stop:
  assumes "holds (Suc m) p n"
  shows "n \<noteq> STOP_BIT"
proof
  assume stop: "n = STOP_BIT"
  obtain K where K: "unat n = (16 * p + 1) * K" "K * 32 ^ m = 32 ^ 11" "0 < K"
    using holds_SucE [OF assms] by metis
  have "unat n = K * 32 ^ m * 32"
    using stop K(2) by (simp add: STOP_BIT_def unat_push_bit_u64)
  then have "K * (16 * p + 1) = K * (32 * 32 ^ m)"
    using K(1) by (simp add: ac_simps)
  then have "16 * p + 1 = 32 * 32 ^ m" using K(3) by (metis mult_left_cancel neq0_conv)
  then have "even (16 * p + 1)" by (metis dvd_mult2 even_numeral)
  then show False by simp
qed

lemma holds_top:
  assumes "holds (Suc m) p n"
  shows "unat (drop_bit 59 n) = p div 32 ^ m"
proof -
  obtain K where K: "unat n = (16 * p + 1) * K" "K * 32 ^ m = 32 ^ 11" "0 < K"
    using holds_SucE [OF assms] by metis
  have "(2 :: nat) ^ 59 = K * (16 * 32 ^ m)" using K(2) by (simp add: ac_simps)
  moreover have "unat (drop_bit 59 n) = unat n div 2 ^ 59"
    using unat_drop_bit_eq [of 59 n] by (simp add: drop_bit_eq_div [where 'a = nat])
  ultimately have "unat (drop_bit 59 n) = (K * (16 * p + 1)) div (K * (16 * 32 ^ m))"
    by (simp only: K(1) mult.commute [of K])
  also have "\<dots> = (16 * p + 1) div (16 * 32 ^ m)"
    by (rule div_mult_mult1) (use K(3) in simp)
  also have "\<dots> = p div 32 ^ m"
  proof -
    have "(16 * p + 1) div 16 = p" by linarith
    then show ?thesis by (simp only: div_mult2_eq)
  qed
  finally show ?thesis .
qed

lemma holds_next:
  assumes "holds (Suc m) p n"
  shows "holds m (p mod 32 ^ m) (push_bit 5 n)"
proof -
  obtain K where K: "unat n = (16 * p + 1) * K" "K * 32 ^ m = 32 ^ 11" "K * 32 = 32 ^ (12 - m)" "0 < K"
    using holds_SucE [OF assms] by metis
  define q r where "q = p div 32 ^ m" and "r = p mod 32 ^ m"
  have p: "p = q * 32 ^ m + r" unfolding q_def r_def by (rule div_mult_mod_eq [symmetric])
  have r: "r < 32 ^ m" by (simp add: r_def)
  have full: "(2 :: nat) ^ 64 = 16 * 32 * (K * 32 ^ m)" using K(2) by simp
  have "unat n * 2 ^ 5 = q * (16 * 32 * (K * 32 ^ m)) + (16 * r + 1) * (K * 32)"
    by (simp add: K(1) p algebra_simps)
  then have "unat n * 2 ^ 5 mod 2 ^ 64 = (16 * r + 1) * (K * 32) mod 2 ^ 64"
    by (simp only: full) simp
  moreover have "(16 * r + 1) * (K * 32) < 2 ^ 64"
  proof -
    have "16 * r + 1 < 16 * 32 ^ m" using r by simp
    then have "(16 * r + 1) * (K * 32) < 16 * 32 ^ m * (K * 32)"
      using K(4) by (intro mult_strict_right_mono) simp_all
    then show ?thesis by (simp only: full) (simp add: ac_simps)
  qed
  ultimately have "unat (push_bit 5 n) = (16 * r + 1) * 32 ^ (12 - m)"
    by (simp add: unat_push_bit_u64 K(3))
  with assms r show ?thesis by (simp add: holds_def r_def)
qed

lemma id_loop_digits:
  "holds m p n \<Longrightarrow> id_loop n buf = Some (buf @ map (\<lambda>d. BASE32_ALPHABET ! d) (digits32 m p))"
proof (induction m arbitrary: p n buf)
  case 0
  then show ?case by (subst id_loop.simps) (simp add: holds_0)
next
  case (Suc m)
  show ?case
    using Suc.IH [OF holds_next [OF Suc.prems]] holds_not_stop [OF Suc.prems] holds_top [OF Suc.prems]
    by (subst id_loop.simps) simp
qed

section \<open>Reading digits\<close>

lemma or_digit: "i < 32 \<Longrightarrow> push_bit 5 n OR of_nat i = n * 32 + of_nat i" for n :: u64
proof -
  assume "i < 32"
  then have "take_bit 5 (of_nat i :: u64) = of_nat i"
    by (simp add: take_bit_eq_mod word_unat_eq_iff unat_word_ariths unat_of_nat)
  then have low: "bit (of_nat i :: u64) k \<Longrightarrow> k < 5" for k by (metis bit_take_bit_iff)
  have "\<not> bit (push_bit 5 n AND of_nat i) k" for k
    using low [of k] by (auto simp: bit_and_iff bit_push_bit_iff)
  then have "push_bit 5 n AND of_nat i = 0"
    by (simp add: bit_eq_iff)
  then have "push_bit 5 n OR of_nat i = push_bit 5 n + of_nat i"
    by (simp only: disjunctive_add_eq_or)
  then show ?thesis by (simp add: push_bit_eq_mult)
qed

lemma inverse_digit: "d < 32 \<Longrightarrow> BASE32_INVERSE ! unat (BASE32_ALPHABET ! d) = of_nat d"
  using inverse_alpha [of "of_nat d"] by (simp add: alpha_def unat_of_nat)

lemma from_str_digits:
  "p < 32 ^ m \<Longrightarrow>
   from_str_loop n (map (\<lambda>d. BASE32_ALPHABET ! d) (digits32 m p) @ s) = from_str_loop (n * 32 ^ m + of_nat p) s"
proof (induction m arbitrary: p n)
  case 0
  then show ?case by simp
next
  case (Suc m)
  let ?d = "p div 32 ^ m"
  have d: "?d < 32" using Suc.prems by (simp add: less_mult_imp_div_less)
  have "of_nat p = of_nat ?d * 32 ^ m + (of_nat (p mod 32 ^ m) :: u64)"
    by (metis div_mult_mod_eq of_nat_add of_nat_mult of_nat_numeral of_nat_power)
  moreover have "ucast (of_nat ?d :: byte) = (of_nat ?d :: u64)"
    using d by (simp add: word_unat_eq_iff unsigned_ucast_eq unat_of_nat take_bit_nat_eq_self)
  ultimately show ?case
    using Suc.IH [of "p mod 32 ^ m"] d small_not_255 [of "of_nat ?d"]
    by (simp add: inverse_digit unat_of_nat or_digit algebra_simps)
qed

section \<open>Before the loop\<close>

lemma or_one: "push_bit 4 n OR 1 = push_bit 4 n + 1" for n :: u64
proof -
  have "\<not> bit (push_bit 4 n AND 1) k" for k
    by (auto simp: bit_and_iff bit_push_bit_iff bit_1_iff)
  then have "push_bit 4 n AND 1 = 0" by (simp add: bit_eq_iff)
  then show ?thesis by (simp only: disjunctive_add_eq_or)
qed

lemma unat_tagged: "unat (push_bit 4 n OR 1) = 16 * (unat n mod 2 ^ 60) + 1" for n :: u64
proof -
  have "unat n * 16 mod 2 ^ 64 = (unat n mod 2 ^ 60) * 16"
    using mult_mod_left [of "unat n" "2 ^ 60" 16] by simp
  moreover have "(unat n mod 2 ^ 60) * 16 + 1 < 2 ^ 64"
    using mod_less_divisor [of "2 ^ 60" "unat n"] by simp
  ultimately have "unat (push_bit 4 n + 1) = (unat n mod 2 ^ 60) * 16 + 1"
    by (simp add: unat_word_ariths unat_push_bit_u64)
  then show ?thesis by (simp add: or_one mult.commute)
qed

lemma leading_zeros_bound: "unat n < 2 ^ (64 - leading_zeros n)"
proof -
  let ?k = "leading_zeros n"
  have le: "?k \<le> 64"
    unfolding leading_zeros_def by (rule order_trans [OF length_takeWhile_le]) simp
  have "\<not> bit n i" if "64 - ?k \<le> i" for i
  proof (cases "i < 64")
    case True
    have "rev [0..<64] ! (63 - i) = i" using True by (simp add: rev_nth)
    moreover have "63 - i < ?k" using that True le by linarith
    then have "\<not> bit n (takeWhile (\<lambda>i. \<not> bit n i) (rev [0..<64]) ! (63 - i))"
      unfolding leading_zeros_def by (metis nth_mem set_takeWhileD)
    ultimately show ?thesis
      using \<open>63 - i < ?k\<close> by (simp add: leading_zeros_def takeWhile_nth)
  qed (auto dest: bit_imp_le_length)
  then have "bit n i \<Longrightarrow> i < 64 - ?k" for i by (meson not_le)
  then have "take_bit (64 - ?k) n = n"
    by (auto simp: bit_eq_iff bit_take_bit_iff)
  then have "take_bit (64 - ?k) (unat n) = unat n" by (metis unsigned_take_bit_eq)
  then show ?thesis by (metis take_bit_nat_less_exp)
qed

lemma holds_skipped:
  assumes "n \<noteq> 0" "unat n < 2 ^ 60"
  defines "n' \<equiv> push_bit 4 n OR 1"
  shows "holds (12 - leading_zeros n' div 5) (unat n) (push_bit (leading_zeros n' div 5 * 5) n')"
proof -
  let ?j = "leading_zeros n' div 5"
  have n': "unat n' = 16 * unat n + 1" using assms(2) by (simp add: n'_def unat_tagged)
  have pos: "1 \<le> unat n" using assms(1) by (simp add: Suc_le_eq unat_gt_0)
  have bound: "unat n' < 2 ^ (64 - 5 * ?j)"
    using leading_zeros_bound [of n'] power_increasing [of "64 - leading_zeros n'" "64 - 5 * ?j" "2 :: nat"]
    by (simp add: diff_le_mono2 le_less_trans less_le_trans)
  have j: "?j \<le> 11"
  proof (rule ccontr)
    assume "\<not> ?j \<le> 11"
    then have "64 - 5 * ?j \<le> 4" by simp
    then have "(2 :: nat) ^ (64 - 5 * ?j) \<le> 2 ^ 4" by (intro power_increasing) simp_all
    with bound n' pos show False by simp
  qed
  have "64 - 5 * ?j = 4 + 5 * (12 - ?j)" using j by simp
  then have e': "(2 :: nat) ^ (64 - 5 * ?j) = 16 * 32 ^ (12 - ?j)"
    using power_mult [of "2 :: nat" 5 "12 - ?j"] by (simp add: power_add)
  have "(32 :: nat) ^ (12 - ?j) * 32 ^ ?j = 32 ^ 12"
    using j by (simp only: power_add [symmetric]) simp
  then have e: "(2 :: nat) ^ (64 - 5 * ?j) * 32 ^ ?j = 2 ^ 64" by (simp add: e' mult.commute)
  have "unat n' * 32 ^ ?j < 2 ^ 64"
    using bound e by (metis mult_less_cancel2 zero_less_numeral zero_less_power)
  then have "unat (push_bit (?j * 5) n') = unat n' * 32 ^ ?j"
    using power_mult [of "2 :: nat" 5 ?j] by (simp add: unat_push_bit_u64 mult.commute [of ?j])
  moreover have "unat n < 32 ^ (12 - ?j)" using bound n' e' by simp
  ultimately show ?thesis using j n' by (simp add: holds_def)
qed

lemma as_string_digits:
  assumes "n \<noteq> 0"
  shows "\<exists>m p. as_string n = Some (map (\<lambda>d. BASE32_ALPHABET ! d) (digits32 m p)) \<and>
    p < 32 ^ m \<and> m \<le> 13 \<and> of_nat p = n"
proof (cases "unat n < 2 ^ 60")
  case True
  then have "drop_bit 60 n = 0"
    using unat_drop_bit_eq [of 60 n] by (simp add: drop_bit_eq_div [where 'a = nat] unat_eq_zero)
  then have "as_string n = Some (map (\<lambda>d. BASE32_ALPHABET ! d)
      (digits32 (12 - leading_zeros (push_bit 4 n OR 1) div 5) (unat n)))"
    using id_loop_digits [OF holds_skipped [OF assms True], of "[]"] assms
    by (simp only: as_string_def Let_def unsigned_0 if_False simp_thms if_True append_Nil)
  moreover have "unat n < 32 ^ (12 - leading_zeros (push_bit 4 n OR 1) div 5)"
    using holds_skipped [OF assms True] by (simp add: holds_def)
  ultimately show ?thesis
    by (intro exI [of _ "12 - leading_zeros (push_bit 4 n OR 1) div 5"] exI [of _ "unat n"]) simp
next
  case False
  let ?i = "unat (drop_bit 60 n)" and ?p = "unat n mod 2 ^ 60"
  have i: "?i = unat n div 2 ^ 60"
    using unat_drop_bit_eq [of 60 n] by (simp add: drop_bit_eq_div [where 'a = nat])
  have "?i \<noteq> 0" using False i by simp
  have "holds 12 ?p (push_bit 4 n OR 1)"
    by (simp add: holds_def unat_tagged)
  from id_loop_digits [OF this, of "[BASE32_ALPHABET ! ?i]"] \<open>?i \<noteq> 0\<close>
  have "as_string n = Some (map (\<lambda>d. BASE32_ALPHABET ! d) (?i # digits32 12 ?p))"
    by (simp add: as_string_def assms Let_def)
  moreover have "?i # digits32 12 ?p = digits32 (Suc 12) (unat n)"
    by (simp only: digits32.simps i) simp
  moreover have "Suc 12 = (13 :: nat)" by simp
  moreover have "unat n < 32 ^ 13" using unat_bound [of n] by simp
  ultimately show ?thesis
    by (intro exI [of _ 13] exI [of _ "unat n"] conjI) (simp_all only: unat_of_nat of_nat_unat, simp_all)
qed

lemma as_string_from_str:
  "\<exists>s. as_string n = Some s \<and> s \<noteq> [] \<and> length s \<le> 13 \<and> from_str s = Some n"
proof (cases "n = 0")
  case True
  then show ?thesis
    using inverse_digit [of 0] by (simp add: as_string_def from_str_def BASE32_ALPHABET_def)
next
  case False
  then obtain m p where mp: "as_string n = Some (map (\<lambda>d. BASE32_ALPHABET ! d) (digits32 m p))"
      "p < 32 ^ m" "m \<le> 13" "of_nat p = n"
    using as_string_digits by blast
  have "m \<noteq> 0" using mp(2, 4) False by (cases m) auto
  then have "digits32 m p \<noteq> []" by (metis length_digits32 list.size(3))
  with mp from_str_digits [OF mp(2), of 0 "[]"] show ?thesis
    by (simp add: from_str_def)
qed

definition print_id :: "jmap_id \<Rightarrow> bytes" where
  "print_id n = the (as_string n)"

interpretation jmap_id: text_code print_id from_str "\<lambda>_. True"
  by unfold_locales (metis as_string_from_str option.sel print_id_def)

lemma parts_roundtrip:
  "document_id_of (from_parts p d) = d" "prefix_id_of (from_parts p d) = p"
  by (rule bit_word_eqI; auto simp: document_id_of_def prefix_id_of_def from_parts_def bit_simps
      dest: bit_imp_le_length)+

section \<open>Properties\<close>

text \<open>Every one of the \<open>2 ^ 64\<close> identifiers prints (the printing loop ends), as one to thirteen
  characters, and reading the text gives the same identifier; so different identifiers print
  differently.\<close>

theorem jmap_id_roundtrip:
  "\<exists>s. as_string n = Some s \<and> s \<noteq> [] \<and> length s \<le> 13 \<and> from_str s = Some n \<and>
     (\<forall>n'. as_string n' = Some s \<longrightarrow> n' = n)"
proof -
  obtain s where s: "as_string n = Some s" "s \<noteq> []" "length s \<le> 13" "from_str s = Some n"
    using as_string_from_str by blast
  moreover have "n' = n" if "as_string n' = Some s" for n'
    using jmap_id.print_inj [of n' n] s(1) that by (simp add: print_id_def)
  ultimately show ?thesis by blast
qed

theorem jmap_id_roundtrip_witness:
  "\<exists>s. as_string singleton = Some s \<and> length s \<le> 13 \<and> from_str s = Some singleton"
  using jmap_id_roundtrip [of singleton] by blast

text \<open>Reading accepts the empty text as identifier 0, ignores leading \<^verbatim>\<open>a\<close>s and drops the high
  bits of a text longer than 13 characters, so different texts are read as one identifier.\<close>

theorem jmap_id_text_not_unique:
  "from_str [] = Some 0 \<and> from_str (lit ''a'' @ s) = from_str s \<and>
   from_str (lit ''baaaaaaaaaaaaa'') = from_str (lit ''a'')"
proof -
  have "BASE32_INVERSE ! 97 = 0" "BASE32_INVERSE ! 98 = 1"
    by (simp_all add: BASE32_INVERSE_def)
  then show ?thesis
    by (simp add: from_str_def)
qed

end
