(* ===== verification/Imap_Response.thy ===== *)
theory Imap_Response
  imports Imap_Sequence Imap_Command Jmap_Id
begin

text \<open>
  What the IMAP server writes (\<^verbatim>\<open>imap-proto/src/protocol\<close>): capabilities, authentication mechanisms,
  response codes, the status line that ends every command, and the line an error becomes.
\<close>

section \<open>Mechanisms and capabilities\<close>

datatype imap_mechanism =
    MPlain | MCramMd5 | MDigestMd5 | MScramSha1 | MScramSha256 | MApop | MNtlm | MGssapi | MAnonymous
    | MExternal | MOAuthBearer | MXOauth2

fun mechanism_bytes :: "imap_mechanism \<Rightarrow> bytes" where
  "mechanism_bytes MPlain = lit ''PLAIN''"
| "mechanism_bytes MCramMd5 = lit ''CRAM-MD5''"
| "mechanism_bytes MDigestMd5 = lit ''DIGEST-MD5''"
| "mechanism_bytes MScramSha1 = lit ''SCRAM-SHA-1''"
| "mechanism_bytes MScramSha256 = lit ''SCRAM-SHA-256''"
| "mechanism_bytes MApop = lit ''APOP''"
| "mechanism_bytes MNtlm = lit ''NTLM''"
| "mechanism_bytes MGssapi = lit ''GSSAPI''"
| "mechanism_bytes MAnonymous = lit ''ANONYMOUS''"
| "mechanism_bytes MExternal = lit ''EXTERNAL''"
| "mechanism_bytes MOAuthBearer = lit ''OAUTHBEARER''"
| "mechanism_bytes MXOauth2 = lit ''XOAUTH2''"

definition mechanisms :: "(bytes \<times> imap_mechanism) list" where
  "mechanisms =
    [(lit ''PLAIN'', MPlain), (lit ''CRAM-MD5'', MCramMd5), (lit ''DIGEST-MD5'', MDigestMd5), (lit ''SCRAM-SHA-1'', MScramSha1),
     (lit ''SCRAM-SHA-256'', MScramSha256), (lit ''APOP'', MApop), (lit ''NTLM'', MNtlm), (lit ''GSSAPI'', MGssapi),
     (lit ''ANONYMOUS'', MAnonymous), (lit ''EXTERNAL'', MExternal), (lit ''OAUTHBEARER'', MOAuthBearer), (lit ''XOAUTH2'', MXOauth2)]"

text \<open>The tables that ignore case.\<close>

definition lookup_ignore_case :: "(bytes \<times> 'a) list \<Rightarrow> bytes \<Rightarrow> 'a option" where
  "lookup_ignore_case table name = map_option snd (find (\<lambda>(k, _). eq_ignore_ascii_case k name) table)"

definition imap_mechanism_parse :: "bytes \<Rightarrow> imap_mechanism option" where
  "imap_mechanism_parse name = lookup_ignore_case mechanisms name"

datatype quota_resource = QuotaStorage | QuotaMessage | QuotaMailbox | QuotaAnnotationStorage

datatype capability =
    CapIMAP4rev2 | CapIMAP4rev1 | CapStartTLS | CapLoginDisabled | CapIdle | CapNamespace | CapId
    | CapRights | CapChildren | CapMultiAppend | CapBinary | CapUnselect | CapACL | CapUIDPlus
    | CapESearch | CapSASLIR | CapWithin | CapEnable | CapSearchRes | CapSort | CapThread
    | CapListExtended | CapListStatus | CapESort | CapSortDisplay | CapSpecialUse | CapCreateSpecialUse
    | CapMove | CapCondStore | CapQResync | CapLiteralPlus | CapUnAuthenticate | CapStatusSize
    | CapObjectIdPlus | CapPreview | CapUtf8Accept | CapAuth imap_mechanism | CapQuota
    | CapQuotaResource quota_resource | CapQuotaSet | CapJmapAccess

fun cap_serialize :: "capability \<Rightarrow> bytes" where
  "cap_serialize (CapAuth mechanism) = lit ''AUTH='' @ mechanism_bytes mechanism"
| "cap_serialize CapIMAP4rev2 = lit ''IMAP4rev2''"
| "cap_serialize CapIMAP4rev1 = lit ''IMAP4rev1''"
| "cap_serialize CapStartTLS = lit ''STARTTLS''"
| "cap_serialize CapLoginDisabled = lit ''LOGINDISABLED''"
| "cap_serialize CapCondStore = lit ''CONDSTORE''"
| "cap_serialize CapQResync = lit ''QRESYNC''"
| "cap_serialize CapLiteralPlus = lit ''LITERAL+''"
| "cap_serialize CapUnAuthenticate = lit ''UNAUTHENTICATE''"
| "cap_serialize CapStatusSize = lit ''STATUS=SIZE''"
| "cap_serialize CapObjectIdPlus = lit ''OBJECTID+''"
| "cap_serialize CapPreview = lit ''PREVIEW''"
| "cap_serialize CapIdle = lit ''IDLE''"
| "cap_serialize CapNamespace = lit ''NAMESPACE''"
| "cap_serialize CapId = lit ''ID''"
| "cap_serialize CapChildren = lit ''CHILDREN''"
| "cap_serialize CapMultiAppend = lit ''MULTIAPPEND''"
| "cap_serialize CapBinary = lit ''BINARY''"
| "cap_serialize CapUnselect = lit ''UNSELECT''"
| "cap_serialize CapACL = lit ''ACL''"
| "cap_serialize CapRights = lit ''RIGHTS=texk''"
| "cap_serialize CapUIDPlus = lit ''UIDPLUS''"
| "cap_serialize CapESearch = lit ''ESEARCH''"
| "cap_serialize CapSASLIR = lit ''SASL-IR''"
| "cap_serialize CapWithin = lit ''WITHIN''"
| "cap_serialize CapEnable = lit ''ENABLE''"
| "cap_serialize CapSearchRes = lit ''SEARCHRES''"
| "cap_serialize CapSort = lit ''SORT''"
| "cap_serialize CapThread = lit ''THREAD=REFERENCES''"
| "cap_serialize CapListExtended = lit ''LIST-EXTENDED''"
| "cap_serialize CapListStatus = lit ''LIST-STATUS''"
| "cap_serialize CapESort = lit ''ESORT''"
| "cap_serialize CapSortDisplay = lit ''SORT=DISPLAY''"
| "cap_serialize CapSpecialUse = lit ''SPECIAL-USE''"
| "cap_serialize CapCreateSpecialUse = lit ''CREATE-SPECIAL-USE''"
| "cap_serialize CapMove = lit ''MOVE''"
| "cap_serialize CapUtf8Accept = lit ''UTF8=ACCEPT''"
| "cap_serialize CapQuota = lit ''QUOTA''"
| "cap_serialize CapQuotaSet = lit ''QUOTA=SET''"
| "cap_serialize CapJmapAccess = lit ''JMAPACCESS''"
| "cap_serialize (CapQuotaResource QuotaStorage) = lit ''QUOTA=RES-STORAGE''"
| "cap_serialize (CapQuotaResource QuotaMessage) = lit ''QUOTA=RES-MESSAGE''"
| "cap_serialize (CapQuotaResource QuotaMailbox) = lit ''QUOTA=RES-MAILBOX''"
| "cap_serialize (CapQuotaResource QuotaAnnotationStorage) = lit ''QUOTA=RES-ANNOTATION-STORAGE''"

definition all_capabilities :: "bool \<Rightarrow> bool \<Rightarrow> capability list" where
  "all_capabilities is_authenticated offer_tls =
     [CapIMAP4rev2, CapIMAP4rev1, CapEnable, CapSASLIR, CapLiteralPlus, CapId, CapUtf8Accept] @
     (if is_authenticated then
       [CapJmapAccess, CapIdle, CapNamespace, CapChildren, CapMultiAppend, CapBinary, CapUnselect,
        CapACL, CapUIDPlus, CapESearch, CapWithin, CapSearchRes, CapSort, CapThread, CapListExtended,
        CapListStatus, CapESort, CapSortDisplay, CapSpecialUse, CapCreateSpecialUse, CapMove,
        CapCondStore, CapQResync, CapUnAuthenticate, CapStatusSize, CapObjectIdPlus, CapPreview,
        CapRights, CapQuota, CapQuotaResource QuotaStorage]
      else [CapAuth MPlain, CapAuth MOAuthBearer, CapAuth MXOauth2]) @
     (if offer_tls then [CapStartTLS] else [])"

definition enable_names :: "(bytes \<times> capability) list" where
  "enable_names =
    [(lit ''IMAP4rev2'', CapIMAP4rev2), (lit ''STARTTLS'', CapStartTLS), (lit ''LOGINDISABLED'', CapLoginDisabled),
     (lit ''CONDSTORE'', CapCondStore), (lit ''QRESYNC'', CapQResync), (lit ''UTF8=ACCEPT'', CapUtf8Accept),
     (lit ''OBJECTID+'', CapObjectIdPlus)]"

definition capability_parse :: "bytes \<Rightarrow> capability option" where
  "capability_parse name = lookup_ignore_case enable_names name"

definition capability_response :: "capability list \<Rightarrow> bytes" where
  "capability_response capabilities =
     lit ''* CAPABILITY'' @ concat (map (\<lambda>c. [32] @ cap_serialize c) capabilities) @ [13, 10]"

definition enable_response :: "capability list \<Rightarrow> bytes" where
  "enable_response enabled =
     (if enabled \<noteq> [] then lit ''* ENABLED'' @ concat (map (\<lambda>c. [32] @ cap_serialize c) enabled) @ [13, 10] else [])"

section \<open>Response codes\<close>

record object_id =
  oid_mailbox :: "jmap_id option"
  oid_account :: "jmap_id option"
  oid_email :: "jmap_id option"
  oid_thread :: "jmap_id option"

fun kvpairs :: "bool \<Rightarrow> (bytes \<times> jmap_id option) list \<Rightarrow> bytes" where
  "kvpairs first [] = []"
| "kvpairs first ((key, None) # pairs) = kvpairs first pairs"
| "kvpairs first ((key, Some v) # pairs) = (if first then [] else [32]) @ key @ print_id v @ kvpairs False pairs"

definition serialize_kvpairs :: "object_id \<Rightarrow> bytes" where
  "serialize_kvpairs i =
     [40] @ kvpairs True [(lit ''ACCOUNTID '', oid_account i), (lit ''MAILBOXID '', oid_mailbox i),
       (lit ''EMAILID '', oid_email i), (lit ''THREADID '', oid_thread i)] @ [41]"

definition object_id_serialize :: "object_id \<Rightarrow> bytes" where
  "object_id_serialize i = lit ''OBJECTID '' @ serialize_kvpairs i"

datatype response_code =
    RcAlert | RcAlreadyExists | RcAppendUid u32 "u32 list" | RcAuthenticationFailed
    | RcAuthorizationFailed | RcBadCharset | RcCannot | RcCapability "capability list" | RcClientBug
    | RcClosed | RcContactAdmin | RcCopyUid u32 "u32 list" "u32 list" | RcCorruption | RcExpired
    | RcExpungeIssued | RcHasChildren | RcInUse | RcLimit | RcNonExistent | RcNoPerm | RcOverQuota
    | RcParse | RcPermanentFlags | RcPrivacyRequired | RcReadOnly | RcReadWrite | RcServerBug
    | RcTryCreate | RcUidNext | RcUidNotSticky | RcUidValidity | RcUnavailable | RcUnknownCte
    | RcModified "u32 list" | RcHighestModseq u64 | RcObjectId object_id | RcUseAttr

fun code_serialize :: "response_code \<Rightarrow> bytes" where
  "code_serialize RcAlert = lit ''ALERT''"
| "code_serialize RcAlreadyExists = lit ''ALREADYEXISTS''"
| "code_serialize RcAuthenticationFailed = lit ''AUTHENTICATIONFAILED''"
| "code_serialize RcAuthorizationFailed = lit ''AUTHORIZATIONFAILED''"
| "code_serialize RcBadCharset = lit ''BADCHARSET''"
| "code_serialize RcCannot = lit ''CANNOT''"
| "code_serialize RcClientBug = lit ''CLIENTBUG''"
| "code_serialize RcClosed = lit ''CLOSED''"
| "code_serialize RcContactAdmin = lit ''CONTACTADMIN''"
| "code_serialize RcCorruption = lit ''CORRUPTION''"
| "code_serialize RcExpired = lit ''EXPIRED''"
| "code_serialize RcExpungeIssued = lit ''EXPUNGEISSUED''"
| "code_serialize RcHasChildren = lit ''HASCHILDREN''"
| "code_serialize RcInUse = lit ''INUSE''"
| "code_serialize RcLimit = lit ''LIMIT''"
| "code_serialize RcNonExistent = lit ''NONEXISTENT''"
| "code_serialize RcNoPerm = lit ''NOPERM''"
| "code_serialize RcOverQuota = lit ''OVERQUOTA''"
| "code_serialize RcParse = lit ''PARSE''"
| "code_serialize RcPermanentFlags = lit ''PERMANENTFLAGS''"
| "code_serialize RcPrivacyRequired = lit ''PRIVACYREQUIRED''"
| "code_serialize RcReadOnly = lit ''READ-ONLY''"
| "code_serialize RcReadWrite = lit ''READ-WRITE''"
| "code_serialize RcServerBug = lit ''SERVERBUG''"
| "code_serialize RcTryCreate = lit ''TRYCREATE''"
| "code_serialize RcUidNext = lit ''UIDNEXT''"
| "code_serialize RcUidNotSticky = lit ''UIDNOTSTICKY''"
| "code_serialize RcUidValidity = lit ''UIDVALIDITY''"
| "code_serialize RcUnavailable = lit ''UNAVAILABLE''"
| "code_serialize RcUnknownCte = lit ''UNKNOWN-CTE''"
| "code_serialize RcUseAttr = lit ''USEATTR''"
| "code_serialize (RcAppendUid uid_validity uids) =
     lit ''APPENDUID '' @ show_number uid_validity @ [32] @ serialize_sequence uids"
| "code_serialize (RcCapability capabilities) =
     lit ''CAPABILITY'' @ concat (map (\<lambda>c. [32] @ cap_serialize c) capabilities)"
| "code_serialize (RcCopyUid uid_validity src_uids dest_uids) =
     lit ''COPYUID '' @ show_number uid_validity @ [32] @ serialize_sequence src_uids @ [32] @ serialize_sequence dest_uids"
| "code_serialize (RcModified ids) = lit ''MODIFIED '' @ serialize_sequence ids"
| "code_serialize (RcObjectId i) = object_id_serialize i"
| "code_serialize (RcHighestModseq modseq) = lit ''HIGHESTMODSEQ '' @ show_nat (unat modseq)"

text \<open>\<^verbatim>\<open>ResponseCode::as_str\<close>: the name without arguments.\<close>

fun code_name :: "response_code \<Rightarrow> bytes" where
  "code_name (RcAppendUid _ _) = lit ''APPENDUID''"
| "code_name (RcCapability _) = lit ''CAPABILITY''"
| "code_name (RcCopyUid _ _ _) = lit ''COPYUID''"
| "code_name (RcModified _) = lit ''MODIFIED''"
| "code_name (RcObjectId _) = lit ''OBJECTID''"
| "code_name (RcHighestModseq _) = lit ''HIGHESTMODSEQ''"
| "code_name c = code_serialize c"

text \<open>\<^verbatim>\<open>highest_modseq\<close> and the conversions of \<^verbatim>\<open>imap/src/op/mod.rs\<close>: zero stands for no change yet.\<close>

definition to_modseq :: "u64 \<Rightarrow> u64" where
  "to_modseq n = (if 0 < n then n + 1 else 0)"

definition from_modseq :: "u64 \<Rightarrow> u64 option" where
  "from_modseq n = (if 0 < n then Some (n - 1) else None)"

section \<open>Status lines\<close>

datatype response_type = RtOk | RtNo | RtBad | RtPreAuth | RtBye

fun type_bytes :: "response_type \<Rightarrow> bytes" where
  "type_bytes RtOk = lit ''OK''"
| "type_bytes RtNo = lit ''NO''"
| "type_bytes RtBad = lit ''BAD''"
| "type_bytes RtPreAuth = lit ''PREAUTH''"
| "type_bytes RtBye = lit ''BYE''"

record status_response =
  st_tag :: "bytes option"
  st_code :: "response_code option"
  st_message :: bytes
  st_type :: response_type

definition status_ok :: "bytes \<Rightarrow> status_response" where
  "status_ok msg = \<lparr>st_tag = None, st_code = None, st_message = msg, st_type = RtOk\<rparr>"

definition status_bye :: "bytes \<Rightarrow> status_response" where
  "status_bye msg = \<lparr>st_tag = None, st_code = None, st_message = msg, st_type = RtBye\<rparr>"

definition completed :: "imap_command \<Rightarrow> status_response" where
  "completed c = status_ok (show_command c @ lit '' completed'')"

definition with_tag :: "bytes \<Rightarrow> status_response \<Rightarrow> status_response" where
  "with_tag tag r = r\<lparr>st_tag := Some tag\<rparr>"

definition with_code :: "response_code \<Rightarrow> status_response \<Rightarrow> status_response" where
  "with_code c r = r\<lparr>st_code := Some c\<rparr>"

definition status_serialize :: "status_response \<Rightarrow> bytes \<Rightarrow> bytes" where
  "status_serialize r buf =
     buf @ (case st_tag r of Some tag \<Rightarrow> tag | None \<Rightarrow> [42]) @ [32] @ type_bytes (st_type r) @ [32] @
     (case st_code r of Some c \<Rightarrow> [91] @ code_serialize c @ [93, 32] | None \<Rightarrow> []) @ st_message r @ [13, 10]"

definition status_bytes :: "status_response \<Rightarrow> bytes" where
  "status_bytes r = status_serialize r []"

section \<open>Errors\<close>

text \<open>The events an error carries, as far as the session and the serializer tell them apart.\<close>

datatype imap_event =
    EvImap | EvAuthFailed | EvAuthError | EvTooManyAttempts | EvSecurity | EvConcurrentRequest
  | EvTooManyRequests | EvQuota | EvNetwork | EvNotFound | EvStore | EvOther

record imap_error =
  er_event :: imap_event
  er_id :: "bytes option"
  er_type :: "bytes option"
  er_code :: "bytes option"
  er_details :: "bytes option"

definition err_of :: "imap_event \<Rightarrow> imap_error" where
  "err_of ev = \<lparr>er_event = ev, er_id = None, er_type = None, er_code = None, er_details = None\<rparr>"

definition imap_must_disconnect :: "imap_error \<Rightarrow> bool" where
  "imap_must_disconnect e \<longleftrightarrow>
     er_event e \<in> {EvNetwork, EvTooManyAttempts, EvConcurrentRequest, EvTooManyRequests, EvSecurity}"

definition imap_should_write_err :: "imap_error \<Rightarrow> bool" where
  "imap_should_write_err e \<longleftrightarrow> er_event e \<notin> {EvNetwork, EvSecurity}"

definition default_code :: "imap_event \<Rightarrow> response_code option" where
  "default_code ev =
     (case ev of
        EvNotFound \<Rightarrow> Some RcNonExistent
      | EvStore \<Rightarrow> Some RcContactAdmin
      | EvQuota \<Rightarrow> Some RcOverQuota
      | EvConcurrentRequest \<Rightarrow> Some RcLimit
      | EvTooManyRequests \<Rightarrow> Some RcLimit
      | EvAuthFailed \<Rightarrow> Some RcAuthenticationFailed
      | EvAuthError \<Rightarrow> Some RcAuthenticationFailed
      | EvTooManyAttempts \<Rightarrow> Some RcAuthenticationFailed
      | EvSecurity \<Rightarrow> Some RcAuthorizationFailed
      | _ \<Rightarrow> None)"

definition error_serialize :: "(imap_event \<Rightarrow> bytes) \<Rightarrow> imap_error \<Rightarrow> bytes" where
  "error_serialize event_text e =
     (case er_id e of Some tag \<Rightarrow> tag | None \<Rightarrow> [42]) @ [32] @
     (case er_type e of Some t \<Rightarrow> t | None \<Rightarrow> lit ''NO'') @ [32] @
     (case (case er_code e of Some c \<Rightarrow> Some c | None \<Rightarrow> map_option code_name (default_code (er_event e))) of
        Some c \<Rightarrow> [91] @ c @ [93, 32]
      | None \<Rightarrow> []) @
     (case er_details e of Some d \<Rightarrow> d | None \<Rightarrow> event_text (er_event e)) @ [13, 10]"

end
