(* ===== verification/Memory_Store.thy ===== *)
theory Memory_Store
  imports Contracts "HOL-Library.AList"
begin

text \<open>
  The in-memory store on top of the data store (\<^verbatim>\<open>store/src/dispatch/lookup.rs\<close>, the variant
  \<^verbatim>\<open>InMemoryStore::Store\<close>): values and counters with an expiry, rate limits over fixed windows and locks. The
  data store below is the table of the two key classes; a batch is applied as a whole or, when the store is
  unreachable, not at all. Each operation reads the clock once.
\<close>

section \<open>Data store\<close>

datatype store_error = StoreUnreachable | DataCorruption | AssertValueFailed

record mem_store =
  mkeys :: "(bytes \<times> bytes) list"
  mcounters :: "(bytes \<times> u64) list"
  unreachable :: bool

definition batch :: "mem_store \<Rightarrow> (mem_store \<Rightarrow> 'a) \<Rightarrow> ('a, store_error) result" where
  "batch m f = (if unreachable m then Err StoreUnreachable else Ok (f m))"

definition set_key :: "bytes \<Rightarrow> bytes \<Rightarrow> mem_store \<Rightarrow> mem_store" where
  "set_key k v m = m\<lparr>mkeys := AList.update k v (mkeys m)\<rparr>"

definition clear_key :: "bytes \<Rightarrow> mem_store \<Rightarrow> mem_store" where
  "clear_key k m = m\<lparr>mkeys := AList.delete k (mkeys m)\<rparr>"

definition clear_counter :: "bytes \<Rightarrow> mem_store \<Rightarrow> mem_store" where
  "clear_counter k m = m\<lparr>mcounters := AList.delete k (mcounters m)\<rparr>"

definition counter :: "bytes \<Rightarrow> mem_store \<Rightarrow> u64" where
  "counter k m = (case map_of (mcounters m) k of Some n \<Rightarrow> n | None \<Rightarrow> 0)"

definition add_counter :: "bytes \<Rightarrow> u64 \<Rightarrow> mem_store \<Rightarrow> mem_store" where
  "add_counter k n m = m\<lparr>mcounters := AList.update k (counter k m + n) (mcounters m)\<rparr>"

definition deserialize_be_u64 :: "bytes \<Rightarrow> nat \<Rightarrow> (u64, store_error) result" where
  "deserialize_be_u64 bs i = and_then (ok_or (get_range bs i (i + 8)) DataCorruption) (\<lambda>b. Ok (from_be b))"

section \<open>Values and counters\<close>

definition build_key :: "byte \<Rightarrow> bytes \<Rightarrow> bytes" where
  "build_key prefix key = prefix # key"

definition key_set :: "u64 \<Rightarrow> bytes \<Rightarrow> bytes \<Rightarrow> u64 option \<Rightarrow> mem_store \<Rightarrow> (mem_store, store_error) result" where
  "key_set now key value expires m =
     batch m (set_key key (to_be 8 (case expires of Some e \<Rightarrow> now + e | None \<Rightarrow> - 1) @ value))"

text \<open>Counters are signed; they are kept as the word the store holds.\<close>

definition counter_incr ::
  "u64 \<Rightarrow> bytes \<Rightarrow> u64 \<Rightarrow> u64 option \<Rightarrow> bool \<Rightarrow> mem_store \<Rightarrow> (u64 \<times> mem_store, store_error) result" where
  "counter_incr now key value expires return_value m =
     batch m (\<lambda>m.
       let m = (case expires of Some e \<Rightarrow> set_key key (to_be 8 (0 :: u64) @ to_be 8 (now + e)) m | None \<Rightarrow> m);
           m = add_counter key value m
       in (if return_value then counter key m else 0, m))"

definition key_delete :: "bytes \<Rightarrow> mem_store \<Rightarrow> (mem_store, store_error) result" where
  "key_delete key m = batch m (clear_key key)"

definition counter_delete :: "bytes \<Rightarrow> mem_store \<Rightarrow> (mem_store, store_error) result" where
  "counter_delete key m = batch m (clear_counter key)"

text \<open>Byte strings in the order of the store, and the deletion of a range of keys.\<close>

fun bytes_less :: "bytes \<Rightarrow> bytes \<Rightarrow> bool" where
  "bytes_less [] ys \<longleftrightarrow> ys \<noteq> []"
| "bytes_less (x # xs) [] \<longleftrightarrow> False"
| "bytes_less (x # xs) (y # ys) \<longleftrightarrow> x < y \<or> x = y \<and> bytes_less xs ys"

definition in_span :: "bytes \<Rightarrow> bytes \<Rightarrow> bytes \<Rightarrow> bool" where
  "in_span lo hi k \<longleftrightarrow> \<not> bytes_less k lo \<and> bytes_less k hi"

definition key_delete_prefix :: "bytes \<Rightarrow> mem_store \<Rightarrow> (mem_store, store_error) result" where
  "key_delete_prefix prefix m =
     (if prefix = [] then Ok m
      else
        batch m (\<lambda>m. m\<lparr>
          mcounters := filter (\<lambda>(k, _). \<not> in_span prefix (prefix @ [255, 255, 255]) k) (mcounters m),
          mkeys := filter (\<lambda>(k, _). \<not> in_span prefix (prefix @ [255, 255, 255]) k) (mkeys m)\<rparr>))"

text \<open>\<^verbatim>\<open>LookupValue::deserialize\<close>: a value whose expiry has passed is absent.\<close>

definition lookup_value ::
  "u64 \<Rightarrow> (bytes \<Rightarrow> ('a, store_error) result) \<Rightarrow> bytes \<Rightarrow> ('a option, store_error) result" where
  "lookup_value now deserialize bs =
     and_then (deserialize_be_u64 bs 0) (\<lambda>expires.
       if now < expires then and_then (deserialize (drop 8 bs)) (\<lambda>v. Ok (Some v)) else Ok None)"

definition key_get ::
  "u64 \<Rightarrow> (bytes \<Rightarrow> ('a, store_error) result) \<Rightarrow> bytes \<Rightarrow> mem_store \<Rightarrow> ('a option, store_error) result" where
  "key_get now deserialize key m =
     and_then (batch m (\<lambda>m. map_of (mkeys m) key)) (\<lambda>v.
       case v of None \<Rightarrow> Ok None | Some bs \<Rightarrow> lookup_value now deserialize bs)"

definition key_exists :: "u64 \<Rightarrow> bytes \<Rightarrow> mem_store \<Rightarrow> (bool, store_error) result" where
  "key_exists now key m = and_then (key_get now (\<lambda>_. Ok ()) key m) (\<lambda>v. Ok (v = Some ()))"

definition counter_get :: "bytes \<Rightarrow> mem_store \<Rightarrow> (u64, store_error) result" where
  "counter_get key m = batch m (counter key)"

section \<open>Rate limits\<close>

record rate =
  rcount :: u64
  rperiod :: u64

definition rate_period :: "rate \<Rightarrow> u64" where
  "rate_period r = max (rperiod r) 1"

definition rate_bucket :: "u64 \<Rightarrow> byte \<Rightarrow> bytes \<Rightarrow> rate \<Rightarrow> bytes" where
  "rate_bucket now prefix key r = prefix # key @ to_be 8 (now div rate_period r)"

definition rate_expires_in :: "u64 \<Rightarrow> rate \<Rightarrow> u64" where
  "rate_expires_in now r = (now div rate_period r) * rate_period r + rate_period r - now"

definition is_rate_allowed ::
  "u64 \<Rightarrow> byte \<Rightarrow> bytes \<Rightarrow> rate \<Rightarrow> bool \<Rightarrow> mem_store \<Rightarrow> (u64 option \<times> mem_store, store_error) result" where
  "is_rate_allowed now prefix key r soft_check m =
     and_then
       (if \<not> soft_check then
          counter_incr now (rate_bucket now prefix key r) 1 (Some (rate_expires_in now r)) True m
        else and_then (counter_get (rate_bucket now prefix key r) m) (\<lambda>n. Ok (n + 1, m)))
       (\<lambda>(requests, m).
          Ok (if sint requests \<le> sint (rcount r) then None else Some (rate_expires_in now r), m))"

section \<open>Locks\<close>

text \<open>
  \<^verbatim>\<open>try_lock\<close> reads the lock, decides, and writes under the assertion that the lock has not changed. The two
  halves are separate definitions, since other clients may run in between. The first answers \<open>None\<close> when the
  lock is held and otherwise the value it saw; a value that is not a time is cleared first.
\<close>

definition lock_value :: "bytes \<Rightarrow> (u64, store_error) result" where
  "lock_value bs = (if length bs = 8 then Ok (from_be bs) else Err DataCorruption)"

definition lock_check ::
  "u64 \<Rightarrow> bytes \<Rightarrow> mem_store \<Rightarrow> (u64 option option \<times> mem_store, store_error) result" where
  "lock_check now key m =
     and_then
       (and_then (batch m (\<lambda>m. map_of (mkeys m) key)) (\<lambda>v.
          case v of
            None \<Rightarrow> Ok (None, m)
          | Some bs \<Rightarrow>
              (case lock_value bs of
                 Ok e \<Rightarrow> Ok (Some e, m)
               | _ \<Rightarrow> and_then (batch m (clear_key key)) (\<lambda>m. Ok (None, m)))))
       (\<lambda>(lock_expiry, m).
          case lock_expiry of
            Some e \<Rightarrow> Ok (if now < e then None else Some lock_expiry, m)
          | None \<Rightarrow> Ok (Some None, m))"

text \<open>\<^verbatim>\<open>AssertValue::matches\<close> on the last eight bytes of what is stored.\<close>

definition assert_u64 :: "u64 option \<Rightarrow> bytes option \<Rightarrow> bool" where
  "assert_u64 expected stored \<longleftrightarrow>
     (case stored of
        None \<Rightarrow> expected = None
      | Some bs \<Rightarrow>
          (case expected of
             None \<Rightarrow> False
           | Some e \<Rightarrow> 8 \<le> length bs \<and> drop (length bs - 8) bs = to_be 8 e))"

definition lock_commit ::
  "u64 \<Rightarrow> u64 \<Rightarrow> bytes \<Rightarrow> u64 option \<Rightarrow> mem_store \<Rightarrow> (bool \<times> mem_store, store_error) result" where
  "lock_commit now duration key seen m =
     batch m (\<lambda>m.
       if assert_u64 seen (map_of (mkeys m) key) then (True, set_key key (to_be 8 (now + duration)) m) else (False, m))"

definition try_lock ::
  "u64 \<Rightarrow> byte \<Rightarrow> bytes \<Rightarrow> u64 \<Rightarrow> mem_store \<Rightarrow> (bool \<times> mem_store, store_error) result" where
  "try_lock now prefix key duration m =
     and_then (lock_check now (build_key prefix key) m) (\<lambda>(seen, m).
       case seen of
         None \<Rightarrow> Ok (False, m)
       | Some seen \<Rightarrow> lock_commit now duration (build_key prefix key) seen m)"

definition remove_lock :: "byte \<Rightarrow> bytes \<Rightarrow> mem_store \<Rightarrow> (mem_store, store_error) result" where
  "remove_lock prefix key m = key_delete (build_key prefix key) m"

section \<open>Purge\<close>

text \<open>One entry: whether it goes, and its counter with it.\<close>

definition purge_entry :: "u64 \<Rightarrow> bytes \<Rightarrow> (bool \<times> bool, store_error) result" where
  "purge_entry now value =
     and_then (deserialize_be_u64 value 0) (\<lambda>expiry.
       if expiry = 0 then
         and_then (deserialize_be_u64 value 8) (\<lambda>e. Ok (e \<le> now, e \<le> now))
       else Ok (expiry \<le> now, False))"

fun purge_scan :: "u64 \<Rightarrow> (bytes \<times> bytes) list \<Rightarrow> (bytes list \<times> bytes list, store_error) result" where
  "purge_scan now [] = Ok ([], [])"
| "purge_scan now ((k, v) # kvs) =
     (if \<not> bytes_less k [0] \<and> \<not> bytes_less (replicate 10 255) k then
        and_then (purge_entry now v) (\<lambda>(expired, is_counter).
        and_then (purge_scan now kvs) (\<lambda>(ks, cs).
          Ok (if expired \<and> \<not> is_counter then k # ks else ks, if expired \<and> is_counter then k # cs else cs)))
      else purge_scan now kvs)"

definition purge_in_memory_store :: "u64 \<Rightarrow> mem_store \<Rightarrow> (mem_store, store_error) result" where
  "purge_in_memory_store now m =
     and_then (batch m mkeys) (\<lambda>kvs.
     and_then (purge_scan now kvs) (\<lambda>(ks, cs).
       Ok (fold (\<lambda>k m. clear_key k (clear_counter k m)) cs (fold clear_key ks m))))"

section \<open>What the table holds\<close>

definition store_ok :: "mem_store \<Rightarrow> bool" where
  "store_ok m \<longleftrightarrow> distinct (map fst (mkeys m))"

named_theorems store_simps

lemma map_of_set_key [store_simps]: "map_of (mkeys (set_key k v m)) = (map_of (mkeys m))(k \<mapsto> v)"
  by (simp add: set_key_def update_conv')

lemma map_of_clear_key [store_simps]: "map_of (mkeys (clear_key k m)) = (map_of (mkeys m))(k := None)"
  by (simp add: clear_key_def delete_conv')

lemma store_fields [store_simps]:
  "mcounters (set_key k v m) = mcounters m" "mcounters (clear_key k m) = mcounters m"
  "mkeys (clear_counter k m) = mkeys m" "mkeys (add_counter k n m) = mkeys m"
  "unreachable (set_key k v m) = unreachable m" "unreachable (clear_key k m) = unreachable m"
  "unreachable (clear_counter k m) = unreachable m" "unreachable (add_counter k n m) = unreachable m"
  by (simp_all add: set_key_def clear_key_def clear_counter_def add_counter_def)

lemma counter_set_key [store_simps]: "counter c (set_key k v m) = counter c m" "counter c (clear_key k m) = counter c m"
  by (simp_all add: counter_def store_simps)

lemma counter_add_counter [store_simps]:
  "counter c (add_counter k n m) = (if c = k then counter k m + n else counter c m)"
  by (simp add: counter_def add_counter_def update_conv')

lemma counter_clear_counter [store_simps]: "counter c (clear_counter k m) = (if c = k then 0 else counter c m)"
  by (simp add: counter_def clear_counter_def delete_conv')

lemma store_ok_ops [store_simps]:
  "store_ok m \<Longrightarrow> store_ok (set_key k v m)" "store_ok m \<Longrightarrow> store_ok (clear_key k m)"
  "store_ok (clear_counter k m) = store_ok m" "store_ok (add_counter k n m) = store_ok m"
  by (simp_all add: store_ok_def store_simps) (simp_all add: set_key_def clear_key_def distinct_update distinct_delete)

lemma batch_Ok [simp]: "\<not> unreachable m \<Longrightarrow> batch m f = Ok (f m)"
  by (simp add: batch_def)

lemma batch_Ok_iff: "batch m f = Ok x \<longleftrightarrow> \<not> unreachable m \<and> x = f m"
  by (auto simp: batch_def)

lemma deserialize_be_u64_at:
  "deserialize_be_u64 (pre @ to_be 8 x @ rest) (length pre) = Ok x"
  by (simp add: deserialize_be_u64_def get_range_def slice_of_def be_roundtrip)

lemmas deserialize_be_u64_start = deserialize_be_u64_at [of "[]", simplified]

text \<open>A value is read back until it expires, and is absent afterwards.\<close>

lemma key_get_set:
  assumes "key_set now key value expires m = Ok m'"
  shows "key_get t deser key m' =
    (if t < (case expires of Some e \<Rightarrow> now + e | None \<Rightarrow> - 1) then and_then (deser value) (\<lambda>v. Ok (Some v)) else Ok None)"
  using assms
  by (auto simp: key_set_def batch_Ok_iff key_get_def lookup_value_def store_simps deserialize_be_u64_start)

section \<open>Rate limits\<close>

lemma rate_period_pos: "0 < rate_period r"
  by (simp add: rate_period_def less_max_iff_disj)

lemma rate_expires_in_eq: "rate_expires_in now r = rate_period r - now mod rate_period r"
proof -
  have "now div rate_period r * rate_period r = now - now mod rate_period r"
    by (metis add_diff_cancel_right' div_mult_mod_eq)
  then show ?thesis
    by (simp add: rate_expires_in_def)
qed

lemma rate_expires_in_bounds: "0 < rate_expires_in now r \<and> rate_expires_in now r \<le> rate_period r"
proof -
  have "now mod rate_period r < rate_period r"
    by (rule word_mod_less_divisor [OF rate_period_pos])
  then show ?thesis
    by (simp add: rate_expires_in_eq word_less_nat_alt word_le_nat_alt unat_sub)
qed

text \<open>Requests at the given times, and what each was told.\<close>

fun rate_run ::
  "byte \<Rightarrow> bytes \<Rightarrow> rate \<Rightarrow> u64 list \<Rightarrow> mem_store \<Rightarrow> (u64 option list \<times> mem_store, store_error) result" where
  "rate_run prefix key r [] m = Ok ([], m)"
| "rate_run prefix key r (t # ts) m =
     and_then (is_rate_allowed t prefix key r False m) (\<lambda>(a, m).
     and_then (rate_run prefix key r ts m) (\<lambda>(as, m). Ok (a # as, m)))"

definition same_window :: "rate \<Rightarrow> u64 \<Rightarrow> u64 \<Rightarrow> bool" where
  "same_window r w t \<longleftrightarrow> t div rate_period r = w"

lemma sint_less: "n < 2 ^ 63 \<Longrightarrow> sint (of_nat n :: u64) = int n"
  by (simp add: sint_uint unsigned_of_nat take_bit_nat_eq_self signed_take_bit_int_eq_self)

lemma is_rate_allowed_next:
  assumes "\<not> unreachable m" "counter (rate_bucket now prefix key r) m = of_nat i" "Suc i < 2 ^ 63" "unat (rcount r) < 2 ^ 63"
  shows "\<exists>m'. is_rate_allowed now prefix key r False m =
      Ok (if i < unat (rcount r) then None else Some (rate_expires_in now r), m') \<and>
    \<not> unreachable m' \<and> counter (rate_bucket now prefix key r) m' = of_nat (Suc i)"
proof -
  have "sint (of_nat i + 1 :: u64) = int (Suc i)"
    using assms(3) sint_less [of "Suc i"] by (simp add: add.commute)
  moreover have "(of_nat (unat (rcount r)) :: u64) = rcount r"
    by simp
  then have "sint (rcount r) = int (unat (rcount r))"
    using sint_less [OF assms(4)] by metis
  ultimately have "sint (of_nat i + 1 :: u64) \<le> sint (rcount r) \<longleftrightarrow> i < unat (rcount r)"
    by (simp only: of_nat_le_iff Suc_le_eq)
  then show ?thesis
    using assms(1,2) by (simp add: is_rate_allowed_def counter_incr_def Let_def store_simps add.commute)
qed

lemma rate_run_exact:
  assumes "\<not> unreachable m" "\<forall>t \<in> set ts. same_window r w t"
    "counter (prefix # key @ to_be 8 w) m = of_nat i" "i + length ts < 2 ^ 63" "unat (rcount r) < 2 ^ 63"
  shows "\<exists>m'. rate_run prefix key r ts m =
      Ok (map (\<lambda>j. if i + j < unat (rcount r) then None else Some (rate_expires_in (ts ! j) r)) [0..<length ts], m') \<and>
    \<not> unreachable m' \<and> counter (prefix # key @ to_be 8 w) m' = of_nat (i + length ts)"
  using assms(1-4)
proof (induction ts arbitrary: m i)
  case (Cons t ts)
  have b: "rate_bucket t prefix key r = prefix # key @ to_be 8 w"
    using Cons.prems(2) by (simp add: rate_bucket_def same_window_def)
  obtain m1 where m1: "is_rate_allowed t prefix key r False m =
        Ok (if i < unat (rcount r) then None else Some (rate_expires_in t r), m1)"
      "\<not> unreachable m1" "counter (prefix # key @ to_be 8 w) m1 = of_nat (Suc i)"
    using is_rate_allowed_next [of m t prefix key r i] Cons.prems assms(5) by (auto simp: b)
  obtain m2 where "rate_run prefix key r ts m1 =
        Ok (map (\<lambda>j. if Suc i + j < unat (rcount r) then None else Some (rate_expires_in (ts ! j) r)) [0..<length ts], m2)"
      "\<not> unreachable m2" "counter (prefix # key @ to_be 8 w) m2 = of_nat (Suc i + length ts)"
    using Cons.IH [of m1 "Suc i"] m1 Cons.prems by auto
  then show ?case
    using m1 by (simp add: upt_conv_Cons map_Suc_upt [symmetric] comp_def del: upt_Suc)
qed simp

text \<open>
  C14: A rate limit of \<open>count\<close> requests per period admits exactly the first \<open>count\<close> requests of a window and refuses
  every later one until the window ends, whatever the times of the requests inside the window; a refused
  client is told the time left, which is at least one second and at most the period.
\<close>

theorem rate_limit_exact:
  assumes "\<not> unreachable m" "\<forall>t \<in> set ts. same_window r w t" "counter (prefix # key @ to_be 8 w) m = 0"
    "length ts < 2 ^ 63" "unat (rcount r) < 2 ^ 63"
  shows "\<exists>rs m'. rate_run prefix key r ts m = Ok (rs, m') \<and> length rs = length ts \<and>
    (\<forall>j < length ts. if j < unat (rcount r) then rs ! j = None
       else \<exists>e. rs ! j = Some e \<and> 0 < e \<and> e \<le> rate_period r \<and> ts ! j mod rate_period r + e = rate_period r)"
proof -
  let ?rs = "map (\<lambda>j. if j < unat (rcount r) then None else Some (rate_expires_in (ts ! j) r)) [0..<length ts]"
  obtain m' where "rate_run prefix key r ts m = Ok (?rs, m')"
    using rate_run_exact [OF assms(1,2), of prefix key 0] assms(3-5) by auto
  moreover have "t mod rate_period r + rate_expires_in t r = rate_period r" for t
    by (simp add: rate_expires_in_eq)
  ultimately show ?thesis
    using rate_expires_in_bounds by auto
qed

definition empty_store :: mem_store where
  "empty_store = \<lparr>mkeys = [], mcounters = [], unreachable = False\<rparr>"

lemma empty_store_simps [simp]: "counter c empty_store = 0" "\<not> unreachable empty_store" "mkeys empty_store = []" "store_ok empty_store"
  by (simp_all add: empty_store_def counter_def store_ok_def)

theorem rate_limit_exact_witness:
  "\<exists>rs m'. rate_run 3 [1] \<lparr>rcount = 1, rperiod = 60\<rparr> [121, 130] empty_store = Ok (rs, m') \<and>
     rs ! 0 = None \<and> (\<exists>e. rs ! 1 = Some e \<and> 130 mod 60 + e = 60)"
  using rate_limit_exact [of empty_store "[121, 130]" "\<lparr>rcount = 1, rperiod = 60\<rparr>" 2 3 "[1]"]
  by (fastforce simp: same_window_def rate_period_def)

end
