(* ===== verification/Imap_Session.thy ===== *)
theory Imap_Session
  imports Imap_Response Sasl Memory_Store
begin

text \<open>
  The session of the IMAP server (\<^verbatim>\<open>imap/src/core/client.rs\<close>, \<^verbatim>\<open>session.rs\<close> and \<^verbatim>\<open>imap/src/op\<close>): which
  requests a state admits, the handlers that change the state (authentication, selection, capabilities),
  and the read loop that admits all requests of a read before it executes the first. The work of a
  mailbox command behind its state access and its permission is the argument \<open>ie_operate\<close>; every such
  command is recorded in the session, with the mailbox it ran on.
\<close>

section \<open>Environment and state\<close>

datatype imap_permission =
    PImapAuthenticate | PImapSelect | PImapExamine | PImapList | PImapLsub | PImapCreate | PImapDelete
  | PImapRename | PImapStatus | PImapAppend | PImapExpunge | PImapSearch | PImapSort | PImapFetch
  | PImapStore | PImapCopy | PImapMove | PImapThread | PImapIdle | PImapSubscribe | PImapNamespace
  | PImapAclSet | PImapAclGet | PImapMyRights | PImapListRights | PImapCapability | PImapId | PImapEnable

text \<open>What \<^verbatim>\<open>parse_select\<close> makes of the arguments, as far as the session looks at it.\<close>

record select_args =
  sa_name :: bytes
  sa_condstore :: bool
  sa_qresync :: bool
  sa_objectid :: bool

record 'm selected =
  sel_id :: 'm
  sel_is_select :: bool
  sel_is_condstore :: bool

record ('tok, 'm) imap_env =
  ie_allow_plain_auth :: bool
  ie_max_auth_failures :: u32
  ie_acceptor_tls :: bool
  ie_rate_requests :: "rate option"
  ie_now :: u64
  ie_store :: mem_store
  ie_store_error :: "store_error \<Rightarrow> imap_error"
  ie_scanner_banned :: "(bool, imap_error) result"
  ie_authenticate :: "credentials \<Rightarrow> ('tok, imap_error) result"
  ie_has_permission :: "'tok \<Rightarrow> imap_permission \<Rightarrow> bool"
  ie_request_allowed :: "'tok \<Rightarrow> bool"
  ie_account :: "'tok \<Rightarrow> u32"
  ie_session_data :: "'tok \<Rightarrow> (unit, imap_error) result"
  ie_base64_decode :: "bytes \<Rightarrow> bytes option"
  ie_email_from_jwt :: "bytes \<Rightarrow> bytes option"
  ie_utf8_lossy :: "bytes \<Rightarrow> bytes"
  ie_event_message :: "imap_event \<Rightarrow> bytes"
  ie_recv_text :: "recv_message \<Rightarrow> bytes"
  ie_sock_write :: "bytes \<Rightarrow> bool"
  ie_parse :: "bool \<Rightarrow> imap_command imap_request \<Rightarrow> (unit, imap_error) result"
  ie_separator_query :: "imap_command imap_request \<Rightarrow> bool"
  ie_parse_select :: "bool \<Rightarrow> imap_command imap_request \<Rightarrow> (select_args, imap_error) result"
  ie_parse_fetch :: "imap_command imap_request \<Rightarrow> (bool \<times> bool \<times> bool, imap_error) result"
  ie_parse_status :: "bool \<Rightarrow> imap_command imap_request \<Rightarrow> (bool, imap_error) result"
  ie_synchronize :: "'tok \<Rightarrow> (unit, imap_error) result"
  ie_find_mailbox :: "'tok \<Rightarrow> imap_command imap_request \<Rightarrow> 'm option"
  ie_open_mailbox :: "'tok \<Rightarrow> 'm \<Rightarrow> (bytes, imap_error) result"
  ie_qresync_fetch :: "'tok \<Rightarrow> 'm \<Rightarrow> (unit, imap_error) result"
  ie_operate :: "imap_command \<Rightarrow> 'tok \<Rightarrow> 'm selected option \<Rightarrow> imap_command imap_request list \<Rightarrow> (bytes, imap_error) result"

datatype ('tok, 'm) imap_state =
    INotAuthenticated u32
  | IAuthenticated 'tok
  | ISelected 'tok "'m selected"

datatype protocol_version = Rev1 | Rev2

record ('tok, 'm) imap_session =
  im_receiver :: "imap_command receiver"
  im_version :: protocol_version
  im_state :: "('tok, 'm) imap_state"
  im_tls :: bool
  im_condstore :: bool
  im_qresync :: bool
  im_utf8 :: bool
  im_objectid :: bool
  im_written :: "bytes list"
  im_ran :: "(imap_command \<times> 'm selected option) list"

type_synonym ('tok, 'm, 'a) imap_handler =
  "('tok, 'm) imap_session \<Rightarrow> ('a, imap_error) result \<times> ('tok, 'm) imap_session"

text \<open>The accessors of \<^verbatim>\<open>State\<close>: \<^verbatim>\<open>unreachable!()\<close> in the other states.\<close>

definition with_data ::
  "('tok, 'm) imap_session \<Rightarrow> ('tok \<Rightarrow> 'm selected option \<Rightarrow> ('a, imap_error) result \<times> ('tok, 'm) imap_session) \<Rightarrow>
    ('a, imap_error) result \<times> ('tok, 'm) imap_session" where
  "with_data s f =
     (case im_state s of
        IAuthenticated tok \<Rightarrow> f tok None
      | ISelected tok mailbox \<Rightarrow> f tok (Some mailbox)
      | INotAuthenticated _ \<Rightarrow> (Panic, s))"

definition with_selected ::
  "('tok, 'm) imap_session \<Rightarrow> ('tok \<Rightarrow> 'm selected \<Rightarrow> ('a, imap_error) result \<times> ('tok, 'm) imap_session) \<Rightarrow>
    ('a, imap_error) result \<times> ('tok, 'm) imap_session" where
  "with_selected s f = (case im_state s of ISelected tok mailbox \<Rightarrow> f tok mailbox | _ \<Rightarrow> (Panic, s))"

definition imap_is_authenticated :: "('tok, 'm) imap_session \<Rightarrow> bool" where
  "imap_is_authenticated s = (case im_state s of INotAuthenticated _ \<Rightarrow> False | _ \<Rightarrow> True)"

section \<open>Writing\<close>

definition imap_write :: "('tok, 'm) imap_env \<Rightarrow> bytes \<Rightarrow> ('tok, 'm, unit) imap_handler" where
  "imap_write env bs s =
     (if ie_sock_write env bs then (Ok (), s\<lparr>im_written := im_written s @ [bs]\<rparr>)
      else (Err ((err_of EvNetwork)\<lparr>er_details := Some (lit ''Failed to write to stream'')\<rparr>), s))"

text \<open>\<open>False\<close> when the connection must be closed.\<close>

definition imap_write_error :: "('tok, 'm) imap_env \<Rightarrow> imap_error \<Rightarrow> ('tok, 'm) imap_session \<Rightarrow> bool \<times> ('tok, 'm) imap_session" where
  "imap_write_error env e s =
     (if imap_should_write_err e then
        (case imap_write env (error_serialize (ie_event_message env) e) s of
           (Ok _, s') \<Rightarrow> (\<not> imap_must_disconnect e, s')
         | (_, s') \<Rightarrow> (False, s'))
      else (False, s))"

text \<open>The continuation of a handler after a write that succeeded.\<close>

definition wrote ::
  "('a, imap_error) result \<times> ('tok, 'm) imap_session \<Rightarrow> ('tok, 'm, 'b) imap_handler \<Rightarrow>
    ('b, imap_error) result \<times> ('tok, 'm) imap_session" where
  "wrote p f = (case p of (Ok _, s) \<Rightarrow> f s | (Err e, s) \<Rightarrow> (Err e, s) | (Panic, s) \<Rightarrow> (Panic, s))"

definition imap_details :: "bytes \<Rightarrow> bytes \<Rightarrow> imap_error" where
  "imap_details msg tag = (err_of EvImap)\<lparr>er_details := Some msg, er_id := Some tag\<rparr>"

definition bad_arguments :: "bytes \<Rightarrow> bytes \<Rightarrow> imap_error" where
  "bad_arguments msg tag = (imap_details msg tag)\<lparr>er_type := Some (lit ''BAD'')\<rparr>"

definition security_error :: imap_error where
  "security_error = err_of EvSecurity"

definition imap_assert_permission :: "('tok, 'm) imap_env \<Rightarrow> imap_permission \<Rightarrow> ('tok, 'm) imap_session \<Rightarrow> (bool, imap_error) result" where
  "imap_assert_permission env permission s =
     (case im_state s of
        INotAuthenticated _ \<Rightarrow> Ok False
      | IAuthenticated tok \<Rightarrow> if ie_has_permission env tok permission then Ok True else Err security_error
      | ISelected tok _ \<Rightarrow> if ie_has_permission env tok permission then Ok True else Err security_error)"

definition permitted ::
  "('tok, 'm) imap_env \<Rightarrow> imap_permission \<Rightarrow> ('tok, 'm, 'a) imap_handler \<Rightarrow> ('tok, 'm, 'a) imap_handler" where
  "permitted env permission f s =
     (case imap_assert_permission env permission s of
        Ok _ \<Rightarrow> f s
      | Err e \<Rightarrow> (Err e, s)
      | Panic \<Rightarrow> (Panic, s))"

definition with_parsed ::
  "('p, imap_error) result \<Rightarrow> ('p \<Rightarrow> ('tok, 'm, 'a) imap_handler) \<Rightarrow> ('tok, 'm, 'a) imap_handler" where
  "with_parsed r f s = (case r of Ok args \<Rightarrow> f args s | Err e \<Rightarrow> (Err e, s) | Panic \<Rightarrow> (Panic, s))"

section \<open>Authentication\<close>

definition imap_authenticate :: "('tok, 'm) imap_env \<Rightarrow> credentials \<Rightarrow> bytes \<Rightarrow> ('tok, 'm, unit) imap_handler" where
  "imap_authenticate env c tag s =
     (case ie_authenticate env c of
        Ok tok \<Rightarrow>
          if \<not> ie_has_permission env tok PImapAuthenticate then (Err security_error, s)
          else if \<not> ie_request_allowed env tok then (Err ((err_of EvConcurrentRequest)\<lparr>er_id := Some tag\<rparr>), s)
          else
            (case ie_session_data env tok of
               Ok _ \<Rightarrow>
                 imap_write env
                   (status_bytes (with_tag tag (with_code
                      (RcCapability (all_capabilities True (\<not> im_tls s \<and> ie_acceptor_tls env)))
                      (status_ok (lit ''Authentication successful'')))))
                   (s\<lparr>im_state := IAuthenticated tok\<rparr>)
             | Err e \<Rightarrow> (Err (e\<lparr>er_id := Some tag\<rparr>), s)
             | Panic \<Rightarrow> (Panic, s))
      | Err e \<Rightarrow>
          if er_event e = EvAuthFailed then
            (case im_state s of
               INotAuthenticated auth_failures \<Rightarrow>
                 if auth_failures < ie_max_auth_failures env
                 then (Err (e\<lparr>er_id := Some tag\<rparr>), s\<lparr>im_state := INotAuthenticated (auth_failures + 1)\<rparr>)
                 else (Err (err_of EvTooManyAttempts), s)
             | _ \<Rightarrow> (Panic, s))
          else (Err (e\<lparr>er_id := Some tag\<rparr>), s)
      | Panic \<Rightarrow> (Panic, s))"

text \<open>\<^verbatim>\<open>parse_login\<close> and \<^verbatim>\<open>parse_authenticate\<close>.\<close>

definition parse_login :: "'c imap_request \<Rightarrow> (bytes \<times> bytes, imap_error) result" where
  "parse_login q =
     (case rq_tokens q of
        [username, password] \<Rightarrow>
          (case unwrap_string username of
             None \<Rightarrow> Err (bad_arguments (lit ''Invalid UTF-8 in argument.'') (rq_tag q))
           | Some u \<Rightarrow>
               (case unwrap_string password of
                  None \<Rightarrow> Err (bad_arguments (lit ''Invalid UTF-8 in argument.'') (rq_tag q))
                | Some p \<Rightarrow> Ok (u, p)))
      | [] \<Rightarrow> Err (imap_details (lit ''Missing arguments.'') (rq_tag q))
      | _ \<Rightarrow> Err (imap_details (lit ''Too many arguments.'') (rq_tag q)))"

definition parse_authenticate :: "('tok, 'm) imap_env \<Rightarrow> 'c imap_request \<Rightarrow> (imap_mechanism \<times> bytes list, imap_error) result" where
  "parse_authenticate env q =
     (case rq_tokens q of
        [] \<Rightarrow> Err (imap_details (lit ''Authentication mechanism missing.'') (rq_tag q))
      | token # tokens \<Rightarrow>
          (case imap_mechanism_parse (unwrap_bytes token) of
             None \<Rightarrow>
               Err (bad_arguments (lit ''Unsupported mechanism '' @ [39] @ ie_utf8_lossy env (unwrap_bytes token) @ [39] @ lit ''.'')
                 (rq_tag q))
           | Some mechanism \<Rightarrow> Ok (mechanism, List.map_filter unwrap_string tokens)))"

definition handle_imap_login :: "('tok, 'm) imap_env \<Rightarrow> imap_command imap_request \<Rightarrow> ('tok, 'm, unit) imap_handler" where
  "handle_imap_login env q s =
     (case parse_login q of
        Ok (username, password) \<Rightarrow> imap_authenticate env (Basic username password None) (rq_tag q) s
      | Err e \<Rightarrow> (Err e, s)
      | Panic \<Rightarrow> (Panic, s))"

definition await_response :: "imap_mechanism \<Rightarrow> bytes \<Rightarrow> imap_command receiver \<Rightarrow> imap_command receiver" where
  "await_response mechanism tag r =
     r\<lparr>rv_request := \<lparr>rq_tag = tag, rq_command = IAuthenticate, rq_tokens = [TokArgument (mechanism_bytes mechanism)]\<rparr>,
       rv_state := RArgument 32\<rparr>"

definition handle_imap_authenticate :: "('tok, 'm) imap_env \<Rightarrow> imap_command imap_request \<Rightarrow> ('tok, 'm, unit) imap_handler" where
  "handle_imap_authenticate env q s =
     (case parse_authenticate env q of
        Ok (mechanism, params) \<Rightarrow>
          if mechanism = MPlain \<or> mechanism = MOAuthBearer \<or> mechanism = MXOauth2 then
            (if params \<noteq> [] then
               (case ie_base64_decode env (last params) of
                  None \<Rightarrow>
                    (Err ((err_of EvAuthError)\<lparr>er_details := Some (lit ''Failed to decode challenge.''),
                       er_id := Some (rq_tag q), er_code := Some (lit ''PARSE'')\<rparr>), s)
                | Some challenge \<Rightarrow>
                    (case (if mechanism = MPlain then decode_sasl_challenge_plain challenge
                           else decode_sasl_challenge_oauth (ie_email_from_jwt env) challenge) of
                       None \<Rightarrow>
                         (Err ((err_of EvAuthError)\<lparr>er_details := Some (lit ''Invalid SASL challenge.''),
                            er_id := Some (rq_tag q)\<rparr>), s)
                     | Some c \<Rightarrow> imap_authenticate env c (rq_tag q) s))
             else
               imap_write env (lit ''+ '' @ [13, 10])
                 (s\<lparr>im_receiver := await_response mechanism (rq_tag q) (im_receiver s)\<rparr>))
          else
            (Err ((err_of EvAuthError)\<lparr>er_details := Some (lit ''Authentication mechanism not supported.''),
               er_id := Some (rq_tag q), er_code := Some (lit ''CANNOT'')\<rparr>), s)
      | Err e \<Rightarrow> (Err e, s)
      | Panic \<Rightarrow> (Panic, s))"

definition handle_unauthenticate :: "('tok, 'm) imap_env \<Rightarrow> imap_command imap_request \<Rightarrow> ('tok, 'm, unit) imap_handler" where
  "handle_unauthenticate env q s =
     imap_write env (status_bytes (with_tag (rq_tag q) (completed IUnauthenticate))) (s\<lparr>im_state := INotAuthenticated 0\<rparr>)"


section \<open>Commands of any state\<close>

definition handle_capability :: "('tok, 'm) imap_env \<Rightarrow> imap_command imap_request \<Rightarrow> ('tok, 'm, unit) imap_handler" where
  "handle_capability env q =
     permitted env PImapCapability (\<lambda>s.
       imap_write env
         (status_serialize (with_tag (rq_tag q) (completed ICapability))
           (capability_response (all_capabilities (imap_is_authenticated s) (\<not> im_tls s \<and> ie_acceptor_tls env)))) s)"

definition handle_logout :: "('tok, 'm) imap_env \<Rightarrow> imap_command imap_request \<Rightarrow> ('tok, 'm, unit) imap_handler" where
  "handle_logout env q s =
     imap_write env
       (status_bytes (status_bye (lit ''Stalwart IMAP4rev2 bids you farewell.'')) @
        status_bytes (with_tag (rq_tag q) (completed ILogout))) s"

definition handle_starttls :: "('tok, 'm) imap_env \<Rightarrow> imap_command imap_request \<Rightarrow> ('tok, 'm, unit) imap_handler" where
  "handle_starttls env q s =
     imap_write env (status_bytes (with_tag (rq_tag q) (status_ok (lit ''Begin TLS negotiation now'')))) s"

text \<open>Recording a command of a mailbox and what its work answers.\<close>

definition ran :: "imap_command \<Rightarrow> 'm selected option \<Rightarrow> ('tok, 'm) imap_session \<Rightarrow> ('tok, 'm) imap_session" where
  "ran c mailbox s = s\<lparr>im_ran := im_ran s @ [(c, mailbox)]\<rparr>"

text \<open>\<^verbatim>\<open>spawn_op!\<close>: the work goes on in a task of its own, which writes its own answers and errors.\<close>

definition spawn_op :: "imap_command \<Rightarrow> 'm selected option \<Rightarrow> ('tok, 'm, unit) imap_handler" where
  "spawn_op c mailbox s = (Ok (), ran c mailbox s)"

definition operate ::
  "('tok, 'm) imap_env \<Rightarrow> imap_command \<Rightarrow> 'tok \<Rightarrow> 'm selected option \<Rightarrow> imap_command imap_request list \<Rightarrow>
    ('tok, 'm, bytes) imap_handler" where
  "operate env c tok mailbox qs s = (ie_operate env c tok mailbox qs, ran c mailbox s)"

definition operate_and_write ::
  "('tok, 'm) imap_env \<Rightarrow> imap_command \<Rightarrow> 'tok \<Rightarrow> 'm selected option \<Rightarrow> imap_command imap_request list \<Rightarrow>
    ('tok, 'm, unit) imap_handler" where
  "operate_and_write env c tok mailbox qs s =
     (case operate env c tok mailbox qs s of
        (Ok response, s) \<Rightarrow> imap_write env response s
      | (Err e, s) \<Rightarrow> (Err e, s)
      | (Panic, s) \<Rightarrow> (Panic, s))"

definition handle_imap_noop :: "('tok, 'm) imap_env \<Rightarrow> imap_command imap_request \<Rightarrow> ('tok, 'm, unit) imap_handler" where
  "handle_imap_noop env q s =
     wrote
       (case im_state s of
          ISelected tok mailbox \<Rightarrow> operate_and_write env INoop tok (Some mailbox) [q] s
        | _ \<Rightarrow> (Ok (), s))
       (imap_write env (status_bytes (with_tag (rq_tag q) (completed (rq_command q)))))"

section \<open>Capabilities of the session\<close>

definition enable_one :: "capability \<Rightarrow> ('tok, 'm) imap_session \<times> capability list \<Rightarrow> ('tok, 'm) imap_session \<times> capability list" where
  "enable_one c acc =
     (case acc of (s, enabled) \<Rightarrow>
       (case c of
          CapIMAP4rev2 \<Rightarrow> (s\<lparr>im_version := Rev2, im_utf8 := True\<rparr>, enabled @ [c])
        | CapIMAP4rev1 \<Rightarrow> (s\<lparr>im_version := Rev1\<rparr>, enabled @ [c])
        | CapCondStore \<Rightarrow> (s\<lparr>im_condstore := True\<rparr>, enabled @ [c])
        | CapQResync \<Rightarrow> (s\<lparr>im_qresync := True, im_condstore := True\<rparr>, enabled @ [c])
        | CapUtf8Accept \<Rightarrow> (s\<lparr>im_utf8 := True\<rparr>, enabled @ [c])
        | CapObjectIdPlus \<Rightarrow> (s\<lparr>im_objectid := True\<rparr>, enabled @ [c])
        | _ \<Rightarrow> (s, enabled)))"

fun parse_capabilities :: "('tok, 'm) imap_env \<Rightarrow> bytes \<Rightarrow> imap_token list \<Rightarrow> (capability list, imap_error) result" where
  "parse_capabilities env tag [] = Ok []"
| "parse_capabilities env tag (token # tokens) =
     (case capability_parse (unwrap_bytes token) of
        None \<Rightarrow>
          Err (bad_arguments (lit ''Unsupported capability '' @ [39] @ ie_utf8_lossy env (unwrap_bytes token) @ [39] @ lit ''.'') tag)
      | Some c \<Rightarrow> and_then (parse_capabilities env tag tokens) (\<lambda>cs. Ok (c # cs)))"

definition parse_enable :: "('tok, 'm) imap_env \<Rightarrow> 'c imap_request \<Rightarrow> (capability list, imap_error) result" where
  "parse_enable env q =
     (if rq_tokens q \<noteq> [] then parse_capabilities env (rq_tag q) (rq_tokens q)
      else Err (imap_details (lit ''Missing arguments.'') (rq_tag q)))"

definition handle_enable :: "('tok, 'm) imap_env \<Rightarrow> imap_command imap_request \<Rightarrow> ('tok, 'm, unit) imap_handler" where
  "handle_enable env q =
     permitted env PImapEnable (with_parsed (parse_enable env q) (\<lambda>capabilities s.
       case foldl (\<lambda>acc c. enable_one c acc) (s, []) capabilities of
         (s, enabled) \<Rightarrow>
           imap_write env
             (status_serialize (with_tag (rq_tag q) (status_ok (lit ''ENABLE successful.''))) (enable_response enabled)) s))"

definition activate_objectid :: "('tok, 'm) imap_env \<Rightarrow> ('tok, 'm, unit) imap_handler" where
  "activate_objectid env s =
     (if im_objectid s then (Ok (), s)
      else imap_write env (lit ''* ENABLED OBJECTID+'' @ [13, 10]) (s\<lparr>im_objectid := True\<rparr>))"

section \<open>Selecting a mailbox\<close>

definition close_mailbox :: "('tok, 'm) imap_session \<Rightarrow> bool" where
  "close_mailbox s = (case im_state s of ISelected _ _ \<Rightarrow> True | _ \<Rightarrow> False)"

definition select_mailbox ::
  "('tok, 'm) imap_env \<Rightarrow> imap_command imap_request \<Rightarrow> select_args \<Rightarrow> 'tok \<Rightarrow> 'm \<Rightarrow> ('tok, 'm, unit) imap_handler" where
  "select_mailbox env q args tok mailbox s =
     (let is_select = (rq_command q = ISelect);
          is_condstore = (im_condstore s \<or> sa_condstore args)
      in case ie_open_mailbox env tok mailbox of
           Ok response \<Rightarrow>
             if sa_qresync args \<and> \<not> im_qresync s
             then (Err (imap_details (lit ''QRESYNC is not enabled.'') (rq_tag q)), s)
             else
               (case (if sa_qresync args then ie_qresync_fetch env tok mailbox else Ok ()) of
                  Ok _ \<Rightarrow>
                    imap_write env
                      (status_serialize
                        (with_code (if is_select then RcReadWrite else RcReadOnly) (with_tag (rq_tag q) (completed (rq_command q))))
                        response)
                      (s\<lparr>im_state := ISelected tok \<lparr>sel_id = mailbox, sel_is_select = is_select, sel_is_condstore = is_condstore\<rparr>\<rparr>)
                | Err e \<Rightarrow> (Err e, s)
                | Panic \<Rightarrow> (Panic, s))
         | Err e \<Rightarrow> (Err e, s)
         | Panic \<Rightarrow> (Panic, s))"

definition handle_select :: "('tok, 'm) imap_env \<Rightarrow> imap_command imap_request \<Rightarrow> ('tok, 'm, unit) imap_handler" where
  "handle_select env q =
     permitted env (if rq_command q = ISelect then PImapSelect else PImapExamine)
       (\<lambda>s. with_parsed (ie_parse_select env (im_utf8 s) q) (\<lambda>args s.
         with_data s (\<lambda>tok _.
           wrote (if sa_objectid args then activate_objectid env s else (Ok (), s)) (\<lambda>s.
             case ie_synchronize env tok of
               Ok _ \<Rightarrow>
                 (case ie_find_mailbox env tok q of
                    Some mailbox \<Rightarrow> select_mailbox env q args tok mailbox s
                  | None \<Rightarrow>
                      (Err ((imap_details (lit ''Mailbox does not exist.'') (rq_tag q))\<lparr>er_code := Some (code_name RcNonExistent)\<rparr>), s))
             | Err e \<Rightarrow> (Err e, s)
             | Panic \<Rightarrow> (Panic, s)))) s)"

definition handle_unselect :: "('tok, 'm) imap_env \<Rightarrow> imap_command imap_request \<Rightarrow> ('tok, 'm, unit) imap_handler" where
  "handle_unselect env q s =
     with_data s (\<lambda>tok _.
       imap_write env (status_bytes (with_tag (rq_tag q) (completed IUnselect))) (s\<lparr>im_state := IAuthenticated tok\<rparr>))"

definition handle_close :: "('tok, 'm) imap_env \<Rightarrow> imap_command imap_request \<Rightarrow> ('tok, 'm, unit) imap_handler" where
  "handle_close env q s =
     with_selected s (\<lambda>tok mailbox.
       case (if sel_is_select mailbox then operate env IClose tok (Some mailbox) [q] s else (Ok [], s)) of
         (Ok _, s) \<Rightarrow>
           imap_write env (status_bytes (with_tag (rq_tag q) (completed IClose))) (s\<lparr>im_state := IAuthenticated tok\<rparr>)
       | (Err e, s) \<Rightarrow> (Err e, s)
       | (Panic, s) \<Rightarrow> (Panic, s))"


section \<open>Commands on mailboxes\<close>

text \<open>
  Their permission, whether their arguments are parsed before the state is read, and the part of the
  state they read; the rest runs in a task.
\<close>

definition handle_imap_list :: "('tok, 'm) imap_env \<Rightarrow> imap_command imap_request \<Rightarrow> ('tok, 'm, unit) imap_handler" where
  "handle_imap_list env q =
     permitted env (if rq_command q \<noteq> ILsub then PImapList else PImapLsub)
       (\<lambda>s. with_parsed (ie_parse env (im_utf8 s) q) (\<lambda>_ s.
         if \<not> ie_separator_query env q then with_data s (\<lambda>tok _. spawn_op (rq_command q) None s)
         else imap_write env (status_bytes (with_tag (rq_tag q) (completed (rq_command q)))) s) s)"

text \<open>\<^verbatim>\<open>CREATE\<close>, \<^verbatim>\<open>DELETE\<close> and the quota commands read the state first and parse in the task.\<close>

definition handle_on_account ::
  "('tok, 'm) imap_env \<Rightarrow> imap_permission \<Rightarrow> imap_command imap_request \<Rightarrow> ('tok, 'm, unit) imap_handler" where
  "handle_on_account env permission q = permitted env permission (\<lambda>s. with_data s (\<lambda>tok _. spawn_op (rq_command q) None s))"

text \<open>\<^verbatim>\<open>RENAME\<close>, \<^verbatim>\<open>SUBSCRIBE\<close> and the ACL commands parse first.\<close>

definition handle_parsed_on_account ::
  "('tok, 'm) imap_env \<Rightarrow> imap_permission \<Rightarrow> imap_command imap_request \<Rightarrow> ('tok, 'm, unit) imap_handler" where
  "handle_parsed_on_account env permission q =
     permitted env permission
       (\<lambda>s. with_parsed (ie_parse env (im_utf8 s) q) (\<lambda>_ s. with_data s (\<lambda>tok _. spawn_op (rq_command q) None s)) s)"

definition handle_list_rights :: "('tok, 'm) imap_env \<Rightarrow> imap_command imap_request \<Rightarrow> ('tok, 'm, unit) imap_handler" where
  "handle_list_rights env q =
     permitted env PImapListRights
       (\<lambda>s. with_parsed (ie_parse env (im_utf8 s) q) (\<lambda>_.
         imap_write env (status_bytes (with_tag (rq_tag q) (completed IListRights)))) s)"

definition handle_namespace :: "('tok, 'm) imap_env \<Rightarrow> imap_command imap_request \<Rightarrow> ('tok, 'm, unit) imap_handler" where
  "handle_namespace env q =
     permitted env PImapNamespace (\<lambda>s. with_data s (\<lambda>tok _. operate_and_write env INamespace tok None [q] s))"

definition handle_status :: "('tok, 'm) imap_env \<Rightarrow> imap_command imap_request list \<Rightarrow> ('tok, 'm, unit) imap_handler" where
  "handle_status env qs =
     permitted env PImapStatus (\<lambda>s.
       let activate = (\<exists>q \<in> set qs. ie_parse_status env (im_utf8 s) q = Ok True)
       in wrote (if activate then activate_objectid env s else (Ok (), s)) (\<lambda>s.
            with_data s (\<lambda>tok _. spawn_op IStatus None s)))"

definition handle_append :: "('tok, 'm) imap_env \<Rightarrow> imap_command imap_request \<Rightarrow> ('tok, 'm, unit) imap_handler" where
  "handle_append env q =
     permitted env PImapAppend
       (\<lambda>s. with_parsed (ie_parse env (im_utf8 s) q) (\<lambda>_ s.
         with_data s (\<lambda>tok mailbox.
           case ie_synchronize env tok of
             Ok _ \<Rightarrow>
               (case ie_find_mailbox env tok q of
                  Some _ \<Rightarrow> spawn_op IAppend mailbox s
                | None \<Rightarrow>
                    (Err ((imap_details (lit ''Mailbox does not exist.'') (rq_tag q))\<lparr>er_code := Some (code_name RcTryCreate)\<rparr>), s))
           | Err e \<Rightarrow> (Err e, s)
           | Panic \<Rightarrow> (Panic, s))) s)"

definition handle_expunge :: "('tok, 'm) imap_env \<Rightarrow> imap_command imap_request \<Rightarrow> ('tok, 'm, unit) imap_handler" where
  "handle_expunge env q =
     permitted env PImapExpunge (\<lambda>s.
       with_selected s (\<lambda>tok mailbox. operate_and_write env (rq_command q) tok (Some mailbox) [q] s))"

text \<open>\<^verbatim>\<open>SEARCH\<close>, \<^verbatim>\<open>SORT\<close>, \<^verbatim>\<open>THREAD\<close>, \<^verbatim>\<open>COPY\<close> and \<^verbatim>\<open>MOVE\<close>.\<close>

definition handle_parsed_on_mailbox ::
  "('tok, 'm) imap_env \<Rightarrow> imap_permission \<Rightarrow> imap_command imap_request \<Rightarrow> ('tok, 'm, unit) imap_handler" where
  "handle_parsed_on_mailbox env permission q =
     permitted env permission
       (\<lambda>s. with_parsed (ie_parse env (im_utf8 s) q) (\<lambda>_ s.
         with_selected s (\<lambda>tok mailbox. spawn_op (rq_command q) (Some mailbox) s)) s)"

definition handle_store ::
  "('tok, 'm) imap_env \<Rightarrow> imap_command imap_request \<Rightarrow> bool \<Rightarrow> ('tok, 'm, unit) imap_handler" where
  "handle_store env q spawn =
     permitted env PImapStore
       (\<lambda>s. with_parsed (ie_parse env (im_utf8 s) q) (\<lambda>_ s.
         with_selected s (\<lambda>tok mailbox.
           if spawn then spawn_op (rq_command q) (Some mailbox) s
           else operate_and_write env (rq_command q) tok (Some mailbox) [q] s)) s)"

text \<open>What the arguments of \<^verbatim>\<open>FETCH\<close> switch on: the modification sequences, the object identifiers.\<close>

definition fetch_flags :: "('tok, 'm) imap_env \<Rightarrow> imap_command imap_request \<Rightarrow> bool \<times> bool \<Rightarrow> bool \<times> bool" where
  "fetch_flags env q acc =
     (case acc of (condstore, objectid) \<Rightarrow>
       (case ie_parse_fetch env q of
          Ok (changed_since, wants_modseq, wants_objectid) \<Rightarrow>
            (condstore \<or> (\<not> condstore \<and> changed_since \<or> wants_modseq), objectid \<or> wants_objectid)
        | _ \<Rightarrow> acc))"

definition handle_imap_fetch :: "('tok, 'm) imap_env \<Rightarrow> imap_command imap_request list \<Rightarrow> ('tok, 'm, unit) imap_handler" where
  "handle_imap_fetch env qs =
     permitted env PImapFetch (\<lambda>s.
       with_selected s (\<lambda>tok mailbox.
         case foldl (\<lambda>acc q. fetch_flags env q acc) (im_condstore s, False) qs of
           (condstore, objectid) \<Rightarrow>
             wrote (if objectid then activate_objectid env (s\<lparr>im_condstore := condstore\<rparr>)
                    else (Ok (), s\<lparr>im_condstore := condstore\<rparr>))
               (spawn_op (case qs of q # _ \<Rightarrow> rq_command q | [] \<Rightarrow> IFetch False) (Some mailbox))))"

definition handle_idle :: "('tok, 'm) imap_env \<Rightarrow> imap_command imap_request \<Rightarrow> ('tok, 'm, unit) imap_handler" where
  "handle_idle env q =
     permitted env PImapIdle (\<lambda>s. with_data s (\<lambda>tok mailbox. operate_and_write env IIdle tok mailbox [q] s))"

section \<open>Which requests a state admits\<close>

definition KV_RATE_LIMIT_IMAP :: byte where "KV_RATE_LIMIT_IMAP = 10"

definition state_token :: "('tok, 'm) imap_session \<Rightarrow> 'tok option" where
  "state_token s =
     (case im_state s of INotAuthenticated _ \<Rightarrow> None | IAuthenticated tok \<Rightarrow> Some tok | ISelected tok _ \<Rightarrow> Some tok)"

definition rate_exceeded :: "('tok, 'm) imap_env \<Rightarrow> ('tok, 'm) imap_session \<Rightarrow> (bool, imap_error) result" where
  "rate_exceeded env s =
     (case (state_token s, ie_rate_requests env) of
        (Some tok, Some r) \<Rightarrow>
          and_then (map_err (ie_store_error env)
            (is_rate_allowed (ie_now env) KV_RATE_LIMIT_IMAP (to_be 4 (ie_account env tok)) r True (ie_store env)))
            (\<lambda>(wait, _). Ok (wait \<noteq> None))
      | _ \<Rightarrow> Ok False)"

datatype admission = AnyState | StartTlsOnly | BeforeLogin | LoginOnly | AfterLogin | MailboxOnly

fun admission_of :: "imap_command \<Rightarrow> admission" where
  "admission_of ICapability = AnyState"
| "admission_of INoop = AnyState"
| "admission_of ILogout = AnyState"
| "admission_of IId = AnyState"
| "admission_of IStartTls = StartTlsOnly"
| "admission_of IAuthenticate = BeforeLogin"
| "admission_of ILogin = LoginOnly"
| "admission_of IClose = MailboxOnly"
| "admission_of IUnselect = MailboxOnly"
| "admission_of (IExpunge _) = MailboxOnly"
| "admission_of (ISearch _) = MailboxOnly"
| "admission_of (IFetch _) = MailboxOnly"
| "admission_of (IStore _) = MailboxOnly"
| "admission_of (ICopy _) = MailboxOnly"
| "admission_of (IMove _) = MailboxOnly"
| "admission_of ICheck = MailboxOnly"
| "admission_of (ISort _) = MailboxOnly"
| "admission_of (IThread _) = MailboxOnly"
| "admission_of _ = AfterLogin"

definition modifies_mailbox :: "imap_command \<Rightarrow> bool" where
  "modifies_mailbox c = (case c of IStore _ \<Rightarrow> True | IExpunge _ \<Rightarrow> True | IMove _ \<Rightarrow> True | _ \<Rightarrow> False)"

definition is_allowed ::
  "('tok, 'm) imap_env \<Rightarrow> ('tok, 'm) imap_session \<Rightarrow> imap_command imap_request \<Rightarrow>
    (imap_command imap_request, imap_error) result" where
  "is_allowed env s q =
     and_then (rate_exceeded env s) (\<lambda>exceeded.
       let refuse = (\<lambda>msg. Err (imap_details (lit msg) (rq_tag q)))
       in if exceeded then Err (err_of EvTooManyRequests)
          else
            (case admission_of (rq_command q) of
               AnyState \<Rightarrow> Ok q
             | StartTlsOnly \<Rightarrow>
                 if \<not> im_tls s then (if ie_acceptor_tls env then Ok q else refuse ''TLS is not available.'')
                 else refuse ''Already in TLS mode.''
             | BeforeLogin \<Rightarrow>
                 (case im_state s of INotAuthenticated _ \<Rightarrow> Ok q | _ \<Rightarrow> refuse ''Already authenticated.'')
             | LoginOnly \<Rightarrow>
                 (case im_state s of
                    INotAuthenticated _ \<Rightarrow>
                      if im_tls s \<or> ie_allow_plain_auth env then Ok q
                      else refuse ''LOGIN is disabled on the clear-text port.''
                  | _ \<Rightarrow> refuse ''Already authenticated.'')
             | AfterLogin \<Rightarrow>
                 (case im_state s of INotAuthenticated _ \<Rightarrow> refuse ''Not authenticated.'' | _ \<Rightarrow> Ok q)
             | MailboxOnly \<Rightarrow>
                 (case im_state s of
                    ISelected _ mailbox \<Rightarrow>
                      if sel_is_select mailbox \<or> \<not> modifies_mailbox (rq_command q) then Ok q
                      else refuse ''Not permitted in EXAMINE state.''
                  | IAuthenticated _ \<Rightarrow> Err (bad_arguments (lit ''No mailbox is selected.'') (rq_tag q))
                  | INotAuthenticated _ \<Rightarrow> refuse ''Not authenticated.'')))"


section \<open>The requests of one read\<close>

datatype conn_result = ConnContinue | ConnClose | ConnUpgradeTls

text \<open>\<^verbatim>\<open>group_requests\<close>: the requests that follow with the same command are handled together.\<close>

definition group_requests ::
  "imap_command imap_request \<Rightarrow> imap_command imap_request list \<Rightarrow>
    imap_command imap_request list \<times> imap_command imap_request list" where
  "group_requests q rest =
     (q # takeWhile (\<lambda>r. rq_command r = rq_command q) rest, dropWhile (\<lambda>r. rq_command r = rq_command q) rest)"

fun grouped :: "imap_command \<Rightarrow> bool" where
  "grouped ICreate = True"
| "grouped IDelete = True"
| "grouped IStatus = True"
| "grouped (IFetch _) = True"
| "grouped _ = False"

definition imap_execute ::
  "('tok, 'm) imap_env \<Rightarrow> bool \<Rightarrow> imap_command imap_request list \<Rightarrow> imap_command imap_request \<Rightarrow> ('tok, 'm, unit) imap_handler" where
  "imap_execute env has_expunge together q =
     (case rq_command q of
        IList \<Rightarrow> handle_imap_list env q
      | ILsub \<Rightarrow> handle_imap_list env q
      | ISelect \<Rightarrow> handle_select env q
      | IExamine \<Rightarrow> handle_select env q
      | ICreate \<Rightarrow> handle_on_account env PImapCreate q
      | IDelete \<Rightarrow> handle_on_account env PImapDelete q
      | IRename \<Rightarrow> handle_parsed_on_account env PImapRename q
      | IStatus \<Rightarrow> handle_status env together
      | IAppend \<Rightarrow> handle_append env q
      | IClose \<Rightarrow> handle_close env q
      | IUnselect \<Rightarrow> handle_unselect env q
      | IExpunge _ \<Rightarrow> handle_expunge env q
      | ISearch _ \<Rightarrow> handle_parsed_on_mailbox env PImapSearch q
      | IFetch _ \<Rightarrow> handle_imap_fetch env together
      | IStore _ \<Rightarrow> handle_store env q (\<not> has_expunge)
      | ICopy _ \<Rightarrow> handle_parsed_on_mailbox env PImapCopy q
      | IMove _ \<Rightarrow> handle_parsed_on_mailbox env PImapMove q
      | ISort _ \<Rightarrow> handle_parsed_on_mailbox env PImapSort q
      | IThread _ \<Rightarrow> handle_parsed_on_mailbox env PImapThread q
      | IIdle \<Rightarrow> handle_idle env q
      | ISubscribe \<Rightarrow> handle_parsed_on_account env PImapSubscribe q
      | IUnsubscribe \<Rightarrow> handle_parsed_on_account env PImapSubscribe q
      | INamespace \<Rightarrow> handle_namespace env q
      | IAuthenticate \<Rightarrow> handle_imap_authenticate env q
      | ILogin \<Rightarrow> handle_imap_login env q
      | ICapability \<Rightarrow> handle_capability env q
      | IEnable \<Rightarrow> handle_enable env q
      | IStartTls \<Rightarrow> handle_starttls env q
      | INoop \<Rightarrow> handle_imap_noop env q
      | ICheck \<Rightarrow> handle_imap_noop env q
      | ILogout \<Rightarrow> handle_logout env q
      | ISetAcl \<Rightarrow> handle_parsed_on_account env PImapAclSet q
      | IDeleteAcl \<Rightarrow> handle_parsed_on_account env PImapAclSet q
      | IGetAcl \<Rightarrow> handle_parsed_on_account env PImapAclGet q
      | IListRights \<Rightarrow> handle_list_rights env q
      | IMyRights \<Rightarrow> handle_parsed_on_account env PImapMyRights q
      | IGetQuota \<Rightarrow> handle_on_account env PImapStatus q
      | IGetQuotaRoot \<Rightarrow> handle_on_account env PImapStatus q
      | IUnauthenticate \<Rightarrow> handle_unauthenticate env q
      | IId \<Rightarrow> permitted env PImapId (imap_write env (status_bytes (with_tag (rq_tag q) (completed IId))))
      | IGetJmapAccess \<Rightarrow>
          permitted env PImapCapability (imap_write env (status_bytes (with_tag (rq_tag q) (completed IGetJmapAccess)))))"

definition result_of :: "imap_command \<Rightarrow> conn_result" where
  "result_of c = (case c of IStartTls \<Rightarrow> ConnUpgradeTls | ILogout \<Rightarrow> ConnClose | _ \<Rightarrow> ConnContinue)"

text \<open>The second loop of \<^verbatim>\<open>ingest\<close>.\<close>

function imap_run ::
  "('tok, 'm) imap_env \<Rightarrow> bool \<Rightarrow> imap_command imap_request list \<Rightarrow> ('tok, 'm, conn_result) imap_handler" where
  "imap_run env has_expunge [] s = (Ok ConnContinue, s)"
| "imap_run env has_expunge (q # rest) s =
     (case (if grouped (rq_command q) then group_requests q rest else ([q], rest)) of
        (together, rest) \<Rightarrow>
          (case imap_execute env has_expunge together q s of
             (Ok _, s) \<Rightarrow>
               (case result_of (rq_command q) of
                  ConnContinue \<Rightarrow> imap_run env has_expunge rest s
                | r \<Rightarrow> (Ok r, s))
           | (Err e, s) \<Rightarrow>
               (case imap_write_error env e s of
                  (True, s) \<Rightarrow> imap_run env has_expunge rest s
                | (False, s) \<Rightarrow> (Ok ConnClose, s))
           | (Panic, s) \<Rightarrow> (Panic, s)))"
  by pat_completeness auto

termination
  by (relation "measure (\<lambda>(env, h, qs, s). length qs)")
    (auto simp: less_Suc_eq_le group_requests_def length_dropWhile_le split: if_splits)

declare imap_run.simps(2) [simp del]

definition unauthenticated :: "('tok, 'm) imap_session \<Rightarrow> bool" where
  "unauthenticated s = (case im_state s of INotAuthenticated _ \<Rightarrow> True | _ \<Rightarrow> False)"

definition recv_failure :: "('tok, 'm) imap_env \<Rightarrow> bytes option \<Rightarrow> recv_message \<Rightarrow> imap_error" where
  "recv_failure env tag msg = \<lparr>er_event = EvImap, er_id = tag, er_type = Some (lit ''BAD''),
     er_code = Some (lit ''PARSE''), er_details = Some (ie_recv_text env msg)\<rparr>"

text \<open>
  The first loop of \<^verbatim>\<open>ingest\<close>: the admitted requests and the literal the client waits to send, or
  \<open>None\<close> when the connection closes.
\<close>

function imap_gather ::
  "('tok, 'm) imap_env \<Rightarrow> bytes \<Rightarrow> imap_command imap_request list \<Rightarrow> ('tok, 'm) imap_session \<Rightarrow>
    (imap_command imap_request list \<times> u32 option) option \<times> ('tok, 'm) imap_session" where
  "imap_gather env bs requests s =
     (case recv_parse imap_parser (im_receiver s) bs of
        (r, out, rest) \<Rightarrow>
          let s = s\<lparr>im_receiver := r\<rparr>
          in case out of
               Received q \<Rightarrow>
                 (case is_allowed env s q of
                    Ok q \<Rightarrow> imap_gather env rest (requests @ [q]) s
                  | Err e \<Rightarrow>
                      (case imap_write_error env e s of
                         (True, s) \<Rightarrow> imap_gather env rest requests s
                       | (False, s) \<Rightarrow> (None, s))
                  | Panic \<Rightarrow> (None, s))
             | NeedsMoreData \<Rightarrow> (Some (requests, None), s)
             | NeedsLiteral n \<Rightarrow> (Some (requests, Some n), s)
             | RecvError tag msg \<Rightarrow>
                 if unauthenticated s \<and> ie_scanner_banned env = Ok True then (None, s)
                 else
                   (case imap_write_error env (recv_failure env tag msg) s of
                      (True, s) \<Rightarrow> (Some (requests, None), s)
                    | (False, s) \<Rightarrow> (None, s)))"
  by pat_completeness auto

termination
  by (relation "measure (\<lambda>(env, bs, qs, s). length bs)") (auto dest: recv_parse_rest [OF sym])

declare imap_gather.simps [simp del]

definition is_expunge :: "imap_command \<Rightarrow> bool" where
  "is_expunge c = (case c of IExpunge _ \<Rightarrow> True | IClose \<Rightarrow> True | _ \<Rightarrow> False)"

definition imap_ingest :: "('tok, 'm) imap_env \<Rightarrow> bytes \<Rightarrow> ('tok, 'm, conn_result) imap_handler" where
  "imap_ingest env bs s =
     (case imap_gather env bs [] s of
        (None, s) \<Rightarrow> (Ok ConnClose, s)
      | (Some (requests, literal), s) \<Rightarrow>
          (case imap_run env (\<exists>q \<in> set requests. is_expunge (rq_command q)) requests s of
             (Ok ConnContinue, s) \<Rightarrow>
               (case literal of
                  None \<Rightarrow> (Ok ConnContinue, s)
                | Some n \<Rightarrow>
                    (case imap_write env (lit ''+ Ready for '' @ show_number n @ lit '' bytes.'' @ [13, 10]) s of
                       (Ok _, s) \<Rightarrow> (Ok ConnContinue, s)
                     | (Err e, s) \<Rightarrow> (Ok ConnClose, snd (imap_write_error env e s))
                     | (Panic, s) \<Rightarrow> (Panic, s)))
           | (r, s) \<Rightarrow> (r, s)))"

section \<open>The connection\<close>

datatype imap_conn_event = ImapRead bytes | ImapReadError | ImapTimeout | ImapShutdown

fun imap_handle_conn ::
  "(('tok, 'm) imap_env \<times> imap_conn_event) list \<Rightarrow> ('tok, 'm) imap_session \<Rightarrow>
    (bool option, imap_error) result \<times> (('tok, 'm) imap_env \<times> imap_conn_event) list \<times> ('tok, 'm) imap_session" where
  "imap_handle_conn [] s = (Ok None, [], s)"
| "imap_handle_conn ((env, ImapRead bs) # events) s =
     (if bs \<noteq> [] then
        (case imap_ingest env bs s of
           (Ok ConnContinue, s') \<Rightarrow> imap_handle_conn events s'
         | (Ok ConnUpgradeTls, s') \<Rightarrow> (Ok (Some True), events, s')
         | (Ok ConnClose, s') \<Rightarrow> (Ok (Some False), events, s')
         | (Err e, s') \<Rightarrow> (Err e, events, s')
         | (Panic, s') \<Rightarrow> (Panic, events, s'))
      else (Ok (Some False), events, s))"
| "imap_handle_conn ((env, ImapReadError) # events) s = (Ok (Some False), events, s)"
| "imap_handle_conn ((env, ImapTimeout) # events) s =
     (Ok (Some False), events, snd (imap_write env (lit ''* BYE Connection timed out.'' @ [13, 10]) s))"
| "imap_handle_conn ((env, ImapShutdown) # events) s =
     (Ok (Some False), events, snd (imap_write env (lit ''* BYE Server shutting down.'' @ [13, 10]) s))"

definition imap_greeting :: "bool \<Rightarrow> bytes" where
  "imap_greeting offer_tls =
     status_bytes (with_code (RcCapability (all_capabilities False offer_tls))
       (status_ok (lit ''Stalwart IMAP4rev2 at your service.'')))"

definition imap_new :: "nat \<Rightarrow> bool \<Rightarrow> ('tok, 'm) imap_session" where
  "imap_new max_request_size tls =
     \<lparr>im_receiver = with_max_request_size imap_parser max_request_size, im_version = Rev1,
      im_state = INotAuthenticated 0, im_tls = tls, im_condstore = False, im_qresync = False, im_utf8 = False,
      im_objectid = False, im_written = [], im_ran = []\<rparr>"

text \<open>
  \<^verbatim>\<open>into_tls\<close> keeps the receiver; it fails when a task still holds the session's data, which is the
  argument \<open>unshared\<close>.
\<close>

definition imap_into_tls :: "bool \<Rightarrow> bool \<Rightarrow> ('tok, 'm) imap_session \<Rightarrow> ('tok, 'm) imap_session option" where
  "imap_into_tls unshared accepted s = (if unshared \<and> accepted then Some (s\<lparr>im_tls := True\<rparr>) else None)"

definition imap_handle ::
  "('tok, 'm) imap_env \<Rightarrow> nat \<Rightarrow> bool \<Rightarrow> bool \<Rightarrow> bool \<Rightarrow> (('tok, 'm) imap_env \<times> imap_conn_event) list \<Rightarrow>
    (bool option, imap_error) result \<times> ('tok, 'm) imap_session" where
  "imap_handle env max_request_size tls unshared accepted events =
     (case imap_write env (imap_greeting (\<not> tls \<and> ie_acceptor_tls env)) (imap_new max_request_size tls) of
        (Ok _, s) \<Rightarrow>
          (case imap_handle_conn events s of
             (Ok (Some True), rest, s) \<Rightarrow>
               if ie_acceptor_tls env then
                 (case imap_into_tls unshared accepted s of
                    Some s \<Rightarrow> (case imap_handle_conn rest s of (r, _, s) \<Rightarrow> (r, s))
                  | None \<Rightarrow> (Ok (Some False), s))
               else (Ok (Some False), s)
           | (r, _, s) \<Rightarrow> (r, s))
      | (_, s) \<Rightarrow> (Ok (Some False), s))"

end
