(* ===== verification/Imap_Correct.thy ===== *)
theory Imap_Correct
  imports Imap_Session
begin

text \<open>
  The handlers of the IMAP session on the states their requests were admitted in: they return, change
  mailboxes only where these were selected for writing, and leave the state alone unless the command is
  one that changes it. From this, the reads on which the session keeps its promises.
\<close>

section \<open>Handlers that fit the state\<close>

text \<open>The calls into the rest of the server return.\<close>

definition env_returns :: "('tok, 'm) imap_env \<Rightarrow> bool" where
  "env_returns env \<longleftrightarrow>
     (\<forall>c. ie_authenticate env c \<noteq> Panic) \<and> (\<forall>tok. ie_session_data env tok \<noteq> Panic) \<and>
     (\<forall>u q. ie_parse env u q \<noteq> Panic) \<and> (\<forall>u q. ie_parse_select env u q \<noteq> Panic) \<and>
     (\<forall>tok. ie_synchronize env tok \<noteq> Panic) \<and> (\<forall>tok m. ie_open_mailbox env tok m \<noteq> Panic) \<and>
     (\<forall>tok m. ie_qresync_fetch env tok m \<noteq> Panic) \<and> (\<forall>c tok m qs. ie_operate env c tok m qs \<noteq> Panic)"

text \<open>What the admission of a request says about the state.\<close>

definition suits :: "('tok, 'm) imap_state \<Rightarrow> imap_command \<Rightarrow> bool" where
  "suits st c \<longleftrightarrow>
     (case admission_of c of
        BeforeLogin \<Rightarrow> (\<exists>n. st = INotAuthenticated n)
      | LoginOnly \<Rightarrow> (\<exists>n. st = INotAuthenticated n)
      | AfterLogin \<Rightarrow> (\<forall>n. st \<noteq> INotAuthenticated n)
      | MailboxOnly \<Rightarrow> (\<exists>tok mb. st = ISelected tok mb \<and> (sel_is_select mb \<or> \<not> modifies_mailbox c))
      | _ \<Rightarrow> True)"

definition writes_mailbox :: "imap_command \<Rightarrow> bool" where
  "writes_mailbox c \<longleftrightarrow> modifies_mailbox c \<or> c = IClose"

text \<open>A recorded command that changes messages has a mailbox that was selected for writing.\<close>

definition entry_ok :: "imap_command \<times> 'm selected option \<Rightarrow> bool" where
  "entry_ok e = (case e of (c, m) \<Rightarrow> writes_mailbox c \<longrightarrow> (\<exists>mb. m = Some mb \<and> sel_is_select mb))"

definition good :: "bool \<Rightarrow> ('tok, 'm) imap_state \<Rightarrow> ('a, imap_error) result \<times> ('tok, 'm) imap_session \<Rightarrow> bool" where
  "good keep st p \<longleftrightarrow>
     fst p \<noteq> Panic \<and> list_all entry_ok (im_ran (snd p)) \<and> (keep \<longrightarrow> im_state (snd p) = st)"

named_theorems good_intro \<open>handlers that return, record well and keep the state\<close>

definition fine :: "bool \<Rightarrow> ('tok, 'm) imap_state \<Rightarrow> ('tok, 'm) imap_session \<Rightarrow> bool" where
  "fine keep st s \<longleftrightarrow> list_all entry_ok (im_ran s) \<and> (keep \<longrightarrow> im_state s = st)"

lemma good_Err [good_intro]: "fine keep st s \<Longrightarrow> good keep st (Err e, s)"
  by (simp add: good_def fine_def)

lemma good_Ok [good_intro]: "fine keep st s \<Longrightarrow> good keep st (Ok x, s)"
  by (simp add: good_def fine_def)

lemma fine_update [simp]:
  "fine keep st (s\<lparr>im_written := w\<rparr>) = fine keep st s" "fine keep st (s\<lparr>im_receiver := r\<rparr>) = fine keep st s"
  "fine keep st (s\<lparr>im_objectid := b\<rparr>) = fine keep st s" "fine keep st (s\<lparr>im_condstore := b\<rparr>) = fine keep st s"
  "fine keep st (s\<lparr>im_qresync := b\<rparr>) = fine keep st s" "fine keep st (s\<lparr>im_utf8 := b\<rparr>) = fine keep st s"
  "fine keep st (s\<lparr>im_version := v\<rparr>) = fine keep st s"
  "fine False st (s\<lparr>im_state := st'\<rparr>) = fine False st s"
  by (simp_all add: fine_def)

lemma good_write [good_intro]: "fine keep st s \<Longrightarrow> good keep st (imap_write env bs s)"
  by (simp add: imap_write_def good_intro)

lemma good_permitted [good_intro]:
  "fine keep st s \<Longrightarrow> good keep st (f s) \<Longrightarrow> good keep st (permitted env p f s)"
  by (auto simp: permitted_def imap_assert_permission_def good_intro split: imap_state.splits result.splits)

lemma good_parsed [good_intro]:
  "r \<noteq> Panic \<Longrightarrow> fine keep st s \<Longrightarrow> (\<And>x. r = Ok x \<Longrightarrow> good keep st (f x s)) \<Longrightarrow> good keep st (with_parsed r f s)"
  by (cases r) (auto simp: with_parsed_def good_intro)

lemma good_wrote [good_intro]:
  assumes "good keep st p" "\<And>s. fine keep st s \<Longrightarrow> good keep st (f s)"
  shows "good keep st (wrote p f)"
proof -
  obtain r s where p: "p = (r, s)" by (cases p)
  with assms(1) have "fine keep st s" "r \<noteq> Panic" by (simp_all add: good_def fine_def)
  with p assms(2) show ?thesis by (cases r) (simp_all add: wrote_def good_intro)
qed

lemma good_activate [good_intro]: "fine keep st s \<Longrightarrow> good keep st (activate_objectid env s)"
  by (simp add: activate_objectid_def good_intro)

lemma fine_ran: "fine keep st s \<Longrightarrow> entry_ok (c, m) \<Longrightarrow> fine keep st (ran c m s)"
  by (simp add: fine_def ran_def)

lemma good_spawn [good_intro]: "fine keep st s \<Longrightarrow> entry_ok (c, m) \<Longrightarrow> good keep st (spawn_op c m s)"
  by (simp add: spawn_op_def good_Ok fine_ran)

lemma good_operate [good_intro]:
  "env_returns env \<Longrightarrow> fine keep st s \<Longrightarrow> entry_ok (c, m) \<Longrightarrow> good keep st (operate_and_write env c tok m qs s)"
  by (auto simp: operate_and_write_def operate_def env_returns_def good_intro fine_ran split: result.splits)

lemma entry_ok_plain: "\<not> writes_mailbox c \<Longrightarrow> entry_ok (c, m)"
  by (simp add: entry_ok_def)


definition steady :: "imap_command \<Rightarrow> bool" where
  "steady c \<longleftrightarrow> c \<notin> {ILogin, IAuthenticate, ISelect, IExamine, IClose, IUnselect, IUnauthenticate}"

text \<open>The states in which the accessors do not reach \<^verbatim>\<open>unreachable!\<close>.\<close>

definition logged_in :: "('tok, 'm) imap_state \<Rightarrow> bool" where
  "logged_in st \<longleftrightarrow> (\<forall>n. st \<noteq> INotAuthenticated n)"

lemma good_with_data [good_intro]:
  "logged_in (im_state s) \<Longrightarrow> (\<And>tok m. good keep st (f tok m)) \<Longrightarrow> good keep st (with_data s f)"
  by (auto simp: with_data_def logged_in_def split: imap_state.splits)

lemma good_with_selected [good_intro]:
  "im_state s = ISelected tok mb \<Longrightarrow> good keep st (f tok mb) \<Longrightarrow> good keep st (with_selected s f)"
  by (simp add: with_selected_def)

lemma fine_state: "fine True st s \<Longrightarrow> im_state s = st"
  by (simp add: fine_def)

lemma env_returns_simps [simp]:
  assumes "env_returns env"
  shows "ie_parse env u q \<noteq> Panic" "ie_parse_select env u q \<noteq> Panic" "ie_synchronize env tok \<noteq> Panic"
    "ie_open_mailbox env tok m \<noteq> Panic" "ie_qresync_fetch env tok m \<noteq> Panic" "ie_operate env c tok sel qs \<noteq> Panic"
    "ie_authenticate env cred \<noteq> Panic" "ie_session_data env tok \<noteq> Panic"
  using assms by (simp_all add: env_returns_def)

lemma good_case_result [good_intro]:
  "r \<noteq> Panic \<Longrightarrow> fine keep st s \<Longrightarrow> (\<And>x. good keep st (f x)) \<Longrightarrow>
   good keep st (case r of Ok x \<Rightarrow> f x | Err e \<Rightarrow> (Err (g e), s) | Panic \<Rightarrow> (Panic, s))"
  by (cases r) (auto intro: good_intro)

lemma good_case_option [good_intro]:
  "(\<And>x. good keep st (f x)) \<Longrightarrow> good keep st y \<Longrightarrow> good keep st (case v of Some x \<Rightarrow> f x | None \<Rightarrow> y)"
  by (cases v) auto

lemma list_good:
  "env_returns env \<Longrightarrow> logged_in st \<Longrightarrow> fine True st s \<Longrightarrow> \<not> writes_mailbox (rq_command q) \<Longrightarrow>
   good True st (handle_imap_list env q s)"
  by (auto simp: handle_imap_list_def fine_state entry_ok_plain intro!: good_intro)

lemma on_account_good:
  "logged_in st \<Longrightarrow> fine True st s \<Longrightarrow> \<not> writes_mailbox (rq_command q) \<Longrightarrow> good True st (handle_on_account env p q s)"
  by (auto simp: handle_on_account_def fine_state entry_ok_plain intro!: good_intro)

lemma parsed_on_account_good:
  "env_returns env \<Longrightarrow> logged_in st \<Longrightarrow> fine True st s \<Longrightarrow> \<not> writes_mailbox (rq_command q) \<Longrightarrow>
   good True st (handle_parsed_on_account env p q s)"
  by (auto simp: handle_parsed_on_account_def fine_state entry_ok_plain intro!: good_intro)

lemma list_rights_good: "env_returns env \<Longrightarrow> fine True st s \<Longrightarrow> good True st (handle_list_rights env q s)"
  by (auto simp: handle_list_rights_def intro!: good_intro)

lemma namespace_good:
  "env_returns env \<Longrightarrow> logged_in st \<Longrightarrow> fine True st s \<Longrightarrow> good True st (handle_namespace env q s)"
  by (auto simp: handle_namespace_def fine_state entry_ok_def writes_mailbox_def modifies_mailbox_def intro!: good_intro)

lemma status_good: "logged_in st \<Longrightarrow> fine True st s \<Longrightarrow> good True st (handle_status env qs s)"
  by (auto simp: handle_status_def Let_def fine_state entry_ok_def writes_mailbox_def modifies_mailbox_def intro!: good_intro)

lemma append_good: "env_returns env \<Longrightarrow> logged_in st \<Longrightarrow> fine True st s \<Longrightarrow> good True st (handle_append env q s)"
  unfolding handle_append_def
  by (intro good_intro good_case_result [where g = "\<lambda>e. e"])
    (simp_all add: fine_state entry_ok_def writes_mailbox_def modifies_mailbox_def)

lemma expunge_good:
  "env_returns env \<Longrightarrow> st = ISelected tok mb \<Longrightarrow> entry_ok (rq_command q, Some mb) \<Longrightarrow> fine True st s \<Longrightarrow>
   good True st (handle_expunge env q s)"
  by (auto simp: handle_expunge_def dest: fine_state intro!: good_intro)

lemma parsed_on_mailbox_good:
  "env_returns env \<Longrightarrow> st = ISelected tok mb \<Longrightarrow> entry_ok (rq_command q, Some mb) \<Longrightarrow> fine True st s \<Longrightarrow>
   good True st (handle_parsed_on_mailbox env p q s)"
  by (auto simp: handle_parsed_on_mailbox_def dest: fine_state intro!: good_intro)

lemma store_good:
  "env_returns env \<Longrightarrow> st = ISelected tok mb \<Longrightarrow> entry_ok (rq_command q, Some mb) \<Longrightarrow> fine True st s \<Longrightarrow>
   good True st (handle_store env q spawn s)"
  by (auto simp: handle_store_def dest: fine_state intro!: good_intro)

lemma fetch_good:
  "st = ISelected tok mb \<Longrightarrow> list_all (\<lambda>q. \<not> writes_mailbox (rq_command q)) qs \<Longrightarrow> fine True st s \<Longrightarrow>
   good True st (handle_imap_fetch env qs s)"
  by (auto simp: handle_imap_fetch_def dest: fine_state split: prod.splits intro!: good_intro)
    (auto simp: entry_ok_def writes_mailbox_def modifies_mailbox_def split: list.splits)

lemma idle_good: "env_returns env \<Longrightarrow> logged_in st \<Longrightarrow> fine True st s \<Longrightarrow> good True st (handle_idle env q s)"
  by (auto simp: handle_idle_def fine_state entry_ok_def writes_mailbox_def modifies_mailbox_def intro!: good_intro)

lemma noop_good: "env_returns env \<Longrightarrow> fine True st s \<Longrightarrow> good True st (handle_imap_noop env q s)"
  by (auto simp: handle_imap_noop_def entry_ok_def writes_mailbox_def modifies_mailbox_def
      split: imap_state.splits intro!: good_intro)

lemma enable_one_fine: "fine keep st s \<Longrightarrow> fine keep st (fst (foldl (\<lambda>acc c. enable_one c acc) (s, en) cs))"
proof (induction cs arbitrary: s en)
  case (Cons c cs)
  have "fine keep st (fst (enable_one c (s, en)))" using Cons.prems by (cases c) (simp_all add: enable_one_def)
  then show ?case using Cons.IH by (cases "enable_one c (s, en)") simp
qed simp

lemma parse_capabilities_returns: "parse_capabilities env tag ts \<noteq> Panic"
  by (induction ts) (auto simp: and_then_Panic_iff split: option.splits)

lemma enable_good: "fine True st s \<Longrightarrow> good True st (handle_enable env q s)"
  unfolding handle_enable_def
proof (intro good_intro)
  fix cs assume "fine True st s"
  then have "fine True st (fst (foldl (\<lambda>acc c. enable_one c acc) (s, []) cs))" by (rule enable_one_fine)
  then show "good True st (case foldl (\<lambda>acc c. enable_one c acc) (s, []) cs of
        (s, enabled) \<Rightarrow> imap_write env
          (status_serialize (with_tag (rq_tag q) (status_ok (lit ''ENABLE successful.''))) (enable_response enabled)) s)"
    by (auto split: prod.splits intro!: good_write)
qed (auto simp: parse_enable_def parse_capabilities_returns)


lemma authenticate_good:
  "env_returns env \<Longrightarrow> im_state s = INotAuthenticated n \<Longrightarrow> fine False st s \<Longrightarrow> good False st (imap_authenticate env c tag s)"
  by (cases "ie_authenticate env c")
    (auto simp: imap_authenticate_def split: result.splits intro!: good_intro
      dest: env_returns_simps(7) [of env c] env_returns_simps(8) [of env])

lemma login_good:
  "env_returns env \<Longrightarrow> im_state s = INotAuthenticated n \<Longrightarrow> fine False st s \<Longrightarrow> good False st (handle_imap_login env q s)"
  by (auto simp: handle_imap_login_def parse_login_def authenticate_good split: list.splits option.splits intro!: good_intro)

lemma sasl_good:
  "env_returns env \<Longrightarrow> im_state s = INotAuthenticated n \<Longrightarrow> fine False st s \<Longrightarrow> good False st (handle_imap_authenticate env q s)"
  by (auto simp: handle_imap_authenticate_def parse_authenticate_def authenticate_good
      split: list.splits option.splits intro!: good_intro)

lemma unauthenticate_good: "fine False st s \<Longrightarrow> good False st (handle_unauthenticate env q s)"
  by (simp add: handle_unauthenticate_def good_write)

lemma select_mailbox_good:
  "env_returns env \<Longrightarrow> fine False st s \<Longrightarrow> good False st (select_mailbox env q args tok mailbox s)"
  unfolding select_mailbox_def Let_def
  by (intro good_case_result [where g = "\<lambda>e. e"]) (auto simp: good_intro split: result.splits dest: env_returns_simps(5))

lemma select_good:
  "env_returns env \<Longrightarrow> logged_in (im_state s) \<Longrightarrow> fine False st s \<Longrightarrow> good False st (handle_select env q s)"
  unfolding handle_select_def
  by (intro good_intro good_case_result [where g = "\<lambda>e. e"]) (auto simp: select_mailbox_good intro!: good_intro)

lemma unselect_good: "logged_in (im_state s) \<Longrightarrow> fine False st s \<Longrightarrow> good False st (handle_unselect env q s)"
  by (auto simp: handle_unselect_def intro!: good_intro)

lemma close_good:
  assumes "env_returns env" "im_state s = ISelected tok mb" "fine False st s"
  shows "good False st (handle_close env q s)"
proof (cases "sel_is_select mb")
  case True
  then have "fine False st (ran IClose (Some mb) s)"
    using assms(3) by (intro fine_ran) (auto simp: entry_ok_def)
  then show ?thesis
    using assms True env_returns_simps(6) [of env IClose tok "Some mb" "[q]"]
    by (cases "ie_operate env IClose tok (Some mb) [q]")
      (simp_all add: handle_close_def with_selected_def operate_def good_intro)
qed (use assms in \<open>simp add: handle_close_def with_selected_def good_intro\<close>)

lemma suits_mailbox:
  "suits st c \<Longrightarrow> admission_of c = MailboxOnly \<Longrightarrow> c \<noteq> IClose \<Longrightarrow> \<exists>tok mb. st = ISelected tok mb \<and> entry_ok (c, Some mb)"
  by (auto simp: suits_def entry_ok_def writes_mailbox_def)

lemma suits_login: "suits st c \<Longrightarrow> admission_of c = AfterLogin \<Longrightarrow> logged_in st"
  by (simp add: suits_def logged_in_def)

lemma steady_keep: "steady c = k \<Longrightarrow> fine k st s \<Longrightarrow> fine (steady c) st s"
  by simp

lemma execute_good:
  assumes "env_returns env" "suits st (rq_command q)" "im_state s = st" "list_all entry_ok (im_ran s)"
    and "list_all (\<lambda>r. rq_command r = rq_command q) together"
  shows "good (steady (rq_command q)) st (imap_execute env h together q s)"
proof -
  have fine: "fine k st s" for k using assms(3,4) by (simp add: fine_def)
  show ?thesis
  proof (cases "admission_of (rq_command q)")
    case AfterLogin
    then have "logged_in st" using suits_login assms(2) by blast
    with AfterLogin assms(1,3) fine [of True] fine [of False] show ?thesis
      by (cases "rq_command q")
        (simp_all add: imap_execute_def steady_def list_good on_account_good parsed_on_account_good list_rights_good
          namespace_good status_good append_good idle_good enable_good select_good unauthenticate_good
          writes_mailbox_def modifies_mailbox_def good_intro)
  next
    case MailboxOnly
    then obtain tok mb where st: "st = ISelected tok mb" and ok: "rq_command q \<noteq> IClose \<Longrightarrow> entry_ok (rq_command q, Some mb)"
      using suits_mailbox [of st "rq_command q"] assms(2) by (auto simp: suits_def)
    have "logged_in st" using st by (simp add: logged_in_def)
    with MailboxOnly st ok assms(1,3,5) fine [of True] fine [of False] show ?thesis
      by (cases "rq_command q")
        (auto simp: imap_execute_def steady_def list_all_iff writes_mailbox_def modifies_mailbox_def
          intro: expunge_good parsed_on_mailbox_good store_good fetch_good noop_good close_good unselect_good)
  next
    case BeforeLogin
    with assms(1-3) fine [of False] show ?thesis
      by (cases "rq_command q") (auto simp: imap_execute_def steady_def suits_def intro: sasl_good)
  next
    case LoginOnly
    with assms(1-3) fine [of False] show ?thesis
      by (cases "rq_command q") (auto simp: imap_execute_def steady_def suits_def intro: login_good)
  qed (use assms(1) fine [of True] in \<open>cases "rq_command q"; simp add: imap_execute_def steady_def handle_capability_def
        handle_logout_def handle_starttls_def noop_good good_intro\<close>)+
qed


section \<open>The requests of a read\<close>

lemma write_error_fine: "fine keep st s \<Longrightarrow> fine keep st (snd (imap_write_error env e s))"
  by (auto simp: imap_write_error_def imap_write_def)

text \<open>All requests but the last leave the state as it was when they were admitted.\<close>

definition steady_read :: "imap_command imap_request list \<Rightarrow> bool" where
  "steady_read qs \<longleftrightarrow> list_all (\<lambda>q. steady (rq_command q)) (butlast qs)"

lemma group_facts:
  fixes rest :: "imap_command imap_request list"
  assumes "(if grouped (rq_command q) then group_requests q rest else ([q], rest)) = (together, rest')"
  shows "list_all (\<lambda>r. rq_command r = rq_command q) together" "set rest' \<subseteq> set rest" "\<exists>pre. rest = pre @ rest'"
  using assms
  by (auto simp: group_requests_def list_all_iff dest: set_takeWhileD set_dropWhileD split: if_splits)
    (metis takeWhile_dropWhile_id)

lemma steady_read_rest: "steady_read (q # pre @ rest') \<Longrightarrow> steady_read rest'"
  by (cases "rest' = []") (auto simp: steady_read_def butlast_append)

lemma steady_read_first: "steady_read (q # rest) \<Longrightarrow> rest \<noteq> [] \<Longrightarrow> steady (rq_command q)"
  by (simp add: steady_read_def)

lemma imap_run_good:
  assumes "env_returns env"
  shows "steady_read qs \<Longrightarrow> list_all (\<lambda>q. suits st (rq_command q)) qs \<Longrightarrow> fine (qs \<noteq> []) st s \<Longrightarrow>
    good False st (imap_run env h qs s)"
proof (induction qs arbitrary: s rule: length_induct)
  case (1 qs)
  show ?case
  proof (cases qs)
    case Nil
    with "1.prems" show ?thesis by (simp add: good_def fine_def)
  next
    case (Cons q rest)
    obtain together rest' where g: "(if grouped (rq_command q) then group_requests q rest else ([q], rest)) = (together, rest')"
      by fastforce
    obtain pre where pre: "rest = pre @ rest'" using group_facts(3) [OF g] by blast
    have "suits st (rq_command q)" "im_state s = st" "list_all entry_ok (im_ran s)"
      using "1.prems" Cons by (simp_all add: fine_def)
    then have ex: "good (steady (rq_command q)) st (imap_execute env h together q s)"
      by (rule execute_good [OF assms _ _ _ group_facts(1) [OF g]])
    obtain r s1 where p: "imap_execute env h together q s = (r, s1)" by fastforce
    have fine: "fine (rest' \<noteq> []) st s1"
      using ex p steady_read_first [of q rest] "1.prems"(1) Cons pre by (auto simp: good_def fine_def)
    have IH: "good False st (imap_run env h rest' s2)" if "fine (rest' \<noteq> []) st s2" for s2
      using "1.IH" [rule_format, of rest' s2] "1.prems" Cons pre that steady_read_rest [of q pre rest'] by simp
    have fine': "fine (rest' \<noteq> []) st (snd (imap_write_error env e s1))" for e
      using fine by (rule write_error_fine)
    have weak: "fine False st s2" if "fine k st s2" for k s2 using that by (simp add: fine_def)
    show ?thesis
    proof (cases r)
      case (Ok u)
      with Cons g p IH [OF fine] weak [OF fine] show ?thesis
        by (cases "result_of (rq_command q)") (simp_all add: imap_run.simps(2) good_Ok)
    next
      case (Err e)
      obtain b s2 where w: "imap_write_error env e s1 = (b, s2)" by fastforce
      with fine' [of e] have "fine (rest' \<noteq> []) st s2" by simp
      with Cons g p Err w IH [of s2] weak [of "rest' \<noteq> []" s2] show ?thesis
        by (cases b) (simp_all add: imap_run.simps(2) good_Ok)
    next
      case Panic
      with ex p show ?thesis by (simp add: good_def)
    qed
  qed
qed

lemma is_allowed_suits: "is_allowed env s q = Ok q' \<Longrightarrow> q' = q \<and> suits (im_state s) (rq_command q)"
  by (auto simp: is_allowed_def result_iff suits_def Let_def split: if_splits admission.splits imap_state.splits)

lemma gather_suits:
  "imap_gather env bs qs s = (Some (qs', n), s') \<Longrightarrow> list_all (\<lambda>q. suits (im_state s) (rq_command q)) qs \<Longrightarrow>
   list_all (\<lambda>q. suits (im_state s) (rq_command q)) qs' \<and> im_state s' = im_state s \<and> im_ran s' = im_ran s"
proof (induction bs arbitrary: qs s rule: length_induct)
  case (1 bs)
  obtain r out rest where p: "recv_parse imap_parser (im_receiver s) bs = (r, out, rest)" by (metis prod_cases3)
  let ?s = "s\<lparr>im_receiver := r\<rparr>"
  have same: "im_state (snd (imap_write_error env e ?s)) = im_state s \<and> im_ran (snd (imap_write_error env e ?s)) = im_ran s" for e
    by (auto simp: imap_write_error_def imap_write_def)
  show ?case
  proof (cases out)
    case (Received q)
    then have len: "length rest < length bs" using p by (simp add: recv_parse_rest)
    show ?thesis
    proof (cases "is_allowed env ?s q")
      case (Ok q')
      then have "q' = q" "suits (im_state s) (rq_command q)" using is_allowed_suits by force+
      moreover have "imap_gather env rest (qs @ [q']) ?s = (Some (qs', n), s')"
        using "1.prems"(1) p Received Ok by (subst (asm) imap_gather.simps) (simp add: Let_def)
      ultimately show ?thesis
        using "1.IH" [rule_format, OF len, of "qs @ [q']" ?s] "1.prems"(2) by simp
    next
      case (Err e)
      obtain b s2 where w: "imap_write_error env e ?s = (b, s2)" by fastforce
      have "imap_gather env rest qs s2 = (Some (qs', n), s')"
        using "1.prems"(1) p Received Err w by (subst (asm) imap_gather.simps) (simp add: Let_def split: bool.splits)
      then show ?thesis
        using "1.IH" [rule_format, OF len, of qs s2] "1.prems"(2) same [of e] w by simp
    next
      case Panic
      with "1.prems" p Received show ?thesis by (subst (asm) imap_gather.simps) (simp add: Let_def)
    qed
  next
    case (RecvError tag msg)
    with "1.prems" p same [of "recv_failure env tag msg"] show ?thesis
      by (subst (asm) imap_gather.simps) (auto simp: Let_def split: prod.splits bool.splits if_splits)
  qed (use "1.prems" p in \<open>subst (asm) imap_gather.simps; auto simp: Let_def\<close>)+
qed


section \<open>Connections whose reads are steady\<close>

definition steady_ingest :: "('tok, 'm) imap_env \<Rightarrow> bytes \<Rightarrow> ('tok, 'm) imap_session \<Rightarrow> bool" where
  "steady_ingest env bs s = (case imap_gather env bs [] s of (Some (qs, _), _) \<Rightarrow> steady_read qs | _ \<Rightarrow> True)"

lemma gather_ran: "im_ran (snd (imap_gather env bs qs s)) = im_ran s"
proof (induction bs arbitrary: qs s rule: length_induct)
  case (1 bs)
  obtain r out rest where p: "recv_parse imap_parser (im_receiver s) bs = (r, out, rest)" by (metis prod_cases3)
  let ?s = "s\<lparr>im_receiver := r\<rparr>"
  have same: "im_ran (snd (imap_write_error env e ?s)) = im_ran s" for e
    by (auto simp: imap_write_error_def imap_write_def)
  have IH: "im_ran (snd (imap_gather env rest qs' s')) = im_ran s'" if "out = Received q" for q qs' s'
    using 1 p that by (simp add: recv_parse_rest)
  show ?case
  proof (cases out)
    case (Received q)
    then show ?thesis
      using p same IH [OF Received] by (subst imap_gather.simps) (auto simp: Let_def split: result.split prod.split bool.split, (metis snd_conv)+)
  next
    case (RecvError tag msg)
    then show ?thesis
      using p same by (subst imap_gather.simps) (auto simp: Let_def split: prod.split bool.split, (metis snd_conv)+)
  qed (use p in \<open>subst imap_gather.simps; simp add: Let_def\<close>)+
qed

lemma ingest_good:
  assumes "env_returns env" "steady_ingest env bs s" "list_all entry_ok (im_ran s)"
  shows "fst (imap_ingest env bs s) \<noteq> Panic \<and> list_all entry_ok (im_ran (snd (imap_ingest env bs s)))"
proof (cases "imap_gather env bs [] s")
  case (Pair a s1)
  show ?thesis
  proof (cases a)
    case None
    with Pair assms(3) gather_ran [of env bs "[]" s] show ?thesis by (simp add: imap_ingest_def)
  next
    case (Some p)
    then obtain qs n where g: "imap_gather env bs [] s = (Some (qs, n), s1)" using Pair by (cases p) auto
    let ?h = "\<exists>q \<in> set qs. is_expunge (rq_command q)"
    have "good False (im_state s) (imap_run env ?h qs s1)"
      using gather_suits [OF g] assms g by (intro imap_run_good) (auto simp: fine_def steady_ingest_def)
    moreover obtain r s2 where run: "imap_run env ?h qs s1 = (r, s2)" by fastforce
    ultimately have ok: "r \<noteq> Panic" "list_all entry_ok (im_ran s2)" by (simp_all add: good_def)
    show ?thesis
    proof (cases "r = Ok ConnContinue \<and> n \<noteq> None")
      case True
      then obtain k where k: "r = Ok ConnContinue" "n = Some k" by blast
      let ?w = "imap_write env (lit ''+ Ready for '' @ show_number k @ lit '' bytes.'' @ [13, 10]) s2"
      obtain r3 s3 where w: "?w = (r3, s3)" by fastforce
      have "good False (im_state s2) ?w" using ok(2) by (intro good_write) (simp add: fine_def)
      with w have "r3 \<noteq> Panic" "list_all entry_ok (im_ran s3)" by (simp_all add: good_def)
      with g run k w write_error_fine [of False "im_state s3" s3 env] show ?thesis
        by (cases r3) (simp_all add: imap_ingest_def fine_def del: lit_simps)
    next
      case False
      with g run ok show ?thesis
        by (cases r; cases n) (auto simp: imap_ingest_def split: conn_result.split)
    qed
  qed
qed

fun steady_conn :: "(('tok, 'm) imap_env \<times> imap_conn_event) list \<Rightarrow> ('tok, 'm) imap_session \<Rightarrow> bool" where
  "steady_conn ((env, ImapRead bs) # events) s =
     (env_returns env \<and> steady_ingest env bs s \<and>
      (case imap_ingest env bs s of (Ok ConnContinue, s') \<Rightarrow> steady_conn events s' | _ \<Rightarrow> True))"
| "steady_conn _ s = True"

end
