(* ===== verification/Imap_Login.thy ===== *)
theory Imap_Login
  imports Imap_Correct
begin

text \<open>
  Who can be logged in to the IMAP server, and what runs before anyone is: an invariant of sessions
  through every handler, proved with the rules of the locale \<open>session_inv\<close>.
\<close>

section \<open>Invariants of sessions\<close>

text \<open>
  A property of sessions that does not look at what is written, at the receiver or at the negotiated
  extensions is kept by the parts of a handler.
\<close>

locale session_inv =
  fixes inv :: "('tok, 'm) imap_session \<Rightarrow> bool"
  assumes inv_written: "inv s \<Longrightarrow> inv (s\<lparr>im_written := w\<rparr>)"
    and inv_receiver: "inv s \<Longrightarrow> inv (s\<lparr>im_receiver := r\<rparr>)"
    and inv_objectid: "inv s \<Longrightarrow> inv (s\<lparr>im_objectid := b\<rparr>)"
    and inv_condstore: "inv s \<Longrightarrow> inv (s\<lparr>im_condstore := b\<rparr>)"
    and inv_qresync: "inv s \<Longrightarrow> inv (s\<lparr>im_qresync := b\<rparr>)"
    and inv_utf8: "inv s \<Longrightarrow> inv (s\<lparr>im_utf8 := b\<rparr>)"
    and inv_version: "inv s \<Longrightarrow> inv (s\<lparr>im_version := v\<rparr>)"
    and inv_ran: "inv s \<Longrightarrow> state_token s \<noteq> None \<Longrightarrow> inv (ran c mailbox s)"
begin

lemma write_inv: "inv s \<Longrightarrow> inv (snd (imap_write env bs s))"
  by (simp add: imap_write_def inv_written)

lemma write_error_inv: "inv s \<Longrightarrow> inv (snd (imap_write_error env e s))"
  by (auto simp: imap_write_error_def imap_write_def inv_written)

lemma permitted_inv: "inv s \<Longrightarrow> inv (snd (f s)) \<Longrightarrow> inv (snd (permitted env p f s))"
  by (auto simp: permitted_def split: result.splits)

lemma parsed_inv: "inv s \<Longrightarrow> (\<And>x. r = Ok x \<Longrightarrow> inv (snd (f x s))) \<Longrightarrow> inv (snd (with_parsed r f s))"
  by (cases r) (auto simp: with_parsed_def)

lemma wrote_inv: "inv (snd p) \<Longrightarrow> (\<And>s. inv s \<Longrightarrow> inv (snd (f s))) \<Longrightarrow> inv (snd (wrote p f))"
  by (cases p; cases "fst p") (auto simp: wrote_def)

lemma with_data_inv:
  "inv s \<Longrightarrow> (\<And>tok m. state_token s = Some tok \<Longrightarrow> inv (snd (f tok m))) \<Longrightarrow> inv (snd (with_data s f))"
  by (auto simp: with_data_def state_token_def split: imap_state.splits)

lemma with_selected_inv:
  "inv s \<Longrightarrow> (\<And>tok m. state_token s = Some tok \<Longrightarrow> inv (snd (f tok m))) \<Longrightarrow> inv (snd (with_selected s f))"
  by (auto simp: with_selected_def state_token_def split: imap_state.splits)

lemma spawn_inv: "inv s \<Longrightarrow> state_token s \<noteq> None \<Longrightarrow> inv (snd (spawn_op c m s))"
  by (simp add: spawn_op_def inv_ran)

lemma operate_inv: "inv s \<Longrightarrow> state_token s \<noteq> None \<Longrightarrow> inv (snd (operate_and_write env c tok m qs s))"
  by (auto simp: operate_and_write_def operate_def write_inv inv_ran split: result.splits)

lemma activate_inv: "inv s \<Longrightarrow> inv (snd (activate_objectid env s))"
  by (simp add: activate_objectid_def write_inv inv_objectid)

lemma case_inv:
  "inv s \<Longrightarrow> (\<And>x. inv (snd (f x))) \<Longrightarrow>
   inv (snd (case r of Ok x \<Rightarrow> f x | Err e \<Rightarrow> (Err (g e), s) | Panic \<Rightarrow> (Panic, s)))"
  by (cases r) auto

lemma enable_inv: "inv s \<Longrightarrow> inv (fst (foldl (\<lambda>acc c. enable_one c acc) (s, en) cs))"
proof (induction cs arbitrary: s en)
  case (Cons c cs)
  have "inv (fst (enable_one c (s, en)))"
    using Cons.prems inv_utf8 [OF inv_version [OF Cons.prems, of Rev2], of True]
      inv_condstore [OF inv_qresync [OF Cons.prems, of True], of True]
    by (cases c) (simp_all add: enable_one_def inv_version inv_condstore inv_utf8 inv_objectid)
  then show ?case using Cons.IH by (cases "enable_one c (s, en)") simp
qed simp

lemmas handler_inv = write_inv permitted_inv parsed_inv with_data_inv with_selected_inv spawn_inv operate_inv
  activate_inv

lemma list_inv: "inv s \<Longrightarrow> inv (snd (handle_imap_list env q s))"
  by (auto simp: handle_imap_list_def intro!: handler_inv)

lemma account_inv: "inv s \<Longrightarrow> inv (snd (handle_on_account env p q s))"
  by (auto simp: handle_on_account_def intro!: handler_inv)

lemma parsed_account_inv: "inv s \<Longrightarrow> inv (snd (handle_parsed_on_account env p q s))"
  by (auto simp: handle_parsed_on_account_def intro!: handler_inv)

lemma parsed_mailbox_inv: "inv s \<Longrightarrow> inv (snd (handle_parsed_on_mailbox env p q s))"
  by (auto simp: handle_parsed_on_mailbox_def intro!: handler_inv)

lemma store_inv: "inv s \<Longrightarrow> inv (snd (handle_store env q spawn s))"
  by (auto simp: handle_store_def intro!: handler_inv)

lemma append_inv: "inv s \<Longrightarrow> inv (snd (handle_append env q s))"
  by (auto simp: handle_append_def intro!: handler_inv split: result.splits option.splits)

lemma simple_inv:
  "inv s \<Longrightarrow> inv (snd (handle_list_rights env q s))"
  "inv s \<Longrightarrow> inv (snd (handle_namespace env q s))"
  "inv s \<Longrightarrow> inv (snd (handle_expunge env q s))"
  "inv s \<Longrightarrow> inv (snd (handle_idle env q s))"
  "inv s \<Longrightarrow> inv (snd (handle_capability env q s))"
  "inv s \<Longrightarrow> inv (snd (handle_logout env q s))"
  "inv s \<Longrightarrow> inv (snd (handle_starttls env q s))"
  by (auto simp: handle_list_rights_def handle_namespace_def handle_expunge_def handle_idle_def handle_capability_def
      handle_logout_def handle_starttls_def intro!: handler_inv)

lemma enable_handler_inv: "inv s \<Longrightarrow> inv (snd (handle_enable env q s))"
  using enable_inv [of s "[]"]
  by (auto simp: handle_enable_def intro!: permitted_inv parsed_inv split: prod.splits) (metis fst_conv write_inv)

lemma noop_inv: "inv s \<Longrightarrow> inv (snd (handle_imap_noop env q s))"
  by (auto simp: handle_imap_noop_def state_token_def intro!: wrote_inv write_inv operate_inv split: imap_state.splits)

lemma status_inv: "inv s \<Longrightarrow> inv (snd (handle_status env qs s))"
  by (auto simp: handle_status_def Let_def intro!: permitted_inv wrote_inv handler_inv)

lemma fetch_inv: "inv s \<Longrightarrow> inv (snd (handle_imap_fetch env qs s))"
  by (auto simp: handle_imap_fetch_def activate_objectid_def imap_write_def wrote_def inv_condstore inv_objectid inv_written
      state_token_def intro!: permitted_inv with_selected_inv spawn_inv split: prod.splits)

end

text \<open>A property that also survives the changes of state, where a login is one the server accepted.\<close>

locale login_inv = session_inv inv for inv :: "('tok, 'm) imap_session \<Rightarrow> bool" +
  fixes accepted :: "'tok \<Rightarrow> bool"
  assumes inv_logout: "inv s \<Longrightarrow> inv (s\<lparr>im_state := INotAuthenticated n\<rparr>)"
    and inv_unselect: "inv s \<Longrightarrow> state_token s = Some tok \<Longrightarrow> inv (s\<lparr>im_state := IAuthenticated tok\<rparr>)"
    and inv_select: "inv s \<Longrightarrow> state_token s = Some tok \<Longrightarrow> inv (s\<lparr>im_state := ISelected tok mb\<rparr>)"
    and inv_login: "inv s \<Longrightarrow> accepted tok \<Longrightarrow> inv (s\<lparr>im_state := IAuthenticated tok\<rparr>)"
begin

lemma select_mailbox_inv:
  "inv s \<Longrightarrow> state_token s = Some tok \<Longrightarrow> inv (snd (select_mailbox env q args tok mailbox s))"
  by (auto simp: select_mailbox_def Let_def inv_select intro!: write_inv split: result.splits)

lemma activate_token: "state_token (snd (activate_objectid env s)) = state_token s"
  by (simp add: activate_objectid_def imap_write_def state_token_def)

lemma select_inv: "inv s \<Longrightarrow> inv (snd (handle_select env q s))"
  unfolding handle_select_def
proof (intro permitted_inv parsed_inv with_data_inv)
  fix args :: select_args and tok mailbox
  assume s: "inv s" "state_token s = Some tok"
  let ?p = "if sa_objectid args then activate_objectid env s else (Ok (), s)"
  obtain r s1 where p: "?p = (r, s1)" by fastforce
  have s1: "inv s1" "state_token s1 = Some tok"
    using p s activate_inv [OF s(1), of env] activate_token [of env s] by (auto split: if_splits)
  then show "inv (snd (wrote ?p (\<lambda>s.
      case ie_synchronize env tok of
        Ok _ \<Rightarrow>
          (case ie_find_mailbox env tok q of
             Some mailbox \<Rightarrow> select_mailbox env q args tok mailbox s
           | None \<Rightarrow>
               (Err ((imap_details (lit ''Mailbox does not exist.'') (rq_tag q))\<lparr>er_code := Some (code_name RcNonExistent)\<rparr>), s))
      | Err e \<Rightarrow> (Err e, s)
      | Panic \<Rightarrow> (Panic, s))))"
    unfolding p by (cases r) (auto simp: wrote_def select_mailbox_inv split: result.splits option.splits)
qed

lemma unselect_inv: "inv s \<Longrightarrow> inv (snd (handle_unselect env q s))"
  by (auto simp: handle_unselect_def intro!: with_data_inv write_inv inv_unselect)

lemma close_inv: "inv s \<Longrightarrow> inv (snd (handle_close env q s))"
proof -
  assume s: "inv s"
  have "inv (ran IClose m s)" "state_token (ran IClose m s) = Some tok" if "state_token s = Some tok" for m tok
    using that s by (auto simp: inv_ran) (simp add: ran_def state_token_def)
  then show ?thesis
    using s by (auto simp: handle_close_def operate_def intro!: with_selected_inv write_inv inv_unselect split: result.splits)
qed

lemma authenticate_inv:
  assumes "inv s" "\<And>c tok. ie_authenticate env c = Ok tok \<Longrightarrow> ie_has_permission env tok PImapAuthenticate \<Longrightarrow>
      ie_request_allowed env tok \<Longrightarrow> accepted tok"
  shows "inv (snd (imap_authenticate env c tag s))"
  using assms
  by (auto simp: imap_authenticate_def inv_logout intro!: write_inv inv_login split: result.splits imap_state.splits)

lemma execute_inv:
  assumes "inv s" "\<And>c tok. ie_authenticate env c = Ok tok \<Longrightarrow> ie_has_permission env tok PImapAuthenticate \<Longrightarrow>
      ie_request_allowed env tok \<Longrightarrow> accepted tok"
  shows "inv (snd (imap_execute env h together q s))"
proof -
  have "inv (snd (handle_imap_login env q s))"
    using assms by (auto simp: handle_imap_login_def authenticate_inv split: result.splits)
  moreover have "inv (snd (handle_imap_authenticate env q s))"
    using assms by (auto simp: handle_imap_authenticate_def authenticate_inv inv_receiver intro!: write_inv
        split: result.splits option.splits)
  moreover have "inv (snd (handle_unauthenticate env q s))"
    using assms by (simp add: handle_unauthenticate_def write_inv inv_logout)
  ultimately show ?thesis
    using assms(1)
    by (cases "rq_command q")
      (simp_all add: imap_execute_def list_inv account_inv parsed_account_inv parsed_mailbox_inv store_inv append_inv
        simple_inv enable_handler_inv noop_inv status_inv fetch_inv select_inv unselect_inv close_inv permitted_inv write_inv)
qed

lemma run_inv:
  assumes "\<And>c tok. ie_authenticate env c = Ok tok \<Longrightarrow> ie_has_permission env tok PImapAuthenticate \<Longrightarrow>
      ie_request_allowed env tok \<Longrightarrow> accepted tok"
  shows "inv s \<Longrightarrow> inv (snd (imap_run env h qs s))"
proof (induction qs arbitrary: s rule: length_induct)
  case (1 qs)
  show ?case
  proof (cases qs)
    case (Cons q rest)
    obtain together rest' where g: "(if grouped (rq_command q) then group_requests q rest else ([q], rest)) = (together, rest')"
      by fastforce
    obtain pre where "rest = pre @ rest'" using group_facts(3) [OF g] by blast
    then have IH: "inv (snd (imap_run env h rest' s'))" if "inv s'" for s'
      using "1.IH" [rule_format, of rest'] Cons that by simp
    obtain r s1 where p: "imap_execute env h together q s = (r, s1)" by fastforce
    have "inv (snd (imap_execute env h together q s))" using "1.prems" assms by (rule execute_inv)
    with p have s1: "inv s1" by simp
    show ?thesis
    proof (cases r)
      case (Ok u)
      with Cons g p s1 IH show ?thesis
        by (cases "result_of (rq_command q)") (simp_all add: imap_run.simps(2))
    next
      case (Err e)
      obtain b s2 where w: "imap_write_error env e s1 = (b, s2)" by fastforce
      with write_error_inv [OF s1, of env e] have "inv s2" by simp
      with Cons g p Err w IH show ?thesis by (cases b) (simp_all add: imap_run.simps(2))
    qed (use Cons g p s1 in \<open>simp add: imap_run.simps(2)\<close>)
  qed (use "1.prems" in simp)
qed

lemma gather_keeps: "inv s \<Longrightarrow> inv (snd (imap_gather env bs qs s))"
proof (induction bs arbitrary: qs s rule: length_induct)
  case (1 bs)
  obtain r out rest where p: "recv_parse imap_parser (im_receiver s) bs = (r, out, rest)" by (metis prod_cases3)
  have s: "inv (s\<lparr>im_receiver := r\<rparr>)" using "1.prems" by (rule inv_receiver)
  have w: "inv s'" if "imap_write_error env e (s\<lparr>im_receiver := r\<rparr>) = (b, s')" for e b s'
    using write_error_inv [OF s, of env e] that by simp
  show ?case
  proof (cases out)
    case (Received q)
    then have IH: "inv (snd (imap_gather env rest qs' s'))" if "inv s'" for qs' s'
      using "1.IH" p that by (simp add: recv_parse_rest)
    with Received p s w show ?thesis
      by (subst imap_gather.simps) (auto simp: Let_def split: result.split prod.split bool.split)
  next
    case (RecvError tag msg)
    with p s w show ?thesis
      by (subst imap_gather.simps) (auto simp: Let_def split: prod.split bool.split)
  qed (use p s in \<open>subst imap_gather.simps; simp add: Let_def\<close>)+
qed

lemma ingest_inv:
  assumes "inv s" "\<And>c tok. ie_authenticate env c = Ok tok \<Longrightarrow> ie_has_permission env tok PImapAuthenticate \<Longrightarrow>
      ie_request_allowed env tok \<Longrightarrow> accepted tok"
  shows "inv (snd (imap_ingest env bs s))"
proof -
  obtain a s1 where g: "imap_gather env bs [] s = (a, s1)" by fastforce
  with gather_keeps [OF assms(1), of env bs "[]"] have s1: "inv s1" by simp
  have run: "inv (snd (imap_run env h qs s1))" for h qs using assms(2) s1 by (rule run_inv)
  have w: "inv s3" if "inv s2" "imap_write env bs' s2 = (r, s3)" for bs' s2 r s3
    using write_inv [OF that(1), of env bs'] that(2) by simp
  show ?thesis
  proof (cases a)
    case (Some p)
    obtain qs n where p: "p = (qs, n)" by (cases p)
    let ?h = "\<exists>q \<in> set qs. is_expunge (rq_command q)"
    obtain r s2 where r: "imap_run env ?h qs s1 = (r, s2)" by fastforce
    with run [of ?h qs] have s2: "inv s2" by simp
    then show ?thesis
      using g Some p r w [OF s2]
      by (cases "r = Ok ConnContinue"; cases n)
        (auto simp: imap_ingest_def write_error_inv split: result.split conn_result.split prod.split simp del: lit_simps)
  qed (use g s1 in \<open>simp add: imap_ingest_def\<close>)
qed

lemma conn_inv:
  assumes "inv s" "\<And>env c tok. env \<in> fst ` set events \<Longrightarrow> ie_authenticate env c = Ok tok \<Longrightarrow>
      ie_has_permission env tok PImapAuthenticate \<Longrightarrow> ie_request_allowed env tok \<Longrightarrow> accepted tok"
  shows "inv (snd (snd (imap_handle_conn events s)))"
  using assms
proof (induction events s rule: imap_handle_conn.induct)
  case (2 env bs events s)
  obtain r s' where p: "imap_ingest env bs s = (r, s')" by fastforce
  have "inv (snd (imap_ingest env bs s))" using "2.prems" by (intro ingest_inv) auto
  with p have s': "inv s'" by simp
  show ?case
  proof (cases "bs \<noteq> [] \<and> r = Ok ConnContinue")
    case True
    then show ?thesis
      using "2.IH" [of r s' ConnContinue] "2.prems"(2) p s' by auto
  next
    case False
    with p s' "2.prems"(1) show ?thesis by (auto split: result.split conn_result.split)
  qed
qed (auto intro: write_inv)

end

section \<open>Logins are accepted logins\<close>

definition accepted_by :: "('tok, 'm) imap_env set \<Rightarrow> 'tok \<Rightarrow> bool" where
  "accepted_by envs tok \<longleftrightarrow>
     (\<exists>env \<in> envs. \<exists>c. ie_authenticate env c = Ok tok \<and> ie_has_permission env tok PImapAuthenticate \<and>
        ie_request_allowed env tok)"

definition vouched_for :: "('tok, 'm) imap_env set \<Rightarrow> ('tok, 'm) imap_session \<Rightarrow> bool" where
  "vouched_for envs s \<longleftrightarrow>
     (\<forall>tok. state_token s = Some tok \<longrightarrow> accepted_by envs tok) \<and> (im_ran s \<noteq> [] \<longrightarrow> (\<exists>tok. accepted_by envs tok))"

interpretation vouch: login_inv "vouched_for envs" "accepted_by envs"
  for envs :: "('tok, 'm) imap_env set"
  by unfold_locales (auto simp: vouched_for_def state_token_def ran_def split: imap_state.splits)


end
