(* ===== verification/Imap_Pipeline.thy ===== *)
theory Imap_Pipeline
  imports Imap_Correct
begin

text \<open>
  What an IMAP session promises on connections whose clients wait, and where it departs from this: every
  request of a read is admitted in the state before the read, and executed in the state the earlier
  requests of the read have left.
\<close>

section \<open>Clients that wait\<close>


section \<open>The requests of a client in one read\<close>

definition ready :: "nat \<Rightarrow> ('tok, 'm) imap_session \<Rightarrow> bool" where
  "ready m s \<longleftrightarrow> im_receiver s = with_max_request_size imap_parser m"

lemma recv_parse_Received:
  "recv_run imap_parser r bs = (r', map Received (q # qs)) \<Longrightarrow>
   \<exists>r1 rest. recv_parse imap_parser r bs = (r1, Received q, rest) \<and> recv_run imap_parser r1 rest = (r', map Received qs)"
  by (simp add: recv_parse_run_Cons)

lemma is_allowed_cong:
  assumes "im_state s = im_state t" "im_tls s = im_tls t"
  shows "is_allowed env s q = is_allowed env t q"
  unfolding is_allowed_def rate_exceeded_def state_token_def assms by (rule refl)

lemma is_allowed_receiver [simp]: "is_allowed env (s\<lparr>im_receiver := r\<rparr>) q = is_allowed env s q"
  by (rule is_allowed_cong) simp_all

lemma gather_admitted:
  "recv_run imap_parser (im_receiver s) bs = (r, map Received qs) \<Longrightarrow> list_all (\<lambda>q. is_allowed env s q = Ok q) qs \<Longrightarrow>
   imap_gather env bs acc s = (Some (acc @ qs, None), s\<lparr>im_receiver := r\<rparr>)"
proof (induction qs arbitrary: bs acc s)
  case Nil
  then show ?case by (subst imap_gather.simps) (simp add: recv_parse_run_Nil)
next
  case (Cons q qs)
  obtain r1 rest where p: "recv_parse imap_parser (im_receiver s) bs = (r1, Received q, rest)"
      "recv_run imap_parser r1 rest = (r, map Received qs)"
    using recv_parse_Received [OF Cons.prems(1)] by blast
  then have "imap_gather env rest (acc @ [q]) (s\<lparr>im_receiver := r1\<rparr>) = (Some ((acc @ [q]) @ qs, None), s\<lparr>im_receiver := r\<rparr>)"
    using Cons.IH [of "s\<lparr>im_receiver := r1\<rparr>" rest "acc @ [q]"] Cons.prems(2) by simp
  with p Cons.prems(2) show ?case by (subst imap_gather.simps) simp
qed

lemma gather_client:
  assumes "ready m s" "list_all (well_written m) cs" "list_all (\<lambda>c. is_allowed env s (client_request_of c) = Ok (client_request_of c)) cs"
  shows "imap_gather env (concat (map client_text cs)) [] s = (Some (map client_request_of cs, None), s)"
proof -
  have "imap_gather env (concat (map client_text cs)) [] s = (Some ([] @ map client_request_of cs, None), s\<lparr>im_receiver := im_receiver s\<rparr>)"
    using client_run [OF assms(2)] assms(1,3) by (intro gather_admitted) (simp_all add: ready_def list_all_iff)
  then show ?thesis by simp
qed

lemma ingest_client:
  assumes "ready m s" "list_all (well_written m) cs" "list_all (\<lambda>c. is_allowed env s (client_request_of c) = Ok (client_request_of c)) cs"
  shows "imap_ingest env (concat (map client_text cs)) s =
    imap_run env (\<exists>q \<in> set (map client_request_of cs). is_expunge (rq_command q)) (map client_request_of cs) s"
  using gather_client [OF assms]
  by (auto simp: imap_ingest_def split: prod.splits result.splits conn_result.splits)

text \<open>An account whose requests are not limited, whose peer reads, and who may do everything.\<close>

definition open_env :: "('tok, 'm) imap_env \<Rightarrow> 'tok \<Rightarrow> bool" where
  "open_env env tok \<longleftrightarrow>
     ie_rate_requests env = None \<and> (\<forall>bs. ie_sock_write env bs) \<and> (\<forall>p. ie_has_permission env tok p)"

lemma rate_open: "ie_rate_requests env = None \<Longrightarrow> rate_exceeded env s = Ok False"
  by (simp add: rate_exceeded_def split: option.splits)

lemma client_request_simps [simp]: "rq_command (client_request_of q) = c_command q" "rq_tag (client_request_of q) = c_tag q"
  by (simp_all add: client_request_of_def)

lemma permitted_open: "open_env env tok \<Longrightarrow> state_token s = Some tok \<Longrightarrow> permitted env p f s = f s"
  by (auto simp: permitted_def imap_assert_permission_def open_env_def state_token_def split: imap_state.splits)

lemma write_open: "open_env env tok \<Longrightarrow> imap_write env bs s = (Ok (), s\<lparr>im_written := im_written s @ [bs]\<rparr>)"
  by (simp add: imap_write_def open_env_def)

lemma ingest_refused:
  assumes "ready m s" "well_written m q" "is_allowed env s (client_request_of q) = Err e"
    and "imap_should_write_err e" "\<not> imap_must_disconnect e" "\<forall>bs. ie_sock_write env bs"
  shows "fst (imap_ingest env (client_text q) s) = Ok ConnContinue"
proof -
  have "recv_run imap_parser (im_receiver s) (client_text q) =
      (with_max_request_size imap_parser m, map Received [client_request_of q])"
    using client_run [of m "[q]"] assms(1,2) by (simp add: ready_def)
  then obtain r1 rest where p: "recv_parse imap_parser (im_receiver s) (client_text q) = (r1, Received (client_request_of q), rest)"
      "recv_run imap_parser r1 rest = (with_max_request_size imap_parser m, [])"
    using recv_parse_Received [of "im_receiver s"] by fastforce
  let ?s1 = "s\<lparr>im_receiver := r1, im_written := im_written s @ [error_serialize (ie_event_message env) e]\<rparr>"
  have "imap_write_error env e (s\<lparr>im_receiver := r1\<rparr>) = (True, ?s1)"
    using assms(4-6) by (simp add: imap_write_error_def imap_write_def)
  then have "imap_gather env (client_text q) [] s = imap_gather env rest [] ?s1"
    using p(1) assms(3) by (subst imap_gather.simps) simp
  also have "\<dots> = (Some ([], None), ?s1\<lparr>im_receiver := with_max_request_size imap_parser m\<rparr>)"
    using gather_admitted [of ?s1 rest _ "[]" env "[]"] p(2) by simp
  finally show ?thesis by (simp add: imap_ingest_def)
qed

section \<open>A command after the end of its mailbox\<close>


section \<open>A read-only mailbox that is written\<close>

text \<open>
  C20: A client that has a mailbox selected for writing and sends \<^verbatim>\<open>EXAMINE\<close> and a \<^verbatim>\<open>STORE\<close> in one read has the
  flags changed in the mailbox it has just opened read-only: the store is admitted in the state before the
  read. In two reads the store is refused.
\<close>

theorem pipelined_examine_store:
  assumes "im_state s = ISelected tok mb" "sel_is_select mb" "ready m s" "open_env env tok"
    and "well_written m c" "c_command c = IExamine" "well_written m q" "c_command q = IStore uid"
    and "ie_parse_select env (im_utf8 s) (client_request_of c) = Ok args" "\<not> sa_objectid args" "\<not> sa_qresync args"
    and "ie_synchronize env tok = Ok ()" "ie_find_mailbox env tok (client_request_of c) = Some x" "ie_open_mailbox env tok x = Ok response"
    and "ie_parse env (im_utf8 s) (client_request_of q) = Ok ()"
  shows "\<exists>mb'. \<not> sel_is_select mb' \<and> sel_id mb' = x \<and>
    im_ran (snd (imap_ingest env (client_text c @ client_text q) s)) = im_ran s @ [(IStore uid, Some mb')] \<and>
    is_allowed env (snd (imap_ingest env (client_text c) s)) (client_request_of q) =
      Err (imap_details (lit ''Not permitted in EXAMINE state.'') (c_tag q))"
proof -
  have ok: "is_allowed env s (client_request_of x) = Ok (client_request_of x)" if "x \<in> {c, q}" for x
    using that assms(1,2,4,6,8) by (auto simp: is_allowed_def rate_open open_env_def modifies_mailbox_def)
  obtain s1 where s1: "imap_execute env False [client_request_of c] (client_request_of c) s = (Ok (), s1)"
      "im_state s1 = ISelected tok \<lparr>sel_id = x, sel_is_select = False, sel_is_condstore = im_condstore s \<or> sa_condstore args\<rparr>"
      "im_utf8 s1 = im_utf8 s" "im_ran s1 = im_ran s"
    using assms(1,4,6,9-14)
    by (simp add: imap_execute_def handle_select_def permitted_open [OF assms(4)] state_token_def with_parsed_def with_data_def
        wrote_def select_mailbox_def write_open [OF assms(4)])
  have store: "imap_execute env False [client_request_of q] (client_request_of q) s1 =
      spawn_op (IStore uid) (Some \<lparr>sel_id = x, sel_is_select = False, sel_is_condstore = im_condstore s \<or> sa_condstore args\<rparr>) s1"
    using assms(8,15) s1(2,3)
    by (simp add: imap_execute_def handle_store_def permitted_open [OF assms(4)] state_token_def with_parsed_def with_selected_def)
  have "imap_ingest env (client_text c @ client_text q) s = imap_run env False [client_request_of c, client_request_of q] s"
    using ingest_client [OF assms(3), of "[c, q]" env] assms(5-8) ok by (simp add: is_expunge_def)
  moreover have "imap_ingest env (client_text c) s = (Ok ConnContinue, s1)"
    using ingest_client [OF assms(3), of "[c]" env] assms(5,6) ok s1(1)
    by (simp add: is_expunge_def imap_run.simps(2) result_of_def)
  ultimately show ?thesis
    using s1 store assms(4,6,8)
    by (simp add: imap_run.simps(2) result_of_def spawn_op_def ran_def is_allowed_def rate_open open_env_def modifies_mailbox_def)
qed

section \<open>Passwords in clear text\<close>

text \<open>
  C21: The setting that forbids passwords on connections without TLS only refuses \<^verbatim>\<open>LOGIN\<close>: with it in force,
  \<^verbatim>\<open>AUTHENTICATE PLAIN\<close> with the same password in clear text logs in, and before the login the server
  advertises the mechanism and not \<^verbatim>\<open>LOGINDISABLED\<close>.
\<close>

theorem plain_mechanism_in_clear:
  assumes "im_state s = INotAuthenticated n" "\<not> im_tls s" "\<not> ie_allow_plain_auth env" "ready m s" "well_written m q"
    and "c_command q = IAuthenticate" "rq_tokens (client_request_of q) = [TokArgument (lit ''PLAIN''), TokArgument response]"
    and "unwrap_string (TokArgument response) = Some response" "ie_base64_decode env response = Some challenge"
    and "decode_sasl_challenge_plain challenge = Some c" "ie_authenticate env c = Ok tok" "ie_has_permission env tok PImapAuthenticate"
    and "ie_request_allowed env tok" "ie_session_data env tok = Ok ()" "\<forall>bs. ie_sock_write env bs"
  shows "im_state (snd (imap_ingest env (client_text q) s)) = IAuthenticated tok \<and>
    is_allowed env s \<lparr>rq_tag = tag, rq_command = ILogin, rq_tokens = ts\<rparr> =
      Err (imap_details (lit ''LOGIN is disabled on the clear-text port.'') tag) \<and>
    CapAuth MPlain \<in> set (all_capabilities False offer) \<and> CapLoginDisabled \<notin> set (all_capabilities False offer)"
proof -
  have free: "rate_exceeded env s = Ok False" using assms(1) by (simp add: rate_exceeded_def state_token_def)
  have "imap_mechanism_parse (lit ''PLAIN'') = Some MPlain" by (simp add: imap_mechanism_parse_def lookup_ignore_case_def mechanisms_def eq_ignore_ascii_case_def)
  then have "parse_authenticate env (client_request_of q) = Ok (MPlain, [response])"
    using assms(7,8) by (simp add: parse_authenticate_def unwrap_bytes_def map_filter_def)
  then have ex: "im_state (snd (imap_execute env False [client_request_of q] (client_request_of q) s)) = IAuthenticated tok"
      "fst (imap_execute env False [client_request_of q] (client_request_of q) s) = Ok ()"
    using assms(6,9-15)
    by (simp_all add: imap_execute_def handle_imap_authenticate_def imap_authenticate_def imap_write_def)
  have "imap_ingest env (client_text q) s = imap_run env False [client_request_of q] s"
    using ingest_client [OF assms(4), of "[q]" env] assms(1,5,6) free by (simp add: is_expunge_def is_allowed_def)
  then have "im_state (snd (imap_ingest env (client_text q) s)) = IAuthenticated tok"
    using ex assms(6) by (cases "imap_execute env False [client_request_of q] (client_request_of q) s")
      (simp add: imap_run.simps(2) result_of_def)
  moreover have "is_allowed env s \<lparr>rq_tag = tag, rq_command = ILogin, rq_tokens = ts\<rparr> =
      Err (imap_details (lit ''LOGIN is disabled on the clear-text port.'') tag)"
    using assms(1-3) free by (simp add: is_allowed_def)
  ultimately show ?thesis by (simp add: all_capabilities_def)
qed

section \<open>The limit of requests\<close>


section \<open>Instances\<close>

definition demo_imap_env :: "(nat, nat) imap_env" where
  "demo_imap_env =
     \<lparr>ie_allow_plain_auth = False, ie_max_auth_failures = 3, ie_acceptor_tls = True, ie_rate_requests = None, ie_now = 0,
      ie_store = \<lparr>mkeys = [], mcounters = [], unreachable = False\<rparr>, ie_store_error = (\<lambda>_. err_of EvStore),
      ie_scanner_banned = Ok False, ie_authenticate = (\<lambda>_. Ok 7), ie_has_permission = (\<lambda>_ _. True),
      ie_request_allowed = (\<lambda>_. True), ie_account = (\<lambda>_. 7), ie_session_data = (\<lambda>_. Ok ()),
      ie_base64_decode = (\<lambda>_. Some [0, 117, 0, 112]), ie_email_from_jwt = (\<lambda>_. None), ie_utf8_lossy = (\<lambda>bs. bs),
      ie_event_message = (\<lambda>_. []), ie_recv_text = (\<lambda>_. []), ie_sock_write = (\<lambda>_. True),
      ie_parse = (\<lambda>_ _. Ok ()), ie_separator_query = (\<lambda>_. False),
      ie_parse_select = (\<lambda>_ _. Ok \<lparr>sa_name = [], sa_condstore = False, sa_qresync = False, sa_objectid = False\<rparr>),
      ie_parse_fetch = (\<lambda>_. Ok (False, False, False)), ie_parse_status = (\<lambda>_ _. Ok False), ie_synchronize = (\<lambda>_. Ok ()),
      ie_find_mailbox = (\<lambda>_ _. Some 5), ie_open_mailbox = (\<lambda>_ _. Ok []), ie_qresync_fetch = (\<lambda>_ _. Ok ()),
      ie_operate = (\<lambda>_ _ _ _. Ok [])\<rparr>"

definition demo_selected :: "(nat, nat) imap_session" where
  "demo_selected = (imap_new 100 True)\<lparr>im_state := ISelected 7 \<lparr>sel_id = 4, sel_is_select = True, sel_is_condstore = False\<rparr>\<rparr>"

definition demo_request :: "imap_command \<Rightarrow> (bool \<times> wire_arg) list \<Rightarrow> client_request" where
  "demo_request c args = \<lparr>c_tag = lit ''a'', c_command = c, c_args = args\<rparr>"

lemmas demo_imap_defs = demo_imap_env_def demo_selected_def demo_request_def open_env_def ready_def imap_new_def
  well_written_def valid_tag_def is_ascii_whitespace_def


theorem pipelined_examine_store_witness:
  "\<exists>mb'. \<not> sel_is_select mb' \<and> sel_id mb' = 5 \<and>
    im_ran (snd (imap_ingest demo_imap_env (client_text (demo_request IExamine []) @ client_text (demo_request (IStore True) []))
      demo_selected)) = [(IStore True, Some mb')]"
  using pipelined_examine_store [of demo_selected 7 "\<lparr>sel_id = 4, sel_is_select = True, sel_is_condstore = False\<rparr>" 100 demo_imap_env
      "demo_request IExamine []" "demo_request (IStore True) []" True _ 5 "[]"]
  by (auto simp: demo_imap_defs)

definition demo_plain :: client_request where
  "demo_plain = demo_request IAuthenticate [(False, WAtom (lit ''PLAIN'')), (True, WAtom (lit ''AHUAcA''))]"

lemma demo_plain_facts:
  "well_written 100 demo_plain" "c_command demo_plain = IAuthenticate"
  "rq_tokens (client_request_of demo_plain) = [TokArgument (lit ''PLAIN''), TokArgument (lit ''AHUAcA'')]"
  "unwrap_string (TokArgument (lit ''AHUAcA'')) = Some (lit ''AHUAcA'')"
  "decode_sasl_challenge_plain [0, 117, 0, 112] = Some (Basic (lit ''u'') (lit ''p'') None)"
  by (simp_all add: demo_plain_def demo_imap_defs ARG_MAX_LEN_def atom_byte_def client_request_of_def unwrap_string_def
      unwrap_bytes_def decode_sasl_challenge_plain_def)

theorem plain_mechanism_in_clear_witness:
  "im_state (snd (imap_ingest demo_imap_env (client_text demo_plain) (imap_new 100 False))) = IAuthenticated 7"
proof -
  have "im_state (snd (imap_ingest demo_imap_env (client_text demo_plain) (imap_new 100 False))) = IAuthenticated 7 \<and>
    is_allowed demo_imap_env (imap_new 100 False) \<lparr>rq_tag = [], rq_command = ILogin, rq_tokens = []\<rparr> =
      Err (imap_details (lit ''LOGIN is disabled on the clear-text port.'') []) \<and>
    CapAuth MPlain \<in> set (all_capabilities False True) \<and> CapLoginDisabled \<notin> set (all_capabilities False True)"
    by (rule plain_mechanism_in_clear [OF _ _ _ _ demo_plain_facts(1-4) _ demo_plain_facts(5)])
      (simp_all add: demo_imap_env_def imap_new_def ready_def)
  then show ?thesis by blast
qed


lemma demo_env_returns: "env_returns demo_imap_env"
  by (simp add: env_returns_def demo_imap_env_def)


end
