(* ===== verification/Utf7.thy ===== *)
theory Utf7
  imports Text Contracts
begin

text \<open>
  The names of mailboxes on the wire (\<^verbatim>\<open>imap-proto/src/utf7.rs\<close>): text as code points, its UTF-16 units as the
  standard library computes them, and the modified UTF-7 of IMAP between them.
\<close>

section \<open>Text as UTF-16\<close>

definition is_char :: "u32 \<Rightarrow> bool" where
  "is_char c \<longleftrightarrow> c \<le> 0x10FFFF \<and> \<not> (0xD800 \<le> c \<and> c \<le> 0xDFFF)"

text \<open>\<^verbatim>\<open>char::encode_utf16\<close> and \<^verbatim>\<open>String::from_utf16\<close>.\<close>

definition utf16_units :: "u32 \<Rightarrow> u16 list" where
  "utf16_units c =
     (if c < 0x10000 then [ucast c]
      else [0xD800 OR ucast (drop_bit 10 (c - 0x10000)), 0xDC00 OR ucast (take_bit 10 (c - 0x10000))])"

definition encode_utf16 :: "u32 list \<Rightarrow> u16 list" where
  "encode_utf16 cs = concat (map utf16_units cs)"

definition is_high :: "u16 \<Rightarrow> bool" where "is_high u \<longleftrightarrow> 0xD800 \<le> u \<and> u < 0xDC00"
definition is_low :: "u16 \<Rightarrow> bool" where "is_low u \<longleftrightarrow> 0xDC00 \<le> u \<and> u < 0xE000"

fun from_utf16 :: "u16 list \<Rightarrow> u32 list option" where
  "from_utf16 [] = Some []"
| "from_utf16 (u # us) =
     (if is_low u then None
      else if is_high u then
        (case us of
           [] \<Rightarrow> None
         | w # us' \<Rightarrow>
             if is_low w
             then map_option ((#) (0x10000 + (push_bit 10 (take_bit 10 (ucast u)) OR take_bit 10 (ucast w)))) (from_utf16 us')
             else None)
      else map_option ((#) (ucast u)) (from_utf16 us))"

section \<open>Decoding\<close>

definition UTF_7_RANK :: "byte list" where
  "UTF_7_RANK = [
    255, 255, 255, 255, 255, 255, 255, 255, 255, 255, 255, 255, 255, 255, 255, 255, 255, 255, 255,
    255, 255, 255, 255, 255, 255, 255, 255, 255, 255, 255, 255, 255, 255, 255, 255, 255, 255, 255,
    255, 255, 255, 255, 255, 62, 63, 255, 255, 255, 52, 53, 54, 55, 56, 57, 58, 59, 60, 61, 255,
    255, 255, 255, 255, 255, 255, 0, 1, 2, 3, 4, 5, 6, 7, 8, 9, 10, 11, 12, 13, 14, 15, 16, 17, 18,
    19, 20, 21, 22, 23, 24, 25, 255, 255, 255, 255, 255, 255, 26, 27, 28, 29, 30, 31, 32, 33, 34,
    35, 36, 37, 38, 39, 40, 41, 42, 43, 44, 45, 46, 47, 48, 49, 50, 51, 255, 255, 255, 255, 255]"

definition UTF_7_MAP :: bytes where
  "UTF_7_MAP = lit ''ABCDEFGHIJKLMNOPQRSTUVWXYZabcdefghijklmnopqrstuvwxyz0123456789+,''"

definition rank_of :: "u32 \<Rightarrow> byte option" where
  "rank_of ch = (if unat ch < length UTF_7_RANK then Some (UTF_7_RANK ! unat ch) else None)"

fun utf7_scan :: "u32 list \<Rightarrow> u16 list \<Rightarrow> nat \<Rightarrow> u32 \<Rightarrow> bool \<Rightarrow> u16 list option" where
  "utf7_scan [] units bits v shifted = Some units"
| "utf7_scan (ch # chars) units bits v shifted =
     (if shifted then
        if ch = 45 then utf7_scan chars units 0 0 False
        else if ch > 127 then None
        else
          (case rank_of ch of
             None \<Rightarrow> None
           | Some rank \<Rightarrow>
               if rank = 255 then None
               else
                 let v = push_bit 6 v OR ucast rank
                 in if bits + 6 \<ge> 16
                    then utf7_scan chars (units @ [ucast (drop_bit (bits + 6 - 16) v AND 0xFFFF)]) (bits + 6 - 16) v True
                    else utf7_scan chars units (bits + 6) v True)
      else if ch = 38 then
        (case chars of
           [] \<Rightarrow> Some (units @ [ucast ch])
         | c # chars' \<Rightarrow>
             if c = 45 then utf7_scan chars' (units @ [38]) bits v False
             else utf7_scan chars units bits v True)
      else utf7_scan chars (units @ [ucast ch]) bits v False)"

definition utf7_decode :: "u32 list \<Rightarrow> u32 list option" where
  "utf7_decode cs = (case utf7_scan cs [] 0 0 False of Some units \<Rightarrow> from_utf16 units | None \<Rightarrow> None)"

definition utf7_maybe_decode :: "u32 list \<Rightarrow> bool \<Rightarrow> u32 list" where
  "utf7_maybe_decode cs is_utf8 =
     (if is_utf8 then cs else case utf7_decode cs of Some ds \<Rightarrow> ds | None \<Rightarrow> cs)"

section \<open>Encoding\<close>

definition map_char :: "u32 \<Rightarrow> u32" where
  "map_char x = ucast (UTF_7_MAP ! unat (x AND 0x3F))"

fun emit_sextets :: "nat \<Rightarrow> u32 \<Rightarrow> u32 list \<times> nat" where
  "emit_sextets bits u =
     (if bits \<ge> 6 then (case emit_sextets (bits - 6) u of (cs, left) \<Rightarrow> (map_char (drop_bit (bits - 6) u) # cs, left))
      else ([], bits))"

declare emit_sextets.simps [simp del]

definition shift_end :: "bool \<Rightarrow> nat \<Rightarrow> u32 \<Rightarrow> u32 list" where
  "shift_end shifted bits u =
     (if shifted then (if bits > 0 then [map_char (push_bit (6 - bits) u)] else []) @ [45] else [])"

fun utf7_units :: "u16 list \<Rightarrow> bool \<Rightarrow> nat \<Rightarrow> u32 \<Rightarrow> u32 list" where
  "utf7_units [] shifted bits u = shift_end shifted bits u"
| "utf7_units (ch # chs) shifted bits u =
     (if 0x20 \<le> ch \<and> ch < 0x7F then
        shift_end shifted bits u @ (if ch = 0x26 then [38, 45] else [ucast ch]) @
        utf7_units chs False (if shifted then 0 else bits) u
      else
        (if shifted then [] else [38]) @
        (let u = push_bit 16 u OR ucast ch
         in case emit_sextets (bits + 16) u of (cs, left) \<Rightarrow> cs @ utf7_units chs True left u))"

definition utf7_encode :: "u32 list \<Rightarrow> u32 list" where
  "utf7_encode cs = utf7_units (encode_utf16 cs) False 0 0"

section \<open>The tables and UTF-16\<close>

lemma map_ranks: "map (\<lambda>c. UTF_7_RANK ! unat c) UTF_7_MAP = map of_nat [0..<64]"
  by (simp add: UTF_7_MAP_def UTF_7_RANK_def upt_rec)

lemma map_ascii: "list_all (\<lambda>c. c \<le> 127 \<and> c \<noteq> 45) UTF_7_MAP" and map_printable: "list_all (\<lambda>c. 32 \<le> c \<and> c < 127) UTF_7_MAP"
    and map_length: "length UTF_7_MAP = 64"
    and rank_length: "length UTF_7_RANK = 128"
  by (simp_all add: UTF_7_MAP_def UTF_7_RANK_def)

lemma word_eqI_unat: "unat x = unat y \<Longrightarrow> x = (y :: 'a :: len word)"
  by (simp add: unsigned_word_eqI)

lemma ten_bits:
  assumes "\<And>n. 10 \<le> n \<Longrightarrow> \<not> bit x n"
  shows "0xD800 \<le> 0xD800 OR (x :: u16)" "0xD800 OR x < 0xDC00" "0xDC00 \<le> 0xDC00 OR x" "0xDC00 OR x < 0xE000"
proof -
  have "take_bit 10 x = x" using assms by (intro bit_word_eqI) (auto simp: bit_simps, meson assms not_le)
  then have x: "unat x < 2 ^ 10" by (metis take_bit_nat_less_exp unsigned_take_bit_eq)
  have "push_bit 10 y AND x = 0" for y
    using assms by (intro bit_word_eqI) (auto simp: bit_simps)
  from this [of 54] this [of 55] have "0xD800 AND x = 0" "0xDC00 AND x = 0"
    by (simp_all add: push_bit_eq_mult)
  then have "0xD800 OR x = 0xD800 + x" "0xDC00 OR x = 0xDC00 + x"
    by (simp_all add: disjunctive_add_eq_or)
  with x show "0xD800 \<le> 0xD800 OR (x :: u16)" "0xD800 OR x < 0xDC00" "0xDC00 \<le> 0xDC00 OR x" "0xDC00 OR x < 0xE000"
    by (simp_all add: word_le_nat_alt word_less_nat_alt unat_word_ariths)
qed

lemma surrogate_bits:
  assumes "n < 10"
  shows "\<not> bit (0xD800 :: 'a :: semiring_bit_operations) n" "\<not> bit (0xDC00 :: 'a) n"
proof -
  have "\<not> bit (push_bit 10 y :: 'a) n" for y
    using assms by (simp_all add: bit_simps)
  from this [of 54] this [of 55]
  show "\<not> bit (0xD800 :: 'a) n" "\<not> bit (0xDC00 :: 'a) n"
    by (simp_all add: push_bit_eq_mult)
qed

lemma utf16_char:
  assumes "is_char c"
  shows "from_utf16 (utf16_units c @ us) = map_option ((#) c) (from_utf16 us)"
proof (cases "c < 0x10000")
  case True
  then have nat: "unat (ucast c :: u16) = unat c"
    by (simp add: unsigned_ucast_eq word_less_nat_alt take_bit_nat_eq_self)
  then have same: "(ucast (ucast c :: u16) :: u32) = c"
    by (intro word_eqI_unat) (simp add: unsigned_ucast_eq unsigned_take_bit_eq)
  have "\<not> is_high (ucast c)" "\<not> is_low (ucast c)"
    using assms nat by (auto simp: is_char_def is_high_def is_low_def word_le_nat_alt word_less_nat_alt)
  with True same show ?thesis by (simp add: utf16_units_def)
next
  case False
  define d where "d = c - 0x10000"
  have c: "c = 0x10000 + d" by (simp add: d_def)
  have d: "unat d < 2 ^ 20"
    using assms False by (simp add: is_char_def d_def word_le_nat_alt word_less_nat_alt unat_sub)
  let ?h = "0xD800 OR ucast (drop_bit 10 d) :: u16" and ?l = "0xDC00 OR ucast (take_bit 10 d) :: u16"
  have "take_bit 20 d = d"
    using d by (intro word_eqI_unat) (simp add: unsigned_take_bit_eq take_bit_nat_eq_self)
  then have bits: "\<not> bit d n" if "20 \<le> n" for n
    using that by (metis bit_take_bit_iff leD)
  have "10 + n < 20" if "bit d (10 + n)" for n using bits [of "10 + n"] that by linarith
  then have h: "take_bit 10 (ucast ?h :: u32) = drop_bit 10 d"
    by (intro bit_word_eqI) (auto simp: bit_simps surrogate_bits bits)
  have l: "take_bit 10 (ucast ?l :: u32) = take_bit 10 d"
    by (rule bit_word_eqI) (auto simp: bit_simps surrogate_bits)
  have "is_high ?h" "is_low ?l" "\<not> is_low ?h"
    using ten_bits [of "ucast (drop_bit 10 d)"] ten_bits [of "ucast (take_bit 10 d)"]
    by (simp_all add: is_high_def is_low_def bit_simps bits)
  moreover have "push_bit 10 (drop_bit 10 d) OR take_bit 10 d = d"
    by (rule bit_word_eqI) (auto simp: bit_simps)
  ultimately show ?thesis
    using False h l c by (simp add: utf16_units_def flip: d_def)
qed

section \<open>Sextets\<close>

lemma and_masks: "x AND 0x3F = take_bit 6 (x :: u32)" "x AND 0xFFFF = take_bit 16 (x :: u32)"
  by (simp_all add: take_bit_eq_mask mask_numeral)

lemma map_char_facts: "rank_of (map_char x) = Some (ucast (take_bit 6 x))" "map_char x \<le> 127" "map_char x \<noteq> 45"
proof -
  have "unat (take_bit 6 x) < 2 ^ 6" by (simp only: unsigned_take_bit_eq take_bit_nat_less_exp)
  then have i: "unat (take_bit 6 x) < length UTF_7_MAP" by (simp add: map_length)
  let ?c = "UTF_7_MAP ! unat (take_bit 6 x)"
  have "?c \<le> 127 \<and> ?c \<noteq> 45" using map_ascii i unfolding list_all_length by blast
  then have "unat ?c \<le> unat (127 :: byte)" "unat ?c \<noteq> unat (45 :: byte)"
    using word_eqI_unat [of ?c 45] by (auto simp only: word_le_nat_alt)
  then have c: "unat ?c \<le> 127" "unat ?c \<noteq> 45" by simp_all
  have u: "unat (map_char x) = unat ?c"
    using c(1) by (simp add: map_char_def and_masks unsigned_ucast_eq take_bit_nat_eq_self)
  show "map_char x \<le> 127" "map_char x \<noteq> 45"
    using c u by (auto simp: word_le_nat_alt)
  have "UTF_7_RANK ! unat ?c = map (\<lambda>c. UTF_7_RANK ! unat c) UTF_7_MAP ! unat (take_bit 6 x)"
    using i by simp
  also have "\<dots> = of_nat (unat (take_bit 6 x))" using i by (simp only: map_ranks) (simp add: map_length)
  finally show "rank_of (map_char x) = Some (ucast (take_bit 6 x))"
    using u c by (simp add: rank_of_def rank_length unsigned_def)
qed

lemma scan_char:
  "utf7_scan (map_char x # cs) us p v True =
     (if p + 6 \<ge> 16
      then utf7_scan cs (us @ [ucast (drop_bit (p + 6 - 16) (push_bit 6 v OR take_bit 6 x))]) (p + 6 - 16)
             (push_bit 6 v OR take_bit 6 x) True
      else utf7_scan cs us (p + 6) (push_bit 6 v OR take_bit 6 x) True)"
proof -
  have x: "unat (take_bit 6 x) < 2 ^ 6" by (simp only: unsigned_take_bit_eq take_bit_nat_less_exp)
  then have r: "unat (ucast (take_bit 6 x) :: byte) = unat (take_bit 6 x)"
    by (simp only: unsigned_ucast_eq) (simp add: take_bit_nat_eq_self)
  then have same: "(ucast (ucast (take_bit 6 x) :: byte) :: u32) = take_bit 6 x"
    by (intro word_eqI_unat) (simp only: unsigned_ucast_eq [where 'b = 32] r, simp add: take_bit_nat_eq_self)
  have "unat (ucast (take_bit 6 x) :: byte) \<noteq> unat (255 :: byte)" using r x by simp
  then have "(ucast (take_bit 6 x) :: byte) \<noteq> 255" by metis
  moreover have "(ucast (take_bit 16 y) :: u16) = ucast y" for y :: u32
    by (rule bit_word_eqI) (simp add: bit_simps)
  moreover have "\<not> 127 < map_char x" using map_char_facts(2) [of x] by simp
  ultimately show ?thesis
    using map_char_facts(1,3) [of x] same by (simp add: Let_def and_masks del: take_bit_or drop_bit_or)
qed

declare utf7_scan.simps(2) [simp del]

section \<open>Three sextets for every unit\<close>

text \<open>
  After a unit \<open>w\<close> the encoder still has \<open>b\<close> bits of it to send, and the decoder has received the others.
\<close>

definition in_step :: "nat \<Rightarrow> u16 \<Rightarrow> u32 \<Rightarrow> u32 \<Rightarrow> bool" where
  "in_step b w u v \<longleftrightarrow> (\<forall>i < 16 - b. bit v i = bit w (b + i)) \<and> (\<forall>i < b. bit u i = bit w i)"

lemma emit_sextets_simps:
  "emit_sextets 16 u = ([map_char (drop_bit 10 u), map_char (drop_bit 4 u)], 4)"
  "emit_sextets 20 u = ([map_char (drop_bit 14 u), map_char (drop_bit 8 u), map_char (drop_bit 2 u)], 2)"
  "emit_sextets 18 u = ([map_char (drop_bit 12 u), map_char (drop_bit 6 u), map_char u], 0)"
  by (simp_all add: emit_sextets.simps)

lemma unit_0:
  fixes u :: u32 and x :: u16
  defines "u' \<equiv> push_bit 16 u OR ucast x"
  shows "\<exists>v'. utf7_scan (map_char (drop_bit 10 u') # map_char (drop_bit 4 u') # cs) us 0 v True = utf7_scan cs us 12 v' True \<and>
    in_step 4 x u' v'"
  unfolding scan_char
  by (intro exI conjI) (simp, auto simp: in_step_def u'_def bit_simps)

lemma out_of_unit: "16 \<le> n \<Longrightarrow> \<not> bit (x :: u16) n"
  using bit_imp_le_length [of x n] by auto

lemma last_unit:
  fixes s :: u32
  assumes "\<forall>i < 16 - b. bit v i = bit (w :: u16) (b + i)" "b < 6" "\<forall>i < b. bit s (6 - b + i) = bit w i"
  shows "ucast (drop_bit (6 - b) (push_bit 6 v OR take_bit 6 s)) = w"
proof (rule bit_word_eqI)
  fix n assume n: "n < LENGTH(16)"
  show "bit (ucast (drop_bit (6 - b) (push_bit 6 v OR take_bit 6 s)) :: u16) n = bit w n"
  proof (cases "n < b")
    case True
    then have "6 + n - b < 6" using assms(2) by linarith
    then show ?thesis using assms(2,3) n True by (simp add: bit_simps)
  next
    case False
    then have "bit v (n - b) = bit w n" using assms(1) n by (simp add: not_less)
    moreover have "6 - b + n - 6 = n - b" using assms(2) False by simp
    moreover have "6 \<le> 6 + n - b" "6 + n - b < 32" using assms(2) False n by simp_all
    ultimately show ?thesis using assms(2) n by (simp add: bit_simps)
  qed
qed

lemma unit_4:
  fixes u :: u32 and x :: u16
  assumes "in_step 4 w u v"
  defines "u' \<equiv> push_bit 16 u OR ucast x"
  shows "\<exists>v'. utf7_scan (map_char (drop_bit 14 u') # map_char (drop_bit 8 u') # map_char (drop_bit 2 u') # cs) us 12 v True =
      utf7_scan cs (us @ [w]) 14 v' True \<and> in_step 2 x u' v'"
proof -
  have "ucast (drop_bit 2 (push_bit 6 v OR take_bit 6 (drop_bit 14 u'))) = w"
    using assms(1) last_unit [of 4 v w "drop_bit 14 u'"] by (auto simp: in_step_def u'_def bit_simps out_of_unit)
  then show ?thesis
    unfolding scan_char by (intro exI conjI) (simp del: drop_bit_or, auto simp: in_step_def u'_def bit_simps)
qed

lemma unit_2:
  fixes u :: u32 and x :: u16
  assumes "in_step 2 w u v"
  defines "u' \<equiv> push_bit 16 u OR ucast x"
  shows "\<exists>v'. utf7_scan (map_char (drop_bit 12 u') # map_char (drop_bit 6 u') # map_char u' # cs) us 14 v True =
      utf7_scan cs (us @ [w, x]) 0 v' True"
proof -
  define v1 where "v1 = push_bit 6 v OR take_bit 6 (drop_bit 12 u')"
  define v2 where "v2 = push_bit 6 v1 OR take_bit 6 (drop_bit 6 u')"
  have 1: "ucast (drop_bit 4 v1) = w"
    using assms(1) last_unit [of 2 v w "drop_bit 12 u'"] by (auto simp: v1_def in_step_def u'_def bit_simps out_of_unit)
  have 2: "ucast (push_bit 6 v2 OR take_bit 6 u') = x"
    by (rule bit_word_eqI) (auto simp: v1_def v2_def u'_def bit_simps)
  show ?thesis
    using 1 2 by (intro exI [of _ "push_bit 6 v2 OR take_bit 6 u'"]) (simp add: scan_char flip: v1_def v2_def)
qed

lemma shift_end_scan:
  assumes "b = 0 \<and> lag = [] \<or> (b = 4 \<or> b = 2) \<and> lag = [w] \<and> in_step b w u v"
  shows "utf7_scan (shift_end True b u @ cs) us (if b = 0 then 0 else 16 - b) v True = utf7_scan cs (us @ lag) 0 0 False"
proof (cases "b = 0")
  case False
  then have "ucast (drop_bit (6 - b) (push_bit 6 v OR take_bit 6 (push_bit (6 - b) u))) = w"
    using assms last_unit [of b v w "push_bit (6 - b) u"] by (auto simp: in_step_def bit_simps)
  with False assms show ?thesis
    by (auto simp: shift_end_def scan_char utf7_scan.simps(2) [of 45])
qed (use assms in \<open>simp add: shift_end_def utf7_scan.simps(2)\<close>)

lemma ascii_scan:
  fixes ch :: u16
  shows "utf7_scan ((if ch = 38 then [38, 45] else [ucast ch]) @ cs) us 0 0 False = utf7_scan cs (us @ [ch]) 0 0 False"
proof (cases "ch = 38")
  case False
  have same: "ucast (ucast ch :: u32) = ch" by (rule bit_word_eqI) (simp add: bit_simps)
  with False have "(ucast ch :: u32) \<noteq> 38" by auto
  with False same show ?thesis by (simp add: utf7_scan.simps(2))
qed (simp add: utf7_scan.simps(2))

lemma shift_scan: "utf7_scan (38 # map_char x # cs) us 0 0 False = utf7_scan (map_char x # cs) us 0 0 True"
  using map_char_facts(3) [of x] by (simp add: utf7_scan.simps(2) [of 38])

definition lagging :: "nat \<Rightarrow> u16 list \<Rightarrow> u32 \<Rightarrow> u32 \<Rightarrow> bool" where
  "lagging b lag u v \<longleftrightarrow> b = 0 \<and> lag = [] \<or> (b = 4 \<or> b = 2) \<and> (\<exists>w. lag = [w] \<and> in_step b w u v)"

lemma units_ascii:
  "0x20 \<le> ch \<and> ch < 0x7F \<Longrightarrow> utf7_units (ch # chs) s b u =
     shift_end s b u @ (if ch = 38 then [38, 45] else [ucast ch]) @ utf7_units chs False (if s then 0 else b) u"
  by simp

lemma units_other:
  "\<not> (0x20 \<le> ch \<and> ch < 0x7F) \<Longrightarrow> utf7_units (ch # chs) s b u =
     (if s then [] else [38]) @ fst (emit_sextets (b + 16) (push_bit 16 u OR ucast ch)) @
     utf7_units chs True (snd (emit_sextets (b + 16) (push_bit 16 u OR ucast ch))) (push_bit 16 u OR ucast ch)"
  by (simp only: utf7_units.simps if_False Let_def split_beta append_assoc)

lemma shift_end_False: "shift_end False b u = []"
  by (simp add: shift_end_def)

lemma units_scan:
  "utf7_scan (utf7_units chs False 0 u) us 0 0 False = Some (us @ chs) \<and>
   (lagging b lag u v \<longrightarrow>
    utf7_scan (utf7_units chs True b u) us (if b = 0 then 0 else 16 - b) v True = Some (us @ lag @ chs))"
proof (induction chs arbitrary: us u v b lag)
  case Nil
  then show ?case
    using shift_end_scan [of b lag _ u v "[]" us] by (auto simp: shift_end_def lagging_def)
next
  case (Cons ch chs)
  have plain: "utf7_scan (utf7_units chs False 0 u) us 0 0 False = Some (us @ chs)" for us u
    using Cons by blast
  have shifted: "utf7_scan (utf7_units chs True b u) us (if b = 0 then 0 else 16 - b) v True = Some (us @ lag @ chs)"
    if "lagging b lag u v" for us b lag u v using Cons that by blast
  define u' where "u' = push_bit 16 u OR ucast ch"
  have first: "utf7_scan (map_char (drop_bit 10 u') # map_char (drop_bit 4 u') # utf7_units chs True 4 u') us 0 v True =
      Some (us @ ch # chs)" for us v
    using unit_0 [of u ch "utf7_units chs True 4 u'" us v] shifted [of 4 "[ch]" u' _ us]
    by (auto simp: lagging_def u'_def)
  show ?case
  proof (cases "0x20 \<le> ch \<and> ch < 0x7F")
    case True
    have "utf7_scan (shift_end True b u @ (if ch = 38 then [38, 45] else [ucast ch]) @ utf7_units chs False 0 u) us
        (if b = 0 then 0 else 16 - b) v True = Some ((us @ lag) @ ch # chs)" if "lagging b lag u v"
      using that shift_end_scan [of b lag _ u v "(if ch = 38 then [38, 45] else [ucast ch]) @ utf7_units chs False 0 u" us]
      by (auto simp only: lagging_def ascii_scan plain append_assoc append_Cons append_Nil)
    then show ?thesis
      unfolding units_ascii [OF True] using ascii_scan [of ch "utf7_units chs False 0 u" us] plain [of u "us @ [ch]"]
      by (simp add: shift_end_False)
  next
    case False
    have "utf7_scan (fst (emit_sextets (b + 16) u') @ utf7_units chs True (snd (emit_sextets (b + 16) u')) u') us
        (if b = 0 then 0 else 16 - b) v True = Some (us @ lag @ ch # chs)" if l: "lagging b lag u v"
    proof -
      consider "b = 0" "lag = []" | w where "b = 4" "lag = [w]" "in_step 4 w u v" | w where "b = 2" "lag = [w]" "in_step 2 w u v"
        using l by (auto simp: lagging_def)
      then show ?thesis
      proof cases
        case 1
        with first show ?thesis by (simp add: emit_sextets_simps)
      next
        case (2 w)
        then show ?thesis
          using unit_4 [OF 2(3), of ch "utf7_units chs True 2 u'" us] shifted [of 2 "[ch]" u' _ "us @ [w]"]
          by (auto simp: emit_sextets_simps lagging_def simp flip: u'_def)
      next
        case (3 w)
        then show ?thesis
          using unit_2 [OF 3(3), of ch "utf7_units chs True 0 u'" us] shifted [of 0 "[]" u' _ "us @ [w, ch]"]
          by (auto simp: emit_sextets_simps lagging_def simp flip: u'_def)
      qed
    qed
    moreover have "utf7_scan (38 # fst (emit_sextets 16 u') @ utf7_units chs True (snd (emit_sextets 16 u')) u') us 0 0 False = Some (us @ ch # chs)"
      using first [of us 0] by (simp add: emit_sextets_simps shift_scan)
    ultimately show ?thesis
      unfolding units_other [OF False] u'_def [symmetric] by simp
  qed
qed

lemma encode_utf16_back: "list_all is_char cs \<Longrightarrow> from_utf16 (encode_utf16 cs) = Some cs"
  by (induction cs) (simp_all add: encode_utf16_def utf16_char)

lemma decode_encode: "list_all is_char cs \<Longrightarrow> utf7_decode (utf7_encode cs) = Some cs"
  using units_scan [of "encode_utf16 cs" 0 "[]"] by (simp add: utf7_decode_def utf7_encode_def encode_utf16_back)

interpretation utf7: text_code utf7_encode utf7_decode "list_all is_char"
  by unfold_locales (rule decode_encode)

section \<open>Names read back\<close>

lemma map_char_printable: "0x20 \<le> map_char x \<and> map_char x < 0x7F"
proof -
  have "unat (take_bit 6 x) < 2 ^ 6" by (simp only: unsigned_take_bit_eq take_bit_nat_less_exp)
  then have i: "unat (take_bit 6 x) < length UTF_7_MAP" by (simp add: map_length)
  let ?c = "UTF_7_MAP ! unat (take_bit 6 x)"
  have "32 \<le> ?c \<and> ?c < 127" using map_printable i unfolding list_all_length by blast
  then have "unat (32 :: byte) \<le> unat ?c" "unat ?c < unat (127 :: byte)"
    by (simp_all only: word_le_nat_alt word_less_nat_alt)
  then show ?thesis
    by (simp add: map_char_def and_masks word_le_nat_alt word_less_nat_alt unsigned_ucast_eq take_bit_nat_eq_self)
qed

lemma emit_printable: "\<forall>c \<in> set (fst (emit_sextets b u)). 0x20 \<le> c \<and> c < 0x7F"
proof (induction b u rule: emit_sextets.induct)
  case (1 bits u)
  show ?case
  proof (cases "6 \<le> bits")
    case True
    with 1 map_char_printable show ?thesis
      by (cases "emit_sextets (bits - 6) u") (simp add: emit_sextets.simps [of bits])
  qed (simp add: emit_sextets.simps)
qed

lemma units_printable: "\<forall>c \<in> set (utf7_units chs s b u). 0x20 \<le> c \<and> c < 0x7F"
proof (induction chs arbitrary: s b u)
  case Nil
  then show ?case by (auto simp: shift_end_def map_char_printable)
next
  case (Cons ch chs)
  have e: "\<forall>c \<in> set (shift_end s b u). 0x20 \<le> c \<and> c < 0x7F" by (auto simp: shift_end_def map_char_printable)
  show ?case
  proof (cases "0x20 \<le> ch \<and> ch < 0x7F")
    case True
    have "unat (ucast ch :: u32) = unat ch"
      using unat_bound [of ch] by (simp add: unsigned_ucast_eq take_bit_nat_eq_self)
    with True have "0x20 \<le> (ucast ch :: u32)" "(ucast ch :: u32) < 0x7F"
      by (simp_all add: word_le_nat_alt word_less_nat_alt)
    then show ?thesis unfolding units_ascii [OF True] using Cons e by auto
  next
    case False
    show ?thesis unfolding units_other [OF False] using Cons emit_printable by auto
  qed
qed

text \<open>
  C24: Every mailbox name is sent as printable ASCII text that is read back to the name, characters outside the
  basic plane and every ampersand included.
\<close>

theorem mailbox_name_roundtrip:
  assumes "list_all is_char name"
  shows "utf7_decode (utf7_encode name) = Some name \<and> (\<forall>c \<in> set (utf7_encode name). 0x20 \<le> c \<and> c < 0x7F)"
  using utf7.parse_print [OF assms] units_printable by (simp add: utf7_encode_def)

theorem mailbox_name_roundtrip_witness:
  "utf7_decode (utf7_encode [0x26, 0xFC, 0x1F604, 0x2D]) = Some [0x26, 0xFC, 0x1F604, 0x2D]"
  using mailbox_name_roundtrip [of "[0x26, 0xFC, 0x1F604, 0x2D]"] by (simp add: is_char_def)

text \<open>
  A name a client sends unencoded loses its characters outside the basic plane: where the decoder should refuse
  or keep such a character it keeps the low sixteen bits, which are another character.
\<close>

theorem raw_name_mangled:
  assumes "0x10000 \<le> c" "is_char (take_bit 16 c)"
  shows "utf7_maybe_decode [c] False = [take_bit 16 c] \<and> take_bit 16 c \<noteq> c"
proof -
  have small: "unat (take_bit 16 c) < 2 ^ 16" by (simp only: unsigned_take_bit_eq take_bit_nat_less_exp)
  then have diff: "take_bit 16 c \<noteq> c" using assms(1) by (auto simp: word_le_nat_alt)
  have "unat (38 :: u32) < unat (0x10000 :: u32)" by simp
  then have "c \<noteq> 38" using assms(1) by (auto simp: word_le_nat_alt)
  moreover have "utf16_units (take_bit 16 c) = [ucast c]"
    using small by (auto simp: utf16_units_def word_less_nat_alt intro: bit_word_eqI simp: bit_simps)
  ultimately have "utf7_decode [c] = Some [take_bit 16 c]"
    using utf16_char [OF assms(2), of "[]"] by (simp add: utf7_decode_def utf7_scan.simps(2))
  with diff show ?thesis by (simp add: utf7_maybe_decode_def)
qed

theorem raw_name_mangled_witness: "utf7_maybe_decode [0x1F604] False = [0xF604]"
  using raw_name_mangled [of "0x1F604"] by (simp add: is_char_def)

end
