(* ===== verification/Expr_Value.thy ===== *)
theory Expr_Value
  imports Text Contracts
begin

text \<open>
  Values of the expression language (\<^verbatim>\<open>common/src/expr/mod.rs\<close>, \<^verbatim>\<open>eval.rs\<close>): conversions, operators,
  equality and order. Text is bytes of UTF-8. A float is its IEEE 754 bit pattern: comparison, sign and
  the test for zero are written out, while rounding arithmetic and the decimal conversions of floats
  are the record \<open>fpu\<close>. The generated enumerations of variables and constants are their numbers.
\<close>

unbundle bit_operations_syntax

type_synonym i64 = "64 word"
type_synonym f64 = "64 word"

section \<open>Integers\<close>

definition I64_MAX :: int where "I64_MAX = 2 ^ 63 - 1"
definition I64_MIN :: int where "I64_MIN = - (2 ^ 63)"

definition saturate_i64 :: "int \<Rightarrow> i64" where
  "saturate_i64 x = word_of_int (max I64_MIN (min I64_MAX x))"

definition show_i64 :: "i64 \<Rightarrow> bytes" where
  "show_i64 n = (if sint n < 0 then 45 # show_nat (nat (- sint n)) else show_nat (nat (sint n)))"

text \<open>\<^verbatim>\<open>str::parse\<close> for \<^verbatim>\<open>i64\<close> and \<^verbatim>\<open>usize\<close>: an optional sign, at least one digit, no overflow.\<close>

definition parse_i64 :: "bytes \<Rightarrow> i64 option" where
  "parse_i64 s =
     (case s of
        [] \<Rightarrow> None
      | b # ds \<Rightarrow>
          let signed = (if b = 45 then map_option (\<lambda>n. - int n) (parse_digits ds)
                        else if b = 43 then map_option int (parse_digits ds)
                        else map_option int (parse_digits s))
          in (case signed of
                None \<Rightarrow> None
              | Some x \<Rightarrow> if I64_MIN \<le> x \<and> x \<le> I64_MAX then Some (word_of_int x) else None))"

definition parse_usize :: "bytes \<Rightarrow> u64 option" where
  "parse_usize s = parse_uint s"

section \<open>Floats\<close>

record fpu =
  f_add :: "f64 \<Rightarrow> f64 \<Rightarrow> f64"
  f_sub :: "f64 \<Rightarrow> f64 \<Rightarrow> f64"
  f_mul :: "f64 \<Rightarrow> f64 \<Rightarrow> f64"
  f_div :: "f64 \<Rightarrow> f64 \<Rightarrow> f64"
  i64_as_f64 :: "i64 \<Rightarrow> f64"
  f64_as_i64 :: "f64 \<Rightarrow> i64"
  f64_as_usize :: "f64 \<Rightarrow> u64"
  parse_f64 :: "bytes \<Rightarrow> f64 option"
  show_f64 :: "f64 \<Rightarrow> bytes"
  constant_name :: "u16 \<Rightarrow> bytes"

definition SIGN_BIT :: f64 where "SIGN_BIT = push_bit 63 1"
definition INFINITY_BITS :: nat where "INFINITY_BITS = 0x7FF0000000000000"

definition f_magnitude :: "f64 \<Rightarrow> nat" where
  "f_magnitude f = unat (f AND NOT SIGN_BIT)"

definition is_nan :: "f64 \<Rightarrow> bool" where
  "is_nan f \<longleftrightarrow> INFINITY_BITS < f_magnitude f"

text \<open>Finite floats and infinities are ordered by sign and magnitude; the two zeros are equal.\<close>

definition f_key :: "f64 \<Rightarrow> int" where
  "f_key f = (if bit f 63 then - int (f_magnitude f) else int (f_magnitude f))"

definition f_eq :: "f64 \<Rightarrow> f64 \<Rightarrow> bool" where
  "f_eq a b \<longleftrightarrow> \<not> is_nan a \<and> \<not> is_nan b \<and> f_key a = f_key b"

definition f_neg :: "f64 \<Rightarrow> f64" where
  "f_neg f = f XOR SIGN_BIT"

section \<open>Order\<close>

datatype ordering = Less | Equal | Greater

definition cmp :: "'a::linorder \<Rightarrow> 'a \<Rightarrow> ordering" where
  "cmp a b = (if a < b then Less else if a = b then Equal else Greater)"

definition f_cmp :: "f64 \<Rightarrow> f64 \<Rightarrow> ordering option" where
  "f_cmp a b = (if is_nan a \<or> is_nan b then None else Some (cmp (f_key a) (f_key b)))"

fun bytes_cmp :: "bytes \<Rightarrow> bytes \<Rightarrow> ordering" where
  "bytes_cmp [] [] = Equal"
| "bytes_cmp [] (b # bs) = Less"
| "bytes_cmp (a # as) [] = Greater"
| "bytes_cmp (a # as) (b # bs) = (if a = b then bytes_cmp as bs else cmp a b)"

section \<open>Values\<close>

datatype variable =
  VString bytes
| VInteger i64
| VFloat f64
| VArray "variable list"
| VConstant u16

datatype expr_constant = CStatic u16 | CInteger i64 | CFloat f64 | CString bytes

definition default_variable :: variable where
  "default_variable = VString []"

fun variable_of_constant :: "expr_constant \<Rightarrow> variable" where
  "variable_of_constant (CInteger i) = VInteger i"
| "variable_of_constant (CFloat f) = VFloat f"
| "variable_of_constant (CString s) = VString s"
| "variable_of_constant (CStatic c) = VConstant c"

definition of_bool64 :: "bool \<Rightarrow> variable" where
  "of_bool64 b = VInteger (if b then 1 else 0)"

fun to_bool :: "variable \<Rightarrow> bool" where
  "to_bool (VFloat f) \<longleftrightarrow> \<not> f_eq f 0"
| "to_bool (VInteger n) \<longleftrightarrow> n \<noteq> 0"
| "to_bool (VString s) \<longleftrightarrow> s \<noteq> []"
| "to_bool (VArray a) \<longleftrightarrow> a \<noteq> []"
| "to_bool (VConstant _) \<longleftrightarrow> True"

fun is_empty_var :: "variable \<Rightarrow> bool" where
  "is_empty_var (VString s) \<longleftrightarrow> s = []"
| "is_empty_var _ \<longleftrightarrow> False"

fun parse_number :: "fpu \<Rightarrow> variable \<Rightarrow> variable" where
  "parse_number fp (VString s) =
     (if s \<noteq> [] then
        (case parse_i64 s of
           Some n \<Rightarrow> VInteger n
         | None \<Rightarrow> (case parse_f64 fp s of Some f \<Rightarrow> VFloat f | None \<Rightarrow> VInteger 0))
      else VInteger 0)"
| "parse_number fp (VInteger n) = VInteger n"
| "parse_number fp (VFloat f) = VFloat f"
| "parse_number fp (VArray l) = of_bool64 (l = [])"
| "parse_number fp (VConstant _) = VInteger 0"

text \<open>Items of an array are joined with CRLF unless nothing was written yet; nested arrays vanish.\<close>

fun array_item :: "fpu \<Rightarrow> variable \<Rightarrow> bytes" where
  "array_item fp (VString v) = v"
| "array_item fp (VInteger v) = show_i64 v"
| "array_item fp (VFloat v) = show_f64 fp v"
| "array_item fp (VArray _) = []"
| "array_item fp (VConstant c) = constant_name fp c"

definition join_items :: "fpu \<Rightarrow> variable list \<Rightarrow> bytes" where
  "join_items fp l =
     foldl (\<lambda>acc item. (if acc \<noteq> [] then acc @ [CR, LF] else acc) @ array_item fp item) [] l"

fun into_string :: "fpu \<Rightarrow> variable \<Rightarrow> bytes" where
  "into_string fp (VString s) = s"
| "into_string fp (VInteger n) = show_i64 n"
| "into_string fp (VFloat n) = show_f64 fp n"
| "into_string fp (VArray l) = join_items fp l"
| "into_string fp (VConstant c) = constant_name fp c"

fun to_integer :: "fpu \<Rightarrow> variable \<Rightarrow> i64 option" where
  "to_integer fp (VInteger n) = Some n"
| "to_integer fp (VFloat f) = Some (f64_as_i64 fp f)"
| "to_integer fp (VString s) = (if s \<noteq> [] then parse_i64 s else None)"
| "to_integer fp _ = None"

fun to_usize :: "fpu \<Rightarrow> variable \<Rightarrow> u64 option" where
  "to_usize fp (VInteger n) = Some n"
| "to_usize fp (VFloat f) = Some (f64_as_usize fp f)"
| "to_usize fp (VString s) = (if s \<noteq> [] then parse_usize s else None)"
| "to_usize fp _ = None"

fun into_array :: "variable \<Rightarrow> variable list" where
  "into_array (VArray l) = l"
| "into_array v = (if is_empty_var v then [] else [v])"

fun variable_len :: "fpu \<Rightarrow> variable \<Rightarrow> nat" where
  "variable_len fp (VString s) = length s"
| "variable_len fp (VInteger _) = 2"
| "variable_len fp (VFloat _) = 2"
| "variable_len fp (VArray l) = sum_list (map (\<lambda>v. variable_len fp v + 2) l)"
| "variable_len fp (VConstant c) = length (constant_name fp c)"

fun display :: "fpu \<Rightarrow> variable \<Rightarrow> bytes" and display_list :: "fpu \<Rightarrow> variable list \<Rightarrow> bytes" where
  "display fp (VString v) = v"
| "display fp (VInteger v) = show_i64 v"
| "display fp (VFloat v) = show_f64 fp v"
| "display fp (VArray v) = display_list fp v"
| "display fp (VConstant c) = constant_name fp c"
| "display_list fp [] = []"
| "display_list fp [v] = display fp v"
| "display_list fp (v # w # vs) = display fp v @ [LF] @ display_list fp (w # vs)"

section \<open>Equality and comparison\<close>

fun number_eq :: "fpu \<Rightarrow> variable \<Rightarrow> variable \<Rightarrow> bool" where
  "number_eq fp (VInteger a) (VInteger b) \<longleftrightarrow> a = b"
| "number_eq fp (VFloat a) (VFloat b) \<longleftrightarrow> f_eq a b"
| "number_eq fp (VInteger a) (VFloat b) \<longleftrightarrow> f_eq (i64_as_f64 fp a) b"
| "number_eq fp (VFloat b) (VInteger a) \<longleftrightarrow> f_eq (i64_as_f64 fp a) b"
| "number_eq fp _ _ \<longleftrightarrow> False"

fun is_number :: "variable \<Rightarrow> bool" where
  "is_number (VInteger _) \<longleftrightarrow> True"
| "is_number (VFloat _) \<longleftrightarrow> True"
| "is_number _ \<longleftrightarrow> False"

fun variable_eq :: "fpu \<Rightarrow> variable \<Rightarrow> variable \<Rightarrow> bool"
  and array_eq :: "fpu \<Rightarrow> variable list \<Rightarrow> variable list \<Rightarrow> bool" where
  "variable_eq fp (VString a) (VString b) \<longleftrightarrow> a = b"
| "variable_eq fp (VArray a) (VArray b) \<longleftrightarrow> array_eq fp a b"
| "variable_eq fp a b \<longleftrightarrow>
     (if is_number a \<and> is_number b then number_eq fp a b
      else case (a, b) of
        (VString _, _) \<Rightarrow> is_number b \<and> number_eq fp (parse_number fp a) b
      | (_, VString _) \<Rightarrow> is_number a \<and> number_eq fp a (parse_number fp b)
      | _ \<Rightarrow> False)"
| "array_eq fp [] [] \<longleftrightarrow> True"
| "array_eq fp (a # as) (b # bs) \<longleftrightarrow> variable_eq fp a b \<and> array_eq fp as bs"
| "array_eq fp _ _ \<longleftrightarrow> False"

fun number_cmp :: "fpu \<Rightarrow> variable \<Rightarrow> variable \<Rightarrow> ordering option" where
  "number_cmp fp (VInteger a) (VInteger b) = Some (cmp (sint a) (sint b))"
| "number_cmp fp (VFloat a) (VFloat b) = f_cmp a b"
| "number_cmp fp (VInteger a) (VFloat b) = f_cmp (i64_as_f64 fp a) b"
| "number_cmp fp (VFloat a) (VInteger b) = f_cmp a (i64_as_f64 fp b)"
| "number_cmp fp _ _ = None"

fun partial_cmp :: "fpu \<Rightarrow> variable \<Rightarrow> variable \<Rightarrow> ordering option"
  and array_cmp :: "fpu \<Rightarrow> variable list \<Rightarrow> variable list \<Rightarrow> ordering option" where
  "partial_cmp fp (VString a) (VString b) = Some (bytes_cmp a b)"
| "partial_cmp fp (VArray a) (VArray b) = array_cmp fp a b"
| "partial_cmp fp (VConstant a) (VConstant b) = Some (cmp a b)"
| "partial_cmp fp a b =
     (if is_number a \<and> is_number b then number_cmp fp a b
      else case (a, b) of
        (VString _, _) \<Rightarrow> if is_number b then number_cmp fp (parse_number fp a) b else Some Greater
      | (VArray _, _) \<Rightarrow> Some Greater
      | (_, VString _) \<Rightarrow> if is_number a then number_cmp fp a (parse_number fp b) else Some Less
      | _ \<Rightarrow> Some Less)"
| "array_cmp fp [] [] = Some Equal"
| "array_cmp fp [] (b # bs) = Some Less"
| "array_cmp fp (a # as) [] = Some Greater"
| "array_cmp fp (a # as) (b # bs) =
     (case partial_cmp fp a b of
        Some Equal \<Rightarrow> array_cmp fp as bs
      | r \<Rightarrow> r)"

definition variable_cmp :: "fpu \<Rightarrow> variable \<Rightarrow> variable \<Rightarrow> ordering" where
  "variable_cmp fp a b = (case partial_cmp fp a b of Some r \<Rightarrow> r | None \<Rightarrow> Greater)"

section \<open>Operators\<close>

fun op_add :: "fpu \<Rightarrow> variable \<Rightarrow> variable \<Rightarrow> variable" where
  "op_add fp (VInteger a) (VInteger b) = VInteger (saturate_i64 (sint a + sint b))"
| "op_add fp (VFloat a) (VFloat b) = VFloat (f_add fp a b)"
| "op_add fp (VInteger i) (VFloat f) = VFloat (f_add fp (i64_as_f64 fp i) f)"
| "op_add fp (VFloat f) (VInteger i) = VFloat (f_add fp (i64_as_f64 fp i) f)"
| "op_add fp (VArray a) (VArray b) = VArray (a @ b)"
| "op_add fp (VArray a) b = VArray (a @ [b])"
| "op_add fp a (VArray b) = VArray (a # b)"
| "op_add fp (VString a) b = (if a \<noteq> [] then VString (a @ display fp b) else b)"
| "op_add fp a (VString b) = (if b \<noteq> [] then VString (display fp a @ b) else a)"
| "op_add fp a (VConstant _) = a"
| "op_add fp (VConstant _) b = b"

fun subtract_numbers :: "fpu \<Rightarrow> variable \<Rightarrow> variable \<Rightarrow> variable option" where
  "subtract_numbers fp (VInteger a) (VInteger b) = Some (VInteger (saturate_i64 (sint a - sint b)))"
| "subtract_numbers fp (VFloat a) (VFloat b) = Some (VFloat (f_sub fp a b))"
| "subtract_numbers fp (VInteger a) (VFloat b) = Some (VFloat (f_sub fp (i64_as_f64 fp a) b))"
| "subtract_numbers fp (VFloat a) (VInteger b) = Some (VFloat (f_sub fp a (i64_as_f64 fp b)))"
| "subtract_numbers fp _ _ = None"

fun multiply_numbers :: "fpu \<Rightarrow> variable \<Rightarrow> variable \<Rightarrow> variable option" where
  "multiply_numbers fp (VInteger a) (VInteger b) = Some (VInteger (saturate_i64 (sint a * sint b)))"
| "multiply_numbers fp (VFloat a) (VFloat b) = Some (VFloat (f_mul fp a b))"
| "multiply_numbers fp (VInteger i) (VFloat f) = Some (VFloat (f_mul fp (i64_as_f64 fp i) f))"
| "multiply_numbers fp (VFloat f) (VInteger i) = Some (VFloat (f_mul fp (i64_as_f64 fp i) f))"
| "multiply_numbers fp _ _ = None"

fun divide_numbers :: "fpu \<Rightarrow> variable \<Rightarrow> variable \<Rightarrow> variable option" where
  "divide_numbers fp (VInteger a) (VInteger b) =
     Some (VFloat (if b \<noteq> 0 then f_div fp (i64_as_f64 fp a) (i64_as_f64 fp b) else 0))"
| "divide_numbers fp (VFloat a) (VFloat b) = Some (VFloat (if \<not> f_eq b 0 then f_div fp a b else 0))"
| "divide_numbers fp (VInteger a) (VFloat b) =
     Some (VFloat (if \<not> f_eq b 0 then f_div fp (i64_as_f64 fp a) b else 0))"
| "divide_numbers fp (VFloat a) (VInteger b) =
     Some (VFloat (if b \<noteq> 0 then f_div fp a (i64_as_f64 fp b) else 0))"
| "divide_numbers fp _ _ = None"

text \<open>
  The operators retry on \<open>parse_number\<close> of both sides when neither pattern for numbers nor one for
  arrays applies; the retry is on two numbers and so the last one.
\<close>

definition on_numbers ::
  "fpu \<Rightarrow> (fpu \<Rightarrow> variable \<Rightarrow> variable \<Rightarrow> variable option) \<Rightarrow> variable \<Rightarrow> variable \<Rightarrow> variable" where
  "on_numbers fp f a b =
     (case f fp a b of
        Some r \<Rightarrow> r
      | None \<Rightarrow> (case f fp (parse_number fp a) (parse_number fp b) of Some r \<Rightarrow> r | None \<Rightarrow> default_variable))"

fun op_subtract :: "fpu \<Rightarrow> variable \<Rightarrow> variable \<Rightarrow> variable" where
  "op_subtract fp (VArray a) b = VArray (filter (\<lambda>v. \<not> variable_eq fp v b) a)"
| "op_subtract fp b (VArray a) = VArray (filter (\<lambda>v. \<not> variable_eq fp v b) a)"
| "op_subtract fp a b = on_numbers fp subtract_numbers a b"

definition op_multiply :: "fpu \<Rightarrow> variable \<Rightarrow> variable \<Rightarrow> variable" where
  "op_multiply fp a b = on_numbers fp multiply_numbers a b"

definition op_divide :: "fpu \<Rightarrow> variable \<Rightarrow> variable \<Rightarrow> variable" where
  "op_divide fp a b = on_numbers fp divide_numbers a b"

datatype binary_operator =
  Add | Subtract | Multiply | Divide | And | Or | Xor | Eq | Ne | Lt | Le | Gt | Ge

datatype unary_operator = Not | Minus

definition cmp_in :: "fpu \<Rightarrow> ordering set \<Rightarrow> variable \<Rightarrow> variable \<Rightarrow> variable" where
  "cmp_in fp rs a b = of_bool64 (case partial_cmp fp a b of None \<Rightarrow> False | Some r \<Rightarrow> r \<in> rs)"

fun binary_op :: "fpu \<Rightarrow> binary_operator \<Rightarrow> variable \<Rightarrow> variable \<Rightarrow> variable" where
  "binary_op fp Add l r = op_add fp l r"
| "binary_op fp Subtract l r = op_subtract fp l r"
| "binary_op fp Multiply l r = op_multiply fp l r"
| "binary_op fp Divide l r = op_divide fp l r"
| "binary_op fp And l r = of_bool64 (to_bool l \<and> to_bool r)"
| "binary_op fp Or l r = of_bool64 (to_bool l \<or> to_bool r)"
| "binary_op fp Xor l r = of_bool64 (to_bool l \<noteq> to_bool r)"
| "binary_op fp Eq l r = of_bool64 (variable_eq fp l r)"
| "binary_op fp Ne l r = of_bool64 (\<not> variable_eq fp l r)"
| "binary_op fp Lt l r = cmp_in fp {Less} l r"
| "binary_op fp Le l r = cmp_in fp {Less, Equal} l r"
| "binary_op fp Gt l r = cmp_in fp {Greater} l r"
| "binary_op fp Ge l r = cmp_in fp {Greater, Equal} l r"

fun minus_number :: "variable \<Rightarrow> variable" where
  "minus_number (VInteger n) = VInteger (- n)"
| "minus_number (VFloat n) = VFloat (f_neg n)"
| "minus_number _ = default_variable"

fun unary_op :: "fpu \<Rightarrow> unary_operator \<Rightarrow> variable \<Rightarrow> variable" where
  "unary_op fp Not v = of_bool64 (\<not> to_bool v)"
| "unary_op fp Minus v = minus_number (if is_number v then v else parse_number fp v)"

section \<open>Laws\<close>

lemma sint_range: "I64_MIN \<le> sint n \<and> sint n \<le> I64_MAX" for n :: i64
  using sint_ge [of n] sint_lt [of n] by (simp add: I64_MIN_def I64_MAX_def)

lemma parse_show_i64: "parse_i64 (show_i64 n) = Some n"
proof (cases "sint n < 0")
  case True
  then show ?thesis
    using sint_range [of n] by (simp add: show_i64_def parse_i64_def parse_digits_show Let_def)
next
  case False
  obtain d ds where "show_nat (nat (sint n)) = d # ds" "d \<noteq> 45" "d \<noteq> 43" using show_nat_head by blast
  with False show ?thesis
    using sint_range [of n] parse_digits_show [of "nat (sint n)"]
    by (simp add: show_i64_def parse_i64_def Let_def)
qed

interpretation i64_text: text_code show_i64 parse_i64 "\<lambda>_. True"
  by unfold_locales (rule parse_show_i64)

lemma parse_number_is_number: "is_number (parse_number fp v)"
  by (cases v) (auto simp: of_bool64_def split: option.splits)

text \<open>The retry of the operators on numbers always succeeds: the last default is never reached.\<close>

lemma on_numbers_retry:
  assumes "\<And>x y. is_number x \<Longrightarrow> is_number y \<Longrightarrow> f fp x y \<noteq> None"
  shows "\<exists>r. on_numbers fp f a b = r \<and> (f fp a b = Some r \<or> f fp (parse_number fp a) (parse_number fp b) = Some r)"
  using assms [of "parse_number fp a" "parse_number fp b"] parse_number_is_number
  by (auto simp: on_numbers_def split: option.splits)

lemma numbers_total:
  assumes "is_number x" "is_number y"
  shows "subtract_numbers fp x y \<noteq> None" "multiply_numbers fp x y \<noteq> None" "divide_numbers fp x y \<noteq> None"
  using assms by (cases x; cases y; simp)+

section \<open>Properties\<close>

text \<open>
  A static constant is never equal to itself, although it is both at least and at most itself, and
  removing it from an array that holds it removes nothing.
\<close>

theorem static_constants_never_equal:
  "binary_op fp Eq (VConstant c) (VConstant c) = VInteger 0 \<and>
   binary_op fp Le (VConstant c) (VConstant c) = VInteger 1 \<and>
   binary_op fp Ge (VConstant c) (VConstant c) = VInteger 1 \<and>
   binary_op fp Subtract (VArray [VConstant c]) (VConstant c) = VArray [VConstant c]"
  by (simp add: of_bool64_def cmp_in_def cmp_def)

text \<open>
  The order has no fixed side for text against arrays: each is greater than the other. Sorting a list
  that holds both relies on an order that is not one.
\<close>

lemma text_array_order:
  "variable_cmp fp (VString s) (VArray a) = Greater" "variable_cmp fp (VArray a) (VString s) = Greater"
  by (simp_all add: variable_cmp_def)

end
