(* ===== verification/Expr_Eval.thy ===== *)
theory Expr_Eval
  imports Expr_Value
begin

text \<open>
  The stack machine of the expression language (\<^verbatim>\<open>common/src/expr/eval.rs\<close>). Variables of the session,
  the implementations of the functions, the regular expression engine and the server's settings are the
  record \<open>expr_env\<close>; asynchronous functions may fail and may change the world, which is threaded through
  in the order of the calls.
\<close>

section \<open>Code\<close>

datatype system_variable = Hostname | Domain | NodeId | NodeHostname | NodeRole | Metric u16

datatype expression_item =
  Variable u16
| Global bytes
| System system_variable
| Capture u32
| Constant expr_constant
| BinaryOperator binary_operator
| UnaryOperator unary_operator
| Regex bytes
| JmpIf bool u32
| Function u32 u32
| ArrayAccess
| ArrayBuild u32

type_synonym expression = "expression_item list"

section \<open>Environment\<close>

record ('w, 'e) expr_env =
  env_fpu :: fpu
  resolve_variable :: "u16 \<Rightarrow> variable"
  resolve_global :: "bytes \<Rightarrow> variable"
  server_name :: bytes
  default_domain_name :: bytes
  node_id :: u64
  local_hostname :: bytes
  cluster_role :: "bytes option"
  read_metric :: "u16 \<Rightarrow> f64"
  function_table :: "(variable list \<Rightarrow> (variable, 'e) result) list"
  eval_fnc :: "u32 \<Rightarrow> variable list \<Rightarrow> 'w \<Rightarrow> (variable, 'e) result \<times> 'w"
  regex_captures :: "bytes \<Rightarrow> bytes \<Rightarrow> bytes option list option"

fun system_value :: "('w, 'e) expr_env \<Rightarrow> system_variable \<Rightarrow> variable" where
  "system_value env Hostname = VString (server_name env)"
| "system_value env Domain = VString (default_domain_name env)"
| "system_value env NodeId = VInteger (node_id env)"
| "system_value env NodeHostname = VString (local_hostname env)"
| "system_value env NodeRole = VString (case cluster_role env of Some r \<Rightarrow> r | None \<Rightarrow> [])"
| "system_value env (Metric m) = VFloat (read_metric env m)"

definition call_function ::
  "('w, 'e) expr_env \<Rightarrow> u32 \<Rightarrow> variable list \<Rightarrow> 'w \<Rightarrow> (variable, 'e) result \<times> 'w" where
  "call_function env fid args w =
     (case get_at (function_table env) (unat fid) of
        Some f \<Rightarrow> (f args, w)
      | None \<Rightarrow> eval_fnc env (fid - of_nat (length (function_table env))) args w)"

section \<open>Stack\<close>

definition pop_or_default :: "variable list \<Rightarrow> variable \<times> variable list" where
  "pop_or_default stack = (case stack of [] \<Rightarrow> (default_variable, []) | v # vs \<Rightarrow> (v, vs))"

text \<open>The arguments of a call, last one on top.\<close>

fun pop_args :: "nat \<Rightarrow> variable list \<Rightarrow> variable list \<times> variable list" where
  "pop_args 0 stack = ([], stack)"
| "pop_args (Suc n) stack =
     (let (v, stack1) = pop_or_default stack; (args, stack2) = pop_args n stack1
      in (args @ [v], stack2))"

definition top_is :: "bool \<Rightarrow> variable list \<Rightarrow> bool" where
  "top_is b stack \<longleftrightarrow> (case stack of [] \<Rightarrow> False | v # _ \<Rightarrow> to_bool v) = b"

definition access :: "fpu \<Rightarrow> variable \<Rightarrow> variable \<Rightarrow> variable" where
  "access fp arr idx =
     (let i = (case to_usize fp idx of Some n \<Rightarrow> unat n | None \<Rightarrow> 0) in
      case get_at (into_array arr) i of Some v \<Rightarrow> v | None \<Rightarrow> default_variable)"

definition match_regex :: "('w, 'e) expr_env \<Rightarrow> bytes \<Rightarrow> variable \<Rightarrow> variable \<times> bytes list" where
  "match_regex env re v =
     (let caps = (case regex_captures env re (into_string (env_fpu env) v) of
                    Some cs \<Rightarrow> map (\<lambda>c. case c of Some s \<Rightarrow> s | None \<Rightarrow> []) cs
                  | None \<Rightarrow> [])
      in (of_bool64 (caps \<noteq> []), caps))"

section \<open>Execution\<close>

function (sequential) eval_items ::
  "('w, 'e) expr_env \<Rightarrow> expression \<Rightarrow> variable list \<Rightarrow> bytes list \<Rightarrow> 'w \<Rightarrow>
    (variable, 'e) result \<times> bytes list \<times> 'w" where
  "eval_items env [] stack caps w = (Ok (fst (pop_or_default stack)), caps, w)"
| "eval_items env (Variable v # rest) stack caps w =
     eval_items env rest (resolve_variable env v # stack) caps w"
| "eval_items env (Global g # rest) stack caps w =
     eval_items env rest (resolve_global env g # stack) caps w"
| "eval_items env (Constant c # rest) stack caps w =
     eval_items env rest (variable_of_constant c # stack) caps w"
| "eval_items env (Capture c # rest) stack caps w =
     eval_items env rest (VString (case get_at caps (unat c) of Some s \<Rightarrow> s | None \<Rightarrow> []) # stack) caps w"
| "eval_items env (System s # rest) stack caps w =
     eval_items env rest (system_value env s # stack) caps w"
| "eval_items env (UnaryOperator p # rest) stack caps w =
     (let (v, stack1) = pop_or_default stack
      in eval_items env rest (unary_op (env_fpu env) p v # stack1) caps w)"
| "eval_items env (BinaryOperator p # rest) stack caps w =
     (let (right, stack1) = pop_or_default stack; (left, stack2) = pop_or_default stack1
      in eval_items env rest (binary_op (env_fpu env) p left right # stack2) caps w)"
| "eval_items env (Function fid num_args # rest) stack caps w =
     (let (args, stack1) = pop_args (unat num_args) stack in
      case call_function env fid args w of
        (Ok v, w1) \<Rightarrow> eval_items env rest (v # stack1) caps w1
      | (Err e, w1) \<Rightarrow> (Err e, caps, w1)
      | (Panic, w1) \<Rightarrow> (Panic, caps, w1))"
| "eval_items env (JmpIf val pos # rest) stack caps w =
     eval_items env (if top_is val stack then drop (unat pos) rest else rest) stack caps w"
| "eval_items env (ArrayAccess # rest) stack caps w =
     (let (idx, stack1) = pop_or_default stack; (arr, stack2) = pop_or_default stack1
      in eval_items env rest (access (env_fpu env) arr idx # stack2) caps w)"
| "eval_items env (ArrayBuild num_items # rest) stack caps w =
     (let (items, stack1) = pop_args (unat num_items) stack
      in eval_items env rest (VArray items # stack1) caps w)"
| "eval_items env (Regex re # rest) stack caps w =
     (let (v, stack1) = pop_or_default stack; (r, caps1) = match_regex env re v
      in eval_items env rest (r # stack1) caps1 w)"
  by pat_completeness auto
termination
  by (relation "measure (\<lambda>(_, items, _). length items)") (auto simp: less_Suc_eq_le)

section \<open>If blocks\<close>

record if_then =
  if_expr :: expression
  then_expr :: expression

record if_block =
  if_thens :: "if_then list"
  default_expr :: expression

definition block_is_empty :: "if_block \<Rightarrow> bool" where
  "block_is_empty b \<longleftrightarrow> default_expr b = [] \<and> if_thens b = []"

fun eval_block ::
  "('w, 'e) expr_env \<Rightarrow> if_then list \<Rightarrow> expression \<Rightarrow> bytes list \<Rightarrow> 'w \<Rightarrow>
    (variable, 'e) result \<times> bytes list \<times> 'w" where
  "eval_block env [] otherwise caps w = eval_items env otherwise [] caps w"
| "eval_block env (b # bs) otherwise caps w =
     (case eval_items env (if_expr b) [] caps w of
        (Ok v, caps1, w1) \<Rightarrow>
          if to_bool v then eval_items env (then_expr b) [] caps1 w1
          else eval_block env bs otherwise caps1 w1
      | r \<Rightarrow> r)"

text \<open>\<^verbatim>\<open>eval_if\<close> and \<^verbatim>\<open>eval_expr\<close>, with the conversion of the result as an argument.\<close>

definition convert :: "(variable \<Rightarrow> 'r option) \<Rightarrow> (variable, 'e) result \<times> bytes list \<times> 'w \<Rightarrow> ('r option \<times> 'w, 'e) result" where
  "convert try_from r =
     (case r of
        (Ok v, _, w) \<Rightarrow> Ok (try_from v, w)
      | (Err e, _, w) \<Rightarrow> Ok (None, w)
      | (Panic, _, w) \<Rightarrow> Panic)"

definition eval_if ::
  "('w, 'e) expr_env \<Rightarrow> (variable \<Rightarrow> 'r option) \<Rightarrow> if_block \<Rightarrow> 'w \<Rightarrow> ('r option \<times> 'w, 'e) result" where
  "eval_if env try_from b w =
     (if block_is_empty b then Ok (None, w)
      else convert try_from (eval_block env (if_thens b) (default_expr b) [] w))"

definition eval_expr ::
  "('w, 'e) expr_env \<Rightarrow> (variable \<Rightarrow> 'r option) \<Rightarrow> expression \<Rightarrow> 'w \<Rightarrow> ('r option \<times> 'w, 'e) result" where
  "eval_expr env try_from e w =
     (if e = [] then Ok (None, w) else convert try_from (eval_items env e [] [] w))"

fun try_string :: "variable \<Rightarrow> bytes option" where
  "try_string (VString s) = Some s"
| "try_string _ = None"

definition try_i64 :: "fpu \<Rightarrow> variable \<Rightarrow> i64 option" where
  "try_i64 fp v = to_integer fp v"

definition try_usize :: "fpu \<Rightarrow> variable \<Rightarrow> u64 option" where
  "try_usize fp v = to_usize fp v"

text \<open>A rate is an array of two positive numbers: requests and milliseconds.\<close>

fun try_rate :: "fpu \<Rightarrow> variable \<Rightarrow> (u64 \<times> u64) option" where
  "try_rate fp (VArray [a, b]) =
     (case (to_integer fp a, to_integer fp b) of
        (Some requests, Some period) \<Rightarrow>
          if 0 < sint requests \<and> 0 < sint period then Some (requests, period) else None
      | _ \<Rightarrow> None)"
| "try_rate fp _ = None"

end
