(* ===== verification/Expr_Parser.thy ===== *)
theory Expr_Parser
  imports Expr_Eval
begin

text \<open>
  The shunting-yard parser of the expression language (\<^verbatim>\<open>common/src/expr/parser.rs\<close>), which emits the
  code of \<^verbatim>\<open>Expr_Eval\<close>. The operator stack is a list with its top first; \<^verbatim>\<open>unwrap\<close> and indexing are
  explicit. It is proved that no sequence of tokens makes the parser panic and that every jump of accepted
  code lands right behind the operator it short-circuits.
\<close>

section \<open>Tokens\<close>

datatype token =
  TVariable u16
| TGlobal bytes
| TCapture u32
| TFunction bytes u32 u32
| TConstant expr_constant
| TSystem system_variable
| TRegex bytes
| TBinary binary_operator
| TUnary unary_operator
| OpenParen
| CloseParen
| OpenBracket
| CloseBracket
| Comma

datatype expr_error =
  MismatchedParentheses
| WrongArguments bytes u32 int
| MissingArrayIndex
| MatchesArguments
| SystemArguments
| InvalidOperatorStack
| InvalidRegex bytes
| InvalidMetric bytes
| InvalidSystemVariable bytes
| UnmatchedClose
| UnmatchedOpen
| InvalidCharacter byte
| ExpectedCharacter byte byte
| UnexpectedEnd
| InvalidUtf8
| UnterminatedString
| InvalidFloat bytes
| InvalidInteger bytes
| VariableNotAllowed bytes
| ConstantNotAllowed bytes
| InvalidVariable bytes

record expr_parser =
  code :: expression
  operator_stack :: "(token \<times> nat option) list"
  arg_count :: "int list"

definition new_parser :: expr_parser where
  "new_parser = \<lparr>code = [], operator_stack = [], arg_count = []\<rparr>"

definition ID_ARRAY_ACCESS :: u32 where "ID_ARRAY_ACCESS = - 1"
definition ID_ARRAY_BUILD :: u32 where "ID_ARRAY_BUILD = - 2"

fun precedence :: "binary_operator \<Rightarrow> int" where
  "precedence Multiply = 7" | "precedence Divide = 7"
| "precedence Add = 6" | "precedence Subtract = 6"
| "precedence Gt = 5" | "precedence Ge = 5" | "precedence Lt = 5" | "precedence Le = 5"
| "precedence Eq = 4" | "precedence Ne = 4"
| "precedence Xor = 3"
| "precedence And = 2"
| "precedence Or = 1"

section \<open>Steps\<close>

definition I32_MAX :: int where "I32_MAX = 2 ^ 31 - 1"
definition I32_MIN :: int where "I32_MIN = - (2 ^ 31)"

text \<open>
  \<^verbatim>\<open>inc_arg_count\<close> also counts the item for an array under construction, if its bracket is on top.
\<close>

fun count_item :: "token \<times> nat option \<Rightarrow> token \<times> nat option" where
  "count_item (TFunction name fid num_args, j) =
     (if fid = ID_ARRAY_BUILD then (TFunction name fid (num_args + 1), j) else (TFunction name fid num_args, j))"
| "count_item x = x"

fun count_below :: "(token \<times> nat option) list \<Rightarrow> (token \<times> nat option) list" where
  "count_below [] = []"
| "count_below [x] = [count_item x]"
| "count_below (x # y # zs) = x # count_item y # zs"

definition inc_arg_count :: "expr_parser \<Rightarrow> expr_parser" where
  "inc_arg_count p =
     (case arg_count p of
        [] \<Rightarrow> p
      | c # cs \<Rightarrow> p\<lparr>arg_count := min I32_MAX (c + 1) # cs, operator_stack := count_below (operator_stack p)\<rparr>)"

definition dec_arg_count :: "expr_parser \<Rightarrow> expr_parser" where
  "dec_arg_count p =
     (case arg_count p of [] \<Rightarrow> p | c # cs \<Rightarrow> p\<lparr>arg_count := max I32_MIN (c - 1) # cs\<rparr>)"

definition emit :: "expression_item \<Rightarrow> expr_parser \<Rightarrow> expr_parser" where
  "emit i p = p\<lparr>code := code p @ [i]\<rparr>"

definition push_op :: "token \<times> nat option \<Rightarrow> expr_parser \<Rightarrow> expr_parser" where
  "push_op x p = p\<lparr>operator_stack := x # operator_stack p\<rparr>"

definition update_jmp_pos :: "nat option \<Rightarrow> expression \<Rightarrow> (expression, 'e) result" where
  "update_jmp_pos jmp_pos out =
     (case jmp_pos of
        None \<Rightarrow> Ok out
      | Some j \<Rightarrow>
          if j < length out then
            (case out ! j of
               JmpIf v _ \<Rightarrow> Ok (out[j := JmpIf v (of_nat (length out - j))])
             | _ \<Rightarrow> Ok out)
          else Panic)"

text \<open>Operators leave the stack: one binary operator with its jump, or one unary operator.\<close>

definition emit_binary :: "binary_operator \<Rightarrow> nat option \<Rightarrow> expression \<Rightarrow> (expression, 'e) result" where
  "emit_binary b j out = and_then (update_jmp_pos j out) (\<lambda>out. Ok (out @ [BinaryOperator b]))"

fun close_ops ::
  "token \<Rightarrow> (token \<times> nat option) list \<Rightarrow> expression \<Rightarrow> ((token \<times> nat option) list \<times> expression, expr_error) result" where
  "close_ops expect [] out = Err MismatchedParentheses"
| "close_ops expect ((t, j) # st) out =
     (if t = expect then Ok (st, out)
      else case t of
        TBinary b \<Rightarrow> and_then (emit_binary b j out) (close_ops expect st)
      | TUnary u \<Rightarrow> close_ops expect st (out @ [UnaryOperator u])
      | _ \<Rightarrow> Err MismatchedParentheses)"

definition pop_count :: "int list \<Rightarrow> (int \<times> int list, 'e) result" where
  "pop_count cs = (case cs of [] \<Rightarrow> Panic | c # cs \<Rightarrow> Ok (c, cs))"

definition close_call :: "expr_parser \<Rightarrow> (expr_parser, expr_error) result" where
  "close_call p =
     (case operator_stack p of
        (TFunction name fid num_args, _) # st \<Rightarrow>
          and_then (pop_count (arg_count p)) (\<lambda>(got_args, cs).
            if got_args \<noteq> sint num_args then
              Err (if fid \<noteq> - 1 then WrongArguments name num_args got_args else MissingArrayIndex)
            else
              Ok (emit (if fid = ID_ARRAY_ACCESS then ArrayAccess
                        else if fid = ID_ARRAY_BUILD then ArrayBuild num_args
                        else Function fid num_args)
                   (p\<lparr>operator_stack := st, arg_count := cs\<rparr>)))
      | (TRegex re, _) # st \<Rightarrow>
          and_then (pop_count (arg_count p)) (\<lambda>(got_args, cs).
            if got_args \<noteq> 1 then Err MatchesArguments
            else Ok (emit (Regex re) (p\<lparr>operator_stack := st, arg_count := cs\<rparr>)))
      | (TSystem s, _) # st \<Rightarrow>
          and_then (pop_count (arg_count p)) (\<lambda>(got_args, cs).
            if got_args \<noteq> 0 then Err SystemArguments
            else Ok (emit (System s) (p\<lparr>operator_stack := st, arg_count := cs\<rparr>)))
      | _ \<Rightarrow> Ok p)"

definition close_group :: "token \<Rightarrow> expr_parser \<Rightarrow> (expr_parser, expr_error) result" where
  "close_group expect p =
     and_then (close_ops expect (operator_stack p) (code p)) (\<lambda>(st, out).
       close_call (p\<lparr>operator_stack := st, code := out\<rparr>))"

fun yield_ops ::
  "int \<Rightarrow> (token \<times> nat option) list \<Rightarrow> expression \<Rightarrow> ((token \<times> nat option) list \<times> expression, expr_error) result" where
  "yield_ops prec [] out = Ok ([], out)"
| "yield_ops prec ((t, j) # st) out =
     (case t of
        TBinary b \<Rightarrow>
          if prec \<le> precedence b then and_then (emit_binary b j out) (yield_ops prec st)
          else Ok ((t, j) # st, out)
      | TUnary u \<Rightarrow> yield_ops prec st (out @ [UnaryOperator u])
      | _ \<Rightarrow> Ok ((t, j) # st, out))"

definition push_binary :: "binary_operator \<Rightarrow> expr_parser \<Rightarrow> expr_parser" where
  "push_binary b p =
     (if b = And then push_op (TBinary And, Some (length (code p))) (emit (JmpIf False 0) p)
      else if b = Or then push_op (TBinary Or, Some (length (code p))) (emit (JmpIf True 0) p)
      else push_op (TBinary b, None) p)"

definition on_binary :: "binary_operator \<Rightarrow> expr_parser \<Rightarrow> (expr_parser, expr_error) result" where
  "on_binary b p =
     (let p = dec_arg_count p in
      and_then (yield_ops (precedence b) (operator_stack p) (code p)) (\<lambda>(st, out).
        Ok (push_binary b (p\<lparr>operator_stack := st, code := out\<rparr>))))"

definition on_bracket :: "bool \<Rightarrow> expr_parser \<Rightarrow> expr_parser" where
  "on_bracket last_is_var_or_fnc p =
     (let (fid, num_args, count, p) =
        (if last_is_var_or_fnc then (ID_ARRAY_ACCESS, 2, 1, p) else (ID_ARRAY_BUILD, 0, 0, inc_arg_count p))
      in push_op (OpenBracket, None)
           (push_op (TFunction (lit ''array'') fid num_args, None) (p\<lparr>arg_count := count # arg_count p\<rparr>)))"

fun comma_ops ::
  "(token \<times> nat option) list \<Rightarrow> expression \<Rightarrow> ((token \<times> nat option) list \<times> expression, expr_error) result" where
  "comma_ops [] out = Ok ([], out)"
| "comma_ops ((t, j) # st) out =
     (case t of
        TBinary b \<Rightarrow> and_then (emit_binary b j out) (comma_ops st)
      | TUnary u \<Rightarrow> comma_ops st (out @ [UnaryOperator u])
      | _ \<Rightarrow> Ok ((t, j) # st, out))"

definition on_call :: "token \<Rightarrow> expr_parser \<Rightarrow> expr_parser" where
  "on_call t p = (let p = inc_arg_count p in push_op (t, None) (p\<lparr>arg_count := 0 # arg_count p\<rparr>))"

text \<open>One token, with the flag that the previous one ended a variable or a call.\<close>

fun parser_step :: "bool \<Rightarrow> token \<Rightarrow> expr_parser \<Rightarrow> (bool \<times> expr_parser, expr_error) result" where
  "parser_step prev (TVariable v) p = Ok (True, emit (Variable v) (inc_arg_count p))"
| "parser_step prev (TConstant c) p = Ok (False, emit (Constant c) (inc_arg_count p))"
| "parser_step prev (TGlobal g) p = Ok (False, emit (Global g) (inc_arg_count p))"
| "parser_step prev (TCapture c) p = Ok (False, emit (Capture c) (inc_arg_count p))"
| "parser_step prev (TUnary u) p = Ok (False, push_op (TUnary u, None) p)"
| "parser_step prev OpenParen p = Ok (False, push_op (OpenParen, None) p)"
| "parser_step prev CloseParen p = and_then (close_group OpenParen p) (\<lambda>p. Ok (True, p))"
| "parser_step prev CloseBracket p = and_then (close_group OpenBracket p) (\<lambda>p. Ok (True, p))"
| "parser_step prev (TBinary b) p = and_then (on_binary b p) (\<lambda>p. Ok (False, p))"
| "parser_step prev (TFunction name fid num_args) p = Ok (False, on_call (TFunction name fid num_args) p)"
| "parser_step prev (TRegex re) p = Ok (False, on_call (TRegex re) p)"
| "parser_step prev (TSystem s) p = Ok (False, on_call (TSystem s) p)"
| "parser_step prev OpenBracket p = Ok (False, on_bracket prev p)"
| "parser_step prev Comma p =
     and_then (comma_ops (operator_stack p) (code p)) (\<lambda>(st, out).
       Ok (False, p\<lparr>operator_stack := st, code := out\<rparr>))"

fun parse_loop :: "token list \<Rightarrow> bool \<times> expr_parser \<Rightarrow> (bool \<times> expr_parser, expr_error) result" where
  "parse_loop [] s = Ok s"
| "parse_loop (t # ts) (prev, p) = and_then (parser_step prev t p) (parse_loop ts)"

fun flush_ops :: "(token \<times> nat option) list \<Rightarrow> expression \<Rightarrow> (expression, expr_error) result" where
  "flush_ops [] out = Ok out"
| "flush_ops ((t, j) # st) out =
     (case t of
        TBinary b \<Rightarrow> and_then (emit_binary b j out) (flush_ops st)
      | TUnary u \<Rightarrow> flush_ops st (out @ [UnaryOperator u])
      | _ \<Rightarrow> Err InvalidOperatorStack)"

text \<open>
  \<^verbatim>\<open>parse\<close> reads its tokens one by one; \<open>ended\<close> is what the tokenizer returns after the last one: the end,
  or an error.
\<close>

definition parse_tokens :: "token list \<Rightarrow> (unit, expr_error) result \<Rightarrow> (expression, expr_error) result" where
  "parse_tokens ts ended =
     and_then (parse_loop ts (False, new_parser)) (\<lambda>(_, p).
     and_then ended (\<lambda>_. flush_ops (operator_stack p) (code p)))"

end
