(* ===== verification/Expr_Tokenizer.thy ===== *)
theory Expr_Tokenizer
  imports Expr_Parser
begin

text \<open>
  The tokenizer of the expression language (\<^verbatim>\<open>common/src/expr/tokenizer.rs\<close>), the duration literals of
  \<^verbatim>\<open>registry/src/types/duration.rs\<close> and the function tables of \<^verbatim>\<open>functions/mod.rs\<close>. The generated
  tables of names (variables, constants, metrics) and the acceptance of a regular expression are the
  record \<open>token_env\<close>.
\<close>

section \<open>Durations\<close>

fun duration_loop :: "bytes \<Rightarrow> bytes \<Rightarrow> bytes \<Rightarrow> (bytes \<times> bytes) option" where
  "duration_loop digits multiplier [] = Some (digits, multiplier)"
| "duration_loop digits multiplier (ch # rest) =
     (if is_digit ch then
        if multiplier \<noteq> [] then None else duration_loop (digits @ [ch]) multiplier rest
      else if \<not> is_ascii_whitespace ch then duration_loop digits (multiplier @ [to_lower ch]) rest
      else duration_loop digits multiplier rest)"

definition duration_unit :: "bytes \<Rightarrow> u64 option" where
  "duration_unit m =
     (if m = lit ''d'' then Some 86400000
      else if m = lit ''h'' then Some 3600000
      else if m = lit ''m'' then Some 60000
      else if m = lit ''s'' then Some 1000
      else if m = lit ''ms'' \<or> m = [] then Some 1
      else None)"

definition parse_duration :: "bytes \<Rightarrow> u64 option" where
  "parse_duration s =
     (case duration_loop [] [] s of
        None \<Rightarrow> None
      | Some (digits, m) \<Rightarrow>
          (case duration_unit m of
             None \<Rightarrow> None
           | Some unit \<Rightarrow> Option.bind (parse_usize digits) (\<lambda>n. checked_mul n unit)))"

section \<open>Function tables\<close>

definition FUNCTIONS :: "(bytes \<times> u32) list" where
  "FUNCTIONS =
    [(lit ''count'', 1), (lit ''sort'', 2), (lit ''dedup'', 1), (lit ''winnow'', 1),
     (lit ''is_intersect'', 2), (lit ''is_email'', 1), (lit ''email_part'', 2), (lit ''is_empty'', 1),
     (lit ''is_number'', 1), (lit ''bit_and'', 2), (lit ''is_ip_addr'', 1), (lit ''is_ipv4_addr'', 1),
     (lit ''is_ipv6_addr'', 1), (lit ''is_ip_in_cidr'', 2), (lit ''ip_reverse_name'', 1), (lit ''trim'', 1),
     (lit ''trim_end'', 1), (lit ''trim_start'', 1), (lit ''len'', 1), (lit ''to_lowercase'', 1),
     (lit ''to_uppercase'', 1), (lit ''is_uppercase'', 1), (lit ''is_lowercase'', 1), (lit ''has_digits'', 1),
     (lit ''count_spaces'', 1), (lit ''count_uppercase'', 1), (lit ''count_lowercase'', 1),
     (lit ''count_chars'', 1), (lit ''contains'', 2), (lit ''contains_ignore_case'', 2),
     (lit ''eq_ignore_case'', 2), (lit ''starts_with'', 2), (lit ''ends_with'', 2), (lit ''lines'', 1),
     (lit ''substring'', 3), (lit ''strip_prefix'', 2), (lit ''strip_suffix'', 2), (lit ''split'', 2),
     (lit ''rsplit'', 2), (lit ''split_once'', 2), (lit ''rsplit_once'', 2), (lit ''split_n'', 3),
     (lit ''split_words'', 1), (lit ''hash'', 2), (lit ''if_then'', 3)]"

definition ASYNC_FUNCTIONS :: "(bytes \<times> u32 \<times> u32) list" where
  "ASYNC_FUNCTIONS =
    [(lit ''is_local_domain'', 0, 1), (lit ''is_local_address'', 1, 1), (lit ''key_get'', 2, 2),
     (lit ''key_exists'', 3, 2), (lit ''key_set'', 4, 3), (lit ''counter_incr'', 5, 3),
     (lit ''counter_get'', 6, 2), (lit ''dns_query'', 8, 2), (lit ''sql_query'', 7, 3)]"

fun find_index :: "nat \<Rightarrow> ('a \<Rightarrow> bool) \<Rightarrow> 'a list \<Rightarrow> (nat \<times> 'a) option" where
  "find_index i P [] = None"
| "find_index i P (x # xs) = (if P x then Some (i, x) else find_index (Suc i) P xs)"

text \<open>The token of a function name: its number and arity, asynchronous functions after the others.\<close>

definition function_token :: "bytes \<Rightarrow> token option" where
  "function_token buf =
     (case find_index 0 (\<lambda>f. fst f = buf) FUNCTIONS of
        Some (idx, name, num_args) \<Rightarrow> Some (TFunction name (of_nat idx) num_args)
      | None \<Rightarrow>
          (case find (\<lambda>f. fst f = buf) ASYNC_FUNCTIONS of
             Some (name, idx, num_args) \<Rightarrow> Some (TFunction name (idx + of_nat (length FUNCTIONS)) num_args)
           | None \<Rightarrow> None))"

section \<open>Words\<close>

record token_env =
  tok_fpu :: fpu
  variable_id :: "bytes \<Rightarrow> u16 option"
  constant_id :: "bytes \<Rightarrow> u16 option"
  metric_id :: "bytes \<Rightarrow> u16 option"
  regex_valid :: "bytes \<Rightarrow> bool"
  map_variables :: "u16 list"
  map_constants :: "u16 list"

record tokenizer =
  input :: bytes
  tbuf :: bytes
  depth :: nat
  next_token :: "token list"
  has_number :: bool
  has_dot :: bool
  has_alpha :: bool
  is_start :: bool
  is_eof :: bool

definition new_tokenizer :: "bytes \<Rightarrow> tokenizer" where
  "new_tokenizer s = \<lparr>input = s, tbuf = [], depth = 0, next_token = [], has_number = False, has_dot = False,
     has_alpha = False, is_start = True, is_eof = False\<rparr>"

definition number_token :: "token_env \<Rightarrow> bool \<Rightarrow> bytes \<Rightarrow> (token, expr_error) result" where
  "number_token env dot buf =
     (if dot then
        (case parse_f64 (tok_fpu env) buf of
           Some f \<Rightarrow> Ok (TConstant (CFloat f))
         | None \<Rightarrow> Err (InvalidFloat buf))
      else
        (case parse_i64 buf of
           Some i \<Rightarrow> Ok (TConstant (CInteger i))
         | None \<Rightarrow> Err (InvalidInteger buf)))"

definition dollar_token :: "bytes \<Rightarrow> token" where
  "dollar_token name =
     (if \<forall>c \<in> set name. is_digit c then
        (if decimal name < 2 ^ 32 then TCapture (of_nat (decimal name)) else TGlobal name)
      else TGlobal name)"

definition word_token :: "token_env \<Rightarrow> bytes \<Rightarrow> (token, expr_error) result" where
  "word_token env buf =
     (if buf \<noteq> [] \<and> hd buf = 36 \<and> tl buf \<noteq> [] then Ok (dollar_token (tl buf))
      else
        (case function_token buf of
           Some t \<Rightarrow> Ok t
         | None \<Rightarrow>
             (case variable_id env buf of
                Some v \<Rightarrow>
                  if map_variables env = [] \<or> v \<in> set (map_variables env) then Ok (TVariable v)
                  else Err (VariableNotAllowed buf)
              | None \<Rightarrow>
                  (case constant_id env buf of
                     Some c \<Rightarrow>
                       if map_constants env = [] \<or> c \<in> set (map_constants env) then Ok (TConstant (CStatic c))
                       else Err (ConstantNotAllowed buf)
                   | None \<Rightarrow>
                       (case parse_duration buf of
                          Some d \<Rightarrow> Ok (TConstant (CInteger d))
                        | None \<Rightarrow> Err (InvalidVariable buf))))))"

text \<open>The word collected so far, with what it contains: digits, dots, letters.\<close>

definition buf_token :: "token_env \<Rightarrow> bool \<Rightarrow> bool \<Rightarrow> bool \<Rightarrow> bytes \<Rightarrow> (token, expr_error) result" where
  "buf_token env number dot alpha buf =
     (if number \<and> \<not> alpha then number_token env dot buf
      else if \<not> number \<and> \<not> dot \<and> length buf \<in> {4, 5} \<and> buf = lit ''true'' then Ok (TConstant (CInteger 1))
      else if \<not> number \<and> \<not> dot \<and> length buf \<in> {4, 5} \<and> buf = lit ''false'' then Ok (TConstant (CInteger 0))
      else word_token env buf)"

definition parse_buf :: "token_env \<Rightarrow> tokenizer \<Rightarrow> (token \<times> tokenizer, expr_error) result" where
  "parse_buf env tz =
     and_then (buf_token env (has_number tz) (has_dot tz) (has_alpha tz) (if valid_utf8 (tbuf tz) then tbuf tz else []))
       (\<lambda>t. Ok (t, tz\<lparr>tbuf := [], has_alpha := False, has_number := False, has_dot := False\<rparr>))"

section \<open>Strings\<close>

fun find_char :: "bytes \<Rightarrow> bytes \<Rightarrow> (byte \<times> bytes, expr_error) result" where
  "find_char chars [] = Err UnexpectedEnd"
| "find_char chars (ch # rest) =
     (if \<not> is_ascii_whitespace ch then
        if ch \<in> set chars then Ok (ch, rest) else Err (ExpectedCharacter (hd chars) ch)
      else find_char chars rest)"

definition unescape :: "byte \<Rightarrow> byte" where
  "unescape ch = (if ch = 110 then 10 else if ch = 114 then 13 else if ch = 116 then 9 else ch)"

fun string_loop :: "byte \<Rightarrow> byte \<Rightarrow> bytes \<Rightarrow> bytes \<Rightarrow> (bytes \<times> bytes) option" where
  "string_loop stop last_ch buf [] = None"
| "string_loop stop last_ch buf (ch # rest) =
     (if last_ch \<noteq> 92 then
        if ch \<noteq> stop then string_loop stop ch (buf @ [ch]) rest else Some (buf, rest)
      else string_loop stop ch (buf @ [unescape ch]) rest)"

definition parse_string :: "byte \<Rightarrow> bytes \<Rightarrow> (bytes \<times> bytes, expr_error) result" where
  "parse_string stop inp =
     (case string_loop stop 0 [] inp of
        Some (buf, rest) \<Rightarrow> if valid_utf8 buf then Ok (buf, rest) else Err InvalidUtf8
      | None \<Rightarrow> Err UnterminatedString)"

section \<open>Tokens\<close>

definition quoted :: "bytes \<Rightarrow> (bytes \<times> bytes, expr_error) result" where
  "quoted inp = and_then (find_char [34, 39] inp) (\<lambda>(stop, rest). parse_string stop rest)"

definition system_name :: "bytes \<Rightarrow> (system_variable, expr_error) result" where
  "system_name s =
     (if s = lit ''domain'' then Ok Domain
      else if s = lit ''hostname'' then Ok Hostname
      else if s = lit ''node_id'' then Ok NodeId
      else if s = lit ''node_hostname'' then Ok NodeHostname
      else if s = lit ''node_role'' then Ok NodeRole
      else Err (InvalidSystemVariable s))"

text \<open>The word before an opening parenthesis; three of them read part of their arguments here.\<close>

definition call_word :: "token_env \<Rightarrow> tokenizer \<Rightarrow> (token \<times> tokenizer, expr_error) result" where
  "call_word env tz =
     (let cleared = tz\<lparr>has_alpha := False, tbuf := []\<rparr> in
      if tbuf tz = lit ''matches'' then
        and_then (quoted (input tz)) (\<lambda>(re, rest).
          if regex_valid env re then
            and_then (find_char [44] rest) (\<lambda>(_, rest). Ok (TRegex re, cleared\<lparr>input := rest\<rparr>))
          else Err (InvalidRegex re))
      else if tbuf tz = lit ''metric'' then
        and_then (quoted (input tz)) (\<lambda>(name, rest).
          case metric_id env name of
            Some m \<Rightarrow> Ok (TSystem (Metric m), cleared\<lparr>input := rest\<rparr>)
          | None \<Rightarrow> Err (InvalidMetric name))
      else if tbuf tz = lit ''system'' then
        and_then (quoted (input tz)) (\<lambda>(name, rest).
          and_then (system_name name) (\<lambda>s. Ok (TSystem s, cleared\<lparr>input := rest\<rparr>)))
      else parse_buf env (tz\<lparr>is_start := False\<rparr>))"

definition prev_word :: "token_env \<Rightarrow> byte \<Rightarrow> tokenizer \<Rightarrow> (token option \<times> tokenizer, expr_error) result" where
  "prev_word env ch tz =
     (if tbuf tz = [] then Ok (None, tz)
      else if ch = 40 then and_then (call_word env tz) (\<lambda>(t, tz). Ok (Some t, tz))
      else and_then (parse_buf env (tz\<lparr>is_start := False\<rparr>)) (\<lambda>(t, tz). Ok (Some t, tz)))"

definition peeked :: "byte \<Rightarrow> token \<Rightarrow> token \<Rightarrow> tokenizer \<Rightarrow> token \<times> tokenizer" where
  "peeked c yes no tz =
     (case input tz of
        b # rest \<Rightarrow> if b = c then (yes, tz\<lparr>input := rest\<rparr>) else (no, tz)
      | [] \<Rightarrow> (no, tz))"

text \<open>The token a delimiter starts. \<^verbatim>\<open>=\<close> always consumes the byte that follows it.\<close>

definition symbol :: "byte \<Rightarrow> tokenizer \<Rightarrow> (token \<times> tokenizer, expr_error) result" where
  "symbol ch tz =
     (if ch = 38 then Ok (peeked 38 (TBinary And) (TBinary And) tz)
      else if ch = 124 then Ok (peeked 124 (TBinary Or) (TBinary Or) tz)
      else if ch = 33 then Ok (peeked 61 (TBinary Ne) (TUnary Not) tz)
      else if ch = 94 then Ok (TBinary Xor, tz)
      else if ch = 40 then Ok (OpenParen, tz\<lparr>depth := (depth tz + 1) mod 2 ^ 32\<rparr>)
      else if ch = 41 then
        if depth tz = 0 then Err UnmatchedClose else Ok (CloseParen, tz\<lparr>depth := depth tz - 1\<rparr>)
      else if ch = 43 then Ok (TBinary Add, tz)
      else if ch = 42 then Ok (TBinary Multiply, tz)
      else if ch = 47 then Ok (TBinary Divide, tz)
      else if ch = 45 then Ok (if is_start tz then TUnary Minus else TBinary Subtract, tz)
      else if ch = 61 then
        (case input tz of
           b # rest \<Rightarrow> Ok (TBinary (if b = 61 then Eq else if b = 62 then Ge else if b = 60 then Le else Eq),
                            tz\<lparr>input := rest\<rparr>)
         | [] \<Rightarrow> Ok (TBinary Eq, tz))
      else if ch = 62 then Ok (peeked 61 (TBinary Ge) (TBinary Gt) tz)
      else if ch = 60 then Ok (peeked 61 (TBinary Le) (TBinary Lt) tz)
      else if ch = 44 then Ok (Comma, tz)
      else if ch = 91 then Ok (OpenBracket, tz)
      else if ch = 93 then Ok (CloseBracket, tz)
      else if ch = 34 \<or> ch = 39 then
        and_then (parse_string ch (input tz)) (\<lambda>(s, rest). Ok (TConstant (CString s), tz\<lparr>input := rest\<rparr>))
      else Err (InvalidCharacter ch))"

fun starts_operand :: "token \<Rightarrow> bool" where
  "starts_operand OpenParen \<longleftrightarrow> True"
| "starts_operand Comma \<longleftrightarrow> True"
| "starts_operand (TBinary _) \<longleftrightarrow> True"
| "starts_operand _ \<longleftrightarrow> False"

definition is_blank_ch :: "byte \<Rightarrow> bool" where
  "is_blank_ch ch \<longleftrightarrow> ch \<in> {32, 13, 10}"

definition delimiter :: "token_env \<Rightarrow> byte \<Rightarrow> tokenizer \<Rightarrow> (token \<times> tokenizer, expr_error) result" where
  "delimiter env ch tz =
     and_then (prev_word env ch tz) (\<lambda>(prev, tz).
       case prev of
         Some t \<Rightarrow>
           if is_blank_ch ch then Ok (t, tz)
           else and_then (symbol ch tz) (\<lambda>(u, tz).
             Ok (t, tz\<lparr>is_start := starts_operand u, next_token := next_token tz @ [u]\<rparr>))
       | None \<Rightarrow> and_then (symbol ch tz) (\<lambda>(u, tz). Ok (u, tz\<lparr>is_start := starts_operand u\<rparr>)))"

definition is_word_ch :: "byte \<Rightarrow> bool" where
  "is_word_ch ch \<longleftrightarrow> is_upper ch \<or> is_lower ch \<or> ch = 95 \<or> ch = 36"

definition glued :: "byte \<Rightarrow> bytes \<Rightarrow> bool" where
  "glued ch buf \<longleftrightarrow>
     ch = 45 \<and> buf \<noteq> [] \<and> last buf = 91 \<or>
     ch = 58 \<and> 46 \<in> set buf \<or>
     ch = 93 \<and> 91 \<in> set buf \<or>
     ch = 42 \<and> buf \<noteq> [] \<and> last buf \<in> {91, 46}"

definition at_end :: "token_env \<Rightarrow> tokenizer \<Rightarrow> (token option \<times> tokenizer, expr_error) result" where
  "at_end env tz =
     (if 0 < depth tz then Err UnmatchedOpen
      else if tbuf tz \<noteq> [] then and_then (parse_buf env tz) (\<lambda>(t, tz). Ok (Some t, tz))
      else Ok (None, tz))"

fun scan :: "token_env \<Rightarrow> bytes \<Rightarrow> tokenizer \<Rightarrow> (token option \<times> tokenizer, expr_error) result" where
  "scan env [] tz = at_end env (tz\<lparr>input := []\<rparr>)"
| "scan env (ch # rest) tz =
     (if is_word_ch ch then scan env rest (tz\<lparr>tbuf := tbuf tz @ [ch], has_alpha := True\<rparr>)
      else if is_digit ch then scan env rest (tz\<lparr>tbuf := tbuf tz @ [ch], has_number := True\<rparr>)
      else if ch = 46 then scan env rest (tz\<lparr>tbuf := tbuf tz @ [ch], has_dot := True\<rparr>)
      else if ch = 125 then at_end env (tz\<lparr>input := rest, is_eof := True\<rparr>)
      else if glued ch (tbuf tz) then scan env rest (tz\<lparr>tbuf := tbuf tz @ [ch]\<rparr>)
      else if is_blank_ch ch \<and> tbuf tz = [] then scan env rest tz
      else and_then (delimiter env ch (tz\<lparr>input := rest\<rparr>)) (\<lambda>(t, tz). Ok (Some t, tz)))"

definition next_tok :: "token_env \<Rightarrow> tokenizer \<Rightarrow> (token option \<times> tokenizer, expr_error) result" where
  "next_tok env tz =
     (if next_token tz \<noteq> [] then Ok (Some (last (next_token tz)), tz\<lparr>next_token := butlast (next_token tz)\<rparr>)
      else if is_eof tz then Ok (None, tz)
      else scan env (input tz) tz)"

section \<open>Termination\<close>

text \<open>What is left to read: two for every byte, one for a pending token or word.\<close>

definition unread :: "tokenizer \<Rightarrow> nat" where
  "unread tz = 2 * length (input tz) + length (next_token tz) + (if tbuf tz \<noteq> [] then 1 else 0)"

lemma parse_buf_fields:
  "parse_buf env tz = Ok (t, tz') \<Longrightarrow>
     tbuf tz' = [] \<and> input tz' = input tz \<and> next_token tz' = next_token tz \<and> depth tz' = depth tz \<and>
     is_start tz' = is_start tz \<and> is_eof tz' = is_eof tz \<and> \<not> has_number tz' \<and> \<not> has_dot tz' \<and> \<not> has_alpha tz'"
  by (auto simp: parse_buf_def result_iff)

lemma find_char_length: "find_char cs inp = Ok (c, rest) \<Longrightarrow> length rest < length inp"
  by (induction cs inp rule: find_char.induct) (auto split: if_split_asm)

lemma string_loop_length: "string_loop stop l buf inp = Some (s, rest) \<Longrightarrow> length rest < length inp"
  by (induction stop l buf inp rule: string_loop.induct) (auto split: if_split_asm)

lemma parse_string_length: "parse_string stop inp = Ok (s, rest) \<Longrightarrow> length rest < length inp"
  by (auto simp: parse_string_def split: option.splits if_split_asm dest: string_loop_length)

lemma quoted_length: "quoted inp = Ok (s, rest) \<Longrightarrow> length rest < length inp"
  by (auto simp: quoted_def result_iff dest!: find_char_length parse_string_length)

lemma prev_word_fields:
  assumes "prev_word env ch tz = Ok (p, tz')"
  shows "tbuf tz' = [] \<and> length (input tz') \<le> length (input tz) \<and> next_token tz' = next_token tz"
proof -
  have "call_word env tz = Ok (t, tz') \<Longrightarrow> tbuf tz' = [] \<and> length (input tz') \<le> length (input tz) \<and> next_token tz' = next_token tz" for t
    by (auto simp: call_word_def Let_def result_iff split: if_split_asm option.splits
        dest!: quoted_length find_char_length parse_buf_fields)
  with assms show ?thesis
    by (auto simp: prev_word_def result_iff split: if_split_asm dest!: parse_buf_fields)
qed

lemma symbol_fields:
  "symbol ch tz = Ok (t, tz') \<Longrightarrow> tbuf tz' = tbuf tz \<and> length (input tz') \<le> length (input tz) \<and> next_token tz' = next_token tz"
  by (auto simp: symbol_def peeked_def result_iff split: if_split_asm list.splits dest!: parse_string_length)

lemma delimiter_unread:
  assumes "delimiter env ch tz = Ok (t, tz')"
  shows "unread tz' \<le> 2 * length (input tz) + length (next_token tz) + 1"
proof -
  obtain p tz1 where p: "prev_word env ch tz = Ok (p, tz1)" using assms by (auto simp: delimiter_def result_iff)
  then show ?thesis
    using assms prev_word_fields [OF p]
    by (auto simp: delimiter_def result_iff unread_def split: option.splits if_split_asm dest!: symbol_fields)
qed

lemma at_end_unread: "at_end env tz = Ok (Some t, tz') \<Longrightarrow> unread tz' < unread tz"
  by (auto simp: at_end_def result_iff unread_def split: if_split_asm dest!: parse_buf_fields)

lemma scan_unread:
  "scan env inp tz = Ok (Some t, tz') \<Longrightarrow>
     unread tz' < 2 * length inp + length (next_token tz) + (if tbuf tz \<noteq> [] then 1 else 0)"
proof (induction env inp tz rule: scan.induct)
  case (1 env tz)
  then show ?case using at_end_unread by (fastforce simp: unread_def)
next
  case (2 env ch rest tz)
  show ?case
  proof (cases "is_word_ch ch \<or> is_digit ch \<or> ch = 46 \<or> ch = 125 \<or> glued ch (tbuf tz) \<or> is_blank_ch ch \<and> tbuf tz = []")
    case True
    with 2 show ?thesis
      by (auto split: if_split_asm dest!: at_end_unread simp: unread_def)
  next
    case False
    with 2(6) show ?thesis
      by (auto simp: result_iff dest!: delimiter_unread)
  qed
qed

lemma next_tok_unread: "next_tok env tz = Ok (Some t, tz') \<Longrightarrow> unread tz' < unread tz"
  using scan_unread [of env "input tz" tz t tz']
  by (auto simp: next_tok_def unread_def split: if_split_asm)

text \<open>All tokens of an input, and how it ended.\<close>

function tokens_of :: "token_env \<Rightarrow> tokenizer \<Rightarrow> token list \<times> (unit, expr_error) result" where
  "tokens_of env tz =
     (case next_tok env tz of
        Ok (Some t, tz') \<Rightarrow> (let (ts, r) = tokens_of env tz' in (t # ts, r))
      | Ok (None, tz') \<Rightarrow> ([], Ok ())
      | Err e \<Rightarrow> ([], Err e)
      | Panic \<Rightarrow> ([], Panic))"
  by pat_completeness auto
termination
  by (relation "measure (\<lambda>(_, tz). unread tz)") (auto dest: next_tok_unread)

declare tokens_of.simps [simp del]

definition parse_expr :: "token_env \<Rightarrow> bytes \<Rightarrow> (expression, expr_error) result" where
  "parse_expr env s = (case tokens_of env (new_tokenizer s) of (ts, ended) \<Rightarrow> parse_tokens ts ended)"

end
