(* ===== verification/Str.thy ===== *)
theory Str
  imports Text "HOL-Library.Sublist"
begin

text \<open>
  Searching, splitting and trimming of text as the standard library of the language defines them on
  \<^verbatim>\<open>str\<close>: text is its UTF-8 bytes, a non-empty pattern is found byte by byte, an empty one at every
  character boundary. Whitespace is the Unicode property \<^verbatim>\<open>White_Space\<close>.
\<close>

section \<open>Characters\<close>

function chars :: "bytes \<Rightarrow> bytes list" where
  "chars [] = []"
| "chars (b # bs) = (b # takeWhile is_cont bs) # chars (dropWhile is_cont bs)"
  by pat_completeness auto
termination
  by (relation "measure length") (auto simp: le_imp_less_Suc length_dropWhile_le)

lemma concat_chars [simp]: "concat (chars s) = s"
  by (induction s rule: chars.induct) simp_all

lemma chars_append: "t = [] \<or> \<not> is_cont (hd t) \<Longrightarrow> chars (s @ t) = chars s @ chars t"
proof (induction s rule: chars.induct)
  case (2 b bs)
  then show ?case
  proof (cases "\<forall>x \<in> set bs. is_cont x")
    case True
    with "2.prems" have "takeWhile is_cont (bs @ t) = bs" "dropWhile is_cont (bs @ t) = t"
      by (cases t; simp add: takeWhile_append dropWhile_append)+
    moreover from True have "takeWhile is_cont bs = bs" "dropWhile is_cont bs = []"
      by (simp_all add: takeWhile_eq_all_conv)
    ultimately show ?thesis by (simp only: append_Cons chars.simps append_Nil)
  next
    case False
    then have "takeWhile is_cont (bs @ t) = takeWhile is_cont bs"
      "dropWhile is_cont (bs @ t) = dropWhile is_cont bs @ t"
      by (auto simp: takeWhile_append1 dropWhile_append1)
    with 2 show ?thesis by simp
  qed
qed simp

text \<open>\<^verbatim>\<open>char::is_whitespace\<close>, on the bytes of the character.\<close>

definition is_whitespace :: "bytes \<Rightarrow> bool" where
  "is_whitespace c \<longleftrightarrow>
     (case c of
        [b] \<Rightarrow> 9 \<le> b \<and> b \<le> 13 \<or> b = 32
      | [b0, b1] \<Rightarrow> b0 = 0xC2 \<and> (b1 = 0x85 \<or> b1 = 0xA0)
      | [b0, b1, b2] \<Rightarrow>
          b0 = 0xE1 \<and> b1 = 0x9A \<and> b2 = 0x80 \<or>
          b0 = 0xE2 \<and> b1 = 0x80 \<and> (0x80 \<le> b2 \<and> b2 \<le> 0x8A \<or> b2 = 0xA8 \<or> b2 = 0xA9 \<or> b2 = 0xAF) \<or>
          b0 = 0xE2 \<and> b1 = 0x81 \<and> b2 = 0x9F \<or>
          b0 = 0xE3 \<and> b1 = 0x80 \<and> b2 = 0x80
      | _ \<Rightarrow> False)"

definition trim_start :: "bytes \<Rightarrow> bytes" where
  "trim_start s = concat (dropWhile is_whitespace (chars s))"

definition trim_end :: "bytes \<Rightarrow> bytes" where
  "trim_end s = concat (rev (dropWhile is_whitespace (rev (chars s))))"

definition trim :: "bytes \<Rightarrow> bytes" where
  "trim s = concat (rev (dropWhile is_whitespace (rev (dropWhile is_whitespace (chars s)))))"

definition no_blanks :: "bytes \<Rightarrow> bool" where
  "no_blanks s \<longleftrightarrow> list_all (\<lambda>c. \<not> is_whitespace c) (chars s)"

lemma trim_no_blanks [simp]: "no_blanks s \<Longrightarrow> trim s = s"
proof -
  assume "no_blanks s"
  then have "dropWhile is_whitespace (chars s) = chars s" "dropWhile is_whitespace (rev (chars s)) = rev (chars s)"
    by (simp_all add: no_blanks_def list_all_iff dropWhile_eq_self_iff hd_rev disj_imp)
  then show ?thesis by (simp add: trim_def)
qed

text \<open>\<^verbatim>\<open>split_whitespace\<close>: the maximal runs of other characters.\<close>

fun words_loop :: "bytes list \<Rightarrow> bytes \<Rightarrow> bytes list" where
  "words_loop [] word = (if word = [] then [] else [word])"
| "words_loop (c # cs) word =
     (if is_whitespace c then (if word = [] then [] else [word]) @ words_loop cs []
      else words_loop cs (word @ c))"

definition split_whitespace :: "bytes \<Rightarrow> bytes list" where
  "split_whitespace s = words_loop (chars s) []"

section \<open>Search\<close>

definition starts_with :: "bytes \<Rightarrow> bytes \<Rightarrow> bool" where
  "starts_with s p \<longleftrightarrow> prefix p s"

definition ends_with :: "bytes \<Rightarrow> bytes \<Rightarrow> bool" where
  "ends_with s p \<longleftrightarrow> suffix p s"

definition strip_prefix :: "bytes \<Rightarrow> bytes \<Rightarrow> bytes option" where
  "strip_prefix s p = (if starts_with s p then Some (drop (length p) s) else None)"

definition strip_suffix :: "bytes \<Rightarrow> bytes \<Rightarrow> bytes option" where
  "strip_suffix s p = (if ends_with s p then Some (take (length s - length p) s) else None)"

fun find_sub :: "bytes \<Rightarrow> bytes \<Rightarrow> nat option" where
  "find_sub p [] = (if p = [] then Some 0 else None)"
| "find_sub p (c # cs) = (if prefix p (c # cs) then Some 0 else map_option Suc (find_sub p cs))"

lemma find_sub_Some:
  "find_sub p s = Some i \<Longrightarrow>
     s = take i s @ p @ drop (i + length p) s \<and> (\<forall>j < i. \<not> prefix p (drop j s))"
proof (induction p s arbitrary: i rule: find_sub.induct)
  case (2 p c cs)
  show ?case
  proof (cases "prefix p (c # cs)")
    case True
    with "2.prems" show ?thesis by (auto simp: prefix_def)
  next
    case False
    with "2.prems" obtain k where k: "i = Suc k" "find_sub p cs = Some k" by auto
    with "2.IH" [OF False k(2)] False show ?thesis by (auto simp: less_Suc_eq_0_disj)
  qed
qed (auto split: if_split_asm)

lemma find_sub_None: "find_sub p s = None \<longleftrightarrow> \<not> sublist p s"
  by (induction p s rule: find_sub.induct) (auto simp: sublist_Cons_right)

section \<open>Splitting\<close>

definition split_once :: "bytes \<Rightarrow> bytes \<Rightarrow> (bytes \<times> bytes) option" where
  "split_once s p = map_option (\<lambda>i. (take i s, drop (i + length p) s)) (find_sub p s)"

definition rsplit_once :: "bytes \<Rightarrow> bytes \<Rightarrow> (bytes \<times> bytes) option" where
  "rsplit_once s p = map_option (\<lambda>(a, b). (rev b, rev a)) (split_once (rev s) (rev p))"

lemma split_once_Some: "split_once s p = Some (a, b) \<Longrightarrow> s = a @ p @ b"
  by (auto simp: split_once_def dest: find_sub_Some)

lemma split_once_None: "split_once s p = None \<longleftrightarrow> \<not> sublist p s"
  by (simp add: split_once_def find_sub_None)

lemma split_once_first:
  assumes "split_once s p = Some (a, b)" "p \<noteq> []"
  shows "\<not> sublist p (a @ butlast p)"
proof
  assume "sublist p (a @ butlast p)"
  then obtain l r where e: "a @ butlast p = l @ p @ r" by (auto simp: sublist_def)
  from assms(1) obtain i where i: "find_sub p s = Some i" "a = take i s"
    by (auto simp: split_once_def)
  from split_once_Some [OF assms(1)] assms(2) have s: "s = (a @ butlast p) @ [List.last p] @ b" by simp
  have "length a + (length p - 1) = length l + length p + length r"
    using arg_cong [OF e, of length] by simp
  then have "length l < length a" using assms(2) by (cases p) simp_all
  with i have "length l < i" by simp
  moreover have "prefix p (drop (length l) s)" by (simp add: s e)
  ultimately show False using find_sub_Some [OF i(1)] by blast
qed

lemma rsplit_once_Some: "rsplit_once s p = Some (a, b) \<Longrightarrow> s = a @ p @ b"
  by (auto simp: rsplit_once_def rev_swap dest!: split_once_Some)

lemma find_sub_first: "c \<notin> set a \<Longrightarrow> find_sub [c] (a @ c # b) = Some (length a)"
  by (induction a) auto

lemma split_once_byte: "c \<notin> set a \<Longrightarrow> split_once (a @ c # b) [c] = Some (a, b)"
  by (simp add: split_once_def find_sub_first)

lemma rsplit_once_byte: "c \<notin> set b \<Longrightarrow> rsplit_once (a @ c # b) [c] = Some (a, b)"
  by (simp add: rsplit_once_def split_once_byte)

lemma rsplit_once_byte_None: "c \<notin> set s \<Longrightarrow> rsplit_once s [c] = None"
  using set_mono_sublist [of "[c]" "rev s"] by (auto simp: rsplit_once_def split_once_None)

function str_split :: "bytes \<Rightarrow> bytes \<Rightarrow> bytes list" where
  "str_split s p =
     (if p = [] then [[]] @ chars s @ [[]]
      else case split_once s p of None \<Rightarrow> [s] | Some (a, b) \<Rightarrow> a # str_split b p)"
  by pat_completeness auto
termination
  by (relation "measure (\<lambda>(s, p). length s)") (auto dest!: split_once_Some)

declare str_split.simps [simp del]

definition str_rsplit :: "bytes \<Rightarrow> bytes \<Rightarrow> bytes list" where
  "str_rsplit s p = (if p = [] then rev (str_split s p) else map rev (str_split (rev s) (rev p)))"

primrec split_n :: "nat \<Rightarrow> bytes \<Rightarrow> bytes \<Rightarrow> bytes list" where
  "split_n 0 s p = [s]"
| "split_n (Suc n) s p = (case split_once s p of Some (a, b) \<Rightarrow> a # split_n n b p | None \<Rightarrow> [s])"

definition strip_cr :: "bytes \<Rightarrow> bytes" where
  "strip_cr s = (case strip_suffix s [CR] of Some t \<Rightarrow> t | None \<Rightarrow> s)"

function str_lines :: "bytes \<Rightarrow> bytes list" where
  "str_lines s =
     (if s = [] then []
      else case split_once s [LF] of None \<Rightarrow> [s] | Some (a, b) \<Rightarrow> strip_cr a # str_lines b)"
  by pat_completeness auto
termination
  by (relation "measure length") (auto dest!: split_once_Some)

declare str_lines.simps [simp del]

text \<open>Joining the pieces with the pattern gives the text back, whatever the pattern.\<close>

fun join_with :: "bytes \<Rightarrow> bytes list \<Rightarrow> bytes" where
  "join_with p [] = []"
| "join_with p [x] = x"
| "join_with p (x # y # zs) = x @ p @ join_with p (y # zs)"

lemma join_with_Cons: "xs \<noteq> [] \<Longrightarrow> join_with p (x # xs) = x @ p @ join_with p xs"
  by (cases xs) simp_all

lemma join_with_Nil [simp]: "join_with [] xs = concat xs"
  by (induction "[] :: bytes" xs rule: join_with.induct) simp_all

lemma str_split_not_Nil [simp]: "str_split s p \<noteq> []"
  by (subst str_split.simps) (simp split: option.splits prod.splits)

lemma join_str_split: "join_with p (str_split s p) = s"
proof (induction s p rule: str_split.induct)
  case (1 s p)
  then show ?case
    by (subst str_split.simps) (auto simp: join_with_Cons split: option.splits dest: split_once_Some)
qed

lemma str_split_pieces: "p \<noteq> [] \<Longrightarrow> x \<in> set (str_split s p) \<Longrightarrow> \<not> sublist p x"
proof (induction s p rule: str_split.induct)
  case (1 s p)
  show ?case
  proof (cases "split_once s p")
    case None
    with "1.prems" show ?thesis
      by (subst (asm) str_split.simps) (simp add: split_once_None)
  next
    case (Some r)
    obtain a b where r: "r = (a, b)" by fastforce
    from "1.prems" Some r have "x = a \<or> x \<in> set (str_split b p)"
      by (subst (asm) str_split.simps) simp
    moreover have "\<not> sublist p a"
      using split_once_first [OF Some [unfolded r] "1.prems"(1)] by (simp add: sublist_append)
    ultimately show ?thesis
      using "1.IH" [OF "1.prems"(1) Some r [symmetric]] "1.prems"(1) by blast
  qed
qed

lemma join_split_n: "join_with p (split_n n s p) = s"
proof -
  have "split_n n s p \<noteq> []" for n s by (cases n) (auto split: option.splits)
  then show ?thesis
    by (induction n arbitrary: s) (auto simp: join_with_Cons split: option.splits dest: split_once_Some)
qed

text \<open>An empty pattern is found before the first character, again and again.\<close>

lemma split_n_empty_pattern: "split_n n s [] = replicate n [] @ [s]"
  by (induction n) (cases s; simp add: split_once_def)+

end
