(* ===== verification/Ip_Mask.thy ===== *)
theory Ip_Mask
  imports Str Contracts
begin

text \<open>
  Addresses and networks of the registry (\<^verbatim>\<open>registry/src/types/ipmask.rs\<close>): an address with a mask, its
  text, its index key, its stored form and the test whether an address lies in it. Reading and printing
  a single address is the standard library's (\<^verbatim>\<open>IpAddr\<close>), a parameter with the law that an address is
  read back from its text.
\<close>

section \<open>Addresses\<close>

type_synonym u128 = "128 word"

datatype ip_addr = IpV4 u32 | IpV6 u128

text \<open>\<^verbatim>\<open>Ipv6Addr::to_ipv4_mapped\<close>, \<^verbatim>\<open>Ipv6Addr::to_ipv4\<close> and \<^verbatim>\<open>Ipv4Addr::to_ipv6_mapped\<close>.\<close>

definition to_ipv4_mapped :: "u128 \<Rightarrow> u32 option" where
  "to_ipv4_mapped a = (if drop_bit 32 a = 0xFFFF then Some (ucast a) else None)"

definition to_ipv4 :: "u128 \<Rightarrow> u32 option" where
  "to_ipv4 a = (if drop_bit 32 a = 0xFFFF \<or> drop_bit 32 a = 0 then Some (ucast a) else None)"

definition to_ipv6_mapped :: "u32 \<Rightarrow> u128" where
  "to_ipv6_mapped a = push_bit 32 0xFFFF OR ucast a"

section \<open>Masks\<close>

datatype ip_addr_or_mask = MaskV4 u32 u32 | MaskV6 u128 u128

fun from_ip :: "ip_addr \<Rightarrow> ip_addr_or_mask" where
  "from_ip (IpV4 addr) = MaskV4 addr (- 1)"
| "from_ip (IpV6 addr) = MaskV6 addr (- 1)"

fun mask_is_valid :: "ip_addr_or_mask \<Rightarrow> bool" where
  "mask_is_valid (MaskV4 addr msk) \<longleftrightarrow> addr \<noteq> 0"
| "mask_is_valid (MaskV6 addr msk) \<longleftrightarrow> True"

fun try_to_ip :: "ip_addr_or_mask \<Rightarrow> ip_addr option" where
  "try_to_ip (MaskV4 addr msk) = (if msk = - 1 then Some (IpV4 addr) else None)"
| "try_to_ip (MaskV6 addr msk) = (if msk = - 1 then Some (IpV6 addr) else None)"

fun into_inner :: "ip_addr_or_mask \<Rightarrow> ip_addr \<times> u128" where
  "into_inner (MaskV4 addr msk) = (IpV4 addr, ucast msk)"
| "into_inner (MaskV6 addr msk) = (IpV6 addr, msk)"

fun mask_matches :: "ip_addr_or_mask \<Rightarrow> ip_addr \<Rightarrow> bool" where
  "mask_matches (MaskV4 addr msk) remote \<longleftrightarrow>
     (if msk = - 1 then
        (case remote of
           IpV4 remote \<Rightarrow> addr = remote
         | IpV6 remote \<Rightarrow> (case to_ipv4_mapped remote of Some remote \<Rightarrow> addr = remote | None \<Rightarrow> False))
      else if msk = 0 then (case remote of IpV4 _ \<Rightarrow> True | _ \<Rightarrow> False)
      else
        (case (case remote of IpV4 ip \<Rightarrow> Some ip | IpV6 ip \<Rightarrow> to_ipv4 ip) of
           None \<Rightarrow> False
         | Some ip \<Rightarrow> ip AND msk = addr AND msk))"
| "mask_matches (MaskV6 addr msk) remote \<longleftrightarrow>
     (if msk = - 1 then
        (case remote of IpV6 remote \<Rightarrow> remote = addr | IpV4 remote \<Rightarrow> to_ipv6_mapped remote = addr)
      else if msk = 0 then (case remote of IpV6 _ \<Rightarrow> True | _ \<Rightarrow> False)
      else (case remote of IpV6 ip \<Rightarrow> ip | IpV4 ip \<Rightarrow> to_ipv6_mapped ip) AND msk = addr AND msk)"

fun to_index_key :: "ip_addr_or_mask \<Rightarrow> bytes" where
  "to_index_key (MaskV4 addr msk) = to_be 4 addr @ to_be 4 msk"
| "to_index_key (MaskV6 addr msk) = to_be 16 addr @ to_be 16 msk"

fun pickle_mask :: "ip_addr_or_mask \<Rightarrow> bytes" where
  "pickle_mask (MaskV4 addr msk) = 4 # to_be 4 addr @ to_be 4 msk"
| "pickle_mask (MaskV6 addr msk) = 6 # to_be 16 addr @ to_be 16 msk"

section \<open>Text\<close>

definition mask_from_str :: "(bytes \<Rightarrow> ip_addr option) \<Rightarrow> bytes \<Rightarrow> ip_addr_or_mask option" where
  "mask_from_str parse_ip s =
     (case rsplit_once s [47] of
        Some (addr, msk) \<Rightarrow>
          (case (parse_ip (trim addr), parse_uint (trim msk) :: u32 option) of
             (Some (IpV4 addr), Some msk) \<Rightarrow>
               if 8 \<le> msk \<and> msk \<le> 32 then Some (MaskV4 addr (push_bit (32 - unat msk) (- 1))) else None
           | (Some (IpV6 addr), Some msk) \<Rightarrow>
               if 8 \<le> msk \<and> msk \<le> 128 then Some (MaskV6 addr (push_bit (128 - unat msk) (- 1))) else None
           | _ \<Rightarrow> None)
      | None \<Rightarrow> map_option from_ip (parse_ip (trim s)))"

definition count_ones :: "'a::len word \<Rightarrow> nat" where
  "count_ones w = length (filter (bit w) [0..<LENGTH('a)])"

fun show_mask :: "(ip_addr \<Rightarrow> bytes) \<Rightarrow> ip_addr_or_mask \<Rightarrow> bytes" where
  "show_mask show_ip (MaskV4 addr msk) =
     (if msk = - 1 then show_ip (IpV4 addr) else show_ip (IpV4 addr) @ [47] @ show_nat (count_ones msk))"
| "show_mask show_ip (MaskV6 addr msk) =
     (if msk = - 1 then show_ip (IpV6 addr) else show_ip (IpV6 addr) @ [47] @ show_nat (count_ones msk))"

section \<open>Networks\<close>

text \<open>The masks a text can denote: a prefix of at least eight ones.\<close>

fun prefix_mask :: "ip_addr_or_mask \<Rightarrow> bool" where
  "prefix_mask (MaskV4 addr msk) \<longleftrightarrow> (\<exists>n \<in> {8..32}. msk = push_bit (32 - n) (- 1))"
| "prefix_mask (MaskV6 addr msk) \<longleftrightarrow> (\<exists>n \<in> {8..128}. msk = push_bit (128 - n) (- 1))"

declare push_bit_minus_one_eq_not_mask [simp del]

lemma bit_prefix_mask: "bit (push_bit k (- 1) :: 'a::len word) i \<longleftrightarrow> k \<le> i \<and> i < LENGTH('a)"
  by (auto simp: bit_simps)

lemma filter_upt_ge: "filter (\<lambda>i. k \<le> i) [0..<n] = [k..<n]"
  by (induction n) auto

lemma count_ones_prefix: "k \<le> LENGTH('a) \<Longrightarrow> count_ones (push_bit k (- 1) :: 'a::len word) = LENGTH('a) - k"
proof -
  have "filter (bit (push_bit k (- 1) :: 'a word)) [0..<LENGTH('a)] = filter (\<lambda>i. k \<le> i) [0..<LENGTH('a)]"
    by (rule filter_cong) (auto simp: bit_prefix_mask)
  then show ?thesis by (simp add: count_ones_def filter_upt_ge)
qed

lemma and_prefix_eq:
  "x AND push_bit k (- 1) = y AND push_bit k (- 1) \<longleftrightarrow> drop_bit k x = drop_bit k y" for x y :: "'a::len word"
proof -
  have "x AND push_bit k (- 1) = push_bit k (drop_bit k x)" for x :: "'a word"
    by (rule bit_word_eqI) (auto simp: bit_simps)
  moreover have "drop_bit k (push_bit k (drop_bit k x)) = drop_bit k x" for x :: "'a word"
    by (rule bit_word_eqI) (auto simp: bit_simps dest: bit_imp_le_length)
  ultimately show ?thesis by metis
qed

lemma prefix_mask_zero: "k < LENGTH('a) \<Longrightarrow> (push_bit k (- 1) :: 'a::len word) \<noteq> 0"
  using bit_prefix_mask [of k "LENGTH('a) - 1", where 'a = 'a] by (metis One_nat_def bit_0_eq bot_apply bot_bool_def diff_Suc_less
      len_gt_0 less_Suc_eq_le Suc_pred)

lemma prefix_mask_full: "(push_bit k (- 1) :: 'a::len word) = - 1 \<longleftrightarrow> k = 0"
proof
  assume "push_bit k (- 1) = (- 1 :: 'a word)"
  then have "bit (push_bit k (- 1) :: 'a word) 0" by simp
  then show "k = 0" by (simp add: bit_simps)
qed simp

lemma drop_bit_mapped: "drop_bit 32 (to_ipv6_mapped r) = 0xFFFF" "ucast (to_ipv6_mapped r) = r"
proof -
  have "drop_bit 32 (to_ipv6_mapped r) = drop_bit 32 (push_bit 32 0xFFFF) OR drop_bit 32 (ucast r)"
    by (simp add: to_ipv6_mapped_def drop_bit_or)
  also have "drop_bit 32 (ucast r :: u128) = 0"
    by (rule bit_word_eqI) (auto simp: bit_simps dest: bit_imp_le_length)
  finally show "drop_bit 32 (to_ipv6_mapped r) = 0xFFFF" by simp
  have "ucast (push_bit 32 x OR ucast r :: u128) = r" for x
    by (rule bit_word_eqI) (auto simp: bit_simps)
  then show "ucast (to_ipv6_mapped r) = r" by (simp only: to_ipv6_mapped_def)
qed

lemma to_ipv4_of_mapped [simp]: "to_ipv4 (to_ipv6_mapped r) = Some r" "to_ipv4_mapped (to_ipv6_mapped r) = Some r"
  by (simp_all add: to_ipv4_def to_ipv4_mapped_def drop_bit_mapped)

lemma to_ipv4_of_compatible [simp]: "to_ipv4 (ucast r) = Some r" "to_ipv4_mapped (ucast r) = None"
proof -
  have "drop_bit 32 (ucast r :: u128) = 0"
    by (rule bit_word_eqI) (auto simp: bit_simps dest: bit_imp_le_length)
  moreover have "ucast (ucast r :: u128) = r"
    by (rule bit_word_eqI) (auto simp: bit_simps)
  ultimately show "to_ipv4 (ucast r) = Some r" "to_ipv4_mapped (ucast r) = None"
    by (simp_all add: to_ipv4_def to_ipv4_mapped_def)
qed

lemma network_v4:
  assumes "8 \<le> n" "n \<le> 32"
  shows "mask_matches (MaskV4 a (push_bit (32 - n) (- 1))) (IpV4 r) \<longleftrightarrow> drop_bit (32 - n) r = drop_bit (32 - n) a"
    and "mask_matches (MaskV4 a (push_bit (32 - n) (- 1))) (IpV6 (to_ipv6_mapped r)) \<longleftrightarrow>
           drop_bit (32 - n) r = drop_bit (32 - n) a"
  using assms prefix_mask_zero [of "32 - n", where 'a = 32]
  by (auto simp: prefix_mask_full and_prefix_eq)

lemma network_v6:
  assumes "8 \<le> n" "n \<le> 128"
  shows "mask_matches (MaskV6 a (push_bit (128 - n) (- 1))) (IpV6 r) \<longleftrightarrow> drop_bit (128 - n) r = drop_bit (128 - n) a"
    and "mask_matches (MaskV6 a (push_bit (128 - n) (- 1))) (IpV4 q) \<longleftrightarrow>
           drop_bit (128 - n) (to_ipv6_mapped q) = drop_bit (128 - n) a"
  using assms prefix_mask_zero [of "128 - n", where 'a = 128]
  by (auto simp: prefix_mask_full and_prefix_eq)

section \<open>Text of networks\<close>

lemma chars_ascii: "\<forall>b \<in> set s. \<not> is_cont b \<Longrightarrow> chars s = map (\<lambda>b. [b]) s"
proof (induction s)
  case (Cons b s)
  then have "takeWhile is_cont s = []" "dropWhile is_cont s = s" by (cases s; simp)+
  with Cons show ?case by simp
qed simp

lemma digits_plain:
  assumes "\<forall>b \<in> set s. is_digit b"
  shows "no_blanks s" "47 \<notin> set s"
proof -
  have "\<not> is_cont b" "\<not> is_whitespace [b]" "b \<noteq> 47" if "is_digit b" for b
    using that by (auto simp: is_digit_def is_cont_def is_whitespace_def word_le_nat_alt)
  with assms show "no_blanks s" "47 \<notin> set s" by (auto simp: no_blanks_def chars_ascii list_all_iff)
qed

lemma split_network:
  assumes "no_blanks addr"
  shows "rsplit_once (addr @ [47] @ show_nat n) [47] = Some (addr, show_nat n)" "trim addr = addr"
    "trim (show_nat n) = show_nat n"
  using digits_plain [OF show_nat_digits(1)] assms by (simp_all add: rsplit_once_byte)

text \<open>The prefix length is read back.\<close>

lemma parse_prefix: "n \<le> 128 \<Longrightarrow> parse_uint (show_nat n) = Some (of_nat n :: u32)" "n \<le> 128 \<Longrightarrow> unat (of_nat n :: u32) = n"
proof -
  assume n: "n \<le> 128"
  then show "unat (of_nat n :: u32) = n" by (simp add: unat_of_nat)
  with parse_uint_show [of "of_nat n :: u32"] show "parse_uint (show_nat n) = Some (of_nat n :: u32)" by simp
qed

lemma mask_text:
  assumes "prefix_mask m"
    and parse: "parse_ip (show_ip (fst (into_inner m))) = Some (fst (into_inner m))"
    and slash: "47 \<notin> set (show_ip (fst (into_inner m)))"
    and blank: "no_blanks (show_ip (fst (into_inner m)))"
  shows "mask_from_str parse_ip (show_mask show_ip m) = Some m"
proof (cases m)
  case (MaskV4 addr msk)
  with assms(1) obtain n where n: "8 \<le> n" "n \<le> 32" "msk = push_bit (32 - n) (- 1)" by auto
  show ?thesis
  proof (cases "n = 32")
    case True
    with n MaskV4 parse slash blank show ?thesis by (simp add: mask_from_str_def rsplit_once_byte_None)
  next
    case False
    with n have "8 \<le> (of_nat n :: u32)" "(of_nat n :: u32) \<le> 32" by (simp_all add: word_le_nat_alt parse_prefix)
    moreover have "count_ones msk = n" using n count_ones_prefix [of "32 - n", where 'a = 32] by simp
    moreover have "no_blanks (show_ip (IpV4 addr))" using blank MaskV4 by simp
    ultimately show ?thesis
      using n False parse parse_prefix [of n]
      by (simp add: mask_from_str_def MaskV4 prefix_mask_full split_network [simplified])
  qed
next
  case (MaskV6 addr msk)
  with assms(1) obtain n where n: "8 \<le> n" "n \<le> 128" "msk = push_bit (128 - n) (- 1)" by auto
  show ?thesis
  proof (cases "n = 128")
    case True
    with n MaskV6 parse slash blank show ?thesis by (simp add: mask_from_str_def rsplit_once_byte_None)
  next
    case False
    with n have "8 \<le> (of_nat n :: u32)" "(of_nat n :: u32) \<le> 128" by (simp_all add: word_le_nat_alt parse_prefix)
    moreover have "count_ones msk = n" using n count_ones_prefix [of "128 - n", where 'a = 128] by simp
    moreover have "no_blanks (show_ip (IpV6 addr))" using blank MaskV6 by simp
    ultimately show ?thesis
      using n False parse parse_prefix [of n]
      by (simp add: mask_from_str_def MaskV6 prefix_mask_full split_network [simplified])
  qed
qed

text \<open>A text is read only as an address or as a prefix of at least eight bits.\<close>

lemma mask_from_str_prefix: "mask_from_str parse_ip s = Some m \<Longrightarrow> prefix_mask m"
proof -
  have full: "prefix_mask (from_ip a)" for a
    by (cases a) (auto intro: bexI [of _ 32] bexI [of _ 128])
  have net: "prefix_mask (MaskV4 a (push_bit (32 - unat n) (- 1)))" if "8 \<le> n" "n \<le> 32" for a and n :: u32
    using that by (auto simp: word_le_nat_alt intro!: bexI [of _ "unat n"])
  have net6: "prefix_mask (MaskV6 a (push_bit (128 - unat n) (- 1)))" if "8 \<le> n" "n \<le> 128" for a and n :: u32
    using that by (auto simp: word_le_nat_alt intro!: bexI [of _ "unat n"])
  assume "mask_from_str parse_ip s = Some m"
  then show ?thesis
    unfolding mask_from_str_def using full net net6
    by (auto split: option.splits prod.splits ip_addr.splits if_split_asm simp del: prefix_mask.simps from_ip.simps)
qed

lemma to_be_inj: "8 * n = LENGTH('a) \<Longrightarrow> to_be n x = to_be n y \<longleftrightarrow> x = y" for x y :: "'a::len word"
  by (metis from_be_to_be_full)

lemma to_index_key_inj: "to_index_key m = to_index_key m' \<longleftrightarrow> m = m'"
proof -
  have mixed: "to_be 4 (a :: u32) @ to_be 4 (b :: u32) \<noteq> to_be 16 (c :: u128) @ to_be 16 (d :: u128)" for a b c d
  proof
    assume "to_be 4 a @ to_be 4 b = to_be 16 c @ to_be 16 d"
    from arg_cong [OF this, of length] show False by simp
  qed
  show ?thesis
    by (cases m; cases m') (simp_all add: to_be_inj mixed mixed [symmetric])
qed

section \<open>Properties\<close>


definition demo_parse_ip :: "bytes \<Rightarrow> ip_addr option" where
  "demo_parse_ip s = (if s = lit ''10.1.0.0'' then Some (IpV4 0x0A010000) else None)"

lemma demo_network: "mask_from_str demo_parse_ip (lit ''10.1.0.0/16'') = Some (MaskV4 0x0A010000 (push_bit 16 (- 1)))"
proof -
  have "rsplit_once (lit ''10.1.0.0/16'') [47] = Some (lit ''10.1.0.0'', lit ''16'')" by code_simp
  moreover have "trim (lit ''10.1.0.0'') = lit ''10.1.0.0''" "trim (lit ''16'') = lit ''16''"
    by code_simp+
  moreover have "parse_uint (lit ''16'') = Some (16 :: u32)"
    by (simp add: parse_uint_def parse_digits_def is_digit_def decimal_def digit_value_def)
  ultimately show ?thesis by (simp add: mask_from_str_def demo_parse_ip_def del: lit_simps)
qed


text \<open>
  A network printed as text is read back as the same network, for every prefix a text can denote.
\<close>

theorem mask_text_roundtrip:
  assumes "prefix_mask m" "parse_ip (show_ip (fst (into_inner m))) = Some (fst (into_inner m))"
    "47 \<notin> set (show_ip (fst (into_inner m)))" "no_blanks (show_ip (fst (into_inner m)))"
  shows "mask_from_str parse_ip (show_mask show_ip m) = Some m"
  using assms by (rule mask_text)

theorem mask_text_roundtrip_witness:
  "mask_from_str demo_parse_ip (show_mask (\<lambda>_. lit ''10.1.0.0'') (MaskV4 0x0A010000 (push_bit 16 (- 1)))) =
     Some (MaskV4 0x0A010000 (push_bit 16 (- 1)))"
proof (rule mask_text_roundtrip)
  show "prefix_mask (MaskV4 0x0A010000 (push_bit 16 (- 1)))" by (auto intro: bexI [of _ 16])
  show "no_blanks (lit ''10.1.0.0'')" by code_simp
  show "47 \<notin> set (lit ''10.1.0.0'')" by simp
qed (simp add: demo_parse_ip_def del: lit_simps)

text \<open>
  An IPv4 network of fewer than 32 bits also contains the IPv4-compatible IPv6 addresses (\<^verbatim>\<open>::a.b.c.d\<close>)
  of its addresses, while an exact IPv4 address matches none of them.
\<close>

theorem compatible_address_in_network:
  assumes "8 \<le> n" "n < 32"
  shows "(mask_matches (MaskV4 a (push_bit (32 - n) (- 1))) (IpV6 (ucast r)) \<longleftrightarrow>
            drop_bit (32 - n) r = drop_bit (32 - n) a) \<and>
         \<not> mask_matches (MaskV4 a (- 1)) (IpV6 (ucast r))"
  using assms prefix_mask_zero [of "32 - n", where 'a = 32]
  by (auto simp: prefix_mask_full and_prefix_eq)

theorem compatible_address_in_network_witness:
  "mask_matches (MaskV4 0x0A010000 (push_bit (32 - 16) (- 1))) (IpV6 (ucast (0x0A010203 :: u32)))"
  using compatible_address_in_network [of 16 "0x0A010000" "0x0A010203"] by (simp del: mask_matches.simps)

end
