(* ===== verification/Expr_Functions.thy ===== *)
theory Expr_Functions
  imports Expr_Eval Expr_Tokenizer Ip_Mask
begin

text \<open>
  Functions of the expression language (\<^verbatim>\<open>common/src/expr/functions\<close>), with indexing of their arguments
  explicit: a function called with too few arguments panics. The Unicode tables, the sort of the
  standard library, reading a single IP address and the digests are parameters.
\<close>

record fn_lib =
  lib_fpu :: fpu
  is_alphabetic :: "bytes \<Rightarrow> bool"
  is_alphanumeric :: "bytes \<Rightarrow> bool"
  is_uppercase :: "bytes \<Rightarrow> bool"
  is_lowercase :: "bytes \<Rightarrow> bool"
  str_to_lowercase :: "bytes \<Rightarrow> bytes"
  str_to_uppercase :: "bytes \<Rightarrow> bytes"
  sort_unstable_by :: "(variable \<Rightarrow> variable \<Rightarrow> ordering) \<Rightarrow> variable list \<Rightarrow> variable list option"
  parse_ip_addr :: "bytes \<Rightarrow> ip_addr option"
  to_reverse_name :: "ip_addr \<Rightarrow> bytes"
  md5_hex :: "bytes \<Rightarrow> bytes"
  sha1_hex :: "bytes \<Rightarrow> bytes"
  sha256_hex :: "bytes \<Rightarrow> bytes"
  sha512_hex :: "bytes \<Rightarrow> bytes"

section \<open>Array functions\<close>

definition arg :: "variable list \<Rightarrow> nat \<Rightarrow> (variable, 'e) result" where
  "arg v i = index_at v i"

definition fn_count :: "variable list \<Rightarrow> (variable, 'e) result" where
  "fn_count v =
     and_then (arg v 0) (\<lambda>x.
       Ok (case x of
             VArray a \<Rightarrow> VInteger (of_nat (length a))
           | _ \<Rightarrow> VInteger (if \<not> is_empty_var x then 1 else 0)))"

text \<open>The library's sort may panic when the order is not total.\<close>

definition fn_sort :: "fn_lib \<Rightarrow> variable list \<Rightarrow> (variable, 'e) result" where
  "fn_sort lib v =
     and_then (arg v 1) (\<lambda>y. and_then (arg v 0) (\<lambda>x.
       let order = variable_cmp (lib_fpu lib) in
       case sort_unstable_by lib (if to_bool y then order else (\<lambda>a b. order b a)) (into_array x) of
         Some arr \<Rightarrow> Ok (VArray arr)
       | None \<Rightarrow> Panic))"

definition contains_var :: "fpu \<Rightarrow> variable list \<Rightarrow> variable \<Rightarrow> bool" where
  "contains_var fp xs x \<longleftrightarrow> (\<exists>y \<in> set xs. variable_eq fp y x)"

fun dedup_loop :: "fpu \<Rightarrow> variable list \<Rightarrow> variable list \<Rightarrow> variable list" where
  "dedup_loop fp acc [] = acc"
| "dedup_loop fp acc (x # xs) = dedup_loop fp (if contains_var fp acc x then acc else acc @ [x]) xs"

definition fn_dedup :: "fpu \<Rightarrow> variable list \<Rightarrow> (variable, 'e) result" where
  "fn_dedup fp v = and_then (arg v 0) (\<lambda>x. Ok (VArray (dedup_loop fp [] (into_array x))))"

definition fn_is_intersect :: "fpu \<Rightarrow> variable list \<Rightarrow> (variable, 'e) result" where
  "fn_is_intersect fp v =
     and_then (arg v 0) (\<lambda>x. and_then (arg v 1) (\<lambda>y.
       Ok (of_bool64
         (case (x, y) of
            (VArray a, VArray b) \<Rightarrow> \<exists>z \<in> set a. contains_var fp b z
          | (VArray a, item) \<Rightarrow> contains_var fp a item
          | (item, VArray a) \<Rightarrow> contains_var fp a item
          | _ \<Rightarrow> False))))"

definition fn_winnow :: "variable list \<Rightarrow> (variable, 'e) result" where
  "fn_winnow v =
     and_then (arg v 0) (\<lambda>x.
       Ok (case x of VArray a \<Rightarrow> VArray (filter (\<lambda>i. \<not> is_empty_var i) a) | y \<Rightarrow> y))"

section \<open>Other functions\<close>

definition fn_is_empty :: "variable list \<Rightarrow> (variable, 'e) result" where
  "fn_is_empty v =
     and_then (arg v 0) (\<lambda>x.
       Ok (of_bool64 (case x of VString s \<Rightarrow> s = [] | VArray a \<Rightarrow> a = [] | _ \<Rightarrow> False)))"

definition fn_is_number :: "variable list \<Rightarrow> (variable, 'e) result" where
  "fn_is_number v = and_then (arg v 0) (\<lambda>x. Ok (of_bool64 (is_number x)))"

definition fn_bit_and :: "fpu \<Rightarrow> variable list \<Rightarrow> (variable, 'e) result" where
  "fn_bit_and fp v =
     and_then (arg v 0) (\<lambda>x. and_then (arg v 1) (\<lambda>y.
       Ok (case (to_integer fp x, to_integer fp y) of
             (Some lhs, Some rhs) \<Rightarrow> VInteger (lhs AND rhs)
           | _ \<Rightarrow> VInteger 0)))"

definition fn_if_then :: "variable list \<Rightarrow> (variable, 'e) result" where
  "fn_if_then v =
     and_then (arg v 0) (\<lambda>condition. and_then (arg v 1) (\<lambda>iff. and_then (arg v 2) (\<lambda>otherwise.
       Ok (if to_bool condition then iff else otherwise))))"

text \<open>\<^verbatim>\<open>is_email\<close>: one pass over the bytes with its counters.\<close>

record email_scan =
  last_ch :: byte
  in_quote :: bool
  at_count :: nat
  dot_count :: nat
  lp_len :: nat
  part_len :: nat

definition is_atext :: "byte \<Rightarrow> bool" where
  "is_atext ch \<longleftrightarrow>
     is_digit ch \<or> is_lower ch \<or> is_upper ch \<or> 127 \<le> ch \<or> ch \<in> set (lit ''!#$%&*+-/=?^_`{|}~'') \<or> ch = 39"

definition email_step :: "email_scan \<Rightarrow> byte \<Rightarrow> email_scan option" where
  "email_step s ch =
     map_option (\<lambda>s. s\<lparr>last_ch := ch\<rparr>)
       (if is_atext ch then Some (s\<lparr>part_len := part_len s + 1\<rparr>)
        else if ch = 46 \<and> \<not> in_quote s then
          if last_ch s \<noteq> 46 \<and> last_ch s \<noteq> 64 \<and> part_len s \<noteq> 0 then
            Some (s\<lparr>part_len := part_len s + 1, dot_count := dot_count s + (if at_count s = 1 then 1 else 0)\<rparr>)
          else None
        else if ch = 64 \<and> \<not> in_quote s then
          Some (s\<lparr>at_count := at_count s + 1, lp_len := part_len s, part_len := 0\<rparr>)
        else if ch \<in> {62, 58, 44, 32} \<and> in_quote s then Some (s\<lparr>part_len := part_len s + 1\<rparr>)
        else if ch = 34 \<and> (\<not> in_quote s \<or> last_ch s \<noteq> 92) then Some (s\<lparr>in_quote := \<not> in_quote s\<rparr>)
        else if ch = 92 \<and> in_quote s \<and> last_ch s \<noteq> 92 then Some s
        else if in_quote s then Some s else None)"

fun email_loop :: "email_scan \<Rightarrow> bytes \<Rightarrow> email_scan option" where
  "email_loop s [] = Some s"
| "email_loop s (ch # rest) = Option.bind (email_step s ch) (\<lambda>s. email_loop s rest)"

definition fn_is_email :: "fpu \<Rightarrow> variable list \<Rightarrow> (variable, 'e) result" where
  "fn_is_email fp v =
     and_then (arg v 0) (\<lambda>x.
       Ok (of_bool64
         (case email_loop \<lparr>last_ch = 0, in_quote = False, at_count = 0, dot_count = 0, lp_len = 0, part_len = 0\<rparr>
                 (into_string fp x) of
            None \<Rightarrow> False
          | Some s \<Rightarrow> at_count s = 1 \<and> 0 < dot_count s \<and> 0 < lp_len s \<and> 0 < part_len s)))"

definition transform :: "fpu \<Rightarrow> (bytes \<Rightarrow> variable) \<Rightarrow> variable \<Rightarrow> variable" where
  "transform fp f v =
     (case v of
        VArray l \<Rightarrow> VArray (map (\<lambda>x. f (into_string fp x)) l)
      | _ \<Rightarrow> f (into_string fp v))"

definition email_part :: "bytes \<Rightarrow> bytes \<Rightarrow> variable" where
  "email_part part s =
     (case rsplit_once s [64] of
        Some (u, d) \<Rightarrow>
          if part = lit ''local'' then VString (trim u)
          else if part = lit ''domain'' then VString (trim d)
          else default_variable
      | None \<Rightarrow> default_variable)"

definition fn_email_part :: "fpu \<Rightarrow> variable list \<Rightarrow> (variable, 'e) result" where
  "fn_email_part fp v =
     and_then (arg v 0) (\<lambda>x. and_then (arg v 1) (\<lambda>part.
       Ok (transform fp (email_part (into_string fp part)) x)))"

section \<open>Addresses\<close>

definition fn_is_ip_addr :: "fn_lib \<Rightarrow> variable list \<Rightarrow> (variable, 'e) result" where
  "fn_is_ip_addr lib v =
     and_then (arg v 0) (\<lambda>x. Ok (of_bool64 (parse_ip_addr lib (into_string (lib_fpu lib) x) \<noteq> None)))"

definition fn_is_ipv4_addr :: "fn_lib \<Rightarrow> variable list \<Rightarrow> (variable, 'e) result" where
  "fn_is_ipv4_addr lib v =
     and_then (arg v 0) (\<lambda>x.
       Ok (of_bool64 (case parse_ip_addr lib (into_string (lib_fpu lib) x) of Some (IpV4 _) \<Rightarrow> True | _ \<Rightarrow> False)))"

definition fn_is_ipv6_addr :: "fn_lib \<Rightarrow> variable list \<Rightarrow> (variable, 'e) result" where
  "fn_is_ipv6_addr lib v =
     and_then (arg v 0) (\<lambda>x.
       Ok (of_bool64 (case parse_ip_addr lib (into_string (lib_fpu lib) x) of Some (IpV6 _) \<Rightarrow> True | _ \<Rightarrow> False)))"

definition fn_is_ip_in_cidr :: "fn_lib \<Rightarrow> variable list \<Rightarrow> (variable, 'e) result" where
  "fn_is_ip_in_cidr lib v =
     and_then (arg v 0) (\<lambda>x.
       case parse_ip_addr lib (into_string (lib_fpu lib) x) of
         None \<Rightarrow> Ok (of_bool64 False)
       | Some ip \<Rightarrow>
           and_then (arg v 1) (\<lambda>y.
             Ok (of_bool64
               (case mask_from_str (parse_ip_addr lib) (into_string (lib_fpu lib) y) of
                  Some m \<Rightarrow> mask_matches m ip
                | None \<Rightarrow> False))))"

definition fn_ip_reverse_name :: "fn_lib \<Rightarrow> variable list \<Rightarrow> (variable, 'e) result" where
  "fn_ip_reverse_name lib v =
     and_then (arg v 0) (\<lambda>x.
       Ok (VString
         (case parse_ip_addr lib (into_string (lib_fpu lib) x) of Some ip \<Rightarrow> to_reverse_name lib ip | None \<Rightarrow> [])))"

section \<open>Text functions\<close>

text \<open>A function of one text, mapped over an array.\<close>

definition on_text :: "fpu \<Rightarrow> (bytes \<Rightarrow> variable) \<Rightarrow> variable list \<Rightarrow> (variable, 'e) result" where
  "on_text fp f v = and_then (arg v 0) (\<lambda>x. Ok (transform fp f x))"

text \<open>A function of the first argument's text, and one of the text of the first two.\<close>

definition of_text :: "fpu \<Rightarrow> (bytes \<Rightarrow> variable) \<Rightarrow> variable list \<Rightarrow> (variable, 'e) result" where
  "of_text fp f v = and_then (arg v 0) (\<lambda>x. Ok (f (into_string fp x)))"

definition of_texts :: "fpu \<Rightarrow> (bytes \<Rightarrow> bytes \<Rightarrow> variable) \<Rightarrow> variable list \<Rightarrow> (variable, 'e) result" where
  "of_texts fp f v =
     and_then (arg v 0) (\<lambda>x. and_then (arg v 1) (\<lambda>y. Ok (f (into_string fp x) (into_string fp y))))"

abbreviation count_var :: "nat \<Rightarrow> variable" where
  "count_var n \<equiv> VInteger (of_nat n)"

abbreviation texts_var :: "bytes list \<Rightarrow> variable" where
  "texts_var xs \<equiv> VArray (map VString xs)"

definition fn_trim :: "fpu \<Rightarrow> variable list \<Rightarrow> (variable, 'e) result" where
  "fn_trim fp = on_text fp (\<lambda>s. VString (trim s))"

definition fn_trim_end :: "fpu \<Rightarrow> variable list \<Rightarrow> (variable, 'e) result" where
  "fn_trim_end fp = on_text fp (\<lambda>s. VString (trim_end s))"

definition fn_trim_start :: "fpu \<Rightarrow> variable list \<Rightarrow> (variable, 'e) result" where
  "fn_trim_start fp = on_text fp (\<lambda>s. VString (trim_start s))"

definition fn_len :: "fpu \<Rightarrow> variable list \<Rightarrow> (variable, 'e) result" where
  "fn_len fp v =
     and_then (arg v 0) (\<lambda>x.
       Ok (count_var (case x of VString s \<Rightarrow> length s | VArray a \<Rightarrow> length a | _ \<Rightarrow> length (into_string fp x))))"

definition fn_to_lowercase :: "fn_lib \<Rightarrow> variable list \<Rightarrow> (variable, 'e) result" where
  "fn_to_lowercase lib = on_text (lib_fpu lib) (\<lambda>s. VString (str_to_lowercase lib s))"

definition fn_to_uppercase :: "fn_lib \<Rightarrow> variable list \<Rightarrow> (variable, 'e) result" where
  "fn_to_uppercase lib = on_text (lib_fpu lib) (\<lambda>s. VString (str_to_uppercase lib s))"

definition fn_is_uppercase :: "fn_lib \<Rightarrow> variable list \<Rightarrow> (variable, 'e) result" where
  "fn_is_uppercase lib =
     on_text (lib_fpu lib) (\<lambda>s. of_bool64 (list_all (is_uppercase lib) (filter (is_alphabetic lib) (chars s))))"

definition fn_is_lowercase :: "fn_lib \<Rightarrow> variable list \<Rightarrow> (variable, 'e) result" where
  "fn_is_lowercase lib =
     on_text (lib_fpu lib) (\<lambda>s. of_bool64 (list_all (is_lowercase lib) (filter (is_alphabetic lib) (chars s))))"

definition fn_has_digits :: "fpu \<Rightarrow> variable list \<Rightarrow> (variable, 'e) result" where
  "fn_has_digits fp = on_text fp (\<lambda>s. of_bool64 (list_ex is_digit s))"

definition fn_split_words :: "fn_lib \<Rightarrow> variable list \<Rightarrow> (variable, 'e) result" where
  "fn_split_words lib =
     of_text (lib_fpu lib)
       (\<lambda>s. texts_var (filter (\<lambda>word. list_all (is_alphanumeric lib) (chars word)) (split_whitespace s)))"

definition fn_count_spaces :: "fpu \<Rightarrow> variable list \<Rightarrow> (variable, 'e) result" where
  "fn_count_spaces fp = of_text fp (\<lambda>s. count_var (length (filter is_whitespace (chars s))))"

definition fn_count_uppercase :: "fn_lib \<Rightarrow> variable list \<Rightarrow> (variable, 'e) result" where
  "fn_count_uppercase lib =
     of_text (lib_fpu lib)
       (\<lambda>s. count_var (length (filter (\<lambda>c. is_alphabetic lib c \<and> is_uppercase lib c) (chars s))))"

definition fn_count_lowercase :: "fn_lib \<Rightarrow> variable list \<Rightarrow> (variable, 'e) result" where
  "fn_count_lowercase lib =
     of_text (lib_fpu lib)
       (\<lambda>s. count_var (length (filter (\<lambda>c. is_alphabetic lib c \<and> is_lowercase lib c) (chars s))))"

definition fn_count_chars :: "fpu \<Rightarrow> variable list \<Rightarrow> (variable, 'e) result" where
  "fn_count_chars fp = of_text fp (\<lambda>s. count_var (length (chars s)))"

definition fn_eq_ignore_case :: "fpu \<Rightarrow> variable list \<Rightarrow> (variable, 'e) result" where
  "fn_eq_ignore_case fp = of_texts fp (\<lambda>s t. of_bool64 (eq_ignore_ascii_case s t))"

definition str_contains :: "bytes \<Rightarrow> bytes \<Rightarrow> bool" where
  "str_contains s p \<longleftrightarrow> find_sub p s \<noteq> None"

definition fn_contains :: "fpu \<Rightarrow> variable list \<Rightarrow> (variable, 'e) result" where
  "fn_contains fp v =
     and_then (arg v 0) (\<lambda>x. and_then (arg v 1) (\<lambda>y.
       Ok (of_bool64
         (case x of
            VArray arr \<Rightarrow> contains_var fp arr y
          | _ \<Rightarrow> str_contains (into_string fp x) (into_string fp y)))))"

definition fn_contains_ignore_case :: "fn_lib \<Rightarrow> variable list \<Rightarrow> (variable, 'e) result" where
  "fn_contains_ignore_case lib v =
     and_then (arg v 1) (\<lambda>y. and_then (arg v 0) (\<lambda>x.
       let needle = into_string (lib_fpu lib) y in
       Ok (of_bool64
         (case x of
            VString s \<Rightarrow> str_contains (str_to_lowercase lib s) (str_to_lowercase lib needle)
          | VArray arr \<Rightarrow> list_ex (\<lambda>i. case i of VString s \<Rightarrow> eq_ignore_ascii_case s needle | _ \<Rightarrow> False) arr
          | _ \<Rightarrow> str_contains (into_string (lib_fpu lib) x) needle))))"

definition fn_starts_with :: "fpu \<Rightarrow> variable list \<Rightarrow> (variable, 'e) result" where
  "fn_starts_with fp = of_texts fp (\<lambda>s p. of_bool64 (starts_with s p))"

definition fn_ends_with :: "fpu \<Rightarrow> variable list \<Rightarrow> (variable, 'e) result" where
  "fn_ends_with fp = of_texts fp (\<lambda>s p. of_bool64 (ends_with s p))"

definition fn_lines :: "variable list \<Rightarrow> (variable, 'e) result" where
  "fn_lines v = and_then (arg v 0) (\<lambda>x. Ok (case x of VString s \<Rightarrow> texts_var (str_lines s) | val \<Rightarrow> val))"

definition usize_or_default :: "u64 option \<Rightarrow> nat" where
  "usize_or_default n = (case n of Some n \<Rightarrow> unat n | None \<Rightarrow> 0)"

definition fn_substring :: "fpu \<Rightarrow> variable list \<Rightarrow> (variable, 'e) result" where
  "fn_substring fp v =
     and_then (arg v 0) (\<lambda>x. and_then (arg v 1) (\<lambda>from. and_then (arg v 2) (\<lambda>len.
       Ok (VString (concat
         (take (usize_or_default (to_usize fp len)) (drop (usize_or_default (to_usize fp from)) (chars (into_string fp x)))))))))"

definition text_or_default :: "bytes option \<Rightarrow> variable" where
  "text_or_default r = (case r of Some s \<Rightarrow> VString s | None \<Rightarrow> default_variable)"

definition fn_strip_prefix :: "fpu \<Rightarrow> variable list \<Rightarrow> (variable, 'e) result" where
  "fn_strip_prefix fp v =
     and_then (arg v 0) (\<lambda>x. and_then (arg v 1) (\<lambda>p.
       Ok (transform fp (\<lambda>s. text_or_default (strip_prefix s (into_string fp p))) x)))"

definition fn_strip_suffix :: "fpu \<Rightarrow> variable list \<Rightarrow> (variable, 'e) result" where
  "fn_strip_suffix fp v =
     and_then (arg v 0) (\<lambda>x. and_then (arg v 1) (\<lambda>p.
       Ok (transform fp (\<lambda>s. text_or_default (strip_suffix s (into_string fp p))) x)))"

definition fn_split :: "fpu \<Rightarrow> variable list \<Rightarrow> (variable, 'e) result" where
  "fn_split fp = of_texts fp (\<lambda>s p. texts_var (str_split s p))"

definition fn_rsplit :: "fpu \<Rightarrow> variable list \<Rightarrow> (variable, 'e) result" where
  "fn_rsplit fp = of_texts fp (\<lambda>s p. texts_var (str_rsplit s p))"

text \<open>The count is an \<^verbatim>\<open>i64\<close> cast to \<^verbatim>\<open>usize\<close>: a negative one is huge.\<close>

definition fn_split_n :: "fpu \<Rightarrow> variable list \<Rightarrow> (variable, 'e) result" where
  "fn_split_n fp v =
     and_then (arg v 0) (\<lambda>x. and_then (arg v 1) (\<lambda>p. and_then (arg v 2) (\<lambda>n.
       Ok (texts_var (split_n (usize_or_default (to_integer fp n)) (into_string fp x) (into_string fp p))))))"

definition pair_or_default :: "(bytes \<times> bytes) option \<Rightarrow> variable" where
  "pair_or_default r = (case r of Some (a, b) \<Rightarrow> VArray [VString a, VString b] | None \<Rightarrow> default_variable)"

definition fn_split_once :: "fpu \<Rightarrow> variable list \<Rightarrow> (variable, 'e) result" where
  "fn_split_once fp = of_texts fp (\<lambda>s p. pair_or_default (split_once s p))"

definition fn_rsplit_once :: "fpu \<Rightarrow> variable list \<Rightarrow> (variable, 'e) result" where
  "fn_rsplit_once fp = of_texts fp (\<lambda>s p. pair_or_default (rsplit_once s p))"

definition fn_hash :: "fn_lib \<Rightarrow> variable list \<Rightarrow> (variable, 'e) result" where
  "fn_hash lib =
     of_texts (lib_fpu lib) (\<lambda>s algo.
       if algo = lit ''md5'' then VString (md5_hex lib s)
       else if algo = lit ''sha1'' then VString (sha1_hex lib s)
       else if algo = lit ''sha256'' then VString (sha256_hex lib s)
       else if algo = lit ''sha512'' then VString (sha512_hex lib s)
       else default_variable)"

section \<open>The table\<close>

text \<open>The functions in the order of \<^verbatim>\<open>FUNCTIONS\<close>, whose names and arities the tokenizer reads.\<close>

definition FUNCTION_BODIES :: "fn_lib \<Rightarrow> (variable list \<Rightarrow> (variable, 'e) result) list" where
  "FUNCTION_BODIES lib =
     (let fp = lib_fpu lib in
      [fn_count, fn_sort lib, fn_dedup fp, fn_winnow, fn_is_intersect fp, fn_is_email fp, fn_email_part fp,
       fn_is_empty, fn_is_number, fn_bit_and fp, fn_is_ip_addr lib, fn_is_ipv4_addr lib, fn_is_ipv6_addr lib,
       fn_is_ip_in_cidr lib, fn_ip_reverse_name lib, fn_trim fp, fn_trim_end fp, fn_trim_start fp, fn_len fp,
       fn_to_lowercase lib, fn_to_uppercase lib, fn_is_uppercase lib, fn_is_lowercase lib, fn_has_digits fp,
       fn_count_spaces fp, fn_count_uppercase lib, fn_count_lowercase lib, fn_count_chars fp, fn_contains fp,
       fn_contains_ignore_case lib, fn_eq_ignore_case fp, fn_starts_with fp, fn_ends_with fp, fn_lines,
       fn_substring fp, fn_strip_prefix fp, fn_strip_suffix fp, fn_split fp, fn_rsplit fp, fn_split_once fp,
       fn_rsplit_once fp, fn_split_n fp, fn_split_words lib, fn_hash lib, fn_if_then])"

section \<open>Laws\<close>

text \<open>Splitting gives pieces without the separator, which joined by it are the text.\<close>

lemma fn_split_law:
  "\<exists>xs. fn_split fp [VString s, VString p] = Ok (texts_var xs) \<and> join_with p xs = s \<and>
     (p \<noteq> [] \<longrightarrow> (\<forall>x \<in> set xs. \<not> sublist p x))"
  using str_split_pieces join_str_split by (auto simp: fn_split_def of_texts_def arg_def)

lemma transform_VString [simp]: "transform fp f (VString s) = f s"
  by (simp add: transform_def)

text \<open>A mail address is its two parts: joined again they are the address, up to blanks around them.\<close>

lemma email_parts:
  assumes "64 \<notin> set d" "no_blanks u" "no_blanks d"
  shows "fn_email_part fp [VString (u @ 64 # d), VString (lit ''local'')] = Ok (VString u)"
    and "fn_email_part fp [VString (u @ 64 # d), VString (lit ''domain'')] = Ok (VString d)"
  using assms by (simp_all add: fn_email_part_def arg_def email_part_def rsplit_once_byte)

end
