(* ===== verification/Expr_Block.thy ===== *)
theory Expr_Block
  imports Expr_Eval Expr_Tokenizer
begin

text \<open>
  A setting of the registry is a list of conditions with their results and a last result. It is compiled
  with the variables and constants its context allows; a setting that does not compile is reported and
  its default is used in its place (\<^verbatim>\<open>if_block.rs\<close>).
\<close>

record expr_source =
  src_match :: "(bytes \<times> bytes) list"
  src_else :: bytes

record expr_context =
  ctx_expr :: expr_source
  ctx_default :: "expr_source option"
  allowed_variables :: "u16 list"
  allowed_constants :: "u16 list"

datatype compile_issue =
  MissingElse
| EmptyBlocks
| ElseError expr_error
| ThenError nat expr_error
| IfError nat expr_error

definition empty_block :: if_block where
  "empty_block = \<lparr>if_thens = [], default_expr = []\<rparr>"

text \<open>Conditions are compiled in order; the first that fails is reported.\<close>

fun compile_matches ::
  "token_env \<Rightarrow> nat \<Rightarrow> (bytes \<times> bytes) list \<Rightarrow> if_then list \<Rightarrow> (if_then list, compile_issue) result" where
  "compile_matches tenv num [] acc = Ok acc"
| "compile_matches tenv num ((cond, res) # ms) acc =
     (case parse_expr tenv cond of
        Ok i \<Rightarrow>
          (case parse_expr tenv res of
             Ok t \<Rightarrow> compile_matches tenv (num + 1) ms (acc @ [\<lparr>if_expr = i, then_expr = t\<rparr>])
           | Err e \<Rightarrow> Err (ThenError (num + 1) e)
           | Panic \<Rightarrow> Panic)
      | Err e \<Rightarrow> Err (IfError (num + 1) e)
      | Panic \<Rightarrow> Panic)"

definition try_compile_expr ::
  "token_env \<Rightarrow> expr_context \<Rightarrow> expr_source \<Rightarrow> compile_issue list \<Rightarrow> (if_block option \<times> compile_issue list, unit) result" where
  "try_compile_expr base ctx expr log =
     (let tenv = base\<lparr>map_variables := allowed_variables ctx, map_constants := allowed_constants ctx\<rparr> in
      if src_else expr = [] then Ok (None, if src_match expr \<noteq> [] then log @ [MissingElse] else log)
      else if list_ex (\<lambda>(i, t). i = [] \<or> t = []) (src_match expr) then Ok (None, log @ [EmptyBlocks])
      else case parse_expr tenv (src_else expr) of
        Err e \<Rightarrow> Ok (None, log @ [ElseError e])
      | Panic \<Rightarrow> Panic
      | Ok d \<Rightarrow>
          (case compile_matches tenv 0 (src_match expr) [] of
             Ok its \<Rightarrow> Ok (Some \<lparr>if_thens = its, default_expr = d\<rparr>, log)
           | Err e \<Rightarrow> Ok (None, log @ [e])
           | Panic \<Rightarrow> Panic))"

definition compile_default_expr ::
  "token_env \<Rightarrow> expr_context \<Rightarrow> compile_issue list \<Rightarrow> (if_block \<times> compile_issue list, unit) result" where
  "compile_default_expr base ctx log =
     (case ctx_default ctx of
        None \<Rightarrow> Ok (empty_block, log)
      | Some d \<Rightarrow>
          and_then (try_compile_expr base ctx d log) (\<lambda>(b, log).
            case b of Some b \<Rightarrow> Ok (b, log) | None \<Rightarrow> Panic))"

definition compile_block ::
  "token_env \<Rightarrow> expr_context \<Rightarrow> compile_issue list \<Rightarrow> (if_block \<times> compile_issue list, unit) result" where
  "compile_block base ctx log =
     (if src_else (ctx_expr ctx) = [] \<and> src_match (ctx_expr ctx) = [] then Ok (empty_block, log)
      else
        and_then (try_compile_expr base ctx (ctx_expr ctx) log) (\<lambda>(b, log).
          case b of Some b \<Rightarrow> Ok (b, log) | None \<Rightarrow> compile_default_expr base ctx log))"

text \<open>The defaults built into the server are compiled without a context and must parse.\<close>

definition unwrap :: "('a, 'e) result \<Rightarrow> ('a, 'f) result" where
  "unwrap r = (case r of Ok x \<Rightarrow> Ok x | _ \<Rightarrow> Panic)"

fun parse_matches :: "token_env \<Rightarrow> (bytes \<times> bytes) list \<Rightarrow> (if_then list, unit) result" where
  "parse_matches tenv [] = Ok []"
| "parse_matches tenv ((cond, res) # ms) =
     and_then (unwrap (parse_expr tenv cond)) (\<lambda>i. and_then (unwrap (parse_expr tenv res)) (\<lambda>t.
       and_then (parse_matches tenv ms) (\<lambda>its. Ok (\<lparr>if_expr = i, then_expr = t\<rparr> # its))))"

definition new_default :: "token_env \<Rightarrow> expr_context \<Rightarrow> (if_block, unit) result" where
  "new_default base ctx =
     (let tenv = base\<lparr>map_variables := [], map_constants := []\<rparr> in
      case ctx_default ctx of
        None \<Rightarrow> Ok empty_block
      | Some d \<Rightarrow>
          and_then (parse_matches tenv (src_match d)) (\<lambda>its. and_then (unwrap (parse_expr tenv (src_else d))) (\<lambda>e.
            Ok \<lparr>if_thens = its, default_expr = e\<rparr>)))"

definition into_default :: "if_block \<Rightarrow> if_block" where
  "into_default b = \<lparr>if_thens = [], default_expr = default_expr b\<rparr>"

fun first_string :: "expression \<Rightarrow> bytes option" where
  "first_string [] = None"
| "first_string (Constant (CString s) # items) = Some s"
| "first_string (_ # items) = first_string items"

definition default_string :: "if_block \<Rightarrow> bytes option" where
  "default_string b = first_string (default_expr b)"

end
