(* ===== verification/Expr_Jumps.thy ===== *)
theory Expr_Jumps
  imports Expr_Parser
begin

text \<open>
  The parser on arbitrary tokens: it never panics, and in the code it accepts every jump is patched and
  lands right behind the operator it short-circuits.
\<close>

section \<open>Invariant\<close>

fun is_call :: "token \<Rightarrow> bool" where
  "is_call (TFunction _ _ _) \<longleftrightarrow> True"
| "is_call (TRegex _) \<longleftrightarrow> True"
| "is_call (TSystem _) \<longleftrightarrow> True"
| "is_call _ \<longleftrightarrow> False"

definition calls :: "(token \<times> nat option) list \<Rightarrow> nat" where
  "calls st = length (filter (is_call \<circ> fst) st)"

definition circuit_op :: "bool \<Rightarrow> binary_operator" where
  "circuit_op v = (if v then Or else And)"

definition lands :: "expression \<Rightarrow> nat \<Rightarrow> bool \<Rightarrow> nat \<Rightarrow> bool" where
  "lands out i v k \<longleftrightarrow> 0 < k \<and> i + k < length out \<and> out ! (i + k) = BinaryOperator (circuit_op v)"

definition pending_jumps :: "(token \<times> nat option) list \<Rightarrow> nat list" where
  "pending_jumps st = List.map_filter snd st"

definition jumps_inv :: "(token \<times> nat option) list \<Rightarrow> expression \<Rightarrow> bool" where
  "jumps_inv st out \<longleftrightarrow>
     distinct (pending_jumps st) \<and>
     (\<forall>t i. (t, Some i) \<in> set st \<longrightarrow>
        i < length out \<and> (\<exists>v. t = TBinary (circuit_op v) \<and> out ! i = JmpIf v 0)) \<and>
     (\<forall>i v pos. i < length out \<longrightarrow> out ! i = JmpIf v pos \<longrightarrow>
        i \<in> set (pending_jumps st) \<or> (\<exists>k. pos = of_nat k \<and> lands out i v k))"

fun is_jump :: "expression_item \<Rightarrow> bool" where
  "is_jump (JmpIf _ _) \<longleftrightarrow> True"
| "is_jump _ \<longleftrightarrow> False"

lemma calls_simps [simp]:
  "calls [] = 0"
  "calls ((t, j) # st) = (if is_call t then Suc (calls st) else calls st)"
  by (simp_all add: calls_def)

lemma pending_simps [simp]:
  "pending_jumps [] = []"
  "pending_jumps ((t, None) # st) = pending_jumps st"
  "pending_jumps ((t, Some i) # st) = i # pending_jumps st"
  by (simp_all add: pending_jumps_def map_filter_simps)

lemma pending_iff: "i \<in> set (pending_jumps st) \<longleftrightarrow> (\<exists>t. (t, Some i) \<in> set st)"
  by (induction st rule: list.induct) (auto simp: pending_jumps_def List.map_filter_def)

lemma lands_append: "lands out i v k \<Longrightarrow> lands (out @ xs) i v k"
  by (auto simp: lands_def nth_append)

lemma jumps_inv_at:
  "jumps_inv st out \<Longrightarrow> i < length out \<Longrightarrow> out ! i = JmpIf v pos \<Longrightarrow>
     i \<in> set (pending_jumps st) \<or> (\<exists>k. pos = of_nat k \<and> lands out i v k)"
  unfolding jumps_inv_def by blast

lemma jumps_inv_emit:
  assumes "jumps_inv st out" "\<not> is_jump x"
  shows "jumps_inv st (out @ [x])"
  unfolding jumps_inv_def
proof (intro conjI allI impI)
  show "distinct (pending_jumps st)" using assms(1) by (simp add: jumps_inv_def)
next
  fix t i assume "(t, Some i) \<in> set st"
  with assms(1) show "i < length (out @ [x])" "\<exists>v. t = TBinary (circuit_op v) \<and> (out @ [x]) ! i = JmpIf v 0"
    by (auto simp: jumps_inv_def nth_append intro: less_SucI)
next
  fix i v pos assume *: "i < length (out @ [x])" "(out @ [x]) ! i = JmpIf v pos"
  with assms(2) have "i < length out" by (cases "i = length out") auto
  moreover from this * have "out ! i = JmpIf v pos" by (simp add: nth_append)
  ultimately show "i \<in> set (pending_jumps st) \<or> (\<exists>k. pos = of_nat k \<and> lands (out @ [x]) i v k)"
    using jumps_inv_at [OF assms(1)] lands_append by blast
qed

lemma jumps_inv_drop: "jumps_inv ((t, None) # st) out \<longleftrightarrow> jumps_inv st out"
  by (auto simp: jumps_inv_def)

lemma jumps_inv_unary: "jumps_inv ((TUnary u, j) # st) out \<Longrightarrow> j = None"
  by (cases j) (auto simp: jumps_inv_def)

lemma jumps_inv_emit_binary:
  assumes "jumps_inv ((TBinary b, j) # st) out"
  obtains out' where "emit_binary b j out = (Ok out' :: (expression, expr_error) result)" "jumps_inv st out'" "length out' = Suc (length out)"
proof (cases j)
  case None
  then show thesis
    using assms that [of "out @ [BinaryOperator b]"] jumps_inv_emit [of st out "BinaryOperator b"]
    by (simp add: emit_binary_def update_jmp_pos_def jumps_inv_drop)
next
  case (Some i)
  with assms obtain v where v: "i < length out" "b = circuit_op v" "out ! i = JmpIf v 0"
    by (auto simp: jumps_inv_def)
  let ?out = "out[i := JmpIf v (of_nat (length out - i))] @ [BinaryOperator b]"
  have "emit_binary b j out = (Ok ?out :: (expression, expr_error) result)"
    using v by (simp add: Some emit_binary_def update_jmp_pos_def)
  moreover have "jumps_inv st ?out"
    unfolding jumps_inv_def
  proof (intro conjI allI impI)
    show "distinct (pending_jumps st)" using assms by (simp add: Some jumps_inv_def)
  next
    fix t i' assume "(t, Some i') \<in> set st"
    moreover from this have "i' \<noteq> i" using assms by (auto simp: Some jumps_inv_def pending_iff)
    ultimately show "i' < length ?out" "\<exists>v. t = TBinary (circuit_op v) \<and> ?out ! i' = JmpIf v 0"
      using assms by (auto simp: jumps_inv_def nth_append intro: less_SucI)
  next
    fix i' v' pos assume *: "i' < length ?out" "?out ! i' = JmpIf v' pos"
    then have lt: "i' < length out" by (cases "i' = length out") (auto simp: nth_append)
    show "i' \<in> set (pending_jumps st) \<or> (\<exists>k. pos = of_nat k \<and> lands ?out i' v' k)"
    proof (cases "i' = i")
      case True
      then have "v' = v" "pos = of_nat (length out - i)" using * v(1) by (auto simp: nth_append)
      moreover have "lands ?out i v (length out - i)" using v by (auto simp: lands_def nth_append)
      ultimately show ?thesis using True by blast
    next
      case False
      then have "out ! i' = JmpIf v' pos" using * lt by (auto simp: nth_append)
      then have "i' \<in> set (pending_jumps st) \<or> (\<exists>k. pos = of_nat k \<and> lands out i' v' k)"
        using jumps_inv_at [OF assms lt] False by (auto simp: Some)
      moreover have "lands ?out i' v' k" if "lands out i' v' k" for k
        using that v(3) by (cases "i' + k = i") (auto simp: lands_def nth_append)
      ultimately show ?thesis by blast
    qed
  qed
  ultimately show thesis using that by simp
qed

section \<open>Operators leaving the stack\<close>

definition good_pop :: "nat \<Rightarrow> ((token \<times> nat option) list \<times> expression, expr_error) result \<Rightarrow> bool" where
  "good_pop n r \<longleftrightarrow>
     (case r of Ok (st, out) \<Rightarrow> jumps_inv st out \<and> calls st = n | Err _ \<Rightarrow> True | Panic \<Rightarrow> False)"

lemma good_pop_binary:
  assumes "jumps_inv ((TBinary b, j) # st) out"
    and "\<And>out'. jumps_inv st out' \<Longrightarrow> good_pop n (f out')"
  shows "good_pop n (and_then (emit_binary b j out) f)"
  using assms(1) by (rule jumps_inv_emit_binary) (simp add: assms(2))

lemma jumps_inv_unary_step: "jumps_inv ((TUnary u, j) # st) out \<Longrightarrow> jumps_inv st (out @ [UnaryOperator u])"
  using jumps_inv_unary [of u j st out] jumps_inv_emit [of st out "UnaryOperator u"] by (simp add: jumps_inv_drop)

lemma jumps_inv_other: "jumps_inv ((t, j) # st) out \<Longrightarrow> \<forall>b. t \<noteq> TBinary b \<Longrightarrow> jumps_inv st out"
  by (cases j) (auto simp: jumps_inv_def)

lemma close_ops_good:
  "jumps_inv st out \<Longrightarrow> expect \<in> {OpenParen, OpenBracket} \<Longrightarrow> good_pop (calls st) (close_ops expect st out)"
proof (induction expect st out rule: close_ops.induct)
  case (2 expect t j st out)
  then show ?case
    by (cases t) (auto simp: good_pop_def [of _ "Ok _"] good_pop_def [of _ "Err _"] intro: good_pop_binary
        jumps_inv_unary_step jumps_inv_other)
qed (simp add: good_pop_def)

lemma yield_ops_good: "jumps_inv st out \<Longrightarrow> good_pop (calls st) (yield_ops prec st out)"
proof (induction prec st out rule: yield_ops.induct)
  case (2 prec t j st out)
  then show ?case
    by (cases t) (auto simp: good_pop_def [of _ "Ok _"] intro: good_pop_binary jumps_inv_unary_step)
qed (simp add: good_pop_def)

lemma comma_ops_good: "jumps_inv st out \<Longrightarrow> good_pop (calls st) (comma_ops st out)"
proof (induction st out rule: comma_ops.induct)
  case (2 t j st out)
  then show ?case
    by (cases t) (auto simp: good_pop_def [of _ "Ok _"] intro: good_pop_binary jumps_inv_unary_step)
qed (simp add: good_pop_def)

definition good_code :: "(expression, expr_error) result \<Rightarrow> bool" where
  "good_code r \<longleftrightarrow> (case r of Ok c \<Rightarrow> jumps_inv [] c | Err _ \<Rightarrow> True | Panic \<Rightarrow> False)"

lemma good_code_binary:
  assumes "jumps_inv ((TBinary b, j) # st) out"
    and "\<And>out'. jumps_inv st out' \<Longrightarrow> good_code (f out')"
  shows "good_code (and_then (emit_binary b j out) f)"
proof -
  from assms(1) obtain out' where "emit_binary b j out = (Ok out' :: (expression, expr_error) result)" "jumps_inv st out'"
    by (rule jumps_inv_emit_binary)
  with assms(2) show ?thesis by simp
qed

lemma flush_ops_good: "jumps_inv st out \<Longrightarrow> good_code (flush_ops st out)"
proof (induction st out rule: flush_ops.induct)
  case (2 t j st out)
  then show ?case
    by (cases t) (auto simp: good_code_def [of "Err _"] intro: good_code_binary jumps_inv_unary_step)
qed (simp add: good_code_def)

section \<open>Steps\<close>

definition parser_ok :: "expr_parser \<Rightarrow> bool" where
  "parser_ok p \<longleftrightarrow> jumps_inv (operator_stack p) (code p) \<and> length (arg_count p) = calls (operator_stack p)"

lemma count_item_call: "count_item (t, j) = (t', j') \<Longrightarrow> j' = j \<and> is_call t' = is_call t \<and> (is_call t \<or> t' = t)"
  by (cases t) (auto split: if_split_asm)

lemma count_item_is_call: "is_call (fst (count_item x)) = is_call (fst x)"
  by (metis count_item_call prod.collapse)

lemma count_below_keeps: "jumps_inv st out \<Longrightarrow> jumps_inv (count_below st) out" "calls (count_below st) = calls st"
proof -
  have one: "jumps_inv (pre @ count_item x # post) out" if "jumps_inv (pre @ x # post) out" for pre x post
  proof -
    obtain t j t' where x: "x = (t, j)" "count_item (t, j) = (t', j)"
      using count_item_call by (metis surj_pair)
    have "pending_jumps (pre @ count_item x # post) = pending_jumps (pre @ x # post)"
      by (simp add: x pending_jumps_def List.map_filter_def)
    moreover have "t' = t" if "j \<noteq> None"
      using \<open>jumps_inv _ out\<close> that count_item_call [of t j t' j] x
      by (cases t; cases j) (auto simp: jumps_inv_def)
    ultimately show ?thesis using that x by (auto simp: jumps_inv_def)
  qed
  show "jumps_inv (count_below st) out" if "jumps_inv st out"
    using that one [of "[]"] one [of "[x]" for x] by (cases st rule: count_below.cases) auto
  show "calls (count_below st) = calls st"
    by (cases st rule: count_below.cases) (auto simp: calls_def count_item_is_call)
qed

lemma inc_arg_count_ok: "parser_ok p \<Longrightarrow> parser_ok (inc_arg_count p)"
  by (auto simp: parser_ok_def inc_arg_count_def count_below_keeps split: list.splits)

lemma dec_arg_count_ok: "parser_ok p \<Longrightarrow> parser_ok (dec_arg_count p)"
  by (auto simp: parser_ok_def dec_arg_count_def split: list.splits)

lemma emit_ok: "parser_ok p \<Longrightarrow> \<not> is_jump x \<Longrightarrow> parser_ok (emit x p)"
  by (auto simp: parser_ok_def emit_def jumps_inv_emit)

lemma push_op_ok: "parser_ok p \<Longrightarrow> \<not> is_call t \<Longrightarrow> parser_ok (push_op (t, None) p)"
  by (auto simp: parser_ok_def push_op_def jumps_inv_drop)

lemma push_call_ok: "parser_ok p \<Longrightarrow> is_call t \<Longrightarrow> parser_ok (push_op (t, None) (p\<lparr>arg_count := c # arg_count p\<rparr>))"
  by (auto simp: parser_ok_def push_op_def jumps_inv_drop)

lemma push_jump_ok:
  assumes "parser_ok p"
  shows "parser_ok (push_op (TBinary (circuit_op v), Some (length (code p))) (emit (JmpIf v 0) p))"
proof -
  have inv: "jumps_inv (operator_stack p) (code p)" using assms by (simp add: parser_ok_def)
  then have "length (code p) \<notin> set (pending_jumps (operator_stack p))"
    by (auto simp: jumps_inv_def pending_iff)
  moreover have "\<exists>k. pos = of_nat k \<and> lands (code p @ [JmpIf v 0]) i v' k"
    if "i < length (code p)" "code p ! i = JmpIf v' pos" "i \<notin> set (pending_jumps (operator_stack p))" for i v' pos
    using jumps_inv_at [OF inv that(1, 2)] that(3) lands_append by blast
  moreover have "i < length (code p)" if "(t, Some i) \<in> set (operator_stack p)" for t i
    using inv that by (auto simp: jumps_inv_def)
  ultimately show ?thesis
    using assms inv
    by (auto simp: parser_ok_def push_op_def emit_def jumps_inv_def nth_append less_Suc_eq)
qed

lemma push_binary_ok: "parser_ok p \<Longrightarrow> parser_ok (push_binary b p)"
  using push_jump_ok [of p True] push_jump_ok [of p False]
  by (auto simp: push_binary_def circuit_op_def push_op_ok)

lemma good_popE:
  assumes "good_pop (calls (operator_stack p)) r" "parser_ok p"
  obtains (ok) st out where "r = Ok (st, out)" "parser_ok (p\<lparr>operator_stack := st, code := out\<rparr>)"
  | (err) e where "r = Err e"
  using assms by (cases r) (auto simp: good_pop_def parser_ok_def)

definition good_step :: "(expr_parser, expr_error) result \<Rightarrow> bool" where
  "good_step r \<longleftrightarrow> (case r of Ok p \<Rightarrow> parser_ok p | Err _ \<Rightarrow> True | Panic \<Rightarrow> False)"

lemma close_call_good:
  assumes "parser_ok p"
  shows "good_step (close_call p)"
proof (cases "operator_stack p")
  case Nil
  with assms show ?thesis by (simp add: close_call_def good_step_def)
next
  case (Cons x st)
  obtain t j where x: "x = (t, j)" by fastforce
  have drop: "jumps_inv st (code p)" if "\<forall>b. t \<noteq> TBinary b"
    using assms jumps_inv_other [OF _ that, of j st "code p"] by (simp add: parser_ok_def Cons x)
  show ?thesis
  proof (cases "is_call t")
    case True
    with assms obtain c cs where cs: "arg_count p = c # cs" "length cs = calls st"
      by (auto simp: parser_ok_def Cons x length_Suc_conv)
    have "parser_ok (p\<lparr>operator_stack := st, arg_count := cs\<rparr>)"
      using True drop cs(2) by (cases t) (auto simp: parser_ok_def)
    with True cs show ?thesis
      by (cases t) (auto simp: close_call_def Cons x pop_count_def good_step_def intro!: emit_ok)
  next
    case False
    with assms show ?thesis by (cases t) (simp_all add: close_call_def Cons x good_step_def)
  qed
qed

lemma close_group_good: "parser_ok p \<Longrightarrow> expect \<in> {OpenParen, OpenBracket} \<Longrightarrow> good_step (close_group expect p)"
  using close_ops_good [of "operator_stack p" "code p" expect] close_call_good
  by (auto simp: close_group_def good_step_def [of "Err _"] parser_ok_def elim!: good_popE)

lemma on_binary_good:
  assumes "parser_ok p"
  shows "good_step (on_binary b p)"
proof -
  let ?p = "dec_arg_count p"
  have ok: "parser_ok ?p" using assms by (rule dec_arg_count_ok)
  then have "good_pop (calls (operator_stack ?p)) (yield_ops (precedence b) (operator_stack ?p) (code ?p))"
    by (simp add: parser_ok_def yield_ops_good)
  from this ok show ?thesis
    by (rule good_popE) (auto simp: on_binary_def Let_def good_step_def push_binary_ok)
qed

definition good_run :: "(bool \<times> expr_parser, expr_error) result \<Rightarrow> bool" where
  "good_run r \<longleftrightarrow> (case r of Ok (_, p) \<Rightarrow> parser_ok p | Err _ \<Rightarrow> True | Panic \<Rightarrow> False)"

lemma good_run_step: "good_step r \<Longrightarrow> good_run (and_then r (\<lambda>p. Ok (b, p)))"
  by (cases r) (simp_all add: good_step_def good_run_def)

lemma parser_step_good:
  assumes "parser_ok p"
  shows "good_run (parser_step prev t p)"
proof (cases t)
  case OpenBracket
  have "parser_ok (inc_arg_count p)" using assms by (rule inc_arg_count_ok)
  with assms show ?thesis
    by (auto simp: OpenBracket good_run_def on_bracket_def intro!: push_op_ok push_call_ok)
next
  case Comma
  from comma_ops_good [of "operator_stack p" "code p"] assms
  have "good_pop (calls (operator_stack p)) (comma_ops (operator_stack p) (code p))"
    by (simp add: parser_ok_def)
  from this assms show ?thesis
    by (rule good_popE) (simp_all add: Comma good_run_def)
qed (use assms in \<open>auto simp: good_run_def [of "Ok _"] on_call_def Let_def
       intro!: good_run_step close_group_good on_binary_good emit_ok inc_arg_count_ok push_op_ok push_call_ok\<close>)

lemma parse_loop_good: "parser_ok p \<Longrightarrow> good_run (parse_loop ts (prev, p))"
proof (induction ts arbitrary: prev p)
  case (Cons t ts)
  show ?case
    using parser_step_good [OF Cons.prems, of prev t] Cons.IH
    by (cases "parser_step prev t p") (auto simp: good_run_def)
qed (simp add: good_run_def)

lemma new_parser_ok: "parser_ok new_parser"
  by (simp add: parser_ok_def new_parser_def jumps_inv_def)

lemma parse_tokens_good: "ended \<noteq> Panic \<Longrightarrow> good_code (parse_tokens ts ended)"
  using parse_loop_good [OF new_parser_ok, of ts False] flush_ops_good
  by (cases "parse_loop ts (False, new_parser)"; cases ended)
    (auto simp: parse_tokens_def good_run_def good_code_def [of "Err _"] parser_ok_def)

lemma good_code_jumps:
  assumes "good_code r" "r = Ok c" "length c < 2 ^ 32" "i < length c" "c ! i = JmpIf v pos"
  shows "0 < unat pos \<and> i + unat pos < length c \<and> c ! (i + unat pos) = BinaryOperator (if v then Or else And)"
proof -
  from assms(1, 2) have "jumps_inv [] c" by (simp add: good_code_def)
  from jumps_inv_at [OF this assms(4, 5)] obtain k where k: "pos = of_nat k" "lands c i v k" by auto
  then have "k < 2 ^ 32" using assms(3) by (simp add: lands_def)
  then have "unat pos = k" by (simp add: k(1) unat_of_nat)
  with k(2) show ?thesis by (simp add: lands_def circuit_op_def)
qed

end
