(* ===== verification/Expr_Compile.thy ===== *)
theory Expr_Compile
  imports Expr_Jumps
begin

text \<open>
  The meaning of expressions, independent of the stack machine: expressions as trees, the tokens that
  write them with the brackets their precedences require, and a recursive evaluation with short-circuit
  operators. The parser turns the tokens of a tree into its code, and running the code gives the value
  of the tree, with the same regular expression captures and the same effects in the same order.
\<close>

section \<open>Trees\<close>

datatype expr =
  EVariable u16
| EConstant expr_constant
| EGlobal bytes
| ECapture u32
| ESystem system_variable
| EUnary unary_operator expr
| EBinary binary_operator expr expr
| ECall bytes u32 "expr list"
| EMatches bytes expr
| EArray "expr list"
| EIndex expr expr

fun level :: "expr \<Rightarrow> int" where
  "level (EBinary b _ _) = precedence b"
| "level _ = 8"

text \<open>A bracket right after these is an index; after anything else it starts an array.\<close>

fun indexable :: "expr \<Rightarrow> bool" where
  "indexable (EConstant _) \<longleftrightarrow> False"
| "indexable (EGlobal _) \<longleftrightarrow> False"
| "indexable (ECapture _) \<longleftrightarrow> False"
| "indexable (EUnary _ _) \<longleftrightarrow> False"
| "indexable (EBinary _ _ _) \<longleftrightarrow> False"
| "indexable _ \<longleftrightarrow> True"

fun commas :: "token list list \<Rightarrow> token list" where
  "commas [] = []"
| "commas [x] = x"
| "commas (x # y # zs) = x @ Comma # commas (y # zs)"

definition paren_if :: "bool \<Rightarrow> token list \<Rightarrow> token list" where
  "paren_if b ts = (if b then OpenParen # ts @ [CloseParen] else ts)"

fun tokens :: "expr \<Rightarrow> token list" where
  "tokens (EVariable v) = [TVariable v]"
| "tokens (EConstant c) = [TConstant c]"
| "tokens (EGlobal g) = [TGlobal g]"
| "tokens (ECapture c) = [TCapture c]"
| "tokens (ESystem s) = [TSystem s, OpenParen, CloseParen]"
| "tokens (EUnary u e) = TUnary u # paren_if (level e < 8) (tokens e)"
| "tokens (EBinary b l r) =
     paren_if (level l < precedence b) (tokens l) @ [TBinary b] @
     paren_if (level r < precedence b + 1) (tokens r)"
| "tokens (ECall name fid es) =
     [TFunction name fid (of_nat (length es)), OpenParen] @ commas (map tokens es) @ [CloseParen]"
| "tokens (EMatches re e) = [TRegex re, OpenParen] @ tokens e @ [CloseParen]"
| "tokens (EArray es) = [OpenBracket] @ commas (map tokens es) @ [CloseBracket]"
| "tokens (EIndex a i) =
     paren_if (\<not> indexable a) (tokens a) @ [OpenBracket] @ tokens i @ [CloseBracket]"

text \<open>
  The first token of the expression is an operand or a call. The items of an array literal must be of
  this kind: the parser counts an item when its first operand is directly behind the bracket.
\<close>

fun plain_start :: "expr \<Rightarrow> bool" where
  "plain_start (EUnary _ _) \<longleftrightarrow> False"
| "plain_start (EBinary b l r) \<longleftrightarrow> precedence b \<le> level l \<and> plain_start l"
| "plain_start (EIndex a _) \<longleftrightarrow> indexable a \<and> plain_start a"
| "plain_start _ \<longleftrightarrow> True"

fun writable :: "expr \<Rightarrow> bool" where
  "writable (EUnary u e) \<longleftrightarrow> writable e"
| "writable (EBinary b l r) \<longleftrightarrow> writable l \<and> writable r"
| "writable (ECall name fid es) \<longleftrightarrow>
     fid \<noteq> ID_ARRAY_ACCESS \<and> fid \<noteq> ID_ARRAY_BUILD \<and> length es < 2 ^ 31 \<and> list_all writable es"
| "writable (EMatches re e) \<longleftrightarrow> writable e"
| "writable (EArray es) \<longleftrightarrow> length es < 2 ^ 31 \<and> list_all writable es \<and> list_all plain_start es"
| "writable (EIndex a i) \<longleftrightarrow> writable a \<and> writable i"
| "writable _ \<longleftrightarrow> True"

section \<open>Code of a tree\<close>

definition jump_for :: "binary_operator \<Rightarrow> u32 \<Rightarrow> expression" where
  "jump_for b pos = (if b = And then [JmpIf False pos] else if b = Or then [JmpIf True pos] else [])"

fun compile_expr :: "expr \<Rightarrow> expression" where
  "compile_expr (EVariable v) = [Variable v]"
| "compile_expr (EConstant c) = [Constant c]"
| "compile_expr (EGlobal g) = [Global g]"
| "compile_expr (ECapture c) = [Capture c]"
| "compile_expr (ESystem s) = [System s]"
| "compile_expr (EUnary u e) = compile_expr e @ [UnaryOperator u]"
| "compile_expr (EBinary b l r) =
     compile_expr l @ jump_for b (of_nat (length (compile_expr r) + 1)) @ compile_expr r @ [BinaryOperator b]"
| "compile_expr (ECall name fid es) = concat (map compile_expr es) @ [Function fid (of_nat (length es))]"
| "compile_expr (EMatches re e) = compile_expr e @ [Regex re]"
| "compile_expr (EArray es) = concat (map compile_expr es) @ [ArrayBuild (of_nat (length es))]"
| "compile_expr (EIndex a i) = compile_expr a @ compile_expr i @ [ArrayAccess]"

section \<open>Value of a tree\<close>

type_synonym ('w, 'e, 'a) eval_result = "('a, 'e) result \<times> bytes list \<times> 'w"

definition bind_eval ::
  "('w, 'e, 'a) eval_result \<Rightarrow> ('a \<Rightarrow> bytes list \<Rightarrow> 'w \<Rightarrow> ('w, 'e, 'b) eval_result) \<Rightarrow> ('w, 'e, 'b) eval_result" where
  "bind_eval r f =
     (case r of
        (Ok v, caps, w) \<Rightarrow> f v caps w
      | (Err e, caps, w) \<Rightarrow> (Err e, caps, w)
      | (Panic, caps, w) \<Rightarrow> (Panic, caps, w))"

fun eval_tree :: "('w, 'e) expr_env \<Rightarrow> expr \<Rightarrow> bytes list \<Rightarrow> 'w \<Rightarrow> ('w, 'e, variable) eval_result"
  and eval_trees :: "('w, 'e) expr_env \<Rightarrow> expr list \<Rightarrow> bytes list \<Rightarrow> 'w \<Rightarrow> ('w, 'e, variable list) eval_result" where
  "eval_tree env (EVariable v) caps w = (Ok (resolve_variable env v), caps, w)"
| "eval_tree env (EConstant c) caps w = (Ok (variable_of_constant c), caps, w)"
| "eval_tree env (EGlobal g) caps w = (Ok (resolve_global env g), caps, w)"
| "eval_tree env (ECapture c) caps w =
     (Ok (VString (case get_at caps (unat c) of Some s \<Rightarrow> s | None \<Rightarrow> [])), caps, w)"
| "eval_tree env (ESystem s) caps w = (Ok (system_value env s), caps, w)"
| "eval_tree env (EUnary u e) caps w =
     bind_eval (eval_tree env e caps w) (\<lambda>v caps w. (Ok (unary_op (env_fpu env) u v), caps, w))"
| "eval_tree env (EBinary b l r) caps w =
     bind_eval (eval_tree env l caps w) (\<lambda>x caps w.
       if b = And \<and> \<not> to_bool x \<or> b = Or \<and> to_bool x then (Ok x, caps, w)
       else bind_eval (eval_tree env r caps w) (\<lambda>y caps w. (Ok (binary_op (env_fpu env) b x y), caps, w)))"
| "eval_tree env (ECall name fid es) caps w =
     bind_eval (eval_trees env es caps w) (\<lambda>vs caps w.
       let (r, w1) = call_function env fid vs w in (r, caps, w1))"
| "eval_tree env (EMatches re e) caps w =
     bind_eval (eval_tree env e caps w) (\<lambda>v caps w. let (r, caps1) = match_regex env re v in (Ok r, caps1, w))"
| "eval_tree env (EArray es) caps w =
     bind_eval (eval_trees env es caps w) (\<lambda>vs caps w. (Ok (VArray vs), caps, w))"
| "eval_tree env (EIndex a i) caps w =
     bind_eval (eval_tree env a caps w) (\<lambda>x caps w.
     bind_eval (eval_tree env i caps w) (\<lambda>y caps w. (Ok (access (env_fpu env) x y), caps, w)))"
| "eval_trees env [] caps w = (Ok [], caps, w)"
| "eval_trees env (e # es) caps w =
     bind_eval (eval_tree env e caps w) (\<lambda>v caps w.
     bind_eval (eval_trees env es caps w) (\<lambda>vs caps w. (Ok (v # vs), caps, w)))"

section \<open>Running the code of a tree\<close>

lemma bind_eval_simps [simp]:
  "bind_eval (Ok v, caps, w) f = f v caps w"
  "bind_eval (Err e, caps, w) f = (Err e, caps, w)"
  "bind_eval (Panic, caps, w) f = (Panic, caps, w)"
  by (simp_all add: bind_eval_def)

lemma bind_eval_assoc: "bind_eval (bind_eval r f) g = bind_eval r (\<lambda>v caps w. bind_eval (f v caps w) g)"
  by (cases r rule: prod_cases3) (rename_tac x caps w, case_tac x, simp_all)

lemma bind_eval_cong:
  "(\<And>v caps w. f v caps w = g v caps w) \<Longrightarrow> bind_eval r f = bind_eval r g"
  by (cases r rule: prod_cases3) (rename_tac x caps w, case_tac x, simp_all)

lemma pop_or_default_Cons [simp]: "pop_or_default (v # vs) = (v, vs)"
  by (simp add: pop_or_default_def)

lemma pop_args_rev: "length vs = n \<Longrightarrow> pop_args n (rev vs @ stack) = (vs, stack)"
  by (induction vs arbitrary: n rule: rev_induct) auto

lemma drop_code: "drop (Suc (length xs)) (xs @ y # zs) = zs"
  by simp

text \<open>Values of a list of expressions, pushed one after the other.\<close>

lemma eval_items_list:
  assumes "\<And>e stack caps w rest. e \<in> set es \<Longrightarrow>
      eval_items env (compile_expr e @ rest) stack caps w =
        bind_eval (eval_tree env e caps w) (\<lambda>v. eval_items env rest (v # stack))"
  shows "eval_items env (concat (map compile_expr es) @ rest) stack caps w =
      bind_eval (eval_trees env es caps w) (\<lambda>vs. eval_items env rest (rev vs @ stack))"
  using assms
proof (induction es arbitrary: stack caps w)
  case (Cons e es)
  show ?case
    using Cons.prems [of e "concat (map compile_expr es) @ rest" stack caps w] Cons.IH [OF Cons.prems]
    by (auto simp: bind_eval_assoc intro!: bind_eval_cong)
qed simp

lemma eval_trees_length: "eval_trees env es caps w = (Ok vs, caps', w') \<Longrightarrow> length vs = length es"
proof (induction es arbitrary: vs caps w caps' w')
  case (Cons e es)
  then show ?case
    by (cases "eval_tree env e caps w" rule: prod_cases3; cases "fst (eval_tree env e caps w)")
      (auto simp: bind_eval_def split: result.splits prod.splits)
qed simp

lemma compile_nonempty: "compile_expr e \<noteq> []"
  by (cases e) auto

lemma length_concat_map: "x \<in> set xs \<Longrightarrow> length (f x) \<le> length (concat (map f xs))"
  by (induction xs) auto

lemma length_le_concat: "(\<And>x. f x \<noteq> []) \<Longrightarrow> length xs \<le> length (concat (map f xs))"
proof (induction xs)
  case (Cons x xs)
  then show ?case by (cases "f x") (auto simp: add_increasing)
qed simp

lemma unat_u32_small: "n < 2 ^ 32 \<Longrightarrow> unat (of_nat n :: u32) = n"
  by (simp add: unat_of_nat)

lemma args_small: "length (concat (map compile_expr es)) < 2 ^ 32 \<Longrightarrow> unat (of_nat (length es) :: u32) = length es"
  using length_le_concat [of compile_expr es, OF compile_nonempty] by (intro unat_u32_small) simp

lemma run_call:
  assumes "eval_trees env es caps w = (Ok vs, caps', w')" "unat n = length es"
  shows "eval_items env (Function fid n # rest) (rev vs @ stack) caps' w' =
      bind_eval (let (r, w1) = call_function env fid vs w' in (r, caps', w1)) (\<lambda>v. eval_items env rest (v # stack))"
  using eval_trees_length [OF assms(1)] assms(2)
  by (auto simp: Let_def pop_args_rev split: prod.splits result.splits)

lemma eval_items_compile:
  "length (compile_expr e) < 2 ^ 32 \<Longrightarrow>
   eval_items env (compile_expr e @ rest) stack caps w =
     bind_eval (eval_tree env e caps w) (\<lambda>v. eval_items env rest (v # stack))"
proof (induction e arbitrary: rest stack caps w rule: compile_expr.induct)
  case (7 b l r)
  have len: "length (compile_expr l) < 2 ^ 32" "length (compile_expr r) < 2 ^ 32" "length (compile_expr r) + 1 < 2 ^ 32"
    using "7.prems" by (auto simp: jump_for_def split: if_split_asm)
  have pos: "unat (of_nat (Suc (length (compile_expr r))) :: u32) = Suc (length (compile_expr r))"
    by (rule unat_u32_small) (use len(3) in simp)
  show ?case
    by (auto simp: "7.IH"(1) [OF len(1)] "7.IH"(2) [OF len(2)] jump_for_def bind_eval_assoc top_is_def pos
        simp del: of_nat_Suc of_nat_add intro!: bind_eval_cong)
next
  case (8 name fid es)
  have len: "length (concat (map compile_expr es)) < 2 ^ 32" using "8.prems" by simp
  have IH: "eval_items env (compile_expr e @ rest) stack caps w =
      bind_eval (eval_tree env e caps w) (\<lambda>v. eval_items env rest (v # stack))" if "e \<in> set es" for e rest stack caps w
    using "8.IH" [OF that] length_concat_map [OF that, of compile_expr] len by simp
  obtain r caps' w' where r: "eval_trees env es caps w = (r, caps', w')" by (metis prod_cases3)
  show ?case
    using run_call [of env es caps w _ caps' w' "of_nat (length es)"] args_small [OF len]
    by (cases r) (simp_all add: eval_items_list [OF IH] r bind_eval_assoc)
next
  case (10 es)
  have len: "length (concat (map compile_expr es)) < 2 ^ 32" using "10.prems" by simp
  have IH: "eval_items env (compile_expr e @ rest) stack caps w =
      bind_eval (eval_tree env e caps w) (\<lambda>v. eval_items env rest (v # stack))" if "e \<in> set es" for e rest stack caps w
    using "10.IH" [OF that] length_concat_map [OF that, of compile_expr] len by simp
  obtain r caps' w' where r: "eval_trees env es caps w = (r, caps', w')" by (metis prod_cases3)
  show ?case
    using eval_trees_length [of env es caps w _ caps' w'] args_small [OF len]
    by (cases r) (auto simp: eval_items_list [OF IH] r bind_eval_assoc pop_args_rev)
qed (auto simp: bind_eval_assoc Let_def split: prod.splits intro!: bind_eval_cong)

section \<open>Parsing the tokens of a tree\<close>

abbreviation mk_parser :: "expression \<Rightarrow> (token \<times> nat option) list \<Rightarrow> int list \<Rightarrow> expr_parser" where
  "mk_parser out st cs \<equiv> \<lparr>code = out, operator_stack = st, arg_count = cs\<rparr>"

text \<open>What may be on top of the stack before an expression of a given level.\<close>

definition ctx :: "int \<Rightarrow> (token \<times> nat option) list \<Rightarrow> bool" where
  "ctx q st \<longleftrightarrow>
     (case st of
        [] \<Rightarrow> True
      | (t, _) # _ \<Rightarrow>
          (case t of
             TBinary b \<Rightarrow> precedence b < q
           | TUnary _ \<Rightarrow> 8 \<le> q
           | OpenParen \<Rightarrow> True
           | OpenBracket \<Rightarrow> True
           | _ \<Rightarrow> False))"

text \<open>Operators an expression leaves on the stack, to be emitted by the next token.\<close>

definition pend_ops :: "int \<Rightarrow> (token \<times> nat option) list \<Rightarrow> bool" where
  "pend_ops q pend \<longleftrightarrow>
     (\<forall>(t, j) \<in> set pend. case t of TBinary b \<Rightarrow> q \<le> precedence b | TUnary _ \<Rightarrow> True | _ \<Rightarrow> False)"

definition one_more :: "int list \<Rightarrow> int list" where
  "one_more cs = (case cs of [] \<Rightarrow> [] | c # cs \<Rightarrow> (c + 1) # cs)"

definition room :: "int list \<Rightarrow> bool" where
  "room cs \<longleftrightarrow> (case cs of [] \<Rightarrow> True | c # _ \<Rightarrow> 0 \<le> c \<and> c < I32_MAX)"

definition tally :: "bool \<Rightarrow> int list \<Rightarrow> (token \<times> nat option) list \<Rightarrow> (token \<times> nat option) list" where
  "tally plain cs st = (if plain \<and> cs \<noteq> [] then count_below st else st)"

lemma inc_arg_count_mk: "room cs \<Longrightarrow> inc_arg_count (mk_parser out st cs) = mk_parser out (tally True cs st) (one_more cs)"
  by (cases cs) (auto simp: inc_arg_count_def tally_def one_more_def room_def)

lemma dec_arg_count_mk: "room cs \<Longrightarrow> dec_arg_count (mk_parser out st (one_more cs)) = mk_parser out st cs"
  by (cases cs) (auto simp: dec_arg_count_def one_more_def room_def I32_MIN_def)

lemma ctx_call: "ctx q (x # st) \<Longrightarrow> \<not> is_call (fst x)"
  by (cases x; cases "fst x") (auto simp: ctx_def)

lemma count_item_not_call: "\<not> is_call (fst x) \<Longrightarrow> count_item x = x"
  by (cases x; cases "fst x") auto

lemma count_below_ctx: "ctx q st \<Longrightarrow> \<not> is_call (fst x) \<Longrightarrow> count_below (x # st) = x # st"
  by (cases st) (auto simp: count_item_not_call dest: ctx_call)

lemma tally_ctx: "ctx q st \<Longrightarrow> \<not> is_call (fst x) \<Longrightarrow> tally b cs (x # st) = x # st"
  by (simp add: tally_def count_below_ctx)

lemma ctx_tally: "ctx q st \<Longrightarrow> ctx q (tally b cs st)"
proof -
  assume c: "ctx q st"
  have "ctx q (count_below st)"
  proof (cases st rule: count_below.cases)
    case (2 x)
    then show ?thesis using c ctx_call [of q x "[]"] by (simp add: count_item_not_call)
  qed (use c in \<open>simp_all add: ctx_def\<close>)
  with c show ?thesis by (simp add: tally_def)
qed

lemma ctx_mono: "ctx q st \<Longrightarrow> q \<le> q' \<Longrightarrow> ctx q' st"
  by (auto simp: ctx_def split: list.splits token.splits)

lemma flush_ops_append: "flush_ops (xs @ ys) out = and_then (flush_ops xs out) (flush_ops ys)"
proof (induction xs out rule: flush_ops.induct)
  case (2 t j st out)
  then show ?case
    by (cases t) (auto simp: and_then_def split: result.splits)
qed simp

lemma pend_ops_simps [simp]:
  "pend_ops q []"
  "pend_ops q (xs @ ys) \<longleftrightarrow> pend_ops q xs \<and> pend_ops q ys"
  by (auto simp: pend_ops_def)

lemma pend_ops_mono: "pend_ops q xs \<Longrightarrow> q' \<le> q \<Longrightarrow> pend_ops q' xs"
  by (fastforce simp: pend_ops_def split: token.splits)

text \<open>The three ways operators leave the stack agree with flushing them.\<close>

lemma yield_pending:
  "pend_ops q pend \<Longrightarrow> flush_ops pend out = Ok out' \<Longrightarrow> yield_ops q (pend @ st) out = yield_ops q st out'"
proof (induction pend out rule: flush_ops.induct)
  case (2 t j pend out)
  then show ?case
    by (cases t) (auto simp: pend_ops_def result_iff)
qed simp

lemma close_pending:
  "pend_ops q pend \<Longrightarrow> expect \<in> {OpenParen, OpenBracket} \<Longrightarrow> flush_ops pend out = Ok out' \<Longrightarrow>
   close_ops expect (pend @ (expect, j) # st) out = Ok (st, out')"
proof (induction pend out rule: flush_ops.induct)
  case (2 t j pend out)
  then show ?case
    by (cases t) (auto simp: pend_ops_def result_iff)
qed simp

lemma comma_pending:
  "pend_ops q pend \<Longrightarrow> expect \<in> {OpenParen, OpenBracket} \<Longrightarrow> flush_ops pend out = Ok out' \<Longrightarrow>
   comma_ops (pend @ (expect, j) # st) out = Ok ((expect, j) # st, out')"
proof (induction pend out rule: flush_ops.induct)
  case (2 t j pend out)
  then show ?case
    by (cases t) (auto simp: pend_ops_def result_iff)
qed auto

subsection \<open>What parsing an expression does to the state\<close>

definition leaves :: "token list \<Rightarrow> bool \<Rightarrow> int \<Rightarrow> bool \<Rightarrow> expression \<Rightarrow> bool" where
  "leaves toks plain q final c \<longleftrightarrow>
     (\<forall>ts out st cs. ctx q st \<longrightarrow> room cs \<longrightarrow>
       (\<exists>out' pend flag.
          parse_loop (toks @ ts) (False, mk_parser out st cs) =
            parse_loop ts (flag, mk_parser out' (pend @ tally plain cs st) (one_more cs)) \<and>
          pend_ops q pend \<and> flush_ops pend out' = Ok (out @ c) \<and> (final \<longrightarrow> flag \<and> pend = [])))"

lemma leavesI:
  assumes "\<And>ts out st cs. ctx q st \<Longrightarrow> room cs \<Longrightarrow>
     \<exists>out' pend flag.
          parse_loop (toks @ ts) (False, mk_parser out st cs) =
            parse_loop ts (flag, mk_parser out' (pend @ tally plain cs st) (one_more cs)) \<and>
          pend_ops q pend \<and> flush_ops pend out' = Ok (out @ c) \<and> (final \<longrightarrow> flag \<and> pend = [])"
  shows "leaves toks plain q final c"
  using assms by (simp add: leaves_def)

lemma leavesE:
  assumes "leaves toks plain q final c" "ctx q st" "room cs"
  obtains out' pend flag where
    "parse_loop (toks @ ts) (False, mk_parser out st cs) =
       parse_loop ts (flag, mk_parser out' (pend @ tally plain cs st) (one_more cs))"
    "pend_ops q pend" "flush_ops pend out' = Ok (out @ c)" "final \<Longrightarrow> flag \<and> pend = []"
  using assms unfolding leaves_def by metis

lemma leavesE_under:
  assumes e: "leaves toks plain q' final c" and "ctx q' (x # st)" "room cs" and st: "ctx q st" "\<not> is_call (fst x)"
  obtains out' pend flag where
    "parse_loop (toks @ ts) (False, mk_parser out (x # st) cs) =
       parse_loop ts (flag, mk_parser out' (pend @ x # st) (one_more cs))"
    "pend_ops q' pend" "flush_ops pend out' = Ok (out @ c)" "final \<Longrightarrow> flag \<and> pend = []"
  by (rule leavesE [OF assms(1-3), of ts out, unfolded tally_ctx [OF st]]) (rule that)

lemma leaves_atom:
  assumes "\<And>p. parser_step False t p = Ok (flag, emit x (inc_arg_count p))" "final \<longrightarrow> flag"
  shows "leaves [t] True q final [x]"
  by (rule leavesI, rule exI, rule exI [of _ "[]"], rule exI [of _ flag])
    (simp add: assms inc_arg_count_mk emit_def)

lemma parse_close:
  assumes "pend_ops q pend" "flush_ops pend out = Ok out'" "ctx q' st"
  shows "parse_loop (CloseParen # ts) (prev, mk_parser out (pend @ (OpenParen, None) # st) cs) =
      parse_loop ts (True, mk_parser out' st cs)"
proof -
  have "close_call (mk_parser out' st cs) = Ok (mk_parser out' st cs)"
    using assms(3) by (auto simp: close_call_def ctx_def split: list.splits token.splits)
  then show ?thesis
    using close_pending [OF assms(1) _ assms(2)] by (simp add: close_group_def)
qed

text \<open>Brackets around an expression, put where its level is too low.\<close>

lemma leaves_paren_if:
  assumes e: "leaves toks plain q' final c" and low: "\<not> b \<Longrightarrow> q \<le> q'"
  shows "leaves (paren_if b toks) (\<not> b \<and> plain) q (b \<or> final) c"
proof (cases b)
  case False
  show ?thesis
  proof (rule leavesI)
    fix ts out st cs assume "ctx q st" "room cs"
    from leavesE [OF e ctx_mono [OF this(1) low [OF False]] this(2), of ts out]
    show "\<exists>out' pend flag.
          parse_loop (paren_if b toks @ ts) (False, mk_parser out st cs) =
            parse_loop ts (flag, mk_parser out' (pend @ tally (\<not> b \<and> plain) cs st) (one_more cs)) \<and>
          pend_ops q pend \<and> flush_ops pend out' = Ok (out @ c) \<and> (b \<or> final \<longrightarrow> flag \<and> pend = [])"
      using pend_ops_mono low False by (auto simp: paren_if_def) metis
  qed
next
  case True
  show ?thesis
  proof (rule leavesI)
    fix ts out st cs assume c: "ctx q st" "room cs"
    have "ctx q' ((OpenParen, None) # st)" by (simp add: ctx_def)
    moreover have "\<not> is_call (fst (OpenParen, None :: nat option))" by simp
    ultimately obtain out' pend flag where run:
      "parse_loop (toks @ CloseParen # ts) (False, mk_parser out ((OpenParen, None) # st) cs) =
        parse_loop (CloseParen # ts) (flag, mk_parser out' (pend @ (OpenParen, None) # st) (one_more cs))"
      "pend_ops q' pend" "flush_ops pend out' = Ok (out @ c)"
      by (rule leavesE_under [OF e _ c(2, 1), of "(OpenParen, None)" "CloseParen # ts" out]) (rule that)
    show "\<exists>out' pend flag.
          parse_loop (paren_if b toks @ ts) (False, mk_parser out st cs) =
            parse_loop ts (flag, mk_parser out' (pend @ tally (\<not> b \<and> plain) cs st) (one_more cs)) \<and>
          pend_ops q pend \<and> flush_ops pend out' = Ok (out @ c) \<and> (b \<or> final \<longrightarrow> flag \<and> pend = [])"
      using run parse_close [OF run(2, 3) c(1)] True
      by (intro exI [of _ "out @ c"] exI [of _ "[]"] exI [of _ True])
        (simp add: paren_if_def push_op_def tally_def)
  qed
qed

lemma leaves_unary:
  assumes "leaves toks plain 8 final c"
  shows "leaves (TUnary u # toks) False 8 False (c @ [UnaryOperator u])"
proof (rule leavesI)
  fix ts out st cs assume c: "ctx 8 st" "room cs"
  have "ctx 8 ((TUnary u, None) # st)" by (simp add: ctx_def)
  moreover have "\<not> is_call (fst (TUnary u, None :: nat option))" by simp
  ultimately obtain out' pend flag where run:
    "parse_loop (toks @ ts) (False, mk_parser out ((TUnary u, None) # st) cs) =
      parse_loop ts (flag, mk_parser out' (pend @ (TUnary u, None) # st) (one_more cs))"
    "pend_ops 8 pend" "flush_ops pend out' = Ok (out @ c)"
    by (rule leavesE_under [OF assms _ c(2, 1), of "(TUnary u, None)" ts out]) (rule that)
  show "\<exists>out' pend flag.
          parse_loop ((TUnary u # toks) @ ts) (False, mk_parser out st cs) =
            parse_loop ts (flag, mk_parser out' (pend @ tally False cs st) (one_more cs)) \<and>
          pend_ops 8 pend \<and> flush_ops pend out' = Ok (out @ c @ [UnaryOperator u]) \<and> (False \<longrightarrow> flag \<and> pend = [])"
    by (intro exI [of _ out'] exI [of _ "pend @ [(TUnary u, None)]"] exI [of _ flag])
      (use run in \<open>simp add: push_op_def tally_def flush_ops_append pend_ops_def [of _ "[_]"]\<close>)
qed

definition jump_at :: "binary_operator \<Rightarrow> nat \<Rightarrow> nat option" where
  "jump_at b n = (if b = And \<or> b = Or then Some n else None)"

lemma push_binary_mk:
  "push_binary b (mk_parser out st cs) = mk_parser (out @ jump_for b 0) ((TBinary b, jump_at b (length out)) # st) cs"
  by (auto simp: push_binary_def jump_for_def jump_at_def push_op_def emit_def)

lemma emit_binary_jump:
  "emit_binary b (jump_at b (length out)) (out @ jump_for b 0 @ c) =
     (Ok (out @ jump_for b (of_nat (length c + 1)) @ c @ [BinaryOperator b]) :: (expression, expr_error) result)"
  by (auto simp: emit_binary_def update_jmp_pos_def jump_at_def jump_for_def nth_append list_update_append)

lemma yield_ctx: "ctx q st \<Longrightarrow> q < 8 \<Longrightarrow> yield_ops q st out = Ok (st, out)"
  by (auto simp: ctx_def split: list.splits token.splits)

lemma precedence_less: "precedence b < 8"
  by (cases b) auto

lemma leaves_binary:
  assumes l: "leaves ltoks pl (precedence b) fl cl" and r: "leaves rtoks pr (precedence b + 1) fr cr"
  shows "leaves (ltoks @ [TBinary b] @ rtoks) pl (precedence b) False
    (cl @ jump_for b (of_nat (length cr + 1)) @ cr @ [BinaryOperator b])"
proof (rule leavesI)
  fix ts out st cs assume c: "ctx (precedence b) st" "room cs"
  let ?st = "tally pl cs st" and ?op = "(TBinary b, jump_at b (length (out @ cl)))"
  have cst: "ctx (precedence b) ?st" by (rule ctx_tally [OF c(1)])
  obtain out1 pend1 flag1 where 1:
    "parse_loop (ltoks @ TBinary b # rtoks @ ts) (False, mk_parser out st cs) =
      parse_loop (TBinary b # rtoks @ ts) (flag1, mk_parser out1 (pend1 @ ?st) (one_more cs))"
    "pend_ops (precedence b) pend1" "flush_ops pend1 out1 = Ok (out @ cl)"
    by (rule leavesE [OF l c, of "TBinary b # rtoks @ ts" out]) (rule that)
  have step: "parser_step flag1 (TBinary b) (mk_parser out1 (pend1 @ ?st) (one_more cs)) =
      Ok (False, mk_parser ((out @ cl) @ jump_for b 0) (?op # ?st) cs)"
    using yield_pending [OF 1(2, 3), of ?st] yield_ctx [OF cst precedence_less, of "out @ cl"]
    by (simp add: on_binary_def dec_arg_count_mk [OF c(2)] push_binary_mk)
  have chain: "parse_loop (TBinary b # rtoks @ ts) (flag1, mk_parser out1 (pend1 @ ?st) (one_more cs)) =
      parse_loop (rtoks @ ts) (False, mk_parser ((out @ cl) @ jump_for b 0) (?op # ?st) cs)"
    by (simp only: parse_loop.simps step and_then_simps)
  have "ctx (precedence b + 1) (?op # ?st)" by (simp add: ctx_def)
  moreover have "\<not> is_call (fst ?op)" by simp
  ultimately obtain out2 pend2 flag2 where 2:
    "parse_loop (rtoks @ ts) (False, mk_parser ((out @ cl) @ jump_for b 0) (?op # ?st) cs) =
      parse_loop ts (flag2, mk_parser out2 (pend2 @ ?op # ?st) (one_more cs))"
    "pend_ops (precedence b + 1) pend2" "flush_ops pend2 out2 = Ok (((out @ cl) @ jump_for b 0) @ cr)"
    by (rule leavesE_under [OF r _ c(2) cst, of ?op ts "(out @ cl) @ jump_for b 0"]) (rule that)
  have "flush_ops (pend2 @ [?op]) out2 =
      Ok (out @ cl @ jump_for b (of_nat (length cr + 1)) @ cr @ [BinaryOperator b])"
    using 2(3) emit_binary_jump [of b "out @ cl" cr] by (simp add: flush_ops_append)
  moreover have "pend_ops (precedence b) (pend2 @ [?op])"
    using pend_ops_mono [OF 2(2), of "precedence b"] by (simp add: pend_ops_def [of _ "[_]"])
  ultimately show "\<exists>out' pend flag.
          parse_loop ((ltoks @ [TBinary b] @ rtoks) @ ts) (False, mk_parser out st cs) =
            parse_loop ts (flag, mk_parser out' (pend @ ?st) (one_more cs)) \<and>
          pend_ops (precedence b) pend \<and>
          flush_ops pend out' = Ok (out @ cl @ jump_for b (of_nat (length cr + 1)) @ cr @ [BinaryOperator b]) \<and>
          (False \<longrightarrow> flag \<and> pend = [])"
    by (intro exI [of _ out2] exI [of _ "pend2 @ [?op]"] exI [of _ flag2])
      (use trans [OF 1(1) trans [OF chain 2(1)]] in simp)
qed

subsection \<open>Argument lists\<close>

fun add_items :: "nat \<Rightarrow> token \<Rightarrow> token" where
  "add_items k (TFunction name fid m) = TFunction name fid (if fid = ID_ARRAY_BUILD then m + of_nat k else m)"
| "add_items k t = t"

fun builds_array :: "token \<Rightarrow> bool" where
  "builds_array (TFunction name fid m) \<longleftrightarrow> fid = ID_ARRAY_BUILD"
| "builds_array t \<longleftrightarrow> False"

lemma tally_frame:
  "(builds_array f \<Longrightarrow> plain) \<Longrightarrow> \<not> is_call opn \<Longrightarrow>
     tally plain (n # cs) ((opn, None) # (f, None) # st) = (opn, None) # (add_items 1 f, None) # st"
  by (cases f) (auto simp: tally_def)

lemma add_items_add: "add_items k (add_items (Suc 0) f) = add_items (Suc k) f"
  by (cases f) (auto simp: add.assoc)

lemma add_items_builds [simp]: "builds_array (add_items k f) = builds_array f"
  by (cases f) auto

definition parsed :: "expr \<Rightarrow> bool" where
  "parsed e \<longleftrightarrow> leaves (tokens e) (plain_start e) (level e) (indexable e) (compile_expr e)"

lemma parse_item:
  assumes "parsed e" "builds_array f \<Longrightarrow> plain_start e" "opn \<in> {OpenParen, OpenBracket}" "0 \<le> n" "n < I32_MAX"
  obtains out' pend flag where
    "parse_loop (tokens e @ ts) (False, mk_parser out ((opn, None) # (f, None) # st) (n # cs)) =
       parse_loop ts (flag, mk_parser out' (pend @ (opn, None) # (add_items 1 f, None) # st) ((n + 1) # cs))"
    "pend_ops (level e) pend" "flush_ops pend out' = Ok (out @ compile_expr e)"
proof -
  have "ctx (level e) ((opn, None) # (f, None) # st)" "room (n # cs)"
    using assms(3-5) by (auto simp: ctx_def room_def)
  moreover have "tally (plain_start e) (n # cs) ((opn, None) # (f, None) # st) = (opn, None) # (add_items 1 f, None) # st"
    using assms(2, 3) by (intro tally_frame) auto
  ultimately show thesis
    using leavesE [OF assms(1) [unfolded parsed_def], of "(opn, None) # (f, None) # st" "n # cs" ts out thesis] that
    by (simp add: one_more_def)
qed

lemma parse_items:
  assumes "\<And>e. e \<in> set es \<Longrightarrow> parsed e" "builds_array f \<Longrightarrow> list_all plain_start es"
    "opn \<in> {OpenParen, OpenBracket}" "0 \<le> n" "n + int (length es) \<le> I32_MAX"
  shows "\<exists>out' pend flag q.
    parse_loop (commas (map tokens es) @ ts) (False, mk_parser out ((opn, None) # (f, None) # st) (n # cs)) =
      parse_loop ts (flag, mk_parser out' (pend @ (opn, None) # (add_items (length es) f, None) # st)
        ((n + int (length es)) # cs)) \<and>
    pend_ops q pend \<and> flush_ops pend out' = Ok (out @ concat (map compile_expr es))"
  using assms
proof (induction es arbitrary: n f out rule: induct_list012)
  case 1
  have "add_items 0 f = f" by (cases f) auto
  then show ?case
    by (intro exI [of _ out] exI [of _ "[]"] exI [of _ False] exI [of _ 0]) simp
next
  case (2 e)
  obtain out' pend flag where
    "parse_loop (tokens e @ ts) (False, mk_parser out ((opn, None) # (f, None) # st) (n # cs)) =
       parse_loop ts (flag, mk_parser out' (pend @ (opn, None) # (add_items 1 f, None) # st) ((n + 1) # cs))"
    "pend_ops (level e) pend" "flush_ops pend out' = Ok (out @ compile_expr e)"
    by (rule parse_item [of e f opn n ts out st cs]) (use 2 in auto)
  then show ?case
    by (intro exI [of _ out'] exI [of _ pend] exI [of _ flag] exI [of _ "level e"]) simp
next
  case (3 e e' es)
  obtain out1 pend1 flag1 where 1:
    "parse_loop (tokens e @ Comma # commas (map tokens (e' # es)) @ ts)
        (False, mk_parser out ((opn, None) # (f, None) # st) (n # cs)) =
      parse_loop (Comma # commas (map tokens (e' # es)) @ ts)
        (flag1, mk_parser out1 (pend1 @ (opn, None) # (add_items 1 f, None) # st) ((n + 1) # cs))"
    "pend_ops (level e) pend1" "flush_ops pend1 out1 = Ok (out @ compile_expr e)"
    by (rule parse_item [of e f opn n "Comma # commas (map tokens (e' # es)) @ ts" out st cs])
      (use "3.prems" in auto)
  have comma: "comma_ops (pend1 @ (opn, None) # (add_items 1 f, None) # st) out1 =
      Ok ((opn, None) # (add_items 1 f, None) # st, out @ compile_expr e)"
    by (rule comma_pending [OF 1(2) "3.prems"(3) 1(3)])
  have "\<exists>out' pend flag q.
    parse_loop (commas (map tokens (e' # es)) @ ts)
        (False, mk_parser (out @ compile_expr e) ((opn, None) # (add_items 1 f, None) # st) ((n + 1) # cs)) =
      parse_loop ts (flag, mk_parser out' (pend @ (opn, None) # (add_items (length (e' # es)) (add_items 1 f), None) # st)
        ((n + 1 + int (length (e' # es))) # cs)) \<and>
    pend_ops q pend \<and> flush_ops pend out' = Ok ((out @ compile_expr e) @ concat (map compile_expr (e' # es)))"
    by (rule "3.IH") (use "3.prems" in auto)
  then show ?case
    using 1(1) comma by (simp add: add_items_add algebra_simps)
qed

lemma leaves_frame:
  assumes start: "\<And>ts out st cs. room cs \<Longrightarrow>
      parse_loop (opening @ ts) (False, mk_parser out st cs) =
        parse_loop ts (False, mk_parser out ((opn, None) # (f, None) # tally True cs st) (0 # one_more cs))"
    and close: "\<And>out st cs. close_call (mk_parser out ((add_items (length es) f, None) # st) (int (length es) # cs)) =
      Ok (mk_parser (out @ [item]) st cs)"
    and pair: "(opn, cls) \<in> {(OpenParen, CloseParen), (OpenBracket, CloseBracket)}"
    and es: "\<And>e. e \<in> set es \<Longrightarrow> parsed e" "builds_array f \<Longrightarrow> list_all plain_start es" "length es < 2 ^ 31"
  shows "leaves (opening @ commas (map tokens es) @ [cls]) True q True (concat (map compile_expr es) @ [item])"
proof (rule leavesI)
  fix ts out st cs assume "ctx q st" and room: "room cs"
  have opn: "opn \<in> {OpenParen, OpenBracket}" using pair by auto
  have small: "int (length es) \<le> I32_MAX" using es(3) by (simp add: I32_MAX_def)
  let ?st = "tally True cs st"
  obtain out' pend flag q' where run:
    "parse_loop (commas (map tokens es) @ cls # ts) (False, mk_parser out ((opn, None) # (f, None) # ?st) (0 # one_more cs)) =
      parse_loop (cls # ts) (flag, mk_parser out' (pend @ (opn, None) # (add_items (length es) f, None) # ?st)
        (int (length es) # one_more cs))"
    "pend_ops q' pend" "flush_ops pend out' = Ok (out @ concat (map compile_expr es))"
    using parse_items [of es f opn 0 "cls # ts" out ?st "one_more cs", OF es(1, 2) opn] small
    by (simp del: parse_loop.simps) blast
  have "close_group opn (mk_parser out' (pend @ (opn, None) # (add_items (length es) f, None) # ?st)
        (int (length es) # one_more cs)) =
      Ok (mk_parser ((out @ concat (map compile_expr es)) @ [item]) ?st (one_more cs))"
    using close_pending [OF run(2) opn run(3)] close by (simp add: close_group_def)
  then have "parse_loop (cls # ts) (flag, mk_parser out' (pend @ (opn, None) # (add_items (length es) f, None) # ?st)
        (int (length es) # one_more cs)) =
      parse_loop ts (True, mk_parser (out @ concat (map compile_expr es) @ [item]) ?st (one_more cs))"
    using pair by auto
  then show "\<exists>out' pend flag.
          parse_loop ((opening @ commas (map tokens es) @ [cls]) @ ts) (False, mk_parser out st cs) =
            parse_loop ts (flag, mk_parser out' (pend @ ?st) (one_more cs)) \<and>
          pend_ops q pend \<and> flush_ops pend out' = Ok (out @ concat (map compile_expr es) @ [item]) \<and>
          (True \<longrightarrow> flag \<and> pend = [])"
    by (intro exI [of _ "out @ concat (map compile_expr es) @ [item]"] exI [of _ "[]"] exI [of _ True])
      (simp add: start [OF room] run(1))
qed

lemma sint_u32_small: "n < 2 ^ 31 \<Longrightarrow> sint (of_nat n :: u32) = int n"
  by (simp add: signed_of_nat signed_take_bit_int_eq_self)

lemmas frame_simps = on_call_def inc_arg_count_mk push_op_def close_call_def pop_count_def emit_def

lemma parsed_call:
  assumes "\<And>e. e \<in> set es \<Longrightarrow> parsed e" "length es < 2 ^ 31" "fid \<noteq> ID_ARRAY_ACCESS" "fid \<noteq> ID_ARRAY_BUILD"
  shows "parsed (ECall name fid es)"
  unfolding parsed_def
  using leaves_frame [of "[TFunction name fid (of_nat (length es)), OpenParen]" OpenParen
      "TFunction name fid (of_nat (length es))" es "Function fid (of_nat (length es))" CloseParen 8] assms
  by (simp add: frame_simps sint_u32_small)

lemma parsed_matches: "parsed e \<Longrightarrow> parsed (EMatches re e)"
  unfolding parsed_def [of "EMatches re e"]
  using leaves_frame [of "[TRegex re, OpenParen]" OpenParen "TRegex re" "[e]" "Regex re" CloseParen 8]
  by (simp add: frame_simps)

lemma parsed_system: "parsed (ESystem s)"
  unfolding parsed_def
  using leaves_frame [of "[TSystem s, OpenParen]" OpenParen "TSystem s" "[]" "System s" CloseParen 8]
  by (simp add: frame_simps)

lemma parsed_array:
  assumes "\<And>e. e \<in> set es \<Longrightarrow> parsed e" "length es < 2 ^ 31" "list_all plain_start es"
  shows "parsed (EArray es)"
  unfolding parsed_def
  using leaves_frame [of "[OpenBracket]" OpenBracket "TFunction (lit ''array'') ID_ARRAY_BUILD 0" es
      "ArrayBuild (of_nat (length es))" CloseBracket 8] assms
  by (simp add: on_bracket_def frame_simps sint_u32_small ID_ARRAY_BUILD_def ID_ARRAY_ACCESS_def del: lit_simps)

lemma leaves_index:
  assumes a: "leaves atoks plain 8 True ca" and i: "parsed i"
  shows "leaves (atoks @ [OpenBracket] @ tokens i @ [CloseBracket]) plain 8 True (ca @ compile_expr i @ [ArrayAccess])"
proof (rule leavesI)
  fix ts out st cs assume c: "ctx 8 st" "room cs"
  let ?st = "tally plain cs st" and ?f = "TFunction (lit ''array'') ID_ARRAY_ACCESS 2"
  have not_build: "\<not> builds_array ?f" "add_items 1 ?f = ?f"
    by (simp_all add: ID_ARRAY_ACCESS_def ID_ARRAY_BUILD_def)
  obtain out1 pend1 flag1 where
    "parse_loop (atoks @ OpenBracket # tokens i @ CloseBracket # ts) (False, mk_parser out st cs) =
      parse_loop (OpenBracket # tokens i @ CloseBracket # ts) (flag1, mk_parser out1 (pend1 @ ?st) (one_more cs))"
    "flush_ops pend1 out1 = Ok (out @ ca)" "flag1" "pend1 = []"
    by (rule leavesE [OF a c, of "OpenBracket # tokens i @ CloseBracket # ts" out]) (rule that, auto)
  then have 1: "parse_loop (atoks @ OpenBracket # tokens i @ CloseBracket # ts) (False, mk_parser out st cs) =
      parse_loop (tokens i @ CloseBracket # ts)
        (False, mk_parser (out @ ca) ((OpenBracket, None) # (?f, None) # ?st) (1 # one_more cs))"
    by (simp add: on_bracket_def push_op_def del: lit_simps)
  obtain out2 pend2 flag2 where 2:
    "parse_loop (tokens i @ CloseBracket # ts)
        (False, mk_parser (out @ ca) ((OpenBracket, None) # (?f, None) # ?st) (1 # one_more cs)) =
      parse_loop (CloseBracket # ts)
        (flag2, mk_parser out2 (pend2 @ (OpenBracket, None) # (?f, None) # ?st) ((1 + 1) # one_more cs))"
    "pend_ops (level i) pend2" "flush_ops pend2 out2 = Ok ((out @ ca) @ compile_expr i)"
    by (rule parse_item [OF i, of ?f OpenBracket 1 "CloseBracket # ts" "out @ ca" ?st "one_more cs", unfolded not_build(2)])
      (use not_build(1) in \<open>auto simp: I32_MAX_def simp del: lit_simps\<close>)
  have "close_group OpenBracket (mk_parser out2 (pend2 @ (OpenBracket, None) # (?f, None) # ?st) ((1 + 1) # one_more cs)) =
      Ok (mk_parser (((out @ ca) @ compile_expr i) @ [ArrayAccess]) ?st (one_more cs))"
    using close_pending [OF 2(2) _ 2(3), of OpenBracket]
    by (simp add: close_group_def frame_simps del: lit_simps)
  then have 3: "parse_loop (CloseBracket # ts)
        (flag2, mk_parser out2 (pend2 @ (OpenBracket, None) # (?f, None) # ?st) ((1 + 1) # one_more cs)) =
      parse_loop ts (True, mk_parser (out @ ca @ compile_expr i @ [ArrayAccess]) ?st (one_more cs))"
    by (simp del: lit_simps)
  show "\<exists>out' pend flag.
          parse_loop ((atoks @ [OpenBracket] @ tokens i @ [CloseBracket]) @ ts) (False, mk_parser out st cs) =
            parse_loop ts (flag, mk_parser out' (pend @ ?st) (one_more cs)) \<and>
          pend_ops 8 pend \<and> flush_ops pend out' = Ok (out @ ca @ compile_expr i @ [ArrayAccess]) \<and>
          (True \<longrightarrow> flag \<and> pend = [])"
    by (intro exI [of _ "out @ ca @ compile_expr i @ [ArrayAccess]"] exI [of _ "[]"] exI [of _ True])
      (use trans [OF 1 trans [OF 2(1) 3]] in simp)
qed

lemma level_le: "level e \<le> 8"
  using precedence_less by (cases e) (auto intro: less_imp_le)

lemma indexable_level: "indexable e \<Longrightarrow> level e = 8"
  by (cases e) auto

lemma writable_parsed: "writable e \<Longrightarrow> parsed e"
proof (induction e)
  case (EUnary u e)
  then have "leaves (tokens e) (plain_start e) (level e) (indexable e) (compile_expr e)" by (simp add: parsed_def)
  from leaves_unary [OF leaves_paren_if [OF this, of "level e < 8" 8]] show ?case by (simp add: parsed_def)
next
  case (EBinary b l r)
  then have "parsed l" "parsed r" by simp_all
  then show ?case
    using leaves_binary [OF leaves_paren_if leaves_paren_if, of "tokens l" "plain_start l" "level l" "indexable l"
        "compile_expr l" "level l < precedence b" b "tokens r" "plain_start r" "level r" "indexable r"
        "compile_expr r" "level r < precedence b + 1"]
    by (simp add: parsed_def not_less)
next
  case (EIndex a i)
  then have "parsed a" and i: "parsed i" by simp_all
  then have "leaves (paren_if (\<not> indexable a) (tokens a)) (indexable a \<and> plain_start a) 8 True (compile_expr a)"
    using leaves_paren_if [of "tokens a" "plain_start a" "level a" "indexable a" "compile_expr a" "\<not> indexable a" 8]
    by (simp add: parsed_def indexable_level)
  from leaves_index [OF this i] show ?case by (simp add: parsed_def)
next
  case (ECall name fid es)
  then show ?case by (intro parsed_call) (auto simp: list_all_iff)
next
  case (EArray es)
  then show ?case by (intro parsed_array) (auto simp: list_all_iff)
qed (auto simp: parsed_def [of "EVariable _"] parsed_def [of "EConstant _"] parsed_def [of "EGlobal _"]
       parsed_def [of "ECapture _"] intro: leaves_atom parsed_system parsed_matches)

lemma parse_tokens_compile:
  assumes "writable e"
  shows "parse_tokens (tokens e) (Ok ()) = Ok (compile_expr e)"
proof -
  have "leaves (tokens e) (plain_start e) (level e) (indexable e) (compile_expr e)"
    using writable_parsed [OF assms] by (simp add: parsed_def)
  moreover have "ctx (level e) []" "room []" by (simp_all add: ctx_def room_def)
  ultimately obtain out' pend flag where
    "parse_loop (tokens e @ []) (False, mk_parser [] [] []) =
       parse_loop [] (flag, mk_parser out' (pend @ tally (plain_start e) [] []) (one_more []))"
    "flush_ops pend out' = Ok ([] @ compile_expr e)"
    by (rule leavesE [of _ _ _ _ _ _ _ "[]" "[]"]) (rule that)
  then show ?thesis by (simp add: parse_tokens_def new_parser_def tally_def)
qed

section \<open>Evaluation\<close>

definition demo_fpu :: fpu where
  "demo_fpu = \<lparr>f_add = (\<lambda>_ _. 0), f_sub = (\<lambda>_ _. 0), f_mul = (\<lambda>_ _. 0), f_div = (\<lambda>_ _. 0),
     i64_as_f64 = (\<lambda>_. 0), f64_as_i64 = (\<lambda>_. 0), f64_as_usize = (\<lambda>_. 0), parse_f64 = (\<lambda>_. None),
     show_f64 = (\<lambda>_. []), constant_name = (\<lambda>_. [])\<rparr>"

definition demo_expr_env :: "(nat, unit) expr_env" where
  "demo_expr_env = \<lparr>env_fpu = demo_fpu, resolve_variable = (\<lambda>v. VInteger (ucast v)),
     resolve_global = (\<lambda>g. VString g), server_name = [], default_domain_name = [], node_id = 0,
     local_hostname = [], cluster_role = None, read_metric = (\<lambda>_. 0), function_table = [],
     eval_fnc = (\<lambda>fid args w. (Ok (VArray args), Suc w)), regex_captures = (\<lambda>re s. if re = s then Some [Some s] else None)\<rparr>"

lemma eval_code:
  assumes "length (compile_expr e) < 2 ^ 32"
  shows "eval_items env (compile_expr e) [] caps w = eval_tree env e caps w"
proof -
  have "eval_items env (compile_expr e) [] caps w =
      bind_eval (eval_tree env e caps w) (\<lambda>v caps w. (Ok v, caps, w))"
    using eval_items_compile [OF assms, of env "[]" "[]" caps w] by (simp add: fun_eq_iff cong: bind_eval_cong)
  also have "\<dots> = eval_tree env e caps w"
    by (simp add: bind_eval_def split: prod.splits result.splits)
  finally show ?thesis .
qed

text \<open>
  An array literal whose item is in brackets is refused: the item is counted as an argument but not for
  the array.
\<close>

lemma bracketed_item_refused:
  "parse_tokens [OpenBracket, OpenParen, TVariable v, CloseParen, CloseBracket] (Ok ()) =
     Err (WrongArguments (lit ''array'') 0 1)"
  by (simp add: parse_tokens_def new_parser_def on_bracket_def inc_arg_count_def push_op_def emit_def
      close_group_def close_call_def pop_count_def ID_ARRAY_BUILD_def I32_MAX_def)

text \<open>An operator without its right side is accepted; the machine supplies the empty text.\<close>

lemma dangling_operator_accepted:
  "parse_tokens [TVariable v, TBinary Add] (Ok ()) = Ok [Variable v, BinaryOperator Add]"
  by (simp add: parse_tokens_def new_parser_def on_binary_def inc_arg_count_def dec_arg_count_def push_op_def emit_def
      push_binary_def emit_binary_def update_jmp_pos_def)

end
