(* ===== verification/Expr_Text.thy ===== *)
theory Expr_Text
  imports Expr_Tokenizer Expr_Compile
begin

text \<open>
  From text to value: the tokenizer reads back the tokens of a text written with a space after each
  of them, so that the theorems on tokens hold for texts; on arbitrary text neither the tokenizer nor
  the parser panics.
\<close>

section \<open>No panic\<close>

lemma word_token_no_panic: "word_token env buf \<noteq> Panic"
  by (simp add: word_token_def split: option.splits)

lemma number_token_no_panic: "number_token env dot buf \<noteq> Panic"
  by (simp add: number_token_def split: option.splits)

lemma parse_buf_no_panic: "parse_buf env tz \<noteq> Panic"
  by (simp add: parse_buf_def buf_token_def number_token_no_panic word_token_no_panic and_then_Panic_iff del: lit_simps)

lemma find_char_no_panic: "find_char cs inp \<noteq> Panic"
  by (induction cs inp rule: find_char.induct) auto

lemma quoted_no_panic: "quoted inp \<noteq> Panic"
  by (auto simp: quoted_def and_then_Panic_iff find_char_no_panic parse_string_def split: option.splits)

lemma prev_word_no_panic: "prev_word env ch tz \<noteq> Panic"
  by (auto simp: prev_word_def call_word_def Let_def and_then_Panic_iff parse_buf_no_panic quoted_no_panic
      find_char_no_panic system_name_def split: option.splits if_splits)

lemma symbol_no_panic: "symbol ch tz \<noteq> Panic"
  by (auto simp: symbol_def and_then_Panic_iff parse_string_def split: option.splits list.splits if_splits)

lemma delimiter_no_panic: "delimiter env ch tz \<noteq> Panic"
  by (auto simp: delimiter_def and_then_Panic_iff prev_word_no_panic symbol_no_panic split: option.splits if_splits)

lemma scan_no_panic: "scan env inp tz \<noteq> Panic"
  by (induction env inp tz rule: scan.induct)
    (auto simp: and_then_Panic_iff delimiter_no_panic at_end_def parse_buf_no_panic split: if_splits)

lemma next_tok_no_panic: "next_tok env tz \<noteq> Panic"
  by (auto simp: next_tok_def scan_no_panic)

lemma tokens_of_no_panic: "snd (tokens_of env tz) \<noteq> Panic"
proof (induction env tz rule: tokens_of.induct)
  case (1 env tz)
  show ?case
  proof (cases "next_tok env tz")
    case (Ok r)
    obtain t tz' where r: "r = (t, tz')" by fastforce
    show ?thesis
      using 1 [OF Ok r [symmetric]]
      by (subst tokens_of.simps) (auto simp: Ok r split: option.splits prod.splits dest: arg_cong [where f = snd])
  next
    case Panic
    then show ?thesis using next_tok_no_panic [of env tz] by simp
  qed (subst tokens_of.simps, simp)
qed

lemma parse_expr_good: "good_code (parse_expr env s)"
  using tokens_of_no_panic [of env "new_tokenizer s"] parse_tokens_good
  by (auto simp: parse_expr_def split: prod.splits)

section \<open>Writing tokens\<close>

definition quotable :: "bytes \<Rightarrow> bool" where
  "quotable s \<longleftrightarrow> 39 \<notin> set s \<and> 92 \<notin> set s \<and> valid_utf8 s"

definition quote :: "bytes \<Rightarrow> bytes" where
  "quote s = 39 # s @ [39]"

fun system_text :: "system_variable \<Rightarrow> bytes" where
  "system_text Hostname = lit ''hostname''"
| "system_text Domain = lit ''domain''"
| "system_text NodeId = lit ''node_id''"
| "system_text NodeHostname = lit ''node_hostname''"
| "system_text NodeRole = lit ''node_role''"
| "system_text (Metric m) = []"

fun operator_text :: "binary_operator \<Rightarrow> bytes" where
  "operator_text And = lit ''&&''" | "operator_text Or = lit ''||''"
| "operator_text Xor = lit ''^''" | "operator_text Add = lit ''+''"
| "operator_text Subtract = lit ''-''" | "operator_text Multiply = lit ''*''"
| "operator_text Divide = lit ''/''" | "operator_text Eq = lit ''==''"
| "operator_text Ne = lit ''!=''" | "operator_text Lt = lit ''<''"
| "operator_text Le = lit ''<=''" | "operator_text Gt = lit ''>''"
| "operator_text Ge = lit ''>=''"

text \<open>
  \<open>name\<close> gives the word for variables, constants, functions and numbers, and the name of a metric. The text
  of a regular expression or system variable includes the opening parenthesis that follows it.
\<close>

fun token_text :: "(token \<Rightarrow> bytes) \<Rightarrow> token \<Rightarrow> bytes" where
  "token_text name (TRegex re) = lit ''matches('' @ quote re @ [44]"
| "token_text name (TSystem s) =
     (case s of
        Metric m \<Rightarrow> lit ''metric('' @ quote (name (TSystem s))
      | _ \<Rightarrow> lit ''system('' @ quote (system_text s))"
| "token_text name (TBinary b) = operator_text b"
| "token_text name (TUnary u) = (case u of Not \<Rightarrow> lit ''!'' | Minus \<Rightarrow> lit ''-'')"
| "token_text name OpenParen = lit ''(''"
| "token_text name CloseParen = lit '')''"
| "token_text name OpenBracket = lit ''[''"
| "token_text name CloseBracket = lit '']''"
| "token_text name Comma = lit '',''"
| "token_text name (TConstant c) = (case c of CString s \<Rightarrow> quote s | _ \<Rightarrow> name (TConstant c))"
| "token_text name t = name t"

fun opens :: "token \<Rightarrow> bool" where
  "opens (TRegex _) \<longleftrightarrow> True"
| "opens (TSystem _) \<longleftrightarrow> True"
| "opens _ \<longleftrightarrow> False"

fun spell :: "(token \<Rightarrow> bytes) \<Rightarrow> bool \<Rightarrow> token list \<Rightarrow> bytes" where
  "spell name opened [] = []"
| "spell name opened (t # ts) = (if opened then [] else token_text name t @ [32]) @ spell name (opens t) ts"

definition mk_tz :: "bytes \<Rightarrow> bool \<Rightarrow> nat \<Rightarrow> tokenizer" where
  "mk_tz inp start d = \<lparr>input = inp, tbuf = [], depth = d, next_token = [], has_number = False, has_dot = False,
     has_alpha = False, is_start = start, is_eof = False\<rparr>"

definition with_word :: "bytes \<Rightarrow> tokenizer \<Rightarrow> tokenizer" where
  "with_word w tz = tz\<lparr>tbuf := tbuf tz @ w, has_alpha := has_alpha tz \<or> (\<exists>c \<in> set w. is_word_ch c),
     has_number := has_number tz \<or> (\<exists>c \<in> set w. is_digit c), has_dot := has_dot tz \<or> 46 \<in> set w\<rparr>"

definition word_shaped :: "bytes \<Rightarrow> bool" where
  "word_shaped w \<longleftrightarrow> w \<noteq> [] \<and> (\<forall>c \<in> set w. is_word_ch c \<or> is_digit c \<or> c = 46)"

text \<open>The word is read as the token when it stands alone.\<close>

definition reads_as :: "token_env \<Rightarrow> bytes \<Rightarrow> token \<Rightarrow> bool" where
  "reads_as env w t \<longleftrightarrow>
     word_shaped w \<and> buf_token env (\<exists>c \<in> set w. is_digit c) (46 \<in> set w) (\<exists>c \<in> set w. is_word_ch c) w = Ok t"

fun can_write :: "token_env \<Rightarrow> (token \<Rightarrow> bytes) \<Rightarrow> bool \<Rightarrow> nat \<Rightarrow> token \<Rightarrow> bool" where
  "can_write env name start d (TRegex re) \<longleftrightarrow> quotable re \<and> regex_valid env re"
| "can_write env name start d (TSystem s) \<longleftrightarrow>
     (\<forall>m. s = Metric m \<longrightarrow> quotable (name (TSystem s)) \<and> metric_id env (name (TSystem s)) = Some m)"
| "can_write env name start d (TBinary b) \<longleftrightarrow> b \<noteq> Subtract \<or> \<not> start"
| "can_write env name start d (TUnary u) \<longleftrightarrow> u = Not \<or> start"
| "can_write env name start d OpenParen \<longleftrightarrow> d + 1 < 2 ^ 32"
| "can_write env name start d CloseParen \<longleftrightarrow> 0 < d"
| "can_write env name start d OpenBracket \<longleftrightarrow> True"
| "can_write env name start d CloseBracket \<longleftrightarrow> True"
| "can_write env name start d Comma \<longleftrightarrow> True"
| "can_write env name start d (TConstant c) \<longleftrightarrow>
     (case c of CString s \<Rightarrow> quotable s | _ \<Rightarrow> reads_as env (name (TConstant c)) (TConstant c))"
| "can_write env name start d t \<longleftrightarrow> reads_as env (name t) t"

fun depth_after :: "token \<Rightarrow> nat \<Rightarrow> nat" where
  "depth_after OpenParen d = d + 1"
| "depth_after CloseParen d = d - 1"
| "depth_after _ d = d"

fun spellable :: "token_env \<Rightarrow> (token \<Rightarrow> bytes) \<Rightarrow> bool \<Rightarrow> bool \<Rightarrow> nat \<Rightarrow> token list \<Rightarrow> bool" where
  "spellable env name opened start d [] \<longleftrightarrow> \<not> opened \<and> d = 0"
| "spellable env name opened start d (t # ts) \<longleftrightarrow>
     (if opened then t = OpenParen \<and> d + 1 < 2 ^ 32 else can_write env name start d t) \<and>
     spellable env name (opens t) (starts_operand t) (depth_after t d) ts"

section \<open>Reading them back\<close>

lemma scan_input: "tz\<lparr>input := []\<rparr> = tz'\<lparr>input := []\<rparr> \<Longrightarrow> scan env inp tz = scan env inp tz'"
proof (induction inp arbitrary: tz tz')
  case Nil
  then show ?case by simp
next
  case (Cons ch inp)
  from Cons.prems show ?case
    by (cases tz; cases tz') (auto intro!: Cons.IH)
qed

lemma tokens_of_blank:
  "tokens_of env (mk_tz (32 # inp) start d) = tokens_of env (mk_tz inp start d)"
proof -
  have "next_tok env (mk_tz (32 # inp) start d) = next_tok env (mk_tz inp start d)"
    using scan_input [of "mk_tz (32 # inp) start d" "mk_tz inp start d" env inp]
    by (simp add: next_tok_def mk_tz_def is_word_ch_def is_upper_def is_lower_def is_digit_def glued_def is_blank_ch_def)
  then show ?thesis by (subst (1 2) tokens_of.simps) simp
qed

lemma scan_word:
  "\<forall>c \<in> set w. is_word_ch c \<or> is_digit c \<or> c = 46 \<Longrightarrow> scan env (w @ inp) tz = scan env inp (with_word w tz)"
proof (induction w arbitrary: tz)
  case (Cons c w)
  have "is_word_ch c \<Longrightarrow> \<not> is_digit c \<and> c \<noteq> 46" "is_digit c \<Longrightarrow> c \<noteq> 46"
    by (auto simp: is_word_ch_def is_upper_def is_lower_def is_digit_def word_le_nat_alt)
  with Cons show ?case by (auto simp: with_word_def)
qed (simp add: with_word_def)

lemma string_loop_plain:
  "39 \<notin> set s \<Longrightarrow> 92 \<notin> set s \<Longrightarrow> l \<noteq> 92 \<Longrightarrow> string_loop 39 l buf (s @ 39 # rest) = Some (buf @ s, rest)"
  by (induction s arbitrary: l buf) auto

lemma parse_string_plain: "quotable s \<Longrightarrow> parse_string 39 (s @ 39 # rest) = Ok (s, rest)"
  by (simp add: parse_string_def string_loop_plain quotable_def)

lemma quoted_plain: "quotable s \<Longrightarrow> quoted (quote s @ rest) = Ok (s, rest)"
  by (simp add: quoted_def quote_def is_ascii_whitespace_def parse_string_plain)

lemmas ch_simps = is_word_ch_def is_upper_def is_lower_def is_digit_def glued_def is_blank_ch_def

lemma word_ascii: "is_word_ch c \<or> is_digit c \<or> c = 46 \<Longrightarrow> c < 128"
  by (auto simp: is_word_ch_def is_upper_def is_lower_def is_digit_def word_le_nat_alt word_less_nat_alt)

text \<open>A word, followed by its space.\<close>

lemma next_word:
  assumes "reads_as env w t"
  shows "next_tok env (mk_tz (w @ 32 # rest) start d) = Ok (Some t, mk_tz rest False d)"
proof -
  have w: "w \<noteq> []" "\<forall>c \<in> set w. is_word_ch c \<or> is_digit c \<or> c = 46"
    and buf: "buf_token env (\<exists>c \<in> set w. is_digit c) (46 \<in> set w) (\<exists>c \<in> set w. is_word_ch c) w = Ok t"
    using assms by (auto simp: reads_as_def word_shaped_def)
  have "valid_utf8 w" using w(2) word_ascii by (blast intro: ascii_valid_utf8)
  with buf have "parse_buf env (with_word w (mk_tz rest False d)) = Ok (t, mk_tz rest False d)"
    by (simp add: parse_buf_def with_word_def mk_tz_def)
  then have "delimiter env 32 (with_word w (mk_tz rest start d)) = Ok (t, mk_tz rest False d)"
    using w(1) by (simp add: delimiter_def prev_word_def with_word_def mk_tz_def is_blank_ch_def)
  moreover have "\<not> glued 32 (tbuf (with_word w (mk_tz (w @ 32 # rest) start d)))" by (simp add: glued_def)
  moreover have "tbuf (with_word w (mk_tz (w @ 32 # rest) start d)) \<noteq> []" using w(1) by (simp add: with_word_def)
  moreover have "(with_word w (mk_tz (w @ 32 # rest) start d))\<lparr>input := rest\<rparr> = with_word w (mk_tz rest start d)"
    by (simp add: with_word_def mk_tz_def)
  ultimately show ?thesis
    using scan_word [OF w(2), of env "32 # rest" "mk_tz (w @ 32 # rest) start d"]
    by (simp add: next_tok_def mk_tz_def is_word_ch_def is_upper_def is_lower_def is_digit_def)
qed

fun is_symbol :: "token \<Rightarrow> bool" where
  "is_symbol (TBinary _) \<longleftrightarrow> True" | "is_symbol (TUnary _) \<longleftrightarrow> True"
| "is_symbol OpenParen \<longleftrightarrow> True" | "is_symbol CloseParen \<longleftrightarrow> True"
| "is_symbol OpenBracket \<longleftrightarrow> True" | "is_symbol CloseBracket \<longleftrightarrow> True" | "is_symbol Comma \<longleftrightarrow> True"
| "is_symbol (TConstant (CString s)) \<longleftrightarrow> True"
| "is_symbol _ \<longleftrightarrow> False"

lemma next_symbol:
  assumes "can_write env name start d t" "is_symbol t"
  shows "next_tok env (mk_tz (token_text name t @ 32 # rest) start d) =
      Ok (Some t, mk_tz (32 # rest) (starts_operand t) (depth_after t d))"
proof (cases t)
  case (TBinary b)
  with assms show ?thesis
    by (cases b) (simp_all add: next_tok_def mk_tz_def ch_simps delimiter_def prev_word_def symbol_def peeked_def)
next
  case (TUnary u)
  with assms show ?thesis
    by (cases u) (simp_all add: next_tok_def mk_tz_def ch_simps delimiter_def prev_word_def symbol_def peeked_def)
next
  case (TConstant c)
  with assms obtain s where s: "c = CString s" "quotable s" by (cases c) auto
  show ?thesis
    using parse_string_plain [OF s(2), of "32 # rest"]
    by (simp add: TConstant s(1) quote_def next_tok_def mk_tz_def ch_simps delimiter_def prev_word_def symbol_def)
qed (use assms in \<open>simp_all add: next_tok_def mk_tz_def ch_simps delimiter_def prev_word_def symbol_def\<close>)

lemma next_call:
  assumes "\<forall>c \<in> set w. is_word_ch c \<or> is_digit c \<or> c = 46" "w \<noteq> []"
    and call: "call_word env (with_word w (mk_tz inp start d)) = Ok (t, mk_tz rest start d)" and d: "d + 1 < 2 ^ 32"
  shows "next_tok env (mk_tz (w @ 40 # inp) start d) = Ok (Some t, (mk_tz rest True (d + 1))\<lparr>next_token := [OpenParen]\<rparr>)"
proof -
  let ?tz = "with_word w (mk_tz (w @ 40 # inp) start d)"
  have "?tz\<lparr>input := inp\<rparr> = with_word w (mk_tz inp start d)" by (simp add: with_word_def mk_tz_def)
  moreover have "tbuf ?tz \<noteq> []" "\<not> glued 40 (tbuf ?tz)" using assms(2) by (simp_all add: with_word_def glued_def)
  moreover have "tbuf (with_word w (mk_tz inp start d)) \<noteq> []" using assms(2) by (simp add: with_word_def)
  then have "delimiter env 40 (with_word w (mk_tz inp start d)) = Ok (t, (mk_tz rest True (d + 1))\<lparr>next_token := [OpenParen]\<rparr>)"
    using call d by (simp add: delimiter_def prev_word_def is_blank_ch_def symbol_def mk_tz_def)
  ultimately show ?thesis
    using scan_word [OF assms(1), of env "40 # inp" "mk_tz (w @ 40 # inp) start d"]
    by (simp add: next_tok_def mk_tz_def is_word_ch_def is_upper_def is_lower_def is_digit_def is_blank_ch_def)
qed

lemma next_opens:
  assumes "can_write env name start d t" "opens t" "d + 1 < 2 ^ 32"
  shows "next_tok env (mk_tz (token_text name t @ 32 # rest) start d) =
      Ok (Some t, (mk_tz (32 # rest) True (d + 1))\<lparr>next_token := [OpenParen]\<rparr>)"
proof (cases t)
  case (TRegex re)
  have "next_tok env (mk_tz (lit ''matches'' @ 40 # (quote re @ 44 # 32 # rest)) start d) =
      Ok (Some t, (mk_tz (32 # rest) True (d + 1))\<lparr>next_token := [OpenParen]\<rparr>)"
    by (rule next_call)
      (use assms quoted_plain [of re "44 # 32 # rest"] in
        \<open>simp_all add: TRegex call_word_def Let_def with_word_def mk_tz_def is_ascii_whitespace_def ch_simps\<close>)
  then show ?thesis by (simp add: TRegex)
next
  case (TSystem s)
  show ?thesis
  proof (cases "\<exists>m. s = Metric m")
    case True
    then obtain m where m: "s = Metric m" by blast
    have "next_tok env (mk_tz (lit ''metric'' @ 40 # (quote (name t) @ 32 # rest)) start d) =
        Ok (Some t, (mk_tz (32 # rest) True (d + 1))\<lparr>next_token := [OpenParen]\<rparr>)"
      by (rule next_call)
        (use assms quoted_plain [of "name t" "32 # rest"] in
          \<open>simp_all add: TSystem m call_word_def Let_def with_word_def mk_tz_def ch_simps\<close>)
    then show ?thesis by (simp add: TSystem m)
  next
    case False
    then have q: "quotable (system_text s)" by (cases s) (simp_all add: quotable_def)
    have name: "system_name (system_text s) = Ok s" using False by (cases s) (simp_all add: system_name_def)
    have "next_tok env (mk_tz (lit ''system'' @ 40 # (quote (system_text s) @ 32 # rest)) start d) =
        Ok (Some t, (mk_tz (32 # rest) True (d + 1))\<lparr>next_token := [OpenParen]\<rparr>)"
      by (rule next_call)
        (use assms quoted_plain [OF q, of "32 # rest"] name in
          \<open>simp_all add: TSystem call_word_def Let_def with_word_def mk_tz_def ch_simps\<close>)
    with False show ?thesis by (cases s) (simp_all add: TSystem)
  qed
qed (use assms in simp_all)

lemma can_write_word: "can_write env name start d t \<Longrightarrow> \<not> opens t \<Longrightarrow> \<not> is_symbol t \<Longrightarrow>
    reads_as env (token_text name t) t \<and> \<not> starts_operand t \<and> depth_after t d = d"
  by (cases t) (auto split: expr_constant.splits)

definition tz_at :: "bool \<Rightarrow> bytes \<Rightarrow> bool \<Rightarrow> nat \<Rightarrow> tokenizer" where
  "tz_at opened inp start d =
     (if opened then (mk_tz (32 # inp) True (d + 1))\<lparr>next_token := [OpenParen]\<rparr> else mk_tz inp start d)"

lemma tokens_of_step:
  "next_tok env tz = Ok (Some t, tz') \<Longrightarrow> tokens_of env tz' = (ts, r) \<Longrightarrow> tokens_of env tz = (t # ts, r)"
  by (subst tokens_of.simps) simp

lemma tokens_of_spell:
  "spellable env name opened start d ts \<Longrightarrow> tokens_of env (tz_at opened (spell name opened ts) start d) = (ts, Ok ())"
proof (induction ts arbitrary: opened start d)
  case Nil
  then show ?case
    by (subst tokens_of.simps) (simp add: tz_at_def next_tok_def mk_tz_def at_end_def)
next
  case (Cons t ts)
  let ?rest = "spell name (opens t) ts"
  have IH: "tokens_of env (tz_at (opens t) ?rest (starts_operand t) (depth_after t d)) = (ts, Ok ())"
    using Cons by simp
  show ?case
  proof (cases opened)
    case True
    with Cons.prems have "t = OpenParen" by simp
    with IH True show ?thesis
      by (intro tokens_of_step [where tz' = "mk_tz (32 # ?rest) True (d + 1)"])
        (simp_all add: tz_at_def next_tok_def tokens_of_blank, simp_all add: mk_tz_def)
  next
    case False
    with Cons.prems have w: "can_write env name start d t" by simp
    have inp: "tz_at opened (spell name opened (t # ts)) start d = mk_tz (token_text name t @ 32 # ?rest) start d"
      using False by (simp add: tz_at_def)
    consider (opens) "opens t" | (symbol) "is_symbol t" "\<not> opens t" | (word) "\<not> is_symbol t" "\<not> opens t" by blast
    then show ?thesis
    proof cases
      case opens
      then have "depth_after t d = d" "d + 1 < 2 ^ 32"
        using Cons.prems by (cases t; cases ts; simp add: False)+
      with opens IH show ?thesis
        unfolding inp by (intro tokens_of_step [OF next_opens [OF w opens]]) (simp_all add: tz_at_def)
    next
      case symbol
      with IH show ?thesis
        unfolding inp by (intro tokens_of_step [OF next_symbol [OF w]]) (simp_all add: tz_at_def tokens_of_blank)
    next
      case word
      with IH can_write_word [OF w] show ?thesis
        unfolding inp by (intro tokens_of_step [OF next_word]) (simp_all add: tz_at_def)
    qed
  qed
qed

section \<open>Properties\<close>

definition demo_token_env :: token_env where
  "demo_token_env = \<lparr>tok_fpu = demo_fpu, variable_id = (\<lambda>w. if w = lit ''x'' then Some 1 else None),
     constant_id = (\<lambda>_. None), metric_id = (\<lambda>_. None), regex_valid = (\<lambda>_. True), map_variables = [],
     map_constants = []\<rparr>"

lemma new_tokenizer_at: "new_tokenizer s = tz_at False s True 0"
  by (simp add: new_tokenizer_def tz_at_def mk_tz_def)

text \<open>
  C23: Whatever text it is given, the tokenizer and the parser neither loop nor panic, and in the code they
  accept every jump of \<^verbatim>\<open>&&\<close> and \<^verbatim>\<open>||\<close> has been patched: it skips at least one item, stays within the
  code and lands right behind the operator it short-circuits.
\<close>

theorem expr_code_well_formed:
  "parse_expr env s \<noteq> Panic \<and>
   (\<forall>c i v pos. parse_expr env s = Ok c \<longrightarrow> length c < 2 ^ 32 \<longrightarrow> i < length c \<longrightarrow> c ! i = JmpIf v pos \<longrightarrow>
      0 < unat pos \<and> i + unat pos < length c \<and>
      c ! (i + unat pos) = BinaryOperator (if v then Or else And))"
  using parse_expr_good [of env s] good_code_jumps [OF parse_expr_good [of env s]] by (auto simp: good_code_def)

definition demo_name :: "token \<Rightarrow> bytes" where
  "demo_name t = (case t of TConstant (CInteger n) \<Rightarrow> show_i64 n | _ \<Rightarrow> lit ''x'')"

lemma demo_reads:
  "reads_as demo_token_env (demo_name (TConstant (CInteger 1))) (TConstant (CInteger 1))"
  "reads_as demo_token_env (demo_name (TConstant (CInteger 2))) (TConstant (CInteger 2))"
  "reads_as demo_token_env (demo_name (TVariable 1)) (TVariable 1)"
  by (simp_all add: demo_name_def show_i64_def show_nat.simps reads_as_def word_shaped_def buf_token_def number_token_def
      parse_i64_def parse_digits_def decimal_def digit_value_def I64_MIN_def I64_MAX_def is_digit_def is_word_ch_def
      is_upper_def is_lower_def word_token_def function_token_def FUNCTIONS_def ASYNC_FUNCTIONS_def demo_token_env_def)

lemma demo_parse:
  "parse_expr demo_token_env (lit ''1 && 2 '') =
     Ok [Constant (CInteger 1), JmpIf False 2, Constant (CInteger 2), BinaryOperator And]"
proof -
  let ?ts = "[TConstant (CInteger 1), TBinary And, TConstant (CInteger 2)]"
  have "tokens_of demo_token_env (new_tokenizer (lit ''1 && 2 '')) = (?ts, Ok ())"
    using tokens_of_spell [of demo_token_env demo_name False True 0 ?ts] demo_reads
    by (simp add: new_tokenizer_at demo_name_def show_i64_def show_nat.simps)
  then show ?thesis
    by (simp add: parse_expr_def parse_tokens_def new_parser_def inc_arg_count_def dec_arg_count_def emit_def on_binary_def
        push_binary_def push_op_def emit_binary_def update_jmp_pos_def Let_def del: lit_simps)
qed

theorem expr_code_well_formed_witness:
  "\<exists>c. parse_expr demo_token_env (lit ''1 && 2 '') = Ok c \<and> c ! 1 = JmpIf False 2 \<and>
     1 + unat (2 :: u32) < length c \<and> c ! 3 = BinaryOperator And"
proof -
  from expr_code_well_formed [of demo_token_env "lit ''1 && 2 ''"]
  have "1 + unat (2 :: u32) < 4"
    by (elim conjE allE [of _ "[Constant (CInteger 1), JmpIf False 2, Constant (CInteger 2), BinaryOperator And]"]
        allE [of _ 1] allE [of _ False] allE [of _ 2]) (simp add: demo_parse del: lit_simps)
  then show ?thesis by (simp add: demo_parse del: lit_simps)
qed



text \<open>A single \<^verbatim>\<open>=\<close> swallows the byte after it: \<^verbatim>\<open>x=1\<close> is read as \<^verbatim>\<open>x ==\<close> with nothing on its right.\<close>

lemma equals_swallows_byte:
  "b \<notin> {60, 61, 62} \<Longrightarrow> symbol 61 (mk_tz (b # rest) start d) = Ok (TBinary Eq, mk_tz rest start d)"
  by (simp add: symbol_def mk_tz_def)

text \<open>An escape keeps its backslash: \<^verbatim>\<open>\n\<close> in a string is a backslash and a line feed.\<close>

lemma escape_keeps_backslash: "string_loop 39 0 [] (92 # 110 # 39 # rest) = Some ([92, 10], rest)"
  by (simp add: unescape_def)

end
