(* ===== verification/Expr_Sound.thy ===== *)
theory Expr_Sound
  imports Expr_Functions Expr_Block Expr_Text
begin

text \<open>
  Type soundness of the expression language: code accepted from text calls every function with as many
  arguments as its table says, so that evaluation does not index past the arguments of a function.
\<close>

section \<open>Signatures\<close>

text \<open>A call is well typed if it passes as many arguments as the table asks for.\<close>

definition well_typed_call :: "u32 \<Rightarrow> u32 \<Rightarrow> bool" where
  "well_typed_call fid n \<longleftrightarrow> (\<forall>f. get_at FUNCTIONS (unat fid) = Some f \<longrightarrow> n = snd f)"

fun typed_token :: "token \<Rightarrow> bool" where
  "typed_token (TFunction name fid n) \<longleftrightarrow> fid = ID_ARRAY_ACCESS \<or> fid = ID_ARRAY_BUILD \<or> well_typed_call fid n"
| "typed_token _ \<longleftrightarrow> True"

fun typed_item :: "expression_item \<Rightarrow> bool" where
  "typed_item (Function fid n) \<longleftrightarrow> well_typed_call fid n"
| "typed_item _ \<longleftrightarrow> True"

definition typed_parser :: "expr_parser \<Rightarrow> bool" where
  "typed_parser p \<longleftrightarrow> list_all (typed_token \<circ> fst) (operator_stack p) \<and> list_all typed_item (code p)"

lemma emit_binary_typed:
  "emit_binary b j out = (Ok out' :: (expression, expr_error) result) \<Longrightarrow> list_all typed_item out \<Longrightarrow> list_all typed_item out'"
  by (auto simp: emit_binary_def update_jmp_pos_def list_all_iff set_update_subset_insert [THEN subsetD] result_iff
      split: option.splits if_split_asm expression_item.splits dest!: subsetD [OF set_update_subset_insert])

lemma close_ops_typed:
  "close_ops expect st out = Ok (st', out') \<Longrightarrow> list_all (typed_token \<circ> fst) st \<Longrightarrow> list_all typed_item out \<Longrightarrow>
     list_all (typed_token \<circ> fst) st' \<and> list_all typed_item out'"
proof (induction expect st out rule: close_ops.induct)
  case (2 expect t j st out)
  then show ?case
    by (cases t) (auto simp: result_iff split: if_split_asm dest: emit_binary_typed)
qed simp

lemma yield_ops_typed:
  "yield_ops q st out = Ok (st', out') \<Longrightarrow> list_all (typed_token \<circ> fst) st \<Longrightarrow> list_all typed_item out \<Longrightarrow>
     list_all (typed_token \<circ> fst) st' \<and> list_all typed_item out'"
proof (induction q st out rule: yield_ops.induct)
  case (2 q t j st out)
  then show ?case
    by (cases t) (auto simp: result_iff split: if_split_asm dest: emit_binary_typed)
qed simp

lemma comma_ops_typed:
  "comma_ops st out = Ok (st', out') \<Longrightarrow> list_all (typed_token \<circ> fst) st \<Longrightarrow> list_all typed_item out \<Longrightarrow>
     list_all (typed_token \<circ> fst) st' \<and> list_all typed_item out'"
proof (induction st out rule: comma_ops.induct)
  case (2 t j st out)
  then show ?case
    by (cases t) (auto simp: result_iff dest: emit_binary_typed)
qed simp

lemma flush_ops_typed:
  "flush_ops st out = Ok out' \<Longrightarrow> list_all typed_item out \<Longrightarrow> list_all typed_item out'"
proof (induction st out rule: flush_ops.induct)
  case (2 t j st out)
  then show ?case
    by (cases t) (auto simp: result_iff dest: emit_binary_typed)
qed simp

lemma count_below_typed: "list_all (typed_token \<circ> fst) st \<Longrightarrow> list_all (typed_token \<circ> fst) (count_below st)"
proof -
  have "typed_token (fst x) \<Longrightarrow> typed_token (fst (count_item x))" for x
    by (cases x rule: count_item.cases) auto
  then show "list_all (typed_token \<circ> fst) st \<Longrightarrow> ?thesis" by (cases st rule: count_below.cases) auto
qed

lemma inc_arg_count_typed: "typed_parser p \<Longrightarrow> typed_parser (inc_arg_count p)"
  by (auto simp: typed_parser_def inc_arg_count_def count_below_typed split: list.splits)

lemma close_call_typed: "close_call p = Ok p' \<Longrightarrow> typed_parser p \<Longrightarrow> typed_parser p'"
  by (auto simp: close_call_def typed_parser_def result_iff emit_def split: list.splits token.splits prod.splits if_split_asm)

lemma parser_step_typed:
  assumes "parser_step prev t p = Ok (f, p')" "typed_token t" "typed_parser p"
  shows "typed_parser p'"
proof -
  have close: "typed_parser p'" if "close_group expect p = Ok p'" for expect
    using that assms(3) close_ops_typed [of expect "operator_stack p" "code p"] close_call_typed
    by (fastforce simp: close_group_def result_iff typed_parser_def)
  have binary: "typed_parser p'" if "on_binary b p = Ok p'" for b
    using that assms(3) yield_ops_typed [of "precedence b" "operator_stack p" "code p"]
    by (fastforce simp: on_binary_def dec_arg_count_def Let_def result_iff typed_parser_def push_binary_def push_op_def
        emit_def split: list.splits)
  show ?thesis
    using assms close binary comma_ops_typed [of "operator_stack p" "code p"] inc_arg_count_typed [OF assms(3)]
    by (cases t) (auto simp: result_iff typed_parser_def emit_def push_op_def on_call_def on_bracket_def Let_def
        split: if_split_asm)
qed

lemma parse_loop_typed:
  "parse_loop ts (prev, p) = Ok (f, p') \<Longrightarrow> list_all typed_token ts \<Longrightarrow> typed_parser p \<Longrightarrow> typed_parser p'"
  by (induction ts arbitrary: prev p) (auto simp: result_iff dest: parser_step_typed)

lemma parse_tokens_typed:
  "parse_tokens ts ended = Ok c \<Longrightarrow> list_all typed_token ts \<Longrightarrow> list_all typed_item c"
  using parse_loop_typed [of ts False new_parser] flush_ops_typed
  by (fastforce simp: parse_tokens_def result_iff typed_parser_def new_parser_def)

section \<open>Tokens of a text are well typed\<close>

lemma find_index_at: "find_index i P xs = Some (k, x) \<Longrightarrow> \<exists>j. k = i + j \<and> j < length xs \<and> xs ! j = x"
proof (induction i P xs rule: find_index.induct)
  case (2 i P y ys)
  show ?case
  proof (cases "P y")
    case False
    with 2 obtain j where "k = Suc i + j \<and> j < length ys \<and> ys ! j = x" by auto
    then show ?thesis by (intro exI [of _ "Suc j"]) simp
  qed (use 2 in auto)
qed simp

lemma length_FUNCTIONS: "length FUNCTIONS = 45"
  by (simp add: FUNCTIONS_def)

lemma async_ids: "list_all (\<lambda>(name, idx, n). unat (idx + 45) \<ge> 45) ASYNC_FUNCTIONS"
  by (simp add: ASYNC_FUNCTIONS_def)

lemma function_token_typed: "function_token buf = Some t \<Longrightarrow> typed_token t"
proof -
  assume t: "function_token buf = Some t"
  show ?thesis
  proof (cases "find_index 0 (\<lambda>f. fst f = buf) FUNCTIONS")
    case None
    with t obtain name idx n where f: "find (\<lambda>f. fst f = buf) ASYNC_FUNCTIONS = Some (name, idx, n)"
      "t = TFunction name (idx + of_nat (length FUNCTIONS)) n"
      by (auto simp: function_token_def split: option.splits)
    then have "(name, idx, n) \<in> set ASYNC_FUNCTIONS" by (auto simp: find_Some_iff)
    then have "unat (idx + 45) \<ge> 45" using async_ids by (auto simp: list_all_iff)
    then show ?thesis by (simp add: f(2) well_typed_call_def get_at_def length_FUNCTIONS)
  next
    case (Some r)
    then obtain k name n where r: "find_index 0 (\<lambda>f. fst f = buf) FUNCTIONS = Some (k, name, n)" by (cases r) auto
    with t have tok: "t = TFunction name (of_nat k) n" by (simp add: function_token_def)
    from find_index_at [OF r] have "k < 45" "FUNCTIONS ! k = (name, n)" by (auto simp: length_FUNCTIONS)
    moreover from this have "unat (of_nat k :: u32) = k" by (simp add: unat_of_nat)
    ultimately show ?thesis by (simp add: tok well_typed_call_def get_at_def length_FUNCTIONS)
  qed
qed

lemma word_token_typed: "word_token env buf = Ok t \<Longrightarrow> typed_token t"
  by (auto simp: word_token_def dollar_token_def dest: function_token_typed split: if_split_asm option.splits)

lemma parse_buf_typed: "parse_buf env tz = Ok (t, tz') \<Longrightarrow> typed_token t"
  by (auto simp: parse_buf_def buf_token_def number_token_def result_iff simp del: lit_simps
      dest: word_token_typed split: if_split_asm option.splits)

lemma symbol_typed: "symbol ch tz = Ok (t, tz') \<Longrightarrow> typed_token t"
  by (auto simp: symbol_def peeked_def result_iff split: if_split_asm list.splits)

lemma prev_word_typed: "prev_word env ch tz = Ok (Some t, tz') \<Longrightarrow> typed_token t"
  by (auto simp: prev_word_def call_word_def Let_def result_iff simp del: lit_simps
      dest: parse_buf_typed split: if_split_asm option.splits)

lemma symbol_next: "symbol ch tz = Ok (t, tz') \<Longrightarrow> typed_token t \<and> next_token tz' = next_token tz"
  using symbol_typed symbol_fields by blast

lemma parse_buf_next: "parse_buf env tz = Ok (t, tz') \<Longrightarrow> typed_token t \<and> next_token tz' = next_token tz"
  using parse_buf_typed parse_buf_fields by blast

lemma delimiter_typed:
  assumes "delimiter env ch tz = Ok (t, tz')" "list_all typed_token (next_token tz)"
  shows "typed_token t \<and> list_all typed_token (next_token tz')"
proof -
  obtain p tz1 where p: "prev_word env ch tz = Ok (p, tz1)" using assms by (auto simp: delimiter_def result_iff)
  have next1: "next_token tz1 = next_token tz" using prev_word_fields [OF p] by simp
  show ?thesis
  proof (cases p)
    case None
    with assms p next1 show ?thesis
      by (auto simp: delimiter_def result_iff dest!: symbol_next)
  next
    case (Some u)
    with p have "typed_token u" by (auto dest: prev_word_typed)
    with Some assms p next1 show ?thesis
      by (auto simp: delimiter_def result_iff split: if_split_asm dest!: symbol_next)
  qed
qed

lemma at_end_typed:
  "at_end env tz = Ok (r, tz') \<Longrightarrow> list_all typed_token (next_token tz) \<Longrightarrow>
     (\<forall>t. r = Some t \<longrightarrow> typed_token t) \<and> list_all typed_token (next_token tz')"
  by (auto simp: at_end_def result_iff split: if_split_asm dest!: parse_buf_next)

lemma scan_typed:
  "scan env inp tz = Ok (r, tz') \<Longrightarrow> list_all typed_token (next_token tz) \<Longrightarrow>
     (\<forall>t. r = Some t \<longrightarrow> typed_token t) \<and> list_all typed_token (next_token tz')"
proof (induction env inp tz rule: scan.induct)
  case (1 env tz)
  then show ?case using at_end_typed by fastforce
next
  case (2 env ch rest tz)
  show ?case
  proof (cases "is_word_ch ch \<or> is_digit ch \<or> ch = 46 \<or> ch = 125 \<or> glued ch (tbuf tz) \<or> is_blank_ch ch \<and> tbuf tz = []")
    case True
    with 2 at_end_typed [of env "tz\<lparr>input := rest, is_eof := True\<rparr>" r tz'] show ?thesis
      by (simp split: if_split_asm)
  next
    case False
    with "2.prems" obtain t where "delimiter env ch (tz\<lparr>input := rest\<rparr>) = Ok (t, tz')" "r = Some t"
      by (auto simp: result_iff)
    with delimiter_typed [OF this(1)] "2.prems"(2) show ?thesis by simp
  qed
qed

lemma next_tok_typed:
  "next_tok env tz = Ok (r, tz') \<Longrightarrow> list_all typed_token (next_token tz) \<Longrightarrow>
     (\<forall>t. r = Some t \<longrightarrow> typed_token t) \<and> list_all typed_token (next_token tz')"
  by (cases "next_token tz" rule: rev_cases)
    (auto simp: next_tok_def dest: scan_typed split: if_split_asm)

lemma tokens_of_typed: "list_all typed_token (next_token tz) \<Longrightarrow> list_all typed_token (fst (tokens_of env tz))"
proof (induction env tz rule: tokens_of.induct)
  case (1 env tz)
  show ?case
  proof (cases "next_tok env tz")
    case (Ok r)
    obtain t tz' where r: "r = (t, tz')" by fastforce
    from next_tok_typed [OF Ok [unfolded r] "1.prems"] "1.IH" [OF Ok r [symmetric]] show ?thesis
      by (subst tokens_of.simps) (auto simp: Ok r split: option.splits prod.splits dest: arg_cong [where f = fst])
  qed (subst tokens_of.simps, simp)+
qed

lemma parse_expr_typed: "parse_expr env s = Ok c \<Longrightarrow> list_all typed_item c"
  using tokens_of_typed [of "new_tokenizer s" env] parse_tokens_typed
  by (fastforce simp: parse_expr_def new_tokenizer_def split: prod.splits)

section \<open>Well-typed code does not panic\<close>

lemma length_pop_args: "length (fst (pop_args n stack)) = n"
  by (induction n arbitrary: stack) (auto split: prod.splits dest: arg_cong [where f = "length \<circ> fst"])

text \<open>
  Code is safe when every function it calls at an arity of the table does not panic there.
\<close>

definition safe_call :: "('w, 'e) expr_env \<Rightarrow> u32 \<Rightarrow> u32 \<Rightarrow> bool" where
  "safe_call env fid n \<longleftrightarrow> (\<forall>args w. length args = unat n \<longrightarrow> fst (call_function env fid args w) \<noteq> Panic)"

fun safe_item :: "('w, 'e) expr_env \<Rightarrow> expression_item \<Rightarrow> bool" where
  "safe_item env (Function fid n) \<longleftrightarrow> safe_call env fid n"
| "safe_item env _ \<longleftrightarrow> True"

lemma eval_items_no_panic:
  "list_all (safe_item env) items \<Longrightarrow> fst (eval_items env items stack caps w) \<noteq> Panic"
proof (induction env items stack caps w rule: eval_items.induct)
  case (9 env fid n rest stack caps w)
  obtain args stack1 where a: "pop_args (unat n) stack = (args, stack1)" by fastforce
  then have "length args = unat n" using length_pop_args [of "unat n" stack] by simp
  then have "fst (call_function env fid args w) \<noteq> Panic"
    using "9.prems" by (simp add: safe_call_def)
  then show ?case
    using "9.IH" [OF a [symmetric] refl] "9.prems" by (auto simp: a split: prod.splits result.splits)
next
  case (10 env val pos rest stack caps w)
  from "10.prems" have "list_all (safe_item env) (drop (unat pos) rest)"
    by (auto simp: list_all_iff dest: in_set_dropD)
  with 10 show ?case by simp
qed (auto simp: split: prod.splits)

section \<open>The functions of the table\<close>

lemma length_FUNCTION_BODIES: "length (FUNCTION_BODIES lib) = 45"
  by (simp add: FUNCTION_BODIES_def Let_def)

lemmas body_defs =
  fn_count_def fn_dedup_def fn_winnow_def fn_is_intersect_def fn_is_email_def fn_email_part_def fn_is_empty_def
  fn_is_number_def fn_bit_and_def fn_is_ip_addr_def fn_is_ipv4_addr_def fn_is_ipv6_addr_def
  fn_is_ip_in_cidr_def fn_ip_reverse_name_def fn_trim_def fn_trim_end_def fn_trim_start_def fn_len_def
  fn_to_lowercase_def fn_to_uppercase_def fn_is_uppercase_def fn_is_lowercase_def fn_has_digits_def
  fn_count_spaces_def fn_count_uppercase_def fn_count_lowercase_def fn_count_chars_def fn_contains_def
  fn_contains_ignore_case_def fn_eq_ignore_case_def fn_starts_with_def fn_ends_with_def fn_lines_def
  fn_substring_def fn_strip_prefix_def fn_strip_suffix_def fn_split_def fn_rsplit_def fn_split_once_def
  fn_rsplit_once_def fn_split_n_def fn_split_words_def fn_hash_def fn_if_then_def
  on_text_def of_text_def of_texts_def arg_def Let_def

text \<open>Every function of the table but \<^verbatim>\<open>sort\<close> returns when it has its arguments.\<close>

definition body_ok :: "(variable list \<Rightarrow> (variable, 'e) result) \<Rightarrow> u32 \<Rightarrow> bool" where
  "body_ok f n \<longleftrightarrow> (\<forall>args. length args = unat n \<longrightarrow> f args \<noteq> Panic)"

lemma body_ok_table:
  "body_ok fn_count 1" "body_ok (fn_dedup fp) 1" "body_ok fn_winnow 1" "body_ok (fn_is_intersect fp) 2"
  "body_ok (fn_is_email fp) 1" "body_ok (fn_email_part fp) 2" "body_ok fn_is_empty 1"
  "body_ok fn_is_number 1" "body_ok (fn_bit_and fp) 2" "body_ok (fn_is_ip_addr lib) 1"
  "body_ok (fn_is_ipv4_addr lib) 1" "body_ok (fn_is_ipv6_addr lib) 1" "body_ok (fn_is_ip_in_cidr lib) 2"
  "body_ok (fn_ip_reverse_name lib) 1" "body_ok (fn_trim fp) 1" "body_ok (fn_trim_end fp) 1"
  "body_ok (fn_trim_start fp) 1" "body_ok (fn_len fp) 1" "body_ok (fn_to_lowercase lib) 1"
  "body_ok (fn_to_uppercase lib) 1" "body_ok (fn_is_uppercase lib) 1" "body_ok (fn_is_lowercase lib) 1"
  "body_ok (fn_has_digits fp) 1" "body_ok (fn_count_spaces fp) 1" "body_ok (fn_count_uppercase lib) 1"
  "body_ok (fn_count_lowercase lib) 1" "body_ok (fn_count_chars fp) 1" "body_ok (fn_contains fp) 2"
  "body_ok (fn_contains_ignore_case lib) 2" "body_ok (fn_eq_ignore_case fp) 2"
  "body_ok (fn_starts_with fp) 2" "body_ok (fn_ends_with fp) 2" "body_ok fn_lines 1"
  "body_ok (fn_substring fp) 3" "body_ok (fn_strip_prefix fp) 2" "body_ok (fn_strip_suffix fp) 2"
  "body_ok (fn_split fp) 2" "body_ok (fn_rsplit fp) 2" "body_ok (fn_split_once fp) 2"
  "body_ok (fn_rsplit_once fp) 2" "body_ok (fn_split_n fp) 3" "body_ok (fn_split_words lib) 1"
  "body_ok (fn_hash lib) 2" "body_ok fn_if_then 3"
  by (auto simp: body_ok_def body_defs split: option.splits)

lemma bodies_ok:
  "list_all2 (\<lambda>f d. fst d = lit ''sort'' \<and> f = fn_sort lib \<and> snd d = 2 \<or> body_ok f (snd d)) (FUNCTION_BODIES lib) FUNCTIONS"
  by (simp add: FUNCTION_BODIES_def FUNCTIONS_def Let_def body_ok_table)

lemma table_calls_safe:
  assumes "well_typed_call fid n" "function_table env = FUNCTION_BODIES lib"
    and "\<forall>fid args w. fst (eval_fnc env fid args w) \<noteq> Panic"
    and sort: "unat fid = 1 \<Longrightarrow> n = 2 \<Longrightarrow> \<forall>order xs. sort_unstable_by lib order xs \<noteq> None"
  shows "safe_call env fid n"
proof (cases "unat fid < 45")
  case False
  with assms(2,3) show ?thesis by (simp add: safe_call_def call_function_def get_at_def length_FUNCTION_BODIES)
next
  case True
  with assms(1) have n: "n = snd (FUNCTIONS ! unat fid)"
    by (simp add: well_typed_call_def get_at_def length_FUNCTIONS del: split_paired_All)
  have call: "fst (call_function env fid args w) = (FUNCTION_BODIES lib ! unat fid) args" for args w
    using True assms(2) by (simp add: call_function_def get_at_def length_FUNCTION_BODIES)
  show ?thesis
  proof (cases "unat fid = 1")
    case True
    with n sort have "\<forall>order xs. sort_unstable_by lib order xs \<noteq> None" by (simp add: FUNCTIONS_def)
    then have "fn_sort lib args \<noteq> Panic" if "length args = 2" for args
      using that by (auto simp: fn_sort_def arg_def Let_def simp del: not_None_eq split: option.splits)
    with True n show ?thesis by (auto simp: safe_call_def call FUNCTION_BODIES_def FUNCTIONS_def Let_def)
  next
    case False
    have "distinct (map fst FUNCTIONS)" by (simp add: FUNCTIONS_def)
    then have "fst (FUNCTIONS ! unat fid) \<noteq> lit ''sort''"
      using True False nth_eq_iff_index_eq [of "map fst FUNCTIONS" "unat fid" 1]
      by (simp add: length_FUNCTIONS) (simp add: FUNCTIONS_def)
    with list_all2_nthD [OF bodies_ok, of "unat fid" lib] True n show ?thesis
      by (simp add: safe_call_def call body_ok_def length_FUNCTION_BODIES)
  qed
qed

lemma accepted_code_safe:
  assumes "list_all typed_item c" "function_table env = FUNCTION_BODIES lib"
    and "\<forall>fid args w. fst (eval_fnc env fid args w) \<noteq> Panic"
    and "Function 1 2 \<in> set c \<Longrightarrow> \<forall>order xs. sort_unstable_by lib order xs \<noteq> None"
  shows "list_all (safe_item env) c"
proof -
  have "safe_item env x" if "x \<in> set c" for x
  proof (cases x)
    case (Function fid n)
    then have "well_typed_call fid n" using that assms(1) by (auto simp: list_all_iff)
    moreover have "unat fid = 1 \<Longrightarrow> fid = 1" by (metis unat_1 word_unat_eq_iff)
    ultimately show ?thesis using table_calls_safe [OF _ assms(2,3)] assms(4) that Function by auto
  qed simp_all
  then show ?thesis by (simp add: list_all_iff)
qed

section \<open>Configured blocks\<close>

text \<open>The code of a block.\<close>

definition block_code :: "if_block \<Rightarrow> expression list" where
  "block_code b = default_expr b # map if_expr (if_thens b) @ map then_expr (if_thens b)"

lemma compile_matches_typed:
  assumes "compile_matches tenv num ms acc = Ok its" "\<forall>b \<in> set acc. list_all typed_item (if_expr b) \<and> list_all typed_item (then_expr b)"
  shows "\<forall>b \<in> set its. list_all typed_item (if_expr b) \<and> list_all typed_item (then_expr b)"
  using assms
  by (induction tenv num ms acc rule: compile_matches.induct)
    (auto dest: parse_expr_typed split: result.splits)

lemma try_compile_typed:
  assumes "try_compile_expr base cx e log = Ok (Some b, log')"
  shows "\<forall>c \<in> set (block_code b). list_all typed_item c"
proof -
  obtain tenv d its where t: "parse_expr tenv (src_else e) = Ok d" "compile_matches tenv 0 (src_match e) [] = Ok its"
    "b = \<lparr>if_thens = its, default_expr = d\<rparr>"
    using assms by (auto simp: try_compile_expr_def Let_def split: if_split_asm result.splits)
  with parse_expr_typed [OF t(1)] compile_matches_typed [OF t(2)] show ?thesis by (auto simp: block_code_def)
qed

lemma compile_default_typed:
  assumes "compile_default_expr base cx log = Ok (b, log')"
  shows "\<forall>c \<in> set (block_code b). list_all typed_item c"
proof (cases "ctx_default cx")
  case None
  with assms show ?thesis by (auto simp: compile_default_expr_def empty_block_def block_code_def)
next
  case (Some d)
  with assms obtain log1 where "try_compile_expr base cx d log = Ok (Some b, log1)"
    by (fastforce simp: compile_default_expr_def result_iff split: option.splits)
  then show ?thesis by (rule try_compile_typed)
qed

lemma compile_block_typed:
  assumes "compile_block base cx log = Ok (b, log')"
  shows "\<forall>c \<in> set (block_code b). list_all typed_item c"
proof (cases "src_else (ctx_expr cx) = [] \<and> src_match (ctx_expr cx) = []")
  case True
  with assms show ?thesis by (auto simp: compile_block_def empty_block_def block_code_def)
next
  case False
  with assms obtain r log1 where t: "try_compile_expr base cx (ctx_expr cx) log = Ok (r, log1)"
    and r: "(case r of Some b \<Rightarrow> Ok (b, log1) | None \<Rightarrow> compile_default_expr base cx log1) = Ok (b, log')"
    by (auto simp: compile_block_def result_iff)
  show ?thesis
  proof (cases r)
    case None
    with r show ?thesis by (simp add: compile_default_typed)
  next
    case (Some b')
    with r t show ?thesis by (simp add: try_compile_typed)
  qed
qed

lemma eval_block_no_panic:
  "\<forall>b \<in> set bs. list_all (safe_item env) (if_expr b) \<and> list_all (safe_item env) (then_expr b) \<Longrightarrow>
   list_all (safe_item env) d \<Longrightarrow> fst (eval_block env bs d caps w) \<noteq> Panic"
proof (induction env bs d caps w rule: eval_block.induct)
  case (2 env b bs d caps w)
  obtain r c1 w1 where r: "eval_items env (if_expr b) [] caps w = (r, c1, w1)" by (metis prod_cases3)
  with "2.prems" eval_items_no_panic [of env "if_expr b" "[]" caps w] have "r \<noteq> Panic" by simp
  then consider v where "r = Ok v" | e where "r = Err e" by (cases r) auto
  then show ?case
  proof cases
    case 1
    with r "2.prems" "2.IH" [OF r [symmetric] 1 refl] show ?thesis by (simp add: eval_items_no_panic)
  qed (simp add: r)
qed (simp add: eval_items_no_panic)


definition demo_lib :: fn_lib where
  "demo_lib = \<lparr>lib_fpu = demo_fpu, is_alphabetic = (\<lambda>_. False), is_alphanumeric = (\<lambda>_. False),
     is_uppercase = (\<lambda>_. False), is_lowercase = (\<lambda>_. False), str_to_lowercase = map to_lower,
     str_to_uppercase = (\<lambda>s. s), sort_unstable_by = (\<lambda>_ xs. Some xs), parse_ip_addr = demo_parse_ip,
     to_reverse_name = (\<lambda>_. []), md5_hex = (\<lambda>s. s), sha1_hex = (\<lambda>s. s), sha256_hex = (\<lambda>s. s), sha512_hex = (\<lambda>s. s)\<rparr>"

lemma demo_block:
  "compile_block demo_token_env \<lparr>ctx_expr = \<lparr>src_match = [], src_else = lit ''1 && 2 ''\<rparr>, ctx_default = None,
      allowed_variables = [], allowed_constants = []\<rparr> [] =
   Ok (\<lparr>if_thens = [], default_expr = [Constant (CInteger 1), JmpIf False 2, Constant (CInteger 2), BinaryOperator And]\<rparr>, [])"
proof -
  have "demo_token_env\<lparr>map_variables := [], map_constants := []\<rparr> = demo_token_env"
    by (simp add: demo_token_env_def)
  moreover have "lit ''1 && 2 '' \<noteq> []" by simp
  ultimately show ?thesis
    using demo_parse by (simp add: compile_block_def try_compile_expr_def Let_def del: lit_simps)
qed


end
