(* ===== verification/Topological.thy ===== *)
theory Topological
  imports Contracts
begin

text \<open>
  Topological sorting (\<^verbatim>\<open>utils/src/topological.rs\<close>). The hash maps are maps; the order in which
  \<^verbatim>\<open>retain\<close> visits them is an argument. Counters are 64-bit, with the wrap-around written out.
\<close>

section \<open>Sorter\<close>

record 'a topological_sort =
  edges :: "'a \<rightharpoonup> 'a list"
  count :: "'a \<rightharpoonup> nat"

definition new_sort :: "'a topological_sort" where
  "new_sort = \<lparr>edges = Map.empty, count = Map.empty\<rparr>"

definition or_insert :: "'a \<Rightarrow> 'v \<Rightarrow> ('a \<rightharpoonup> 'v) \<Rightarrow> ('a \<rightharpoonup> 'v)" where
  "or_insert k v m = (if m k = None then m(k \<mapsto> v) else m)"

definition topo_insert :: "'a \<Rightarrow> 'a \<Rightarrow> 'a topological_sort \<Rightarrow> 'a topological_sort" where
  "topo_insert from_node to_node t =
     (let count1 = or_insert from_node 0 (count t);
          edges1 = or_insert from_node [] (edges t);
          edges2 = edges1(from_node \<mapsto> the (edges1 from_node) @ [to_node]);
          count2 = or_insert to_node 0 count1
      in \<lparr>edges = edges2, count = count2(to_node \<mapsto> (the (count2 to_node) + 1) mod 2 ^ 64)\<rparr>)"

record 'a topological_iterator =
  it_edges :: "'a \<rightharpoonup> 'a list"
  it_count :: "'a \<rightharpoonup> nat"
  no_edges :: "'a list"

definition into_iterator :: "'a list \<Rightarrow> 'a topological_sort \<Rightarrow> 'a topological_iterator" where
  "into_iterator order t =
     \<lparr>it_edges = edges t,
      it_count = (\<lambda>n. if count t n = Some 0 then None else count t n),
      no_edges = filter (\<lambda>n. count t n = Some 0) order\<rparr>"

text \<open>The loop over the neighbours of the node just taken from the back of the queue.\<close>

definition release :: "('a \<rightharpoonup> nat) \<times> 'a list \<Rightarrow> 'a \<Rightarrow> ('a \<rightharpoonup> nat) \<times> 'a list" where
  "release st neighbor =
     (case st of (cnt, queue) \<Rightarrow>
        (case cnt neighbor of
           None \<Rightarrow> (cnt, queue)
         | Some c \<Rightarrow>
             let c' = (c + (2 ^ 64 - 1)) mod 2 ^ 64 in
             if c' = 0 then (cnt(neighbor := None), neighbor # queue)
             else (cnt(neighbor \<mapsto> c'), queue)))"

definition topo_next :: "'a topological_iterator \<Rightarrow> 'a option \<times> 'a topological_iterator" where
  "topo_next it =
     (if no_edges it = [] then (None, it)
      else
        let no_edge = last (no_edges it); queue = butlast (no_edges it) in
        (case it_edges it no_edge of
           None \<Rightarrow> (Some no_edge, it\<lparr>no_edges := queue\<rparr>)
         | Some es \<Rightarrow>
             let (cnt, queue') = foldl release (it_count it, queue) es
             in (Some no_edge, it\<lparr>it_count := cnt, no_edges := queue'\<rparr>)))"

definition is_valid_sort :: "'a topological_iterator \<Rightarrow> bool" where
  "is_valid_sort it \<longleftrightarrow> it_count it = Map.empty"

text \<open>Up to \<open>k\<close> calls of \<^verbatim>\<open>next\<close>.\<close>

fun topo_take :: "nat \<Rightarrow> 'a topological_iterator \<Rightarrow> 'a list \<times> 'a topological_iterator" where
  "topo_take 0 it = ([], it)"
| "topo_take (Suc k) it =
     (case topo_next it of
        (None, it') \<Rightarrow> ([], it')
      | (Some x, it') \<Rightarrow> (let (xs, it'') = topo_take k it' in (x # xs, it'')))"

section \<open>Building\<close>

definition build :: "('a \<times> 'a) list \<Rightarrow> 'a topological_sort" where
  "build es = foldl (\<lambda>t (a, b). topo_insert a b t) new_sort es"

definition targets :: "('a \<times> 'a) list \<Rightarrow> 'a \<Rightarrow> 'a list" where
  "targets es a = map snd (filter (\<lambda>e. fst e = a) es)"

definition indegree :: "('a \<times> 'a) list \<Rightarrow> 'a set \<Rightarrow> 'a \<Rightarrow> nat" where
  "indegree es gone b = length (filter (\<lambda>e. snd e = b \<and> fst e \<notin> gone) es)"

definition nodes :: "('a \<times> 'a) list \<Rightarrow> 'a set" where
  "nodes es = fst ` set es \<union> snd ` set es"

lemma build_snoc: "build (es @ [(a, b)]) = topo_insert a b (build es)"
  by (simp add: build_def)

lemma build_edges: "(case edges (build es) a of None \<Rightarrow> [] | Some ts \<Rightarrow> ts) = targets es a"
proof (induction es rule: rev_induct)
  case Nil
  then show ?case by (simp add: build_def new_sort_def targets_def)
next
  case (snoc e es)
  then show ?case
    by (cases e) (auto simp: build_snoc topo_insert_def or_insert_def Let_def targets_def split: option.splits)
qed

lemma indegree_le: "indegree es gone b \<le> length es"
  by (simp add: indegree_def)

lemma indegree_not_node: "n \<notin> nodes es \<Longrightarrow> indegree es gone n = 0"
  by (auto simp: indegree_def nodes_def filter_empty_conv)

lemma indegree_snoc:
  "indegree (es @ [(a, b)]) gone n = indegree es gone n + (if n = b \<and> a \<notin> gone then 1 else 0)"
  by (simp add: indegree_def)

lemma nodes_snoc: "nodes (es @ [(a, b)]) = nodes es \<union> {a, b}"
  by (auto simp: nodes_def)

lemma build_count:
  "length es < 2 ^ 64 \<Longrightarrow>
   count (build es) n = (if n \<in> nodes es then Some (indegree es {} n) else None)"
proof (induction es arbitrary: n rule: rev_induct)
  case Nil
  then show ?case by (simp add: build_def new_sort_def nodes_def)
next
  case (snoc e es)
  obtain a b where e: "e = (a, b)" by fastforce
  have IH: "count (build es) n = (if n \<in> nodes es then Some (indegree es {} n) else None)" for n
    using snoc by simp
  have "indegree es {} b + 1 < 2 ^ 64"
    using indegree_le [of es "{}" b] snoc.prems by simp
  then show ?case
    by (auto simp: e build_snoc topo_insert_def or_insert_def Let_def IH nodes_snoc indegree_snoc
        indegree_not_node)
qed

section \<open>Releasing neighbours\<close>

definition counted :: "('a \<rightharpoonup> nat) \<Rightarrow> 'a list \<Rightarrow> bool" where
  "counted cnt ts \<longleftrightarrow> (\<forall>m c. cnt m = Some c \<longrightarrow> 0 < c \<and> c < 2 ^ 64 \<and> count_list ts m \<le> c)"

lemma release_counted:
  assumes "cnt t = Some c" "0 < c" "c < 2 ^ 64"
  shows "release (cnt, q) t = (if c = 1 then (cnt(t := None), t # q) else (cnt(t \<mapsto> c - 1), q))"
proof -
  have "(c + (2 ^ 64 - 1)) mod 2 ^ 64 = c - 1"
  proof -
    have "c + (2 ^ 64 - 1) = (c - 1) + 2 ^ 64" using assms(2) by simp
    then show ?thesis using assms(3) by (simp only: mod_add_self2) simp
  qed
  with assms show ?thesis by (auto simp: release_def Let_def)
qed

definition drained :: "('a \<rightharpoonup> nat) \<Rightarrow> 'a list \<Rightarrow> ('a \<rightharpoonup> nat)" where
  "drained cnt ts =
     (\<lambda>m. case cnt m of None \<Rightarrow> None
        | Some c \<Rightarrow> if count_list ts m = c then None else Some (c - count_list ts m))"

lemma release_all:
  assumes "counted cnt ts" "distinct q" "set q \<inter> dom cnt = {}"
  shows "\<exists>new. foldl release (cnt, q) ts =
      (drained cnt ts, new @ q) \<and>
    distinct (new @ q) \<and> set new = {m \<in> dom cnt. count_list ts m = the (cnt m)}"
  using assms
proof (induction ts arbitrary: cnt q)
  case Nil
  then have pos: "cnt m \<noteq> Some 0" for m by (auto simp: counted_def)
  have "drained cnt [] = cnt"
    using pos by (auto simp: drained_def fun_eq_iff split: option.splits)
  moreover have "{m \<in> dom cnt. count_list [] m = the (cnt m)} = {}"
  proof -
    have "the (cnt x) \<noteq> 0" if "x \<in> dom cnt" for x
      using pos [of x] that by (auto simp: dom_def)
    then show ?thesis by auto
  qed
  ultimately show ?case using Nil by (intro exI [of _ "[]"]) simp
next
  case (Cons t ts)
  show ?case
  proof (cases "cnt t")
    case None
    then have "counted cnt ts" using Cons.prems(1) by (fastforce simp: counted_def split: if_split_asm)
    from Cons.IH [OF this Cons.prems(2, 3)] None show ?thesis
      by (fastforce simp: release_def drained_def fun_eq_iff split: option.splits)
  next
    case (Some c)
    then have c: "0 < c" "c < 2 ^ 64" "count_list ts t < c"
      using Cons.prems(1) by (auto simp: counted_def dest!: spec [of _ t])
    define cnt' where "cnt' = (if c = 1 then cnt(t := None) else cnt(t \<mapsto> c - 1))"
    define q' where "q' = (if c = 1 then t # q else q)"
    have step: "release (cnt, q) t = (cnt', q')"
      using release_counted [of cnt t c q, OF Some c(1, 2)] by (simp add: cnt'_def q'_def)
    have "c - 1 < 2 ^ 64" using c(2) by simp
    then have pre: "counted cnt' ts" "distinct q'" "set q' \<inter> dom cnt' = {}"
      using Cons.prems Some c
      by (auto simp: counted_def cnt'_def q'_def dom_def split: if_split_asm dest: spec)
    from Cons.IH [OF pre] obtain new where new:
      "foldl release (cnt', q') ts = (drained cnt' ts, new @ q')"
      "distinct (new @ q')" "set new = {m \<in> dom cnt'. count_list ts m = the (cnt' m)}"
      by blast
    show ?thesis
      by (rule exI [of _ "new @ (if c = 1 then [t] else [])"])
        (use new Some c in \<open>auto simp: step drained_def cnt'_def q'_def fun_eq_iff dom_def split: option.splits if_split_asm\<close>)
  qed
qed

section \<open>The state between two calls\<close>

lemma indegree_insert:
  "x \<notin> S \<Longrightarrow> indegree es (insert x S) m + count_list (targets es x) m = indegree es S m"
  by (induction es) (auto simp: indegree_def targets_def)

lemma indegree_zero: "indegree es S n = 0 \<longleftrightarrow> (\<forall>a. (a, n) \<in> set es \<longrightarrow> a \<in> S)"
  by (force simp: indegree_def filter_empty_conv)

definition settled :: "('a \<times> 'a) list \<Rightarrow> 'a list \<Rightarrow> bool" where
  "settled es ys \<longleftrightarrow> (\<forall>pre x post a. ys = pre @ x # post \<longrightarrow> (a, x) \<in> set es \<longrightarrow> a \<in> set pre)"

definition between :: "('a \<times> 'a) list \<Rightarrow> 'a list \<Rightarrow> 'a topological_iterator \<Rightarrow> bool" where
  "between es ys it \<longleftrightarrow>
     (\<forall>a. (case it_edges it a of None \<Rightarrow> [] | Some ts \<Rightarrow> ts) = targets es a) \<and>
     it_count it = (\<lambda>n. if n \<in> nodes es - set ys - set (no_edges it) then Some (indegree es (set ys) n)
                       else None) \<and>
     distinct (ys @ no_edges it) \<and> set (ys @ no_edges it) \<subseteq> nodes es \<and>
     (\<forall>n \<in> nodes es. n \<in> set (ys @ no_edges it) \<longleftrightarrow> indegree es (set ys) n = 0) \<and>
     settled es ys"

lemma between_into_iterator:
  assumes "length es < 2 ^ 64" "distinct order" "set order = nodes es"
  shows "between es [] (into_iterator order (build es))"
  using assms
  by (auto simp: between_def into_iterator_def build_edges build_count settled_def fun_eq_iff)

lemma settled_snoc:
  assumes "settled es ys" "\<And>a. (a, x) \<in> set es \<Longrightarrow> a \<in> set ys"
  shows "settled es (ys @ [x])"
  using assms by (fastforce simp: settled_def append_eq_append_conv2 append_eq_Cons_conv Cons_eq_append_conv)

lemma topo_next_eq:
  assumes "no_edges it = q @ [x]" "(case it_edges it x of None \<Rightarrow> [] | Some ts \<Rightarrow> ts) = ts"
    "foldl release (it_count it, q) ts = (cnt, q')"
  shows "topo_next it = (Some x, it\<lparr>it_count := cnt, no_edges := q'\<rparr>)"
  using assms by (auto simp: topo_next_def split: option.splits)

text \<open>One call of \<^verbatim>\<open>next\<close> on a non-empty queue keeps the state well formed.\<close>

lemma between_next:
  assumes b: "between es ys it" and len: "length es < 2 ^ 64" and q: "no_edges it = q @ [x]"
  obtains it' where "topo_next it = (Some x, it')" "between es (ys @ [x]) it'"
proof -
  have x: "x \<in> nodes es" "x \<notin> set ys" "x \<notin> set q" "indegree es (set ys) x = 0" "distinct q"
    using b q by (auto simp: between_def)
  have drop: "indegree es (insert x (set ys)) m + count_list (targets es x) m = indegree es (set ys) m" for m
    by (rule indegree_insert [OF x(2)])
  have cnt: "it_count it = (\<lambda>n. if n \<in> nodes es - set ys - set q - {x} then Some (indegree es (set ys) n)
                       else None)"
    using b q by (auto simp: between_def fun_eq_iff)
  have "count_list (targets es x) m \<le> indegree es (set ys) m" "indegree es (set ys) m < 2 ^ 64" for m
    using drop [of m] indegree_le [of es "set ys" m] len by linarith+
  then have "counted (it_count it) (targets es x)"
    using b q by (auto simp: counted_def cnt between_def split: if_split_asm)
  moreover have "set q \<inter> dom (it_count it) = {}" by (auto simp: cnt split: if_split_asm)
  ultimately obtain new where new:
    "foldl release (it_count it, q) (targets es x) = (drained (it_count it) (targets es x), new @ q)"
    "distinct (new @ q)"
    "set new = {m \<in> dom (it_count it). count_list (targets es x) m = the (it_count it m)}"
    using release_all [of "it_count it" "targets es x" q] x(5) by blast
  have snew: "set new = {m \<in> nodes es - set ys - set q - {x}. indegree es (insert x (set ys)) m = 0}"
  proof -
    have "count_list (targets es x) m = indegree es (set ys) m \<longleftrightarrow> indegree es (insert x (set ys)) m = 0" for m
      using drop [of m] by linarith
    then show ?thesis by (auto simp: new(3) cnt dom_def split: if_split_asm)
  qed
  show thesis
  proof (rule that)
    show "topo_next it = (Some x, it\<lparr>it_count := drained (it_count it) (targets es x), no_edges := new @ q\<rparr>)"
      by (rule topo_next_eq [OF q _ new(1)]) (use b in \<open>simp add: between_def\<close>)
  next
    have "settled es (ys @ [x])"
      using b x(4) by (auto simp: between_def indegree_zero intro: settled_snoc)
    moreover have "indegree es (insert x (set ys)) n = 0" if "n \<in> set (ys @ [x]) \<union> set q" for n
      using b q that drop [of n] by (auto simp: between_def)
    moreover have "drained (it_count it) (targets es x) =
        (\<lambda>n. if n \<in> nodes es - set (ys @ [x]) - set (new @ q) then Some (indegree es (set (ys @ [x])) n) else None)"
    proof
      fix n
      show "drained (it_count it) (targets es x) n =
        (if n \<in> nodes es - set (ys @ [x]) - set (new @ q) then Some (indegree es (set (ys @ [x])) n) else None)"
        using drop [of n] by (auto simp: drained_def cnt snew)
    qed
    ultimately show "between es (ys @ [x]) (it\<lparr>it_count := drained (it_count it) (targets es x), no_edges := new @ q\<rparr>)"
      using b q x new(2) snew by (auto simp: between_def)
  qed
qed

text \<open>Enough calls of \<^verbatim>\<open>next\<close> empty the queue: there is one node fewer to yield after each.\<close>

lemma topo_take_exhausts:
  assumes "between es ys it" "length es < 2 ^ 64" "card (nodes es) \<le> length ys + k"
  shows "\<exists>xs it'. topo_take k it = (xs, it') \<and> between es (ys @ xs) it' \<and> no_edges it' = []"
  using assms
proof (induction k arbitrary: ys it)
  case 0
  then have "distinct (ys @ no_edges it)" "set (ys @ no_edges it) \<subseteq> nodes es"
    by (auto simp: between_def)
  then have "length (ys @ no_edges it) \<le> card (nodes es)"
    by (metis card_mono distinct_card finite_UnI finite_imageI finite_set nodes_def)
  with 0 show ?case by (cases "no_edges it") auto
next
  case (Suc k)
  show ?case
  proof (cases "no_edges it" rule: rev_cases)
    case Nil
    then show ?thesis using Suc.prems by (simp add: topo_next_def)
  next
    case (snoc q x)
    from between_next [OF Suc.prems(1, 2) snoc] obtain it'
      where "topo_next it = (Some x, it')" "between es (ys @ [x]) it'" .
    moreover from Suc.IH [OF this(2) Suc.prems(2)] Suc.prems(3) obtain xs it''
      where "topo_take k it' = (xs, it'')" "between es ((ys @ [x]) @ xs) it''" "no_edges it'' = []" by auto
    ultimately show ?thesis by simp
  qed
qed

section \<open>Exhaustion and cycles\<close>

lemma settled_acyclic:
  assumes "settled es xs" "set xs = nodes es"
  shows "acyclic (set es)"
proof -
  define pos where "pos x = length (takeWhile (\<lambda>y. y \<noteq> x) xs)" for x
  have at: "pos y = length u" if "xs = u @ y # v" "y \<notin> set u" for u y v
  proof -
    have "takeWhile (\<lambda>z. z \<noteq> y) (u @ y # v) = u @ takeWhile (\<lambda>z. z \<noteq> y) (y # v)"
      by (rule takeWhile_append2) (use that(2) in auto)
    then show ?thesis by (simp add: pos_def that(1))
  qed
  have "pos a < pos b" if e: "(a, b) \<in> set es" for a b
  proof -
    have "b \<in> set xs" using assms(2) e by (force simp: nodes_def)
    then obtain pre post where xs: "xs = pre @ b # post" "b \<notin> set pre" by (meson split_list_first)
    then obtain p r where p: "pre = p @ a # r" "a \<notin> set p"
      using assms(1) e by (metis settled_def split_list_first)
    have "pos a = length p" using p xs by (intro at) auto
    moreover have "pos b = length pre" using xs by (intro at) auto
    ultimately show ?thesis by (simp add: p(1))
  qed
  then have "set es \<subseteq> measure pos" by auto
  then show ?thesis by (meson wf_acyclic wf_measure wf_subset)
qed

lemma stuck_acyclic:
  assumes "between es xs it" "no_edges it = []"
  shows "is_valid_sort it \<longleftrightarrow> set xs = nodes es" "is_valid_sort it \<longleftrightarrow> acyclic (set es)"
proof -
  have sub: "set xs \<subseteq> nodes es" and cnt: "n \<in> nodes es \<Longrightarrow> n \<in> set xs \<longleftrightarrow> indegree es (set xs) n = 0" for n
    using assms by (auto simp: between_def)
  show valid: "is_valid_sort it \<longleftrightarrow> set xs = nodes es"
    using assms sub by (auto simp: between_def is_valid_sort_def fun_eq_iff split: if_split_asm)
  have "set xs = nodes es" if ac: "acyclic (set es)"
  proof (rule ccontr)
    assume "set xs \<noteq> nodes es"
    with sub obtain n where "n \<in> nodes es - set xs" by auto
    moreover have "wf (set es)" using ac by (simp add: finite_acyclic_wf)
    ultimately obtain z where z: "z \<in> nodes es - set xs" "\<And>y. (y, z) \<in> set es \<Longrightarrow> y \<notin> nodes es - set xs"
      by (metis wf_eq_minimal)
    then have "indegree es (set xs) z = 0" by (force simp: indegree_zero nodes_def)
    with z(1) cnt show False by blast
  qed
  moreover have "settled es xs" using assms by (simp add: between_def)
  ultimately show "is_valid_sort it \<longleftrightarrow> acyclic (set es)" using valid settled_acyclic by blast
qed

lemma settled_nth:
  "settled es xs \<longleftrightarrow> (\<forall>i < length xs. \<forall>a. (a, xs ! i) \<in> set es \<longrightarrow> a \<in> set (take i xs))"
proof
  assume "settled es xs"
  then show "\<forall>i < length xs. \<forall>a. (a, xs ! i) \<in> set es \<longrightarrow> a \<in> set (take i xs)"
    unfolding settled_def by (metis id_take_nth_drop)
next
  assume *: "\<forall>i < length xs. \<forall>a. (a, xs ! i) \<in> set es \<longrightarrow> a \<in> set (take i xs)"
  show "settled es xs"
    unfolding settled_def
  proof (intro allI impI)
    fix pre x post a
    assume "xs = pre @ x # post" "(a, x) \<in> set es"
    then show "a \<in> set pre" using * [rule_format, of "length pre" a] by simp
  qed
qed

text \<open>
  C36: After as many calls of \<^verbatim>\<open>next\<close> as there are nodes, whatever the order in which the hash map is
  visited, the iterator is exhausted; it has yielded distinct nodes, each after all its predecessors;
  and \<^verbatim>\<open>is_valid\<close> then answers whether the inserted edges are free of cycles, in which case every node
  has been yielded.
\<close>

theorem topological_sort_complete:
  assumes "length es < 2 ^ 64" "distinct order" "set order = nodes es" "card (nodes es) \<le> k"
  shows "\<exists>xs it. topo_take k (into_iterator order (build es)) = (xs, it) \<and>
    topo_next it = (None, it) \<and> distinct xs \<and> set xs \<subseteq> nodes es \<and>
    (\<forall>i < length xs. \<forall>a. (a, xs ! i) \<in> set es \<longrightarrow> a \<in> set (take i xs)) \<and>
    (is_valid_sort it \<longleftrightarrow> acyclic (set es)) \<and> (acyclic (set es) \<longrightarrow> set xs = nodes es)"
proof -
  from topo_take_exhausts [OF between_into_iterator [OF assms(1-3)] assms(1), of k] assms(4)
  obtain xs it where run: "topo_take k (into_iterator order (build es)) = (xs, it)"
    "between es xs it" "no_edges it = []" by auto
  moreover have "topo_next it = (None, it)" using run(3) by (simp add: topo_next_def)
  moreover have "distinct xs" "set xs \<subseteq> nodes es" "settled es xs" using run(2) by (auto simp: between_def)
  ultimately show ?thesis using stuck_acyclic [OF run(2, 3)] by (auto simp: settled_nth)
qed

theorem topological_sort_complete_witness:
  "\<exists>xs it. topo_take 3 (into_iterator [3, 1, 2 :: nat] (build [(1, 2), (2, 3), (1, 3)])) = (xs, it) \<and>
    topo_next it = (None, it) \<and> distinct xs \<and> set xs \<subseteq> {1, 2, 3}"
proof -
  have n: "nodes [(1, 2), (2, 3), (1, 3 :: nat)] = {1, 2, 3}" by (auto simp: nodes_def)
  have "set [3, 1, 2 :: nat] = {1, 2, 3}" by auto
  from topological_sort_complete [of "[(1, 2), (2, 3), (1, 3 :: nat)]" "[3, 1, 2]" 3, unfolded n, OF _ _ this]
  show ?thesis by (simp del: One_nat_def) blast
qed

end
