(* ===== verification/Store_Locks.thy ===== *)
theory Store_Locks
  imports Memory_Store
begin

text \<open>
  Locks shared by the nodes of a cluster (\<^verbatim>\<open>try_lock\<close>, \<^verbatim>\<open>remove_lock\<close> of the in-memory store and their users,
  \<^verbatim>\<open>services/src/task_manager/lock.rs\<close> and \<^verbatim>\<open>smtp/src/queue/spool.rs\<close>): any number of workers check, commit,
  finish and crash in any order, while the clock runs and the store is purged.
\<close>

section \<open>Users\<close>

definition KV_LOCK_TASK :: byte where "KV_LOCK_TASK = 23"
definition KV_LOCK_QUEUE_MESSAGE :: byte where "KV_LOCK_QUEUE_MESSAGE = 21"
definition DEFAULT_LOCK_EXPIRY :: u64 where "DEFAULT_LOCK_EXPIRY = 60 * 60"
definition LOCK_EXPIRY :: u64 where "LOCK_EXPIRY = 10 * 60"

text \<open>A failure of the store counts as a lock that was not obtained.\<close>

definition lock_or_not :: "(bool \<times> mem_store, store_error) result \<Rightarrow> mem_store \<Rightarrow> bool \<times> mem_store" where
  "lock_or_not r m = (case r of Ok (locked, m) \<Rightarrow> (locked, m) | _ \<Rightarrow> (False, m))"

definition try_lock_task :: "u64 \<Rightarrow> u64 \<Rightarrow> mem_store \<Rightarrow> bool \<times> mem_store" where
  "try_lock_task now task m = lock_or_not (try_lock now KV_LOCK_TASK (to_be 8 task) DEFAULT_LOCK_EXPIRY m) m"

definition remove_index_lock :: "u64 \<Rightarrow> mem_store \<Rightarrow> mem_store" where
  "remove_index_lock task m = (case remove_lock KV_LOCK_TASK (to_be 8 task) m of Ok m \<Rightarrow> m | _ \<Rightarrow> m)"

section \<open>One lock by itself\<close>

definition lock_at :: "bytes \<Rightarrow> mem_store \<Rightarrow> u64 option" where
  "lock_at key m = Option.bind (map_of (mkeys m) key) (\<lambda>bs. if length bs = 8 then Some (from_be bs) else None)"

lemma lock_check_value:
  assumes "\<not> unreachable m" "map_of (mkeys m) key = Some bs" "length bs = 8"
  shows "lock_at key m = Some (from_be bs)"
    and "lock_check now key m = Ok (if now < from_be bs then None else Some (Some (from_be bs)), m)"
  using assms by (simp_all add: lock_at_def lock_check_def lock_value_def)

lemma lock_check_absent:
  assumes "\<not> unreachable m" "map_of (mkeys m) key = None"
  shows "lock_at key m = None" and "lock_check now key m = Ok (Some None, m)"
  using assms by (simp_all add: lock_at_def lock_check_def)

lemma lock_check_corrupt:
  assumes "\<not> unreachable m" "map_of (mkeys m) key = Some bs" "length bs \<noteq> 8"
  shows "lock_at key m = None" and "lock_check now key m = Ok (Some None, clear_key key m)"
  using assms by (simp_all add: lock_at_def lock_check_def lock_value_def)

lemma lock_reachable: "lock_check now key m = Ok r \<Longrightarrow> \<not> unreachable m"
  by (auto simp: lock_check_def batch_def split: if_splits)

lemma assert_u64_value: "length bs = 8 \<Longrightarrow> assert_u64 seen (Some bs) \<longleftrightarrow> seen = Some (from_be bs)"
  by (auto simp: assert_u64_def to_be_from_be be_roundtrip split: option.splits)

lemma lock_at_set [simp]: "lock_at key (set_key key (to_be 8 e) m) = Some e"
  by (simp add: lock_at_def store_simps be_roundtrip)

text \<open>
  A lock is obtained exactly when nobody holds one that is still valid, and then it is refused to everyone
  until its time has passed.
\<close>

lemma try_lock_iff:
  assumes "\<not> unreachable m"
  shows "\<exists>m'. try_lock now prefix key d m = Ok (\<not> (\<exists>e. lock_at (build_key prefix key) m = Some e \<and> now < e), m') \<and>
    \<not> unreachable m' \<and>
    lock_at (build_key prefix key) m' =
      (if \<exists>e. lock_at (build_key prefix key) m = Some e \<and> now < e then lock_at (build_key prefix key) m else Some (now + d))"
proof (cases "map_of (mkeys m) (build_key prefix key)")
  case None
  with assms lock_check_absent [OF assms None] show ?thesis
    by (simp add: try_lock_def lock_commit_def assert_u64_def store_simps)
next
  case (Some bs)
  show ?thesis
  proof (cases "length bs = 8")
    case True
    with Some assms lock_check_value [OF assms Some True] show ?thesis
      by (auto simp: try_lock_def lock_commit_def assert_u64_value store_simps)
  next
    case False
    with Some assms lock_check_corrupt [OF assms Some False] show ?thesis
      by (simp add: try_lock_def lock_commit_def assert_u64_def store_simps)
  qed
qed

section \<open>Workers\<close>

datatype phase = Idle | Checked "u64 option" u64 | Holding u64

record lock_world =
  wclock :: u64
  wstore :: mem_store
  wphase :: "nat \<Rightarrow> phase"

text \<open>A worker holds the lock while its time has not passed.\<close>

definition holds_lock :: "lock_world \<Rightarrow> nat \<Rightarrow> bool" where
  "holds_lock w c \<longleftrightarrow> (\<exists>e. wphase w c = Holding e \<and> wclock w < e)"

inductive lock_step :: "u64 \<Rightarrow> bytes \<Rightarrow> lock_world \<Rightarrow> lock_world \<Rightarrow> bool" for d :: u64 and key :: bytes where
  tick: "wclock w \<le> t \<Longrightarrow> lock_step d key w (w\<lparr>wclock := t\<rparr>)"
| check: "wphase w c = Idle \<Longrightarrow> lock_check (wclock w) key (wstore w) = Ok (Some seen, m) \<Longrightarrow>
    lock_step d key w (w\<lparr>wstore := m, wphase := (wphase w)(c := Checked seen (wclock w))\<rparr>)"
| refused: "wphase w c = Idle \<Longrightarrow> lock_check (wclock w) key (wstore w) = Ok (None, m) \<Longrightarrow>
    lock_step d key w (w\<lparr>wstore := m\<rparr>)"
| commit: "wphase w c = Checked seen t \<Longrightarrow> lock_commit t d key seen (wstore w) = Ok (True, m) \<Longrightarrow>
    lock_step d key w (w\<lparr>wstore := m, wphase := (wphase w)(c := Holding (t + d))\<rparr>)"
| lost: "wphase w c = Checked seen t \<Longrightarrow> lock_commit t d key seen (wstore w) = Ok (False, m) \<Longrightarrow>
    lock_step d key w (w\<lparr>wstore := m, wphase := (wphase w)(c := Idle)\<rparr>)"
| release: "holds_lock w c \<Longrightarrow> key_delete key (wstore w) = Ok m \<Longrightarrow>
    lock_step d key w (w\<lparr>wstore := m, wphase := (wphase w)(c := Idle)\<rparr>)"
| crash: "lock_step d key w (w\<lparr>wphase := (wphase w)(c := Idle)\<rparr>)"
| purge: "purge_in_memory_store (wclock w) (wstore w) = Ok m \<Longrightarrow> lock_step d key w (w\<lparr>wstore := m\<rparr>)"
| other_key: "store_ok m \<Longrightarrow> map_of (mkeys m) key = map_of (mkeys (wstore w)) key \<Longrightarrow>
    lock_step d key w (w\<lparr>wstore := m\<rparr>)"

definition lock_start :: "lock_world \<Rightarrow> bool" where
  "lock_start w \<longleftrightarrow> store_ok (wstore w) \<and> (\<forall>c. wphase w c = Idle)"

definition lock_inv :: "bytes \<Rightarrow> lock_world \<Rightarrow> bool" where
  "lock_inv key w \<longleftrightarrow>
     store_ok (wstore w) \<and>
     (\<forall>c e. wphase w c = Holding e \<longrightarrow> wclock w < e \<longrightarrow> map_of (mkeys (wstore w)) key = Some (to_be 8 e)) \<and>
     (\<forall>c c'. holds_lock w c \<longrightarrow> holds_lock w c' \<longrightarrow> c = c') \<and>
     (\<forall>c seen t. wphase w c = Checked seen t \<longrightarrow> t \<le> wclock w \<and> (\<forall>e. seen = Some e \<longrightarrow> e \<le> t))"

section \<open>Purging\<close>

lemma purge_scan_sub: "purge_scan now kvs = Ok (ks, cs) \<Longrightarrow> set ks \<union> set cs \<subseteq> fst ` set kvs"
proof (induction kvs arbitrary: ks cs)
  case (Cons kv kvs)
  then show ?case
    by (cases kv) (fastforce simp: result_iff split: if_split_asm prod.splits)
qed simp

lemma purge_scan_live:
  "purge_scan now kvs = Ok (ks, cs) \<Longrightarrow> map_of kvs key = Some v \<Longrightarrow> distinct (map fst kvs) \<Longrightarrow>
   purge_entry now v = Ok (False, x) \<Longrightarrow> key \<notin> set ks \<union> set cs"
proof (induction kvs arbitrary: ks cs)
  case (Cons kv kvs)
  obtain k u where kv: "kv = (k, u)" by (cases kv)
  show ?case
  proof (cases "k = key")
    case True
    with Cons.prems kv show ?thesis
      using purge_scan_sub [of now kvs] by (fastforce simp: result_iff split: if_split_asm)
  next
    case False
    with Cons kv show ?thesis
      by (fastforce simp: result_iff split: if_split_asm prod.splits)
  qed
qed simp

lemma fold_clear_key: "key \<notin> set ks \<Longrightarrow> map_of (mkeys (fold clear_key ks m)) key = map_of (mkeys m) key"
  by (induction ks arbitrary: m) (auto simp: store_simps)

lemma fold_clear_both:
  "key \<notin> set cs \<Longrightarrow>
   map_of (mkeys (fold (\<lambda>k m. clear_key k (clear_counter k m)) cs m)) key = map_of (mkeys m) key"
  by (induction cs arbitrary: m) (auto simp: store_simps)

lemma store_ok_folds:
  "store_ok m \<Longrightarrow> store_ok (fold clear_key ks m)"
  "store_ok m \<Longrightarrow> store_ok (fold (\<lambda>k m. clear_key k (clear_counter k m)) cs m)"
  by (induction ks arbitrary: m; simp add: store_simps) (induction cs arbitrary: m; simp add: store_simps)

lemma purge_keeps:
  assumes "purge_in_memory_store now m = Ok m'" "store_ok m"
  shows "store_ok m'"
    and "map_of (mkeys m) key = Some v \<Longrightarrow> purge_entry now v = Ok (False, x) \<Longrightarrow> map_of (mkeys m') key = Some v"
proof -
  obtain ks cs where scan: "purge_scan now (mkeys m) = Ok (ks, cs)"
    and m': "m' = fold (\<lambda>k m. clear_key k (clear_counter k m)) cs (fold clear_key ks m)"
    using assms(1) by (auto simp: purge_in_memory_store_def result_iff batch_Ok_iff)
  show "store_ok m'"
    using assms(2) by (simp add: m' store_ok_folds)
  assume v: "map_of (mkeys m) key = Some v" "purge_entry now v = Ok (False, x)"
  with purge_scan_live [OF scan v(1) _ v(2)] assms(2) show "map_of (mkeys m') key = Some v"
    by (simp add: m' fold_clear_key fold_clear_both store_ok_def)
qed

lemma purge_entry_lock: "now < e \<Longrightarrow> purge_entry now (to_be 8 e) = Ok (False, False)"
  using deserialize_be_u64_start [of e "[]"] by (auto simp: purge_entry_def)

section \<open>Mutual exclusion\<close>

lemma lock_invD:
  assumes "lock_inv key w"
  shows "store_ok (wstore w)"
    and "wphase w c = Holding e \<Longrightarrow> wclock w < e \<Longrightarrow> map_of (mkeys (wstore w)) key = Some (to_be 8 e)"
    and "holds_lock w c \<Longrightarrow> holds_lock w c' \<Longrightarrow> c = c'"
    and "wphase w c = Checked seen t \<Longrightarrow> t \<le> wclock w"
    and "wphase w c = Checked (Some e) t \<Longrightarrow> e \<le> t"
  using assms unfolding lock_inv_def by blast+

text \<open>A change of the store that keeps the entry of a lock someone holds.\<close>

lemma lock_inv_store:
  assumes "lock_inv key w" "store_ok m"
    and "\<And>e. map_of (mkeys (wstore w)) key = Some (to_be 8 e) \<Longrightarrow> wclock w < e \<Longrightarrow>
      map_of (mkeys m) key = Some (to_be 8 e)"
  shows "lock_inv key (w\<lparr>wstore := m\<rparr>)"
  using assms unfolding lock_inv_def holds_lock_def by auto

text \<open>A worker that stops holding.\<close>

lemma lock_inv_idle: "lock_inv key w \<Longrightarrow> lock_inv key (w\<lparr>wphase := (wphase w)(c := Idle)\<rparr>)"
  unfolding lock_inv_def holds_lock_def by (auto split: if_splits)

lemma lock_inv_check:
  assumes "lock_inv key w" "lock_check (wclock w) key (wstore w) = Ok (r, m)"
  shows "lock_inv key (w\<lparr>wstore := m\<rparr>)" and "\<And>e. r = Some (Some e) \<Longrightarrow> e \<le> wclock w"
proof -
  note up = lock_reachable [OF assms(2)]
  have "store_ok m \<and> (\<forall>e. map_of (mkeys (wstore w)) key = Some (to_be 8 e) \<longrightarrow> map_of (mkeys m) key = Some (to_be 8 e)) \<and>
      (\<forall>e. r = Some (Some e) \<longrightarrow> e \<le> wclock w)"
  proof (cases "map_of (mkeys (wstore w)) key")
    case None
    with assms lock_invD(1) [OF assms(1)] lock_check_absent [OF up None] show ?thesis by auto
  next
    case (Some bs)
    with assms lock_invD(1) [OF assms(1)] lock_check_value [OF up Some] lock_check_corrupt [OF up Some] show ?thesis
      by (cases "length bs = 8") (auto simp: store_simps not_less split: if_splits)
  qed
  then show "lock_inv key (w\<lparr>wstore := m\<rparr>)" and "\<And>e. r = Some (Some e) \<Longrightarrow> e \<le> wclock w"
    using lock_inv_store [OF assms(1)] by auto
qed

text \<open>A worker whose commit succeeds finds no other that still holds the lock.\<close>

lemma commit_free:
  assumes "lock_inv key w" "wphase w c = Checked seen t" "assert_u64 seen (map_of (mkeys (wstore w)) key)"
  shows "\<not> holds_lock w c'"
proof
  assume "holds_lock w c'"
  then obtain e where e: "wclock w < e" "map_of (mkeys (wstore w)) key = Some (to_be 8 e)"
    using lock_invD(2) [OF assms(1)] by (auto simp: holds_lock_def)
  with assms(3) have "seen = Some e"
    by (simp add: assert_u64_value be_roundtrip)
  with assms(2) lock_invD(4,5) [OF assms(1)] have "e \<le> wclock w"
    by (metis order_trans)
  with e(1) show False by simp
qed

lemma lock_inv_commit:
  assumes "lock_inv key w" "wphase w c = Checked seen t" "lock_commit t d key seen (wstore w) = Ok (True, m)"
  shows "lock_inv key (w\<lparr>wstore := m, wphase := (wphase w)(c := Holding (t + d))\<rparr>)"
proof -
  have m: "m = set_key key (to_be 8 (t + d)) (wstore w)" "assert_u64 seen (map_of (mkeys (wstore w)) key)"
    using assms(3) by (auto simp: lock_commit_def batch_Ok_iff split: if_splits)
  note free = commit_free [OF assms(1,2) m(2)]
  show ?thesis
    using lock_invD(1) [OF assms(1)] lock_invD(4,5) [OF assms(1)] free
    unfolding lock_inv_def holds_lock_def m(1) by (auto simp: store_simps split: if_splits)
qed

lemma lock_step_inv: "lock_step d key w w' \<Longrightarrow> lock_inv key w \<Longrightarrow> lock_inv key w'"
proof (induction rule: lock_step.induct)
  case (tick w t)
  then show ?case
    unfolding lock_inv_def holds_lock_def by simp (meson order_le_less_trans order_trans)
next
  case (check w c seen m)
  note keep = lock_inv_check [OF check.prems check.hyps(2)]
  show ?case
    using lock_invD [OF keep(1)] keep(2) unfolding lock_inv_def holds_lock_def by (auto split: if_splits)
next
  case (refused w c m)
  then show ?case by (blast intro: lock_inv_check)
next
  case (commit w c seen t m)
  then show ?case by (blast intro: lock_inv_commit)
next
  case (lost w c seen t m)
  then have "m = wstore w" by (auto simp: lock_commit_def batch_Ok_iff split: if_splits)
  with lost lock_inv_idle [of key w c] show ?case by simp
next
  case (release w c m)
  then have "m = clear_key key (wstore w)" by (auto simp: key_delete_def batch_Ok_iff)
  then show ?case
    using release lock_invD [OF release.prems]
    unfolding lock_inv_def holds_lock_def by (auto simp: store_simps split: if_splits)
next
  case (crash w c)
  then show ?case by (rule lock_inv_idle)
next
  case (purge w m)
  then show ?case
    using purge_keeps(1) [OF purge.hyps lock_invD(1) [OF purge.prems]]
      purge_keeps(2) [OF purge.hyps lock_invD(1) [OF purge.prems] _ purge_entry_lock]
    by (auto intro: lock_inv_store)
next
  case (other_key m w)
  then show ?case by (auto intro: lock_inv_store)
qed

interpretation lock_system: invariant_system "lock_start" "lock_step d key" "lock_inv key"
proof
  show "lock_start w \<Longrightarrow> lock_inv key w" for w
    by (simp add: lock_start_def lock_inv_def holds_lock_def)
qed (rule lock_step_inv)


definition sample_world :: "u64 \<Rightarrow> mem_store \<Rightarrow> phase \<Rightarrow> lock_world" where
  "sample_world t m p = \<lparr>wclock = t, wstore = m, wphase = (\<lambda>_. Idle)(0 := p)\<rparr>"

lemma sample_lock_reach:
  "reach lock_start (lock_step 600 [1]) (sample_world 5 (set_key [1] (to_be 8 (605 :: u64)) empty_store) (Holding 605))"
proof -
  have "reach lock_start (lock_step 600 [1]) (sample_world 5 empty_store Idle)"
    by (rule reach_start) (simp add: lock_start_def sample_world_def)
  moreover have "lock_step 600 [1] (sample_world 5 empty_store Idle) (sample_world 5 empty_store (Checked None 5))"
    using lock_step.check [of "sample_world 5 empty_store Idle" 0 "[1]" None empty_store 600]
    by (simp add: sample_world_def lock_check_def)
  moreover have "lock_step 600 [1] (sample_world 5 empty_store (Checked None 5))
      (sample_world 5 (set_key [1] (to_be 8 (605 :: u64)) empty_store) (Holding 605))"
    using lock_step.commit [of "sample_world 5 empty_store (Checked None 5)" 0 None 5 600 "[1]"
        "set_key [1] (to_be 8 (605 :: u64)) empty_store"]
    by (simp add: sample_world_def lock_commit_def assert_u64_def)
  ultimately show ?thesis
    by (blast intro: reach_step)
qed


text \<open>
  Releasing a lock does not check who holds it. When a worker runs past the time of its lock, a second worker
  obtains it; the first worker's release then removes the second worker's lock, and a third worker obtains it
  at once although the second one's time has not passed.
\<close>

theorem late_release_frees_other_lock:
  assumes "\<not> unreachable m" "lock_at (build_key prefix key) m = Some e" "e \<le> t" "t < t + d"
  shows "\<exists>m1 m2 m3. try_lock t prefix key d m = Ok (True, m1) \<and> lock_at (build_key prefix key) m1 = Some (t + d) \<and>
    remove_lock prefix key m1 = Ok m2 \<and> try_lock t prefix key d m2 = Ok (True, m3)"
proof -
  obtain m1 where m1: "try_lock t prefix key d m = Ok (True, m1)" "\<not> unreachable m1"
      "lock_at (build_key prefix key) m1 = Some (t + d)"
    using try_lock_iff [OF assms(1), of t prefix key d] assms(2) leD [OF assms(3)] by auto
  let ?m2 = "clear_key (build_key prefix key) m1"
  have m2: "remove_lock prefix key m1 = Ok ?m2" "\<not> unreachable ?m2" "lock_at (build_key prefix key) ?m2 = None"
    using m1(2) by (simp_all add: remove_lock_def key_delete_def lock_at_def store_simps)
  then show ?thesis
    using m1 try_lock_iff [OF m2(2), of t prefix key d] by auto
qed

theorem late_release_frees_other_lock_witness:
  "\<exists>m1 m2 m3. try_lock 900 21 [1] 600 (set_key [21, 1] (to_be 8 (605 :: u64)) empty_store) = Ok (True, m1) \<and>
    lock_at [21, 1] m1 = Some 1500 \<and>
    remove_lock 21 [1] m1 = Ok m2 \<and> try_lock 900 21 [1] 600 m2 = Ok (True, m3)"
  using late_release_frees_other_lock [of "set_key [21, 1] (to_be 8 (605 :: u64)) empty_store" 21 "[1]" 605 900 600]
  by (simp add: build_key_def store_simps)

end
