(* ===== verification/Leb128.thy ===== *)
theory Leb128
  imports Contracts
begin

text \<open>
  Variable-length integers (\<^verbatim>\<open>utils/src/codec/leb128.rs\<close>). The macro is instantiated at four
  widths with the list of shifts a decoder may use; here the width is the type and the shifts an
  argument. \<open>unat value < 0x80\<close> is \<^verbatim>\<open>value < 0x80\<close> at every width of the source.
\<close>

section \<open>Encoder\<close>

lemma unat_drop_bit_7: "unat (drop_bit 7 v) = unat v div 128" for v :: "'a::len word"
  using unat_drop_bit_eq [of 7 v] by (simp add: drop_bit_eq_div [where 'a = nat])

lemma drop_bit_7_less: "\<not> unat v < 128 \<Longrightarrow> unat (drop_bit 7 v) < unat v" for v :: "'a::len word"
  using div_less_dividend [of 128 "unat v"] by (simp add: unat_drop_bit_7)

function to_leb128_bytes :: "'a::len word \<Rightarrow> bytes" where
  "to_leb128_bytes value =
     (if unat value < 0x80 then [ucast value]
      else ucast ((value AND 0x7F) OR 0x80) # to_leb128_bytes (drop_bit 7 value))"
  by pat_completeness auto
termination
  by (relation "measure unat") (simp_all add: drop_bit_7_less)

declare to_leb128_bytes.simps [simp del]

definition push_leb128 :: "bytes \<Rightarrow> 'a::len word \<Rightarrow> bytes" where
  "push_leb128 out value = out @ to_leb128_bytes value"

text \<open>The same loop on a writer, which reports how many bytes it took or fails.\<close>

function to_leb128_writer ::
  "(bytes \<Rightarrow> 's \<Rightarrow> (nat \<times> 's, 'e) result) \<Rightarrow> 'a::len word \<Rightarrow> nat \<Rightarrow> 's \<Rightarrow> (nat \<times> 's, 'e) result" where
  "to_leb128_writer write value bytes_written out =
     (if unat value < 0x80 then
        and_then (write [ucast value] out) (\<lambda>(n, out). Ok (bytes_written + n, out))
      else
        and_then (write [ucast ((value AND 0x7F) OR 0x80)] out) (\<lambda>(n, out).
          to_leb128_writer write (drop_bit 7 value) (bytes_written + n) out))"
  by pat_completeness auto
termination
  by (relation "measure (\<lambda>(_, value, _, _). unat value)") (simp_all add: drop_bit_7_less)

declare to_leb128_writer.simps [simp del]

definition vec_write :: "bytes \<Rightarrow> bytes \<Rightarrow> (nat \<times> bytes, 'e) result" where
  "vec_write bs out = Ok (length bs, out @ bs)"

definition write_leb128 :: "bytes \<Rightarrow> 'a::len word \<Rightarrow> (nat \<times> bytes, 'e) result" where
  "write_leb128 out value = to_leb128_writer vec_write value 0 out"

section \<open>Decoder\<close>

fun leb128_loop :: "nat list \<Rightarrow> 'a::len word \<Rightarrow> nat \<Rightarrow> bytes \<Rightarrow> ('a word \<times> nat) option" where
  "leb128_loop [] acc pos input = None"
| "leb128_loop (shift # shifts) acc pos [] = None"
| "leb128_loop (shift # shifts) acc pos (b # input) =
     (if b AND 0x80 = 0 then Some (acc OR push_bit shift (ucast b), pos + 1)
      else leb128_loop shifts (acc OR push_bit shift (ucast (b AND 0x7F))) (pos + 1) input)"

definition from_leb128_bytes_pos :: "nat list \<Rightarrow> bytes \<Rightarrow> ('a::len word \<times> nat) option" where
  "from_leb128_bytes_pos shifts input = leb128_loop shifts 0 0 input"

definition from_leb128_bytes :: "nat list \<Rightarrow> bytes \<Rightarrow> 'a::len word option" where
  "from_leb128_bytes shifts input = map_option fst (leb128_loop shifts 0 0 input)"

text \<open>On an iterator: the value and what is left of the iterator.\<close>

fun from_leb128_it :: "nat list \<Rightarrow> 'a::len word \<Rightarrow> bytes \<Rightarrow> 'a word option \<times> bytes" where
  "from_leb128_it [] acc it = (None, it)"
| "from_leb128_it (shift # shifts) acc [] = (None, [])"
| "from_leb128_it (shift # shifts) acc (b # it) =
     (if b AND 0x80 = 0 then (Some (acc OR push_bit shift (ucast b)), it)
      else from_leb128_it shifts (acc OR push_bit shift (ucast (b AND 0x7F))) it)"

fun skip_leb128 :: "nat \<Rightarrow> bytes \<Rightarrow> nat option" where
  "skip_leb128 pos [] = None"
| "skip_leb128 pos (b # bs) = (if b AND 0x80 = 0 then Some (pos + 1) else skip_leb128 (pos + 1) bs)"

definition SHIFTS_U8 :: "nat list" where "SHIFTS_U8 = [0]"
definition SHIFTS_U16 :: "nat list" where "SHIFTS_U16 = [0, 7, 14]"
definition SHIFTS_U32 :: "nat list" where "SHIFTS_U32 = [0, 7, 14, 21, 28]"
definition SHIFTS_U64 :: "nat list" where "SHIFTS_U64 = [0, 7, 14, 21, 28, 35, 42, 49, 56, 63]"

section \<open>Round trip\<close>

text \<open>All shifts from the \<open>k\<close>-th on, up to the width.\<close>

definition shifts_from :: "nat \<Rightarrow> nat \<Rightarrow> nat list" where
  "shifts_from k n = map (\<lambda>i. 7 * i) [k..<n]"

lemma shifts_from_Cons: "k < n \<Longrightarrow> shifts_from k n = 7 * k # shifts_from (Suc k) n"
  by (simp add: shifts_from_def upt_conv_Cons)

lemma shifts_eq:
  "SHIFTS_U16 = shifts_from 0 3" "SHIFTS_U32 = shifts_from 0 5" "SHIFTS_U64 = shifts_from 0 10"
  by (simp_all add: shifts_from_def SHIFTS_U16_def SHIFTS_U32_def SHIFTS_U64_def upt_rec)

lemma and_0x7f: "v AND 0x7F = take_bit 7 v" for v :: "'a::len word"
  by (simp add: take_bit_eq_mask mask_eq_exp_minus_1)

lemma or_0x80: "v OR 0x80 = set_bit 7 v" for v :: "'a::len word"
  by (simp add: set_bit_eq_or push_bit_eq_mult)

lemma high_bit_clear: "b AND 0x80 = 0 \<longleftrightarrow> \<not> bit b 7" for b :: byte
  using and_exp_eq_0_iff_not_bit [of b 7] by simp

lemmas leb128_bits = and_0x7f or_0x80 bit_simps

lemma small_bits: "unat v < 128 \<Longrightarrow> bit v i \<Longrightarrow> i < 7" for v :: "'a::len word"
proof -
  assume "unat v < 128" and "bit v i"
  then have "take_bit 7 (unat v) = unat v" "bit (unat v) i"
    by (simp_all add: take_bit_nat_eq_self bit_unsigned_iff)
  then show ?thesis by (metis bit_take_bit_iff)
qed

text \<open>What one encoded byte carries.\<close>

lemma last_byte:
  assumes "unat v < 128"
  shows "\<not> bit (ucast v :: byte) 7" and "ucast (ucast v :: byte) = (v :: 'a::len word)"
proof -
  have small: "bit v i \<Longrightarrow> i < 7" "bit v i \<Longrightarrow> i < 8" for i
    using small_bits [OF assms, of i] by simp_all
  show "\<not> bit (ucast v :: byte) 7"
    using small(1) [of 7] by (auto simp: bit_simps)
  show "ucast (ucast v :: byte) = v"
    by (rule bit_word_eqI) (use small(2) in \<open>auto simp: bit_simps\<close>)
qed

lemma more_byte:
  assumes "8 \<le> LENGTH('a)"
  shows "bit (ucast ((v AND 0x7F) OR 0x80 :: 'a::len word) :: byte) 7"
    and "ucast ((ucast ((v AND 0x7F) OR 0x80) :: byte) AND 0x7F) = v AND 0x7F"
proof -
  show "bit (ucast ((v AND 0x7F) OR 0x80 :: 'a word) :: byte) 7"
    using assms by (simp add: leb128_bits)
  show "ucast ((ucast ((v AND 0x7F) OR 0x80) :: byte) AND 0x7F) = v AND 0x7F"
    by (rule bit_word_eqI) (use assms in \<open>auto simp: leb128_bits\<close>)
qed

lemma leb128_join:
  "(acc OR push_bit s (v AND 0x7F)) OR push_bit (s + 7) (drop_bit 7 v) = acc OR push_bit s v"
  for v acc :: "'a::len word"
proof (rule bit_word_eqI)
  fix i assume "i < LENGTH('a)"
  then show "bit ((acc OR push_bit s (v AND 0x7F)) OR push_bit (s + 7) (drop_bit 7 v)) i =
      bit (acc OR push_bit s v) i"
    by (cases "i < s + 7") (auto simp: leb128_bits)
qed

lemma leb128_loop_encoded:
  assumes "8 \<le> LENGTH('a)" "LENGTH('a) \<le> 7 * n" "k < n" "unat v < 2 ^ (LENGTH('a) - 7 * k)"
  shows "leb128_loop (shifts_from k n) acc pos (to_leb128_bytes v @ rest) =
    Some (acc OR push_bit (7 * k) (v :: 'a::len word), pos + length (to_leb128_bytes v))"
  using assms(3, 4)
proof (induction v arbitrary: k acc pos rule: to_leb128_bytes.induct)
  case (1 v)
  note enc = to_leb128_bytes.simps [of v]
  show ?case
  proof (cases "unat v < 128")
    case True
    then show ?thesis
      using last_byte [OF True] "1.prems" by (simp add: enc shifts_from_Cons high_bit_clear)
  next
    case False
    have "(2 :: nat) ^ 7 < 2 ^ (LENGTH('a) - 7 * k)"
      using False "1.prems"(2) by simp
    then have k: "7 * k + 7 < LENGTH('a)"
      by (simp only: power_strict_increasing_iff)
    have "7 + (LENGTH('a) - 7 * Suc k) = LENGTH('a) - 7 * k"
      using k by simp
    then have "(2 :: nat) ^ 7 * 2 ^ (LENGTH('a) - 7 * Suc k) = 2 ^ (LENGTH('a) - 7 * k)"
      by (simp only: power_add [symmetric])
    with "1.prems"(2) have "unat v < 128 * 2 ^ (LENGTH('a) - 7 * Suc k)"
      by simp
    then have "unat (drop_bit 7 v) < 2 ^ (LENGTH('a) - 7 * Suc k)"
      by (simp add: unat_drop_bit_7 less_mult_imp_div_less mult.commute)
    with "1.IH" [OF False, of "Suc k"] k assms(2)
    have "leb128_loop (shifts_from (Suc k) n) acc' pos' (to_leb128_bytes (drop_bit 7 v) @ rest) =
        Some (acc' OR push_bit (7 * k + 7) (drop_bit 7 v), pos' + length (to_leb128_bytes (drop_bit 7 v)))"
      for acc' pos'
      by (simp add: add.commute)
    then show ?thesis
      using False more_byte [OF assms(1), of v] "1.prems" leb128_join [of acc "7 * k" v]
      by (simp add: enc shifts_from_Cons high_bit_clear)
  qed
qed

lemma leb128_roundtrip_generic:
  assumes "8 \<le> LENGTH('a)" "LENGTH('a) \<le> 7 * n"
  shows "from_leb128_bytes_pos (shifts_from 0 n) (to_leb128_bytes v @ rest) =
    Some (v :: 'a::len word, length (to_leb128_bytes v))"
proof -
  have "0 < n" using assms by (cases n) auto
  then show ?thesis
    using leb128_loop_encoded [OF assms, of 0 v 0 0 rest] unat_bound [of v]
    by (simp add: from_leb128_bytes_pos_def)
qed

interpretation leb128_u16: prefix_code "to_leb128_bytes :: u16 \<Rightarrow> bytes" "from_leb128_bytes_pos SHIFTS_U16"
  unfolding shifts_eq by unfold_locales (rule leb128_roundtrip_generic; simp)

interpretation leb128_u32: prefix_code "to_leb128_bytes :: u32 \<Rightarrow> bytes" "from_leb128_bytes_pos SHIFTS_U32"
  unfolding shifts_eq by unfold_locales (rule leb128_roundtrip_generic; simp)

interpretation leb128_u64: prefix_code "to_leb128_bytes :: u64 \<Rightarrow> bytes" "from_leb128_bytes_pos SHIFTS_U64"
  unfolding shifts_eq by unfold_locales (rule leb128_roundtrip_generic; simp)

section \<open>The other readers and writers\<close>

lemma leb128_loop_pos:
  "leb128_loop shifts acc pos bs = Some (v, p) \<Longrightarrow> pos < p \<and> p \<le> pos + length shifts"
  by (induction shifts acc pos bs rule: leb128_loop.induct) (auto split: if_split_asm)

lemma from_leb128_it_eq:
  "from_leb128_it shifts acc bs =
     (case leb128_loop shifts acc pos bs of
        Some (v, p) \<Rightarrow> (Some v, drop (p - pos) bs)
      | None \<Rightarrow> (None, drop (length shifts) bs))"
proof (induction shifts acc pos bs rule: leb128_loop.induct)
  case (3 shift shifts acc pos b bs)
  have "leb128_loop shifts r (Suc pos) bs = Some (v, p) \<Longrightarrow> p - pos = Suc (p - Suc pos)" for r :: "'a word" and v p
    using leb128_loop_pos [of shifts r "Suc pos" bs v p] by auto
  then show ?case
    using 3 by (auto split: option.splits)
qed auto

lemma vec_write_one: "vec_write [b] out = Ok (1, out @ [b])"
  by (simp add: vec_write_def)

lemma to_leb128_writer_vec:
  "to_leb128_writer vec_write v n out = Ok (n + length (to_leb128_bytes v), out @ to_leb128_bytes v)"
proof (induction v arbitrary: n out rule: to_leb128_bytes.induct)
  case (1 v)
  then show ?case
    by (subst to_leb128_writer.simps, subst (1 2) to_leb128_bytes.simps) (simp add: vec_write_one)
qed

lemma write_leb128_eq: "write_leb128 out v = Ok (length (to_leb128_bytes v), push_leb128 out v)"
  by (simp add: write_leb128_def push_leb128_def to_leb128_writer_vec)

lemma skip_leb128_eq: "skip_leb128 pos (to_leb128_bytes v @ rest) = Some (pos + length (to_leb128_bytes v))"
  if "8 \<le> LENGTH('a)" for v :: "'a::len word"
proof (induction v arbitrary: pos rule: to_leb128_bytes.induct)
  case (1 v)
  then show ?case
    using last_byte(1) [of v] more_byte(1) [OF that, of v]
    by (subst (1 2) to_leb128_bytes.simps) (simp add: high_bit_clear)
qed

lemma leb128_length:
  assumes "8 \<le> LENGTH('a)" "LENGTH('a) \<le> 7 * n"
  shows "length (to_leb128_bytes (v :: 'a::len word)) \<le> n"
  using leb128_loop_pos [of "shifts_from 0 n" 0 0 "to_leb128_bytes v" v "length (to_leb128_bytes v)"]
    leb128_roundtrip_generic [OF assms, of v "[]"]
  by (simp add: from_leb128_bytes_pos_def shifts_from_def)

section \<open>Properties\<close>

text \<open>At 16, 32 and 64 bits every number is read back from its encoding, whatever bytes follow, with
  the position just behind it, and a sequence of encoded numbers determines the numbers; an encoding
  takes at most 3, 5 and 10 bytes.\<close>

theorem leb128_roundtrip:
  "from_leb128_bytes_pos SHIFTS_U16 (to_leb128_bytes (a :: u16) @ rest) = Some (a, length (to_leb128_bytes a)) \<and>
   from_leb128_bytes_pos SHIFTS_U32 (to_leb128_bytes (b :: u32) @ rest) = Some (b, length (to_leb128_bytes b)) \<and>
   from_leb128_bytes_pos SHIFTS_U64 (to_leb128_bytes (c :: u64) @ rest) = Some (c, length (to_leb128_bytes c)) \<and>
   inj (\<lambda>xs :: u64 list. concat (map to_leb128_bytes xs)) \<and>
   length (to_leb128_bytes a) \<le> 3 \<and> length (to_leb128_bytes b) \<le> 5 \<and> length (to_leb128_bytes c) \<le> 10"
proof (intro conjI)
  have none: "from_leb128_bytes_pos SHIFTS_U64 [] = (None :: (u64 \<times> nat) option)"
    by (simp add: from_leb128_bytes_pos_def SHIFTS_U64_def)
  show "inj (\<lambda>xs :: u64 list. concat (map to_leb128_bytes xs))"
    by (rule injI) (rule leb128_u64.concat_enc_inj [OF none])
qed (simp_all add: leb128_u16.dec_enc leb128_u32.dec_enc leb128_u64.dec_enc leb128_length)

text \<open>At 8 bits the decoder knows a single shift, so no number from 128 on is read back although the
  encoder writes it in two bytes.\<close>

theorem leb128_u8_loses_high_values:
  "from_leb128_bytes_pos SHIFTS_U8 (to_leb128_bytes (v :: byte) @ rest) =
     (if v < 128 then Some (v, 1) else None)"
  using last_byte [of v] more_byte(1) [where 'a = 8, of v] to_leb128_bytes.simps [of v]
  by (simp add: from_leb128_bytes_pos_def SHIFTS_U8_def high_bit_clear word_less_nat_alt)

end
