(* ===== verification/Datetime.thy ===== *)
theory Datetime
  imports Text Calendar Contracts "HOL-Library.Signed_Division"
begin

text \<open>
  Dates of the registry (\<^verbatim>\<open>registry/src/types/datetime.rs\<close>): a timestamp in seconds, its civil date and
  its text. The division of the code rounds towards zero. Against the reference calendar: the timestamp
  of a date is that of its day, and a date printed from a timestamp is read back to it.
\<close>

section \<open>Dates\<close>

type_synonym timestamp = "64 word"

record date_time =
  year :: u16
  month :: byte
  day :: byte
  hour :: byte
  minute :: byte
  second :: byte
  tz_before_gmt :: bool
  tz_hour :: byte
  tz_minute :: byte

definition dt_from_timestamp :: "timestamp \<Rightarrow> date_time" where
  "dt_from_timestamp t =
     (let z = sint t sdiv 86400 + 719468; seconds = sint t smod 86400;
          era = (if z \<ge> 0 then z else z - 146096) sdiv 146097;
          doe = nat (z - era * 146097);
          yoe = (doe - doe div 1460 + doe div 36524 - doe div 146096) div 365;
          y = int yoe + era * 400;
          doy = doe - (365 * yoe + yoe div 4 - yoe div 100);
          mp = (5 * doy + 2) div 153;
          d = doy - (153 * mp + 2) div 5 + 1;
          m = (if mp < 10 then mp + 3 else mp - 9)
      in \<lparr>year = word_of_int (y + (if m \<le> 2 then 1 else 0)), month = of_nat m, day = of_nat d,
          hour = word_of_int (seconds sdiv 3600), minute = word_of_int ((seconds sdiv 60) smod 60),
          second = word_of_int (seconds smod 60), tz_before_gmt = False, tz_hour = 0, tz_minute = 0\<rparr>)"

definition dt_is_valid :: "date_time \<Rightarrow> bool" where
  "dt_is_valid dt \<longleftrightarrow>
     tz_hour dt \<le> 23 \<and> 1970 \<le> year dt \<and> year dt \<le> 3000 \<and> tz_minute dt \<le> 59 \<and> 1 \<le> month dt \<and> month dt \<le> 12 \<and>
     1 \<le> day dt \<and> day dt \<le> 31 \<and> hour dt \<le> 23 \<and> minute dt \<le> 59 \<and> second dt \<le> 59"

definition dt_timestamp :: "date_time \<Rightarrow> timestamp" where
  "dt_timestamp dt =
     (let mon = ucast (month dt) :: u32;
          m_adj = mon - 3;
          carry = (if m_adj > mon then 1 else 0) :: int;
          adjust = (if carry > 0 then 12 else 0) :: u32;
          y_adj = int (unat (year dt)) + 4800 - carry;
          month_days = ((m_adj + adjust) * 62719 + 769) div 2048;
          leap_days = y_adj sdiv 4 - y_adj sdiv 100 + y_adj sdiv 400
      in word_of_int
           ((y_adj * 365 + leap_days + int (unat month_days) + (int (unat (day dt)) - 1) - 2472632) * 86400
            + int (unat (hour dt)) * 3600 + int (unat (minute dt)) * 60 + int (unat (second dt))
            + (int (unat (tz_hour dt)) * 3600 + int (unat (tz_minute dt)) * 60) * (if tz_before_gmt dt then 1 else - 1)))"

section \<open>Text\<close>

record dt_scan =
  dpos :: nat
  parts :: "nat list"
  parts_sizes :: "nat list"
  skip_digits :: bool
  is_plus :: bool

definition new_scan :: dt_scan where
  "new_scan = \<lparr>dpos = 0, parts = replicate 8 0, parts_sizes = [4, 2, 2, 2, 2, 2, 2, 2],
     skip_digits = False, is_plus = True\<rparr>"

text \<open>One byte; \<open>None\<close> leaves the loop. Reading past the eight parts would panic.\<close>

definition dt_step :: "dt_scan \<Rightarrow> byte \<Rightarrow> (dt_scan option, unit) result" where
  "dt_step s ch =
     (if is_digit ch then
        if skip_digits s then Ok (Some s)
        else
          and_then (index_at (parts_sizes s) (dpos s)) (\<lambda>n.
          and_then (index_at (parts s) (dpos s)) (\<lambda>v.
            if 0 < n then
              Ok (Some (s\<lparr>parts_sizes := (parts_sizes s)[dpos s := n - 1],
                          parts := (parts s)[dpos s := v + digit_value ch * 10 ^ (n - 1)]\<rparr>))
            else Ok None))
      else if ch = 45 then
        if dpos s \<le> 1 then Ok (Some (s\<lparr>dpos := dpos s + 1\<rparr>))
        else if dpos s = 5 then Ok (Some (s\<lparr>dpos := 6, is_plus := False, skip_digits := False\<rparr>))
        else Ok None
      else if ch = 84 \<and> dpos s = 2 then Ok (Some (s\<lparr>dpos := 3\<rparr>))
      else if ch = 58 \<and> dpos s \<in> {3, 4, 6} then Ok (Some (s\<lparr>dpos := dpos s + 1\<rparr>))
      else if ch = 43 \<and> dpos s = 5 then Ok (Some (s\<lparr>dpos := 6, skip_digits := False\<rparr>))
      else if ch = 46 \<and> dpos s = 5 then Ok (Some (s\<lparr>skip_digits := True\<rparr>))
      else if ch = 90 \<or> ch = 122 then Ok (Some s)
      else Ok None)"

fun dt_loop :: "dt_scan \<Rightarrow> bytes \<Rightarrow> (dt_scan, unit) result" where
  "dt_loop s [] = Ok s"
| "dt_loop s (ch # rest) =
     and_then (dt_step s ch) (\<lambda>r. case r of Some s' \<Rightarrow> dt_loop s' rest | None \<Rightarrow> Ok s)"

definition dt_of_scan :: "dt_scan \<Rightarrow> date_time" where
  "dt_of_scan s =
     \<lparr>year = of_nat (parts s ! 0), month = of_nat (parts s ! 1), day = of_nat (parts s ! 2),
      hour = of_nat (parts s ! 3), minute = of_nat (parts s ! 4), second = of_nat (parts s ! 5),
      tz_before_gmt = (\<not> is_plus s), tz_hour = of_nat (parts s ! 6), tz_minute = of_nat (parts s ! 7)\<rparr>"

definition datetime_from_str :: "bytes \<Rightarrow> (timestamp, unit) result" where
  "datetime_from_str s =
     and_then (dt_loop new_scan s) (\<lambda>sc.
       if 5 \<le> dpos sc \<and> dt_is_valid (dt_of_scan sc) then Ok (dt_timestamp (dt_of_scan sc)) else Err ())"

definition pad2 :: "nat \<Rightarrow> bytes" where
  "pad2 n = (if n < 10 then 48 # show_nat n else show_nat n)"

definition pad4 :: "nat \<Rightarrow> bytes" where
  "pad4 n = replicate (4 - length (show_nat n)) 48 @ show_nat n"

definition show_datetime :: "timestamp \<Rightarrow> bytes" where
  "show_datetime t =
     (let dt = dt_from_timestamp t in
      pad4 (unat (year dt)) @ [45] @ pad2 (unat (month dt)) @ [45] @ pad2 (unat (day dt)) @ [84] @
      pad2 (unat (hour dt)) @ [58] @ pad2 (unat (minute dt)) @ [58] @ pad2 (unat (second dt)) @ [90])"

definition ts_is_valid :: "timestamp \<Rightarrow> bool" where
  "ts_is_valid t \<longleftrightarrow> t \<noteq> 2 ^ 63 - 1"

definition add_seconds :: "timestamp \<Rightarrow> timestamp \<Rightarrow> timestamp" where
  "add_seconds t n = (if ts_is_valid t then t + n else t)"

section \<open>Timestamps against the calendar\<close>

lemma month_cases: "1 \<le> m \<Longrightarrow> m \<le> 12 \<Longrightarrow> m \<in> {1, 2, 3, 4, 5, 6, 7, 8, 9, 10, 11, 12}" for m :: byte
proof -
  assume "1 \<le> m" "m \<le> 12"
  then have "1 \<le> unat m" "unat m \<le> 12" by (simp_all add: word_le_nat_alt)
  then have "unat m \<in> set [1..<13]" by simp
  moreover have "[1..<13] = [1, 2, 3, 4, 5, 6, 7, 8, 9, 10, 11, 12 :: nat]" by code_simp
  ultimately have "unat m \<in> {1, 2, 3, 4, 5, 6, 7, 8, 9, 10, 11, 12}" by (simp only: list.set)
  then have "of_nat (unat m) \<in> {1, 2, 3, 4, 5, 6, 7, 8, 9, 10, 11, 12 :: byte}" by (elim insertE emptyE) simp_all
  then show ?thesis by simp
qed

lemma month_days_formula:
  assumes "1 \<le> m" "m \<le> (12 :: byte)"
  defines "mon \<equiv> ucast m :: u32"
  shows "mon - 3 > mon \<longleftrightarrow> unat m \<le> 2"
    and "unat (((mon - 3 + (if mon - 3 > mon then 12 else 0)) * 62719 + 769) div 2048) =
      (153 * (if unat m \<le> 2 then unat m + 9 else unat m - 3) + 2) div 5"
proof -
  have "m \<in> {1, 2, 3, 4, 5, 6, 7, 8, 9, 10, 11, 12}"
    by (rule month_cases [OF assms(1,2)])
  then show "mon - 3 > mon \<longleftrightarrow> unat m \<le> 2"
    "unat (((mon - 3 + (if mon - 3 > mon then 12 else 0)) * 62719 + 769) div 2048) =
      (153 * (if unat m \<le> 2 then unat m + 9 else unat m - 3) + 2) div 5"
    by (auto simp: mon_def word_less_alt unsigned_minus_1_eq_mask mask_eq_exp_minus_1)
qed

lemma sdiv_nonneg: "0 \<le> a \<Longrightarrow> 0 < b \<Longrightarrow> a sdiv b = a div (b :: int)" "0 \<le> a \<Longrightarrow> 0 < b \<Longrightarrow> a smod b = a mod b"
  by (simp_all add: signed_divide_int_def signed_modulo_int_def sgn_if minus_div_mult_eq_mod)

lemma march_year_days:
  "int Y + 4800 = y \<Longrightarrow> y * 365 + (y sdiv 4 - y sdiv 100 + y sdiv 400) = int (march_days Y) + 1753164"
proof -
  assume "int Y + 4800 = y"
  then have y: "y = int (400 * 12 + Y)" by simp
  have "int (march_days (400 * 12 + Y)) + int ((400 * 12 + Y) div 100) =
      365 * y + int ((400 * 12 + Y) div 4) + int ((400 * 12 + Y) div 400)"
    using arg_cong [OF march_days_add [of "400 * 12 + Y"], of int]
    by (simp only: y of_nat_add of_nat_mult of_nat_numeral)
  moreover have "int (march_days (400 * 12 + Y)) = int (march_days Y) + 1753164"
    by (simp only: march_days_era)
  moreover have "y sdiv 4 = int ((400 * 12 + Y) div 4)" "y sdiv 100 = int ((400 * 12 + Y) div 100)"
    "y sdiv 400 = int ((400 * 12 + Y) div 400)"
    unfolding y by (simp_all only: sdiv_nonneg(1) of_nat_0_le_iff zero_less_numeral zdiv_int of_nat_numeral)
  ultimately show ?thesis by linarith
qed

text \<open>The seconds since 1970 of a date with a time zone, by the reference calendar.\<close>

definition calendar_seconds :: "date_time \<Rightarrow> int" where
  "calendar_seconds dt =
     (int (month_start (unat (year dt)) (unat (month dt))) + int (unat (day dt)) - 1) * 86400
     + int (unat (hour dt)) * 3600 + int (unat (minute dt)) * 60 + int (unat (second dt))
     + (int (unat (tz_hour dt)) * 3600 + int (unat (tz_minute dt)) * 60) * (if tz_before_gmt dt then 1 else - 1)"

lemma valid_fields:
  assumes "dt_is_valid dt"
  shows "1970 \<le> unat (year dt)" "unat (year dt) \<le> 3000" "1 \<le> unat (month dt)" "unat (month dt) \<le> 12"
    "1 \<le> unat (day dt)" "unat (day dt) \<le> 31" "unat (hour dt) \<le> 23" "unat (minute dt) \<le> 59" "unat (second dt) \<le> 59"
    "unat (tz_hour dt) \<le> 23" "unat (tz_minute dt) \<le> 59"
  using assms by (simp_all add: dt_is_valid_def word_le_nat_alt)

lemma dt_timestamp_calendar:
  assumes "1970 \<le> unat (year dt)" "1 \<le> month dt" "month dt \<le> 12"
  shows "dt_timestamp dt = word_of_int (calendar_seconds dt)"
proof -
  let ?m = "unat (month dt)" and ?y = "unat (year dt)"
  define Y where "Y = (if ?m \<le> 2 then ?y - 1 else ?y)"
  have m: "1 \<le> ?m" "?m \<le> 12" using assms(2,3) by (simp_all add: word_le_nat_alt)
  have start: "month_start ?y ?m + 719468 =
      march_days Y + (153 * (if ?m \<le> 2 then ?m + 9 else ?m - 3) + 2) div 5"
  proof (cases "?m \<le> 2")
    case True
    with m have "?m = 1 \<or> ?m = 2" by linarith
    with month_start_january [OF assms(1) this] True show ?thesis by (simp add: Y_def)
  next
    case False
    with m month_start_march [OF assms(1), of ?m] show ?thesis by (simp add: Y_def)
  qed
  have y: "int Y + 4800 = int ?y + 4800 - (if ?m \<le> 2 then 1 else 0)"
    using assms(1) by (simp add: Y_def)
  let ?mon = "ucast (month dt) :: u32"
  have c: "(if ?mon - 3 > ?mon then 1 else 0 :: int) = (if ?m \<le> 2 then 1 else 0)"
    "(if 0 < (if ?m \<le> 2 then 1 else 0 :: int) then 12 else 0 :: u32) = (if ?mon - 3 > ?mon then 12 else 0)"
    using month_days_formula(1) [OF assms(2,3)] by simp_all
  define M where "M = unat (((?mon - 3 + (if ?mon - 3 > ?mon then 12 else 0)) * 62719 + 769) div 2048)"
  define A where "A = int ?y + 4800 - (if ?m \<le> 2 then 1 else 0)"
  have "month_start ?y ?m + 719468 = march_days Y + M"
    using start by (simp only: month_days_formula(2) [OF assms(2,3)] M_def)
  then have "int (month_start ?y ?m) + 719468 = int (march_days Y) + int M" by linarith
  then have days: "A * 365 + (A sdiv 4 - A sdiv 100 + A sdiv 400) + int M + (d - 1) - 2472632 =
      int (month_start ?y ?m) + d - 1" for d
    using march_year_days [of Y A] y by (simp add: A_def)
  show ?thesis
    unfolding dt_timestamp_def Let_def calendar_seconds_def c M_def [symmetric] A_def [symmetric] days ..
qed

section \<open>Dates of timestamps\<close>

text \<open>The code over natural numbers, for a timestamp that is not before 1970.\<close>

lemma dt_from_timestamp_civil:
  assumes "sint t = int n" "s = n mod 86400"
  shows "dt_from_timestamp t = (case civil (n div 86400) of (y, m, d) \<Rightarrow>
      \<lparr>year = of_nat y, month = of_nat m, day = of_nat d, hour = of_nat (s div 3600), minute = of_nat (s div 60 mod 60),
       second = of_nat (s mod 60), tz_before_gmt = False, tz_hour = 0, tz_minute = 0\<rparr>)"
proof -
  have z: "sint t sdiv 86400 + 719468 = int (n div 86400 + 719468)" and sec: "sint t smod 86400 = int (n mod 86400)"
    by (simp_all add: assms(1) sdiv_nonneg zdiv_int zmod_int)
  have era: "(if int z \<ge> 0 then int z else int z - 146096) sdiv 146097 = int (z div 146097)" for z
    by (simp add: sdiv_nonneg zdiv_int)
  have doe: "nat (int z - int (z div 146097) * 146097) = z mod 146097" for z
    by (simp add: modulo_nat_def nat_minus_as_int)
  have y: "int a + int b * 400 + (if c then 1 else 0) = int (if c then Suc (400 * b + a) else 400 * b + a)" for a b c
    by simp
  have s: "int k sdiv 3600 = int (k div 3600)" "(int k sdiv 60) smod 60 = int (k div 60 mod 60)" "int k smod 60 = int (k mod 60)" for k
    by (simp_all add: sdiv_nonneg zdiv_int zmod_int)
  show ?thesis
    unfolding dt_from_timestamp_def civil_def assms(2) Let_def z sec era doe y s of_int_of_nat_eq split_conv ..
qed

lemma time_of_day:
  fixes s :: nat
  assumes "s < 86400"
  shows "s div 3600 \<le> 23" "s div 60 mod 60 \<le> 59" "s mod 60 \<le> 59" "s div 3600 * 3600 + s div 60 mod 60 * 60 + s mod 60 = s"
proof -
  show "s div 3600 \<le> 23" using assms by (simp add: less_Suc_eq_le [symmetric] div_less_iff_less_mult)
  have "s div 3600 = s div 60 div 60" by (simp add: div_mult2_eq [symmetric])
  then have "s div 3600 * 60 + s div 60 mod 60 = s div 60" by (simp only: div_mult_mod_eq)
  moreover have "s div 60 * 60 + s mod 60 = s" by (rule div_mult_mod_eq)
  ultimately show "s div 3600 * 3600 + s div 60 mod 60 * 60 + s mod 60 = s" by linarith
qed (simp_all add: less_Suc_eq_le [symmetric])

text \<open>The last second of the year 3000.\<close>

definition LAST_SECOND :: int where "LAST_SECOND = 32535215999"

lemma dt_from_timestamp_calendar:
  assumes "0 \<le> sint t" "sint t \<le> LAST_SECOND"
  shows "dt_is_valid (dt_from_timestamp t)" "calendar_seconds (dt_from_timestamp t) = sint t"
    "tz_hour (dt_from_timestamp t) = 0" "tz_minute (dt_from_timestamp t) = 0" "\<not> tz_before_gmt (dt_from_timestamp t)"
proof -
  define n where "n = nat (sint t)"
  define s where "s = n mod 86400"
  have n: "sint t = int n" using assms(1) by (simp add: n_def)
  obtain y m d where c: "civil (n div 86400) = (y, m, d)" by (metis prod_cases3)
  note code = dt_from_timestamp_civil [OF n s_def, unfolded c split_conv]
  then show "tz_hour (dt_from_timestamp t) = 0" "tz_minute (dt_from_timestamp t) = 0" "\<not> tz_before_gmt (dt_from_timestamp t)"
    by simp_all
  have "n div 86400 < year_start 1031"
    using assms(2) by (simp add: n LAST_SECOND_def div_less_iff_less_mult year_start_eq march_days_def)
  then have ym: "1970 \<le> y" "y \<le> 3000" "1 \<le> m" "m \<le> 12"
    using civil_year_bound [OF c, of 1031] civil_correct(1) [OF c] by (auto simp: in_month_def)
  note d = civil_correct(2-4) [OF c]
  have "s < 86400" by (simp add: s_def)
  note tod = time_of_day [OF this]
  have u: "unat (of_nat y :: u16) = y" "unat (of_nat m :: byte) = m" "unat (of_nat d :: byte) = d"
    "unat (of_nat (s div 3600) :: byte) = s div 3600" "unat (of_nat (s div 60 mod 60) :: byte) = s div 60 mod 60"
    "unat (of_nat (s mod 60) :: byte) = s mod 60"
    using ym d tod by (simp_all add: unat_of_nat)
  show "dt_is_valid (dt_from_timestamp t)"
    using ym d tod by (simp add: dt_is_valid_def code word_le_nat_alt u)
  have "n = n div 86400 * 86400 + s" by (simp add: s_def)
  moreover have "int (month_start y m) + int d - 1 = int (n div 86400)" using d(1) by linarith
  ultimately show "calendar_seconds (dt_from_timestamp t) = sint t"
    using tod(4) by (simp add: calendar_seconds_def code u n)
qed

section \<open>Reading a printed date\<close>

text \<open>Two digits, and four, are read into their part.\<close>

lemma pad2_digits: "n < 100 \<Longrightarrow> pad2 n = [of_nat (48 + n div 10), of_nat (48 + n mod 10)]"
proof -
  assume "n < 100"
  then have "n div 10 < 10" by (simp add: div_less_iff_less_mult)
  then show ?thesis
    by (cases "n < 10") (simp_all add: pad2_def show_nat.simps [of n] show_nat.simps [of "n div 10"])
qed

lemma pad4_digits:
  assumes "1000 \<le> n" "n < 10000"
  shows "pad4 n = [of_nat (48 + n div 1000), of_nat (48 + n div 100 mod 10), of_nat (48 + n div 10 mod 10), of_nat (48 + n mod 10)]"
proof -
  have "n div 10 div 10 = n div 100" "n div 100 div 10 = n div 1000" by (simp_all add: div_mult2_eq [symmetric])
  moreover have "\<not> n < 10" "\<not> n div 10 < 10" "\<not> n div 100 < 10" "n div 1000 < 10"
    using assms by (simp_all add: div_less_iff_less_mult)
  ultimately have "show_nat n = [of_nat (48 + n div 1000), of_nat (48 + n div 100 mod 10), of_nat (48 + n div 10 mod 10), of_nat (48 + n mod 10)]"
    by (simp add: show_nat.simps [of n] show_nat.simps [of "n div 10"] show_nat.simps [of "n div 100"] show_nat.simps [of "n div 1000"])
  then show ?thesis by (simp add: pad4_def)
qed

lemma step_digit:
  assumes "k < 10" "\<not> skip_digits s" "dpos s < length (parts s)" "length (parts_sizes s) = length (parts s)"
    "parts_sizes s ! dpos s = Suc n"
  shows "dt_step s (of_nat (48 + k)) =
    Ok (Some (s\<lparr>parts_sizes := (parts_sizes s)[dpos s := n], parts := (parts s)[dpos s := parts s ! dpos s + k * 10 ^ n]\<rparr>))"
  using digit_of_nat [OF assms(1)] assms(2-) by (simp add: dt_step_def del: of_nat_add)

lemma loop_pad2:
  assumes "n < 100" "\<not> skip_digits s" "dpos s < length (parts s)" "length (parts_sizes s) = length (parts s)"
    "parts_sizes s ! dpos s = 2"
  shows "dt_loop s (pad2 n @ rest) =
    dt_loop (s\<lparr>parts_sizes := (parts_sizes s)[dpos s := 0], parts := (parts s)[dpos s := parts s ! dpos s + n]\<rparr>) rest"
proof -
  have "n div 10 < 10" "n mod 10 < 10" using assms(1) by (simp_all add: div_less_iff_less_mult)
  then show ?thesis
    using assms(2-) step_digit [of "n div 10" s 1]
      step_digit [of "n mod 10" "s\<lparr>parts_sizes := (parts_sizes s)[dpos s := 1], parts := (parts s)[dpos s := parts s ! dpos s + n div 10 * 10]\<rparr>" 0]
    by (simp add: pad2_digits [OF assms(1)] del: of_nat_add) (simp add: algebra_simps)
qed

lemma loop_digits:
  assumes "k < 10" "\<not> skip_digits s" "dpos s < length (parts s)" "length (parts_sizes s) = length (parts s)"
    "parts_sizes s ! dpos s = Suc n"
  shows "dt_loop s (of_nat (48 + k) # rest) =
    dt_loop (s\<lparr>parts_sizes := (parts_sizes s)[dpos s := n], parts := (parts s)[dpos s := parts s ! dpos s + k * 10 ^ n]\<rparr>) rest"
  using step_digit [OF assms] by (simp del: of_nat_add)

definition year_scan :: "nat \<Rightarrow> nat \<Rightarrow> dt_scan" where
  "year_scan y n = \<lparr>dpos = 0, parts = [y, 0, 0, 0, 0, 0, 0, 0], parts_sizes = [n, 2, 2, 2, 2, 2, 2, 2],
     skip_digits = False, is_plus = True\<rparr>"

lemma loop_year: "k < 10 \<Longrightarrow> dt_loop (year_scan y (Suc n)) (of_nat (48 + k) # rest) = dt_loop (year_scan (y + k * 10 ^ n) n) rest"
  by (subst loop_digits [where n = n]) (simp_all add: year_scan_def)

lemma loop_pad4:
  assumes "1000 \<le> n" "n < 10000"
  shows "dt_loop new_scan (pad4 n @ rest) = dt_loop (year_scan n 0) rest"
proof -
  have small: "n div 1000 < 10" "n div 100 mod 10 < 10" "n div 10 mod 10 < 10" "n mod 10 < 10"
    using assms by (simp_all add: div_less_iff_less_mult)
  have "n = n div 10 * 10 + n mod 10" "n div 10 = n div 100 * 10 + n div 10 mod 10"
    "n div 100 = n div 1000 * 10 + n div 100 mod 10"
    using div_mult_mod_eq [of "n div 10" 10] div_mult_mod_eq [of "n div 100" 10] by (simp_all add: div_mult2_eq [symmetric])
  moreover have pow: "(10 :: nat) ^ 3 = 1000" "(10 :: nat) ^ 2 = 100" "(10 :: nat) ^ 1 = 10" "(10 :: nat) ^ 0 = 1" by simp_all
  ultimately have digits: "0 + n div 1000 * 10 ^ 3 + n div 100 mod 10 * 10 ^ 2 + n div 10 mod 10 * 10 ^ 1 + n mod 10 * 10 ^ 0 = n"
    by (simp only: pow)
  have suc: "Suc 3 = 4" "Suc 2 = 3" "Suc 1 = 2" by simp_all
  have start: "new_scan = year_scan 0 4" by (simp add: new_scan_def year_scan_def numeral_eq_Suc)
  show ?thesis
    by (simp only: start pad4_digits [OF assms] append_Cons append_Nil digits
        loop_year [OF small(1), of _ 3, unfolded suc] loop_year [OF small(2), of _ 2, unfolded suc]
        loop_year [OF small(3), of _ 1, unfolded suc] loop_year [OF small(4), of _ 0, folded One_nat_def])
qed

lemma loop_sep:
  "dpos s \<le> 1 \<Longrightarrow> dt_loop s (45 # rest) = dt_loop (s\<lparr>dpos := dpos s + 1\<rparr>) rest"
  "dpos s = 2 \<Longrightarrow> dt_loop s (84 # rest) = dt_loop (s\<lparr>dpos := 3\<rparr>) rest"
  "dpos s \<in> {3, 4} \<Longrightarrow> dt_loop s (58 # rest) = dt_loop (s\<lparr>dpos := dpos s + 1\<rparr>) rest"
  "dt_loop s (90 # rest) = dt_loop s rest"
  by (auto simp: dt_step_def is_digit_def)

lemma loop_printed:
  assumes "1000 \<le> y" "y < 10000" "m < 100" "d < 100" "h < 100" "mi < 100" "sec < 100"
  shows "dt_loop new_scan (pad4 y @ [45] @ pad2 m @ [45] @ pad2 d @ [84] @ pad2 h @ [58] @ pad2 mi @ [58] @ pad2 sec @ [90]) =
    Ok \<lparr>dpos = 5, parts = [y, m, d, h, mi, sec, 0, 0], parts_sizes = [0, 0, 0, 0, 0, 0, 2, 2], skip_digits = False, is_plus = True\<rparr>"
proof -
  have "dt_loop new_scan (pad4 y @ [45] @ pad2 m @ [45] @ pad2 d @ [84] @ pad2 h @ [58] @ pad2 mi @ [58] @ pad2 sec @ [90]) =
      dt_loop \<lparr>dpos = 0, parts = [y, 0, 0, 0, 0, 0, 0, 0], parts_sizes = [0, 2, 2, 2, 2, 2, 2, 2], skip_digits = False, is_plus = True\<rparr>
        ([45] @ pad2 m @ [45] @ pad2 d @ [84] @ pad2 h @ [58] @ pad2 mi @ [58] @ pad2 sec @ [90])"
    by (simp only: loop_pad4 [OF assms(1,2)] year_scan_def)
  also have "\<dots> = Ok \<lparr>dpos = 5, parts = [y, m, d, h, mi, sec, 0, 0], parts_sizes = [0, 0, 0, 0, 0, 0, 2, 2], skip_digits = False, is_plus = True\<rparr>"
    using assms by (simp add: loop_sep loop_pad2 del: dt_loop.simps(2))
  finally show ?thesis .
qed

text \<open>No text makes the parser read past its parts.\<close>

lemma dt_loop_no_panic:
  "dpos s \<le> 7 \<Longrightarrow> length (parts s) = 8 \<Longrightarrow> length (parts_sizes s) = 8 \<Longrightarrow> dt_loop s bs \<noteq> Panic"
proof (induction s bs rule: dt_loop.induct)
  case (2 s ch rest)
  have "dt_step s ch \<noteq> Panic" using "2.prems" by (simp add: dt_step_def)
  moreover have "dpos s' \<le> 7 \<and> length (parts s') = 8 \<and> length (parts_sizes s') = 8" if "dt_step s ch = Ok (Some s')" for s'
    using that "2.prems" by (auto simp: dt_step_def split: if_split_asm)
  ultimately show ?case
    using "2.IH" by (cases "dt_step s ch") (auto split: option.splits)
qed simp

definition printable_date :: "timestamp \<Rightarrow> bool" where
  "printable_date t \<longleftrightarrow> 0 \<le> sint t \<and> sint t \<le> LAST_SECOND"

lemma read_printed_date:
  assumes "printable_date t"
  shows "datetime_from_str (show_datetime t) = Ok t"
proof -
  define dt where "dt = dt_from_timestamp t"
  note cal = dt_from_timestamp_calendar [OF assms [unfolded printable_date_def, THEN conjunct1]
      assms [unfolded printable_date_def, THEN conjunct2], folded dt_def]
  note f = valid_fields [OF cal(1)]
  define sc where "sc = \<lparr>dpos = 5, parts = [unat (year dt), unat (month dt), unat (day dt), unat (hour dt), unat (minute dt), unat (second dt), 0, 0],
      parts_sizes = [0, 0, 0, 0, 0, 0, 2, 2], skip_digits = False, is_plus = True\<rparr>"
  have "dt_of_scan sc = dt" using cal(3-5) by (simp add: dt_of_scan_def sc_def)
  moreover have "dt_timestamp dt = t"
    using dt_timestamp_calendar [of dt] cal(1,2) f(1) by (simp add: dt_is_valid_def)
  moreover have "dt_loop new_scan (show_datetime t) = Ok sc"
    unfolding show_datetime_def Let_def dt_def [symmetric] sc_def using f by (intro loop_printed) simp_all
  ultimately show ?thesis
    using cal(1) by (simp add: datetime_from_str_def) (simp add: sc_def)
qed

interpretation datetime_text: text_code show_datetime "\<lambda>s. case datetime_from_str s of Ok t \<Rightarrow> Some t | _ \<Rightarrow> None" printable_date
  by unfold_locales (simp add: read_printed_date)

section \<open>Properties\<close>

text \<open>
  A timestamp between 1970 and the end of the year 3000 is printed as a date that is read back as the
  same timestamp, different timestamps are printed differently, and no text makes the reader panic.
\<close>

theorem datetime_roundtrip:
  assumes "printable_date t"
  shows "datetime_from_str (show_datetime t) = Ok t \<and>
    (printable_date t' \<longrightarrow> show_datetime t = show_datetime t' \<longrightarrow> t = t') \<and> datetime_from_str any \<noteq> Panic"
proof -
  have "datetime_from_str any \<noteq> Panic"
    using dt_loop_no_panic [of new_scan any]
    by (auto simp: datetime_from_str_def new_scan_def and_then_Panic_iff split: if_split_asm)
  with assms show ?thesis by (simp add: read_printed_date datetime_text.print_inj)
qed

theorem datetime_roundtrip_witness: "datetime_from_str (show_datetime 1790726400) = Ok 1790726400"
  using datetime_roundtrip [of 1790726400] by (simp add: printable_date_def LAST_SECOND_def)

lemma sint_word_of_int_i64: "- (2 ^ 63) \<le> x \<Longrightarrow> x < 2 ^ 63 \<Longrightarrow> sint (word_of_int x :: timestamp) = x"
  by (simp add: int_word_sint)

lemma seconds_bound:
  assumes "ms \<le> 376566" "1 \<le> d" "d \<le> 31" "h \<le> 23" "mi \<le> 59" "s \<le> 59" "th \<le> 23" "tm \<le> 59"
  shows "- 200000 \<le> (int ms + int d - 1) * 86400 + int h * 3600 + int mi * 60 + int s + (int th * 3600 + int tm * 60) * (if b then 1 else - 1)"
    and "(int ms + int d - 1) * 86400 + int h * 3600 + int mi * 60 + int s + (int th * 3600 + int tm * 60) * (if b then 1 else - 1) \<le> 40000000000"
  using assms by (cases b; simp)+

text \<open>
  Reading a date gives the seconds of the reference calendar for its day and time, moved by its time
  zone; a day beyond the end of its month, up to 31, counts on into the next month.
\<close>

theorem datetime_timestamp_correct:
  assumes "dt_is_valid dt"
  shows "sint (dt_timestamp dt) = calendar_seconds dt"
proof -
  note f = valid_fields [OF assms]
  have "year_start (unat (year dt) - 1970) \<le> year_start 1030" 
    using f(2) by (intro year_start_mono) simp
  moreover have "year_start 1030 = 376200" by (simp add: year_start_eq march_days_def)
  ultimately have "year_start (unat (year dt) - 1970) \<le> 376200" by simp
  moreover have "days_before (unat (year dt)) (unat (month dt)) \<le> 366"
    using f(3,4) days_before_bound by simp
  ultimately have "month_start (unat (year dt)) (unat (month dt)) \<le> 376566" by (simp add: month_start_def)
  then have "- 200000 \<le> calendar_seconds dt" "calendar_seconds dt \<le> 40000000000"
    unfolding calendar_seconds_def using f(5-) seconds_bound by blast+
  then show ?thesis
    using dt_timestamp_calendar [of dt] f assms by (simp add: dt_is_valid_def sint_word_of_int_i64)
qed

definition demo_date :: date_time where
  "demo_date = \<lparr>year = 1997, month = 11, day = 21, hour = 9, minute = 55, second = 6,
     tz_before_gmt = True, tz_hour = 6, tz_minute = 0\<rparr>"

theorem datetime_timestamp_correct_witness: "dt_is_valid demo_date \<and> sint (dt_timestamp demo_date) = calendar_seconds demo_date"
  using datetime_timestamp_correct [of demo_date] by (simp add: dt_is_valid_def demo_date_def)

text \<open>The last day of February is not checked: February 31 is read as March 3.\<close>

lemma nonexistent_day_accepted:
  "datetime_from_str (lit ''2021-02-31T00:00:00Z'') = datetime_from_str (lit ''2021-03-03T00:00:00Z'')"
  "datetime_from_str (lit ''2021-02-31T00:00:00Z'') \<noteq> Err ()"
  by code_simp+

end
