(* ===== verification/Vec_Map.thy ===== *)
theory Vec_Map
  imports Contracts
begin

text \<open>
  The map kept as a vector of entries (\<^verbatim>\<open>utils/src/map/vec_map.rs\<close>): lookups take the first entry of a
  key, \<^verbatim>\<open>set\<close> and \<^verbatim>\<open>remove\<close> keep keys unique, \<^verbatim>\<open>append\<close> does not check. With unique keys it refines the
  partial function it denotes.
\<close>

section \<open>Operations\<close>

type_synonym ('k, 'v) vec_map = "('k \<times> 'v) list"

fun position :: "('k \<Rightarrow> bool) \<Rightarrow> ('k, 'v) vec_map \<Rightarrow> nat option" where
  "position P [] = None"
| "position P ((k, v) # m) = (if P k then Some 0 else map_option Suc (position P m))"

fun vm_get :: "'k \<Rightarrow> ('k, 'v) vec_map \<Rightarrow> 'v option" where
  "vm_get key [] = None"
| "vm_get key ((k, v) # m) = (if k = key then Some v else vm_get key m)"

text \<open>\<^verbatim>\<open>get_mut\<close>, with what the caller does to the value.\<close>

fun vm_modify :: "'k \<Rightarrow> ('v \<Rightarrow> 'v) \<Rightarrow> ('k, 'v) vec_map \<Rightarrow> ('k, 'v) vec_map" where
  "vm_modify key f [] = []"
| "vm_modify key f ((k, v) # m) = (if k = key then (k, f v) # m else (k, v) # vm_modify key f m)"

definition vm_append :: "'k \<Rightarrow> 'v \<Rightarrow> ('k, 'v) vec_map \<Rightarrow> ('k, 'v) vec_map" where
  "vm_append key value m = m @ [(key, value)]"

definition vm_contains_key :: "'k \<Rightarrow> ('k, 'v) vec_map \<Rightarrow> bool" where
  "vm_contains_key key m \<longleftrightarrow> list_ex (\<lambda>(k, _). k = key) m"

definition vm_set :: "'k \<Rightarrow> 'v \<Rightarrow> ('k, 'v) vec_map \<Rightarrow> ('k, 'v) vec_map \<times> bool" where
  "vm_set key value m =
     (if vm_contains_key key m then (vm_modify key (\<lambda>_. value) m, False) else (vm_append key value m, True))"

definition vm_insert :: "nat \<Rightarrow> 'k \<Rightarrow> 'v \<Rightarrow> ('k, 'v) vec_map \<Rightarrow> (('k, 'v) vec_map, 'e) result" where
  "vm_insert idx key value m =
     (if idx \<le> length m then Ok (take idx m @ (key, value) # drop idx m) else Panic)"

definition remove_at :: "nat \<Rightarrow> 'a list \<Rightarrow> 'a list" where
  "remove_at i xs = take i xs @ drop (Suc i) xs"

definition vm_remove_entry :: "'k \<Rightarrow> ('k, 'v) vec_map \<Rightarrow> ('k \<times> 'v) option \<times> ('k, 'v) vec_map" where
  "vm_remove_entry key m =
     (case position (\<lambda>k. k = key) m of Some pos \<Rightarrow> (Some (m ! pos), remove_at pos m) | None \<Rightarrow> (None, m))"

definition vm_remove :: "'k \<Rightarrow> ('k, 'v) vec_map \<Rightarrow> 'v option \<times> ('k, 'v) vec_map" where
  "vm_remove key m = (case vm_remove_entry key m of (r, m) \<Rightarrow> (map_option snd r, m))"

definition vm_remove_all :: "'k \<Rightarrow> ('k, 'v) vec_map \<Rightarrow> ('k, 'v) vec_map" where
  "vm_remove_all key m = filter (\<lambda>(k, _). k \<noteq> key) m"

text \<open>\<^verbatim>\<open>swap_remove\<close> moves the last entry into the gap.\<close>

definition vm_swap_remove :: "nat \<Rightarrow> ('k, 'v) vec_map \<Rightarrow> ('v \<times> ('k, 'v) vec_map, 'e) result" where
  "vm_swap_remove i m =
     (if i < length m then Ok (snd (m ! i), butlast (m[i := m ! (length m - 1)])) else Panic)"

definition vm_get_mut_or_insert_with ::
  "'k \<Rightarrow> (unit \<Rightarrow> 'v) \<Rightarrow> ('v \<Rightarrow> 'v) \<Rightarrow> ('k, 'v) vec_map \<Rightarrow> ('k, 'v) vec_map" where
  "vm_get_mut_or_insert_with key fnc f m =
     (case position (\<lambda>k. k = key) m of
        Some pos \<Rightarrow> m[pos := (fst (m ! pos), f (snd (m ! pos)))]
      | None \<Rightarrow> m @ [(key, f (fnc ()))])"

definition vm_iter_by_key :: "'k \<Rightarrow> ('k, 'v) vec_map \<Rightarrow> 'v list" where
  "vm_iter_by_key key m = map snd (filter (\<lambda>(k, _). k = key) m)"

definition vm_keys :: "('k, 'v) vec_map \<Rightarrow> 'k list" where
  "vm_keys m = map fst m"

definition vm_values :: "('k, 'v) vec_map \<Rightarrow> 'v list" where
  "vm_values m = map snd m"

definition vm_last :: "('k, 'v) vec_map \<Rightarrow> ('k \<times> 'v) option" where
  "vm_last m = (if m = [] then None else Some (last m))"

definition vm_sort_by_key :: "('k::linorder, 'v) vec_map \<Rightarrow> ('k, 'v) vec_map" where
  "vm_sort_by_key m = sort_key fst m"

definition vm_extend :: "('k \<times> 'v) list \<Rightarrow> ('k, 'v) vec_map \<Rightarrow> ('k, 'v) vec_map" where
  "vm_extend kvs m = fold (\<lambda>(k, v). vm_append k v) kvs m"

section \<open>Laws\<close>

lemma vm_get_map_of: "vm_get key m = map_of m key"
  by (induction key m rule: vm_get.induct) auto

lemma vm_contains_key_iff: "vm_contains_key key m \<longleftrightarrow> key \<in> fst ` set m"
  by (force simp: vm_contains_key_def list_ex_iff)

lemma keys_modify [simp]: "map fst (vm_modify key f m) = map fst m"
  by (induction key f m rule: vm_modify.induct) auto

lemma map_of_modify: "map_of (vm_modify key f m) = (map_of m)(key := map_option f (map_of m key))"
  by (induction key f m rule: vm_modify.induct) (auto simp: fun_eq_iff)

lemma position_Some:
  "position P m = Some i \<Longrightarrow> i < length m \<and> P (fst (m ! i)) \<and> (\<forall>j < i. \<not> P (fst (m ! j)))"
  by (induction P m arbitrary: i rule: position.induct)
    (auto split: if_split_asm simp: less_Suc_eq_0_disj)

lemma position_None: "position P m = None \<longleftrightarrow> (\<forall>(k, v) \<in> set m. \<not> P k)"
  by (induction P m rule: position.induct) auto

lemma remove_first: "snd (vm_remove_entry key ((k, v) # m)) = (if k = key then m else (k, v) # snd (vm_remove_entry key m))"
  by (auto simp: vm_remove_entry_def remove_at_def split: option.splits)

lemma remove_nil: "vm_remove_entry key [] = (None, [])"
  by (simp add: vm_remove_entry_def)

lemma snd_vm_remove: "snd (vm_remove key m) = snd (vm_remove_entry key m)"
  by (simp add: vm_remove_def split: prod.splits)

lemma remove_keys: "set (map fst (snd (vm_remove_entry key m))) \<subseteq> set (map fst m)"
proof -
  have "set (snd (vm_remove_entry key m)) \<subseteq> set m"
    by (auto simp: vm_remove_entry_def remove_at_def split: option.splits dest: in_set_takeD in_set_dropD)
  then show ?thesis by (simp add: image_mono)
qed

lemma remove_unique:
  "distinct (map fst m) \<Longrightarrow>
     map_of (snd (vm_remove_entry key m)) = (map_of m)(key := None) \<and> distinct (map fst (snd (vm_remove_entry key m)))"
proof (induction m)
  case (Cons kv m)
  obtain k v where kv: "kv = (k, v)" by fastforce
  show ?case
  proof (cases "k = key")
    case True
    with Cons.prems have "map_of m key = None" by (simp add: kv map_of_eq_None_iff)
    with True Cons.prems show ?thesis by (auto simp: kv remove_first fun_eq_iff)
  next
    case False
    with Cons remove_keys [of key m] show ?thesis by (auto simp: kv remove_first fun_eq_iff)
  qed
qed (simp add: remove_nil)

lemma get_mut_or_insert_modify:
  "vm_get_mut_or_insert_with key fnc f m =
     (if vm_contains_key key m then vm_modify key f m else vm_append key (f (fnc ())) m)"
proof (cases "position (\<lambda>k. k = key) m")
  case None
  then have "\<not> vm_contains_key key m" by (auto simp: position_None vm_contains_key_iff)
  with None show ?thesis by (simp add: vm_get_mut_or_insert_with_def vm_append_def)
next
  case (Some pos)
  then have "vm_contains_key key m" using position_Some [OF Some] by (auto simp: vm_contains_key_iff image_iff)
  moreover have "m[pos := (fst (m ! pos), f (snd (m ! pos)))] = vm_modify key f m"
    using Some by (induction key f m arbitrary: pos rule: vm_modify.induct) (auto split: if_split_asm)
  ultimately show ?thesis using Some by (simp add: vm_get_mut_or_insert_with_def)
qed

lemma map_of_append: "map_of (vm_append key value m) = (map_of [(key, value)]) ++ map_of m"
  by (simp add: vm_append_def)

section \<open>Refinement\<close>

datatype ('k, 'v) vm_op =
  Set 'k 'v
| Remove 'k
| Remove_All 'k
| Modify 'k "'v \<Rightarrow> 'v"
| Get_Or_Insert 'k 'v "'v \<Rightarrow> 'v"
| Sort_By_Key
| Clear

fun vec_step :: "('k::linorder, 'v) vm_op \<Rightarrow> ('k, 'v) vec_map \<Rightarrow> ('k, 'v) vec_map" where
  "vec_step (Set k v) m = fst (vm_set k v m)"
| "vec_step (Remove k) m = snd (vm_remove k m)"
| "vec_step (Remove_All k) m = vm_remove_all k m"
| "vec_step (Modify k f) m = vm_modify k f m"
| "vec_step (Get_Or_Insert k v f) m = vm_get_mut_or_insert_with k (\<lambda>_. v) f m"
| "vec_step Sort_By_Key m = vm_sort_by_key m"
| "vec_step Clear m = []"

fun map_step :: "('k, 'v) vm_op \<Rightarrow> ('k \<rightharpoonup> 'v) \<Rightarrow> ('k \<rightharpoonup> 'v)" where
  "map_step (Set k v) m = m(k \<mapsto> v)"
| "map_step (Remove k) m = m(k := None)"
| "map_step (Remove_All k) m = m(k := None)"
| "map_step (Modify k f) m = m(k := map_option f (m k))"
| "map_step (Get_Or_Insert k v f) m = m(k \<mapsto> f (case m k of Some x \<Rightarrow> x | None \<Rightarrow> v))"
| "map_step Sort_By_Key m = m"
| "map_step Clear m = Map.empty"

definition unique_keys :: "('k, 'v) vec_map \<Rightarrow> bool" where
  "unique_keys m \<longleftrightarrow> distinct (map fst m)"

lemma unique_keys_modify [simp]: "unique_keys (vm_modify k f m) \<longleftrightarrow> unique_keys m"
  by (simp add: unique_keys_def)

lemma contains_lookup: "vm_contains_key k m \<longleftrightarrow> map_of m k \<noteq> None"
  by (simp add: vm_contains_key_iff map_of_eq_None_iff del: not_None_eq)

lemma append_fresh:
  "\<not> vm_contains_key k m \<Longrightarrow> map_of (vm_append k v m) = (map_of m)(k \<mapsto> v)"
  "\<not> vm_contains_key k m \<Longrightarrow> unique_keys m \<Longrightarrow> unique_keys (vm_append k v m)"
proof -
  assume "\<not> vm_contains_key k m"
  then show "map_of (vm_append k v m) = (map_of m)(k \<mapsto> v)"
    by (auto simp: contains_lookup vm_append_def map_add_def fun_eq_iff split: option.splits)
  assume "unique_keys m"
  with \<open>\<not> vm_contains_key k m\<close> show "unique_keys (vm_append k v m)"
    by (simp add: vm_contains_key_iff unique_keys_def vm_append_def)
qed

lemma map_of_filter_key: "map_of (filter (\<lambda>(k, _). k \<noteq> key) m) = (map_of m)(key := None)"
  by (induction m) (auto simp: fun_eq_iff)

lemma vm_step_map:
  assumes "unique_keys m"
  shows "map_of (vec_step x m) = map_step x (map_of m) \<and> unique_keys (vec_step x m)"
proof (cases x)
  case (Set k v)
  with assms show ?thesis
    by (cases "vm_contains_key k m")
      (auto simp: vm_set_def append_fresh map_of_modify contains_lookup unique_keys_modify)
next
  case (Remove k)
  with assms remove_unique [of m k] show ?thesis by (simp add: snd_vm_remove unique_keys_def)
next
  case (Remove_All k)
  with assms show ?thesis
    by (simp add: vm_remove_all_def map_of_filter_key unique_keys_def distinct_map_filter)
next
  case (Get_Or_Insert k v f)
  with assms show ?thesis
    by (cases "vm_contains_key k m")
      (auto simp: get_mut_or_insert_modify append_fresh map_of_modify contains_lookup unique_keys_modify)
next
  case Sort_By_Key
  with assms have "distinct (map fst (sort_key fst m))"
    by (metis distinct_map distinct_sort set_sort unique_keys_def)
  moreover from this assms have "map_of (sort_key fst m) = map_of m"
    by (simp add: map_of_inject_set unique_keys_def)
  ultimately show ?thesis using Sort_By_Key by (simp add: vm_sort_by_key_def unique_keys_def)
qed (use assms in \<open>simp_all add: map_of_modify unique_keys_def [of "[]"]\<close>)

interpretation vec_map: refinement map_of unique_keys "\<lambda>_. True" vec_step map_step
  by unfold_locales (simp_all add: vm_step_map)

section \<open>Properties\<close>

text \<open>
  A vector map that starts empty and is changed by any sequence of \<^verbatim>\<open>set\<close>, \<^verbatim>\<open>remove\<close>, \<^verbatim>\<open>remove_all\<close>, \<^verbatim>\<open>get_mut\<close>,
  \<^verbatim>\<open>get_mut_or_insert_with\<close>, \<^verbatim>\<open>sort_unstable_by_key\<close> and \<^verbatim>\<open>clear\<close> answers every lookup as the partial function
  changed in the same way, and holds each key once.
\<close>

theorem vec_map_is_map:
  "vm_get k (fold vec_step ops []) = fold map_step ops Map.empty k \<and> distinct (vm_keys (fold vec_step ops []))"
  using vec_map.run_abs [of "[]" ops] by (simp add: vm_get_map_of vm_keys_def unique_keys_def)

end
