(* ===== verification/Pickle.thy ===== *)
theory Pickle
  imports Leb128 Ip_Mask Datetime Vec_Map
begin

text \<open>
  The stored form of registry objects (\<^verbatim>\<open>registry/src/pickle.rs\<close> and the implementations under
  \<^verbatim>\<open>registry/src/types\<close>): a version byte, then the fields one after the other, compressed when long. A type
  that can be stored interprets the locale \<open>pickle_code\<close>; containers give an instance for each instance of
  their items.
\<close>

section \<open>Streams\<close>

record pickled_stream =
  pdata :: bytes
  ppos :: nat
  pversion :: byte

type_synonym 'a reader = "pickled_stream \<Rightarrow> ('a \<times> pickled_stream) option"

definition read :: "byte reader" where
  "read s = map_option (\<lambda>b. (b, s\<lparr>ppos := ppos s + 1\<rparr>)) (get_at (pdata s) (ppos s))"

definition read_leb128 :: "nat list \<Rightarrow> ('a::len word) reader" where
  "read_leb128 shifts s =
     (if ppos s \<le> length (pdata s) then
        map_option (\<lambda>(v, n). (v, s\<lparr>ppos := ppos s + n\<rparr>)) (from_leb128_bytes_pos shifts (drop (ppos s) (pdata s)))
      else None)"

definition read_bytes :: "nat \<Rightarrow> bytes reader" where
  "read_bytes len s =
     map_option (\<lambda>bs. (bs, s\<lparr>ppos := ppos s + len\<rparr>)) (get_range (pdata s) (ppos s) (ppos s + len))"

definition eof :: "pickled_stream \<Rightarrow> bool" where
  "eof s \<longleftrightarrow> length (pdata s) \<le> ppos s"

definition and_read :: "('a \<times> pickled_stream) option \<Rightarrow> ('a \<Rightarrow> 'b reader) \<Rightarrow> ('b \<times> pickled_stream) option" where
  "and_read m f = Option.bind m (\<lambda>(x, s). f x s)"

text \<open>A stream between what has been read and what follows.\<close>

definition at_stream :: "byte \<Rightarrow> bytes \<Rightarrow> bytes \<Rightarrow> pickled_stream" where
  "at_stream v pre rest = \<lparr>pdata = pre @ rest, ppos = length pre, pversion = v\<rparr>"

lemma and_read_simps [simp]: "and_read (Some (x, s)) f = f x s" "and_read None f = None"
  by (simp_all add: and_read_def)

lemma read_at [simp]: "read (at_stream v pre (b # rest)) = Some (b, at_stream v (pre @ [b]) rest)"
  by (simp add: read_def at_stream_def get_at_def)

lemma read_bytes_at [simp]:
  "read_bytes (length bs) (at_stream v pre (bs @ rest)) = Some (bs, at_stream v (pre @ bs) rest)"
  by (simp add: read_bytes_def at_stream_def get_range_def slice_of_def)

section \<open>The contract\<close>

locale pickle_code =
  fixes pickle :: "'a \<Rightarrow> bytes"
    and unpickle :: "'a reader"
    and storable :: "'a \<Rightarrow> bool"
  assumes unpickle_pickle:
    "storable x \<Longrightarrow> unpickle (at_stream v pre (pickle x @ rest)) = Some (x, at_stream v (pre @ pickle x) rest)"
begin

lemma pickle_unique: "storable x \<Longrightarrow> storable y \<Longrightarrow> pickle x @ r = pickle y @ s \<Longrightarrow> x = y \<and> r = s"
  using unpickle_pickle [of x 0 "[]" r] unpickle_pickle [of y 0 "[]" s] by (auto simp: at_stream_def)

end

section \<open>Numbers, flags, text\<close>

definition pickle_word :: "'a::len word \<Rightarrow> bytes" where
  "pickle_word n = to_leb128_bytes n"

definition unpickle_u16 :: "u16 reader" where "unpickle_u16 = read_leb128 SHIFTS_U16"
definition unpickle_u32 :: "u32 reader" where "unpickle_u32 = read_leb128 SHIFTS_U32"
definition unpickle_u64 :: "u64 reader" where "unpickle_u64 = read_leb128 SHIFTS_U64"

definition pickle_bool :: "bool \<Rightarrow> bytes" where
  "pickle_bool b = [if b then 1 else 0]"

definition unpickle_bool :: "bool reader" where
  "unpickle_bool s =
     and_read (read s) (\<lambda>b s. if b = 0 then Some (False, s) else if b = 1 then Some (True, s) else None)"

definition pickle_string :: "bytes \<Rightarrow> bytes" where
  "pickle_string s = pickle_word (of_nat (length s) :: u32) @ s"

definition unpickle_string :: "bytes reader" where
  "unpickle_string s =
     and_read (unpickle_u32 s) (\<lambda>len s. and_read (read_bytes (unat len) s) (\<lambda>bs s.
       if valid_utf8 bs then Some (bs, s) else None))"

text \<open>An enumeration is stored as its number.\<close>

definition pickle_enum :: "('a \<Rightarrow> u16) \<Rightarrow> 'a \<Rightarrow> bytes" where
  "pickle_enum to_id x = pickle_word (to_id x)"

definition unpickle_enum :: "(u16 \<Rightarrow> 'a option) \<Rightarrow> 'a reader" where
  "unpickle_enum from_id s =
     and_read (unpickle_u16 s) (\<lambda>i s. map_option (\<lambda>x. (x, s)) (from_id i))"

section \<open>Containers\<close>

definition pickle_option :: "('a \<Rightarrow> bytes) \<Rightarrow> 'a option \<Rightarrow> bytes" where
  "pickle_option p x = (case x of Some v \<Rightarrow> 1 # p v | None \<Rightarrow> [0])"

definition unpickle_option :: "'a reader \<Rightarrow> 'a option reader" where
  "unpickle_option u s =
     and_read (read s) (\<lambda>b s.
       if b = 0 then Some (None, s)
       else if b = 1 then map_option (\<lambda>(v, s). (Some v, s)) (u s) else None)"

fun unpickle_items :: "'a reader \<Rightarrow> nat \<Rightarrow> 'a list \<Rightarrow> 'a list reader" where
  "unpickle_items u 0 acc s = Some (acc, s)"
| "unpickle_items u (Suc n) acc s = and_read (u s) (\<lambda>x s. unpickle_items u n (acc @ [x]) s)"

definition pickle_items :: "('a \<Rightarrow> bytes) \<Rightarrow> 'a list \<Rightarrow> bytes" where
  "pickle_items p xs = pickle_word (of_nat (length xs) :: u32) @ concat (map p xs)"

text \<open>\<^verbatim>\<open>Map\<close>: the items in order.\<close>

definition unpickle_map :: "'a reader \<Rightarrow> 'a list reader" where
  "unpickle_map u s = and_read (unpickle_u32 s) (\<lambda>len s. unpickle_items u (unat len) [] s)"

text \<open>\<^verbatim>\<open>VecMap\<close>: the entries in order, key before value.\<close>

definition pickle_entry :: "('k \<Rightarrow> bytes) \<Rightarrow> ('v \<Rightarrow> bytes) \<Rightarrow> 'k \<times> 'v \<Rightarrow> bytes" where
  "pickle_entry pk pv kv = pk (fst kv) @ pv (snd kv)"

definition unpickle_entry :: "'k reader \<Rightarrow> 'v reader \<Rightarrow> ('k \<times> 'v) reader" where
  "unpickle_entry uk uv s = and_read (uk s) (\<lambda>k s. and_read (uv s) (\<lambda>v s. Some ((k, v), s)))"

definition pickle_vec_map :: "('k \<Rightarrow> bytes) \<Rightarrow> ('v \<Rightarrow> bytes) \<Rightarrow> ('k, 'v) vec_map \<Rightarrow> bytes" where
  "pickle_vec_map pk pv m = pickle_items (pickle_entry pk pv) m"

definition unpickle_vec_map :: "'k reader \<Rightarrow> 'v reader \<Rightarrow> ('k, 'v) vec_map reader" where
  "unpickle_vec_map uk uv s =
     and_read (unpickle_u32 s) (\<lambda>len s. unpickle_items (unpickle_entry uk uv) (unat len) [] s)"

text \<open>\<^verbatim>\<open>HashMap\<close>: the entries in the order the table is visited; a later entry of a key replaces an earlier one.\<close>

definition pickle_hash_map :: "('k \<Rightarrow> bytes) \<Rightarrow> ('v \<Rightarrow> bytes) \<Rightarrow> 'k list \<Rightarrow> ('k \<rightharpoonup> 'v) \<Rightarrow> bytes" where
  "pickle_hash_map pk pv order m = pickle_items (pickle_entry pk pv) (map (\<lambda>k. (k, the (m k))) order)"

definition unpickle_hash_map :: "'k reader \<Rightarrow> 'v reader \<Rightarrow> ('k \<rightharpoonup> 'v) reader" where
  "unpickle_hash_map uk uv s =
     map_option (\<lambda>(kvs, s). (foldl (\<lambda>m (k, v). m(k \<mapsto> v)) Map.empty kvs, s)) (unpickle_vec_map uk uv s)"

text \<open>\<^verbatim>\<open>List\<close> keeps its items under numbers, but stores the items only and numbers them again when read.\<close>

definition list_push :: "'a \<Rightarrow> (u32, 'a) vec_map \<Rightarrow> (u32, 'a) vec_map" where
  "list_push x l = vm_append (case vm_last l of Some (k, _) \<Rightarrow> k + 1 | None \<Rightarrow> 0) x l"

definition list_push_unchecked :: "'a \<Rightarrow> (u32, 'a) vec_map \<Rightarrow> (u32, 'a) vec_map" where
  "list_push_unchecked x l = vm_append (of_nat (length l)) x l"

definition pickle_list :: "('a \<Rightarrow> bytes) \<Rightarrow> (u32, 'a) vec_map \<Rightarrow> bytes" where
  "pickle_list p l = pickle_items p (vm_values l)"

fun unpickle_list_loop :: "'a reader \<Rightarrow> nat \<Rightarrow> (u32, 'a) vec_map \<Rightarrow> (u32, 'a) vec_map reader" where
  "unpickle_list_loop u 0 l s = Some (l, s)"
| "unpickle_list_loop u (Suc n) l s = and_read (u s) (\<lambda>x s. unpickle_list_loop u n (list_push_unchecked x l) s)"

definition unpickle_list :: "'a reader \<Rightarrow> (u32, 'a) vec_map reader" where
  "unpickle_list u s = and_read (unpickle_u32 s) (\<lambda>len s. unpickle_list_loop u (unat len) [] s)"

section \<open>Other types\<close>

definition pickle_datetime :: "timestamp \<Rightarrow> bytes" where
  "pickle_datetime t = to_be 8 t"

definition unpickle_datetime :: "timestamp reader" where
  "unpickle_datetime s = and_read (read_bytes 8 s) (\<lambda>bs s. Some (from_be bs, s))"

fun pickle_ip :: "ip_addr \<Rightarrow> bytes" where
  "pickle_ip (IpV4 addr) = 4 # to_be 4 addr"
| "pickle_ip (IpV6 addr) = 6 # to_be 16 addr"

definition unpickle_ip :: "ip_addr reader" where
  "unpickle_ip s =
     and_read (read s) (\<lambda>kind s.
       if kind = 4 then and_read (read_bytes 4 s) (\<lambda>bs s. Some (IpV4 (from_be bs), s))
       else if kind = 6 then and_read (read_bytes 16 s) (\<lambda>bs s. Some (IpV6 (from_be bs), s))
       else None)"

definition pickle_socket :: "ip_addr \<times> u16 \<Rightarrow> bytes" where
  "pickle_socket a = pickle_ip (fst a) @ pickle_word (snd a)"

definition unpickle_socket :: "(ip_addr \<times> u16) reader" where
  "unpickle_socket s = and_read (unpickle_ip s) (\<lambda>ip s. and_read (unpickle_u16 s) (\<lambda>port s. Some ((ip, port), s)))"

definition unpickle_mask :: "ip_addr_or_mask reader" where
  "unpickle_mask s =
     and_read (read s) (\<lambda>kind s.
       if kind = 4 then
         and_read (read_bytes 4 s) (\<lambda>a s. and_read (read_bytes 4 s) (\<lambda>m s. Some (MaskV4 (from_be a) (from_be m), s)))
       else if kind = 6 then
         and_read (read_bytes 16 s) (\<lambda>a s. and_read (read_bytes 16 s) (\<lambda>m s. Some (MaskV6 (from_be a) (from_be m), s)))
       else None)"

section \<open>Envelope\<close>

definition COMPRESS_MARKER :: byte where "COMPRESS_MARKER = 0x80"
definition COMPRESS_WATERMARK :: nat where "COMPRESS_WATERMARK = 8192"

record lz4 =
  compress_into :: "bytes \<Rightarrow> bytes"
  decompress_size_prepended :: "bytes \<Rightarrow> bytes option"

definition maybe_compress_pickle :: "lz4 \<Rightarrow> bytes \<Rightarrow> (bytes, 'e) result" where
  "maybe_compress_pickle z input =
     (case input of
        [] \<Rightarrow> Panic
      | version # body \<Rightarrow>
          if COMPRESS_WATERMARK < length body \<and> length (compress_into z body) < length body then
            Ok ((version OR COMPRESS_MARKER) # rev (to_be 4 (of_nat (length body) :: u32)) @ compress_into z body)
          else Ok input)"

definition open_pickle :: "lz4 \<Rightarrow> bytes \<Rightarrow> pickled_stream option" where
  "open_pickle z input =
     (case input of
        [] \<Rightarrow> None
      | marker # body \<Rightarrow>
          let version = marker AND NOT COMPRESS_MARKER in
          if marker AND COMPRESS_MARKER \<noteq> 0 then
            map_option (\<lambda>d. \<lparr>pdata = d, ppos = 0, pversion = version\<rparr>) (decompress_size_prepended z body)
          else Some \<lparr>pdata = body, ppos = 0, pversion = version\<rparr>)"

text \<open>
  \<^verbatim>\<open>ObjectImpl::to_pickled_vec\<close>, with the object's \<^verbatim>\<open>VERSION\<close>, and how the store reads one
  (\<^verbatim>\<open>Deserialize\<close>, \<^verbatim>\<open>store/src/registry/mod.rs\<close>): what follows the object is ignored.
\<close>

definition to_pickled_vec :: "lz4 \<Rightarrow> byte \<Rightarrow> ('a \<Rightarrow> bytes) \<Rightarrow> 'a \<Rightarrow> (bytes, 'e) result" where
  "to_pickled_vec z version p x = maybe_compress_pickle z (version # p x)"

definition deserialize_object :: "lz4 \<Rightarrow> 'a reader \<Rightarrow> bytes \<Rightarrow> 'a option" where
  "deserialize_object z u bs = Option.bind (open_pickle z bs) (\<lambda>s. map_option fst (u s))"


section \<open>Every stored type reads back what it wrote\<close>

lemma at_stream_append: "at_stream v pre ((xs @ ys) @ rest) = at_stream v pre (xs @ (ys @ rest))"
  by simp

lemma read_leb128_at:
  assumes "from_leb128_bytes_pos shifts (to_leb128_bytes n @ rest) = Some (n, length (to_leb128_bytes n))"
  shows "read_leb128 shifts (at_stream v pre (pickle_word n @ rest)) = Some (n, at_stream v (pre @ pickle_word n) rest)"
  using assms by (simp add: read_leb128_def at_stream_def pickle_word_def)

interpretation pickle_u16: pickle_code "pickle_word :: u16 \<Rightarrow> bytes" unpickle_u16 "\<lambda>_. True"
  by unfold_locales (simp add: unpickle_u16_def read_leb128_at leb128_u16.dec_enc)

interpretation pickle_u32: pickle_code "pickle_word :: u32 \<Rightarrow> bytes" unpickle_u32 "\<lambda>_. True"
  by unfold_locales (simp add: unpickle_u32_def read_leb128_at leb128_u32.dec_enc)

interpretation pickle_u64: pickle_code "pickle_word :: u64 \<Rightarrow> bytes" unpickle_u64 "\<lambda>_. True"
  by unfold_locales (simp add: unpickle_u64_def read_leb128_at leb128_u64.dec_enc)

lemmas unpickle_word_at [simp] =
  pickle_u16.unpickle_pickle [OF TrueI] pickle_u32.unpickle_pickle [OF TrueI] pickle_u64.unpickle_pickle [OF TrueI]

interpretation pickle_bool: pickle_code pickle_bool unpickle_bool "\<lambda>_. True"
  by unfold_locales (simp add: pickle_bool_def unpickle_bool_def)

text \<open>A length fits the number it is stored as.\<close>

definition fits_u32 :: "'a list \<Rightarrow> bool" where
  "fits_u32 xs \<longleftrightarrow> length xs < 2 ^ 32"

lemma unat_fits_u32 [simp]: "fits_u32 xs \<Longrightarrow> unat (of_nat (length xs) :: u32) = length xs"
  by (simp add: fits_u32_def unat_of_nat take_bit_nat_eq_self)

definition storable_string :: "bytes \<Rightarrow> bool" where
  "storable_string s \<longleftrightarrow> valid_utf8 s \<and> fits_u32 s"

interpretation pickle_string: pickle_code pickle_string unpickle_string storable_string
  by unfold_locales (simp add: pickle_string_def unpickle_string_def storable_string_def)

lemma read_be_at:
  "k = n \<Longrightarrow> read_bytes k (at_stream v pre (to_be n x @ rest)) = Some (to_be n x, at_stream v (pre @ to_be n x) rest)"
  using read_bytes_at [of "to_be n x" v pre rest] by simp

lemmas fixed_width = read_be_at from_be_to_be_full

interpretation pickle_datetime: pickle_code pickle_datetime unpickle_datetime "\<lambda>_. True"
  by unfold_locales (simp add: pickle_datetime_def unpickle_datetime_def fixed_width)

lemma unpickle_ip_at: "unpickle_ip (at_stream v pre (pickle_ip a @ rest)) = Some (a, at_stream v (pre @ pickle_ip a) rest)"
  by (cases a) (simp_all add: unpickle_ip_def fixed_width)

interpretation pickle_ip: pickle_code pickle_ip unpickle_ip "\<lambda>_. True"
  by unfold_locales (rule unpickle_ip_at)

interpretation pickle_socket: pickle_code pickle_socket unpickle_socket "\<lambda>_. True"
  by unfold_locales (simp add: pickle_socket_def unpickle_socket_def unpickle_ip_at)

lemma unpickle_mask_at:
  "unpickle_mask (at_stream v pre (pickle_mask a @ rest)) = Some (a, at_stream v (pre @ pickle_mask a) rest)"
  by (cases a) (simp_all add: unpickle_mask_def fixed_width)

interpretation pickle_mask: pickle_code pickle_mask unpickle_mask "\<lambda>_. True"
  by unfold_locales (rule unpickle_mask_at)

section \<open>Containers of stored types\<close>

context pickle_code
begin

lemma option_code: "pickle_code (pickle_option pickle) (unpickle_option unpickle) (pred_option storable)"
proof
  fix x v pre rest assume "pred_option storable x"
  then show "unpickle_option unpickle (at_stream v pre (pickle_option pickle x @ rest)) =
      Some (x, at_stream v (pre @ pickle_option pickle x) rest)"
    using unpickle_pickle [of _ v "pre @ [1]" rest]
    by (cases x) (simp_all add: pickle_option_def unpickle_option_def)
qed

lemma unpickle_items_at:
  "list_all storable xs \<Longrightarrow>
   unpickle_items unpickle (length xs) acc (at_stream v pre (concat (map pickle xs) @ rest)) =
     Some (acc @ xs, at_stream v (pre @ concat (map pickle xs)) rest)"
  by (induction xs arbitrary: acc pre) (simp_all add: unpickle_pickle)

lemma map_code: "pickle_code (pickle_items pickle) (unpickle_map unpickle) (\<lambda>xs. list_all storable xs \<and> fits_u32 xs)"
  by unfold_locales (simp add: pickle_items_def unpickle_map_def unpickle_items_at)

lemma unpickle_list_loop_at:
  "list_all storable xs \<Longrightarrow> fits_u32 xs \<Longrightarrow>
   unpickle_list_loop unpickle (length xs) l (at_stream v pre (concat (map pickle xs) @ rest)) =
     Some (l @ zip (map of_nat [length l..<length l + length xs]) xs, at_stream v (pre @ concat (map pickle xs)) rest)"
proof (induction xs arbitrary: l pre)
  case (Cons x xs)
  have "[length l..<length l + length (x # xs)] = length l # [Suc (length l)..<Suc (length l) + length xs]"
    by (simp add: upt_conv_Cons del: upt_Suc)
  with Cons show ?case
    by (simp add: unpickle_pickle list_push_unchecked_def vm_append_def fits_u32_def del: upt_Suc)
qed simp

end

lemma entry_code:
  assumes "pickle_code pk uk okk" and "pickle_code pv uv okv"
  shows "pickle_code (pickle_entry pk pv) (unpickle_entry uk uv) (\<lambda>(k, v). okk k \<and> okv v)"
  using pickle_code.unpickle_pickle [OF assms(1)] pickle_code.unpickle_pickle [OF assms(2)]
  by unfold_locales (auto simp: pickle_entry_def unpickle_entry_def)

lemma vec_map_code:
  assumes "pickle_code pk uk okk" and "pickle_code pv uv okv"
  shows "pickle_code (pickle_vec_map pk pv) (unpickle_vec_map uk uv)
    (\<lambda>m. list_all (\<lambda>(k, v). okk k \<and> okv v) m \<and> fits_u32 m)"
  using pickle_code.map_code [OF entry_code [OF assms]]
  by (simp add: pickle_code_def pickle_vec_map_def unpickle_vec_map_def unpickle_map_def)

lemma foldl_upd_entries:
  "distinct order \<Longrightarrow>
   foldl (\<lambda>m (k, v). m(k \<mapsto> v)) m0 (map (\<lambda>k. (k, f k)) order) k = (if k \<in> set order then Some (f k) else m0 k)"
  by (induction order arbitrary: m0) auto

text \<open>In whatever order the table is visited.\<close>

lemma hash_map_code:
  assumes "pickle_code pk uk okk" and "pickle_code pv uv okv"
    and "distinct order" "set order = dom m" "fits_u32 order" "\<forall>k x. m k = Some x \<longrightarrow> okk k \<and> okv x"
  shows "unpickle_hash_map uk uv (at_stream v pre (pickle_hash_map pk pv order m @ rest)) =
    Some (m, at_stream v (pre @ pickle_hash_map pk pv order m) rest)"
proof -
  let ?kvs = "map (\<lambda>k. (k, the (m k))) order"
  have "okk k \<and> okv (the (m k))" if "k \<in> set order" for k
    using that assms(4,6) by fastforce
  then have "list_all (\<lambda>(k, v). okk k \<and> okv v) ?kvs \<and> fits_u32 ?kvs"
    using assms(5) by (simp add: list_all_iff fits_u32_def)
  note pickle_code.unpickle_pickle [OF vec_map_code [OF assms(1,2)] this]
  moreover have "foldl (\<lambda>m (k, v). m(k \<mapsto> v)) Map.empty ?kvs = m"
    using assms(3,4) by (auto simp: foldl_upd_entries domIff intro!: ext)
  ultimately show ?thesis
    by (simp add: unpickle_hash_map_def pickle_hash_map_def pickle_vec_map_def)
qed


section \<open>Objects in their envelope\<close>

text \<open>What \<^verbatim>\<open>lz4_flex\<close> documents: a block decompresses to what was compressed, given its length.\<close>

definition lz4_ok :: "lz4 \<Rightarrow> bool" where
  "lz4_ok z \<longleftrightarrow> (\<forall>b. length b < 2 ^ 32 \<longrightarrow>
     decompress_size_prepended z (rev (to_be 4 (of_nat (length b) :: u32)) @ compress_into z b) = Some b)"

lemma marker_bits:
  assumes "version AND COMPRESS_MARKER = 0"
  shows "(version OR COMPRESS_MARKER) AND NOT COMPRESS_MARKER = version"
    and "(version OR COMPRESS_MARKER) AND COMPRESS_MARKER \<noteq> 0"
    and "version AND NOT COMPRESS_MARKER = version"
proof -
  have clear: "\<not> bit version 7"
    using assms by (simp add: COMPRESS_MARKER_def high_bit_clear)
  have m: "bit COMPRESS_MARKER i \<longleftrightarrow> i = 7" for i
    using bit_exp_iff [of 7 i, where 'a = byte] by (auto simp: COMPRESS_MARKER_def)
  show "(version OR COMPRESS_MARKER) AND NOT COMPRESS_MARKER = version"
    by (rule bit_word_eqI) (use clear in \<open>auto simp: bit_simps m\<close>)
  show "version AND NOT COMPRESS_MARKER = version"
    by (rule bit_word_eqI) (use clear in \<open>auto simp: bit_simps m\<close>)
  show "(version OR COMPRESS_MARKER) AND COMPRESS_MARKER \<noteq> 0"
    by (simp add: COMPRESS_MARKER_def high_bit_clear or_0x80 bit_simps)
qed

lemma open_stored:
  assumes "lz4_ok z" "version AND COMPRESS_MARKER = 0" "length body < 2 ^ 32"
  shows "\<exists>bs. (maybe_compress_pickle z (version # body) :: (bytes, 'e) result) = Ok bs \<and>
    open_pickle z bs = Some (at_stream version [] body)"
  using assms marker_bits [OF assms(2)]
  by (simp add: maybe_compress_pickle_def open_pickle_def at_stream_def lz4_ok_def Let_def)

lemma stored_object:
  assumes "pickle_code p u storable" "storable x" "lz4_ok z" "version AND COMPRESS_MARKER = 0" "length (p x) < 2 ^ 32"
  shows "\<exists>bs. (to_pickled_vec z version p x :: (bytes, 'e) result) = Ok bs \<and> deserialize_object z u bs = Some x"
proof -
  have "u (at_stream version [] (p x)) = Some (x, at_stream version (p x) [])"
    using pickle_code.unpickle_pickle [OF assms(1,2), of version "[]" "[]"] by simp
  then show ?thesis
    using open_stored [OF assms(3-5)] by (auto simp: to_pickled_vec_def deserialize_object_def)
qed

text \<open>A list is read back with the same items in the same order, under new numbers.\<close>

lemma stored_list:
  assumes "pickle_code p u storable" "list_all storable (vm_values l)" "fits_u32 l"
  shows "unpickle_list u (at_stream v pre (pickle_list p l @ rest)) =
    Some (zip (map of_nat [0..<length l]) (vm_values l), at_stream v (pre @ pickle_list p l) rest)"
proof -
  have "fits_u32 (vm_values l)" "length (vm_values l) = length l"
    using assms(3) by (simp_all add: fits_u32_def vm_values_def)
  with pickle_code.unpickle_list_loop_at [OF assms(1,2), of "[]"] show ?thesis
    using unat_fits_u32 [OF assms(3)] by (simp add: pickle_list_def unpickle_list_def pickle_items_def)
qed

end
