(* ===== verification/Stored_Objects.thy ===== *)
theory Stored_Objects
  imports Pickle
begin

text \<open>
  The registry objects behind the address lists (\<^verbatim>\<open>AllowedIp\<close> and \<^verbatim>\<open>BlockedIp\<close> of
  \<^verbatim>\<open>registry/src/schema\<close>): their fields, validation and stored form.
\<close>

section \<open>Objects\<close>

datatype block_reason = RcptToFailure | AuthFailure | Loitering | PortScanning | Manual | Other

fun block_reason_id :: "block_reason \<Rightarrow> u16" where
  "block_reason_id RcptToFailure = 0"
| "block_reason_id AuthFailure = 1"
| "block_reason_id Loitering = 2"
| "block_reason_id PortScanning = 3"
| "block_reason_id Manual = 4"
| "block_reason_id Other = 5"

definition block_reason_from_id :: "u16 \<Rightarrow> block_reason option" where
  "block_reason_from_id i =
     (if i = 0 then Some RcptToFailure
      else if i = 1 then Some AuthFailure
      else if i = 2 then Some Loitering
      else if i = 3 then Some PortScanning
      else if i = 4 then Some Manual
      else if i = 5 then Some Other
      else None)"

record allowed_ip =
  ip_address :: ip_addr_or_mask
  ip_reason :: "bytes option"
  ip_created_at :: timestamp
  ip_expires_at :: "timestamp option"

record blocked_ip =
  baddress :: ip_addr_or_mask
  breason :: block_reason
  bcreated_at :: timestamp
  bexpires_at :: "timestamp option"

text \<open>Validation: the properties at fault.\<close>

datatype validation_error = InvalidAddress | RequiredReason | InvalidCreatedAt | InvalidExpiresAt

definition validate_allowed_ip :: "allowed_ip \<Rightarrow> validation_error list" where
  "validate_allowed_ip obj =
     (if mask_is_valid (ip_address obj) then [] else [InvalidAddress]) @
     (if ip_reason obj = Some [] then [RequiredReason] else []) @
     (if ts_is_valid (ip_created_at obj) then [] else [InvalidCreatedAt]) @
     (case ip_expires_at obj of Some t \<Rightarrow> if ts_is_valid t then [] else [InvalidExpiresAt] | None \<Rightarrow> [])"

definition validate_blocked_ip :: "blocked_ip \<Rightarrow> validation_error list" where
  "validate_blocked_ip obj =
     (if mask_is_valid (baddress obj) then [] else [InvalidAddress]) @
     (if ts_is_valid (bcreated_at obj) then [] else [InvalidCreatedAt]) @
     (case bexpires_at obj of Some t \<Rightarrow> if ts_is_valid t then [] else [InvalidExpiresAt] | None \<Rightarrow> [])"

section \<open>Stored form\<close>

definition pickle_allowed_ip :: "allowed_ip \<Rightarrow> bytes" where
  "pickle_allowed_ip obj =
     pickle_mask (ip_address obj) @ pickle_option pickle_string (ip_reason obj) @
     pickle_datetime (ip_created_at obj) @ pickle_option pickle_datetime (ip_expires_at obj)"

definition unpickle_allowed_ip :: "allowed_ip reader" where
  "unpickle_allowed_ip s =
     and_read (unpickle_mask s) (\<lambda>a s.
     and_read (unpickle_option unpickle_string s) (\<lambda>r s.
     and_read (unpickle_datetime s) (\<lambda>c s.
     and_read (unpickle_option unpickle_datetime s) (\<lambda>e s.
       Some (\<lparr>ip_address = a, ip_reason = r, ip_created_at = c, ip_expires_at = e\<rparr>, s)))))"

definition pickle_blocked_ip :: "blocked_ip \<Rightarrow> bytes" where
  "pickle_blocked_ip obj =
     pickle_mask (baddress obj) @ pickle_enum block_reason_id (breason obj) @
     pickle_datetime (bcreated_at obj) @ pickle_option pickle_datetime (bexpires_at obj)"

definition unpickle_blocked_ip :: "blocked_ip reader" where
  "unpickle_blocked_ip s =
     and_read (unpickle_mask s) (\<lambda>a s.
     and_read (unpickle_enum block_reason_from_id s) (\<lambda>r s.
     and_read (unpickle_datetime s) (\<lambda>c s.
     and_read (unpickle_option unpickle_datetime s) (\<lambda>e s.
       Some (\<lparr>baddress = a, breason = r, bcreated_at = c, bexpires_at = e\<rparr>, s)))))"

text \<open>\<^verbatim>\<open>ObjectImpl::VERSION\<close> of both.\<close>

definition IP_OBJECT_VERSION :: byte where "IP_OBJECT_VERSION = 0"

section \<open>Round trips\<close>

interpretation option_string:
  pickle_code "pickle_option pickle_string" "unpickle_option unpickle_string" "pred_option storable_string"
  by (rule pickle_string.option_code)

interpretation option_datetime:
  pickle_code "pickle_option pickle_datetime" "unpickle_option unpickle_datetime" "pred_option (\<lambda>_. True)"
  by (rule pickle_datetime.option_code)

interpretation block_reason: pickle_code "pickle_enum block_reason_id" "unpickle_enum block_reason_from_id" "\<lambda>_. True"
proof
  fix x v pre rest
  have "block_reason_from_id (block_reason_id x) = Some x"
    by (cases x) (simp_all add: block_reason_from_id_def)
  then show "unpickle_enum block_reason_from_id (at_stream v pre (pickle_enum block_reason_id x @ rest)) =
      Some (x, at_stream v (pre @ pickle_enum block_reason_id x) rest)"
    by (simp add: pickle_enum_def unpickle_enum_def)
qed

lemmas field_codes =
  unpickle_mask_at option_string.unpickle_pickle pickle_datetime.unpickle_pickle [OF TrueI]
  option_datetime.unpickle_pickle block_reason.unpickle_pickle [OF TrueI]

definition storable_allowed_ip :: "allowed_ip \<Rightarrow> bool" where
  "storable_allowed_ip obj \<longleftrightarrow> pred_option storable_string (ip_reason obj)"

lemma pred_option_True [simp]: "pred_option (\<lambda>_. True) x"
  by (cases x) simp_all

interpretation allowed_ip: pickle_code pickle_allowed_ip unpickle_allowed_ip storable_allowed_ip
  by unfold_locales (simp add: pickle_allowed_ip_def unpickle_allowed_ip_def storable_allowed_ip_def field_codes)

interpretation blocked_ip: pickle_code pickle_blocked_ip unpickle_blocked_ip "\<lambda>_. True"
  by unfold_locales (simp add: pickle_blocked_ip_def unpickle_blocked_ip_def field_codes)

lemma block_reason_stored_byte: "\<exists>b. pickle_enum block_reason_id r = [b]"
  by (cases r) (simp_all add: pickle_enum_def pickle_word_def to_leb128_bytes.simps)

lemma blocked_ip_small: "length (pickle_blocked_ip b) \<le> 51"
proof -
  have "length (pickle_mask (baddress b)) \<le> 33"
    by (cases "baddress b") simp_all
  moreover have "length (pickle_option pickle_datetime (bexpires_at b)) \<le> 9"
    by (cases "bexpires_at b") (simp_all add: pickle_option_def pickle_datetime_def)
  moreover obtain r where "pickle_enum block_reason_id (breason b) = [r]"
    using block_reason_stored_byte by blast
  ultimately show ?thesis
    by (simp add: pickle_blocked_ip_def pickle_datetime_def)
qed

lemma ip_object_version: "IP_OBJECT_VERSION AND COMPRESS_MARKER = 0"
  by (simp add: IP_OBJECT_VERSION_def)

text \<open>
  C38: An allowed address and a blocked address written to the registry are read back field by field: whatever
  the address, the network mask, the reason and the dates, whether or not the object is long enough to be
  compressed, as long as \<^verbatim>\<open>lz4_flex\<close> undoes its own compression and the object is shorter than 4 GiB.
\<close>

theorem ip_objects_stored_roundtrip:
  assumes "lz4_ok z" "storable_allowed_ip a" "length (pickle_allowed_ip a) < 2 ^ 32"
  shows "(\<exists>bs. (to_pickled_vec z IP_OBJECT_VERSION pickle_allowed_ip a :: (bytes, unit) result) = Ok bs \<and>
      deserialize_object z unpickle_allowed_ip bs = Some a) \<and>
    (\<exists>bs. (to_pickled_vec z IP_OBJECT_VERSION pickle_blocked_ip b :: (bytes, unit) result) = Ok bs \<and>
      deserialize_object z unpickle_blocked_ip bs = Some b)"
proof
  show "\<exists>bs. (to_pickled_vec z IP_OBJECT_VERSION pickle_allowed_ip a :: (bytes, unit) result) = Ok bs \<and>
      deserialize_object z unpickle_allowed_ip bs = Some a"
    by (rule stored_object [OF allowed_ip.pickle_code_axioms assms(2,1) ip_object_version assms(3)])
  have "length (pickle_blocked_ip b) < 2 ^ 32"
    using blocked_ip_small [of b] by simp
  then show "\<exists>bs. (to_pickled_vec z IP_OBJECT_VERSION pickle_blocked_ip b :: (bytes, unit) result) = Ok bs \<and>
      deserialize_object z unpickle_blocked_ip bs = Some b"
    by (rule stored_object [OF blocked_ip.pickle_code_axioms TrueI assms(1) ip_object_version])
qed

text \<open>A compressor that leaves out the zeros at the end; the object is long enough to be compressed.\<close>

definition drop_zeros :: lz4 where
  "drop_zeros =
     \<lparr>compress_into = (\<lambda>b. rev (dropWhile (\<lambda>x. x = 0) (rev b))),
      decompress_size_prepended = (\<lambda>b.
        let n = unat (from_be (rev (take 4 b)) :: u32); c = drop 4 b in Some (c @ replicate (n - length c) 0))\<rparr>"

lemma pad_dropped_zeros:
  "rev (dropWhile (\<lambda>x. x = 0) (rev b)) @ replicate (length b - length (dropWhile (\<lambda>x. x = 0) (rev b))) 0 = (b :: bytes)"
proof -
  let ?t = "takeWhile (\<lambda>x. x = 0) (rev b)" and ?d = "dropWhile (\<lambda>x. x = 0) (rev b)"
  have "length b = length ?t + length ?d"
    by (metis length_append length_rev takeWhile_dropWhile_id)
  moreover have "?t = replicate (length ?t) 0"
    by (rule replicate_eqI) (auto dest: set_takeWhileD)
  ultimately have "replicate (length b - length ?d) 0 = rev ?t"
    by (metis add_diff_cancel_right' rev_replicate)
  then show ?thesis
    by (metis rev_append rev_rev_ident takeWhile_dropWhile_id)
qed

lemma lz4_ok_drop_zeros: "lz4_ok drop_zeros"
proof -
  have "unat (from_be (to_be 4 (of_nat (length b) :: u32)) :: u32) = length b" if "length b < 2 ^ 32" for b :: bytes
    using that by (simp add: from_be_to_be_full unat_of_nat take_bit_nat_eq_self)
  then show ?thesis
    by (simp add: lz4_ok_def drop_zeros_def Let_def pad_dropped_zeros)
qed

definition sample_allowed_ip :: allowed_ip where
  "sample_allowed_ip =
     \<lparr>ip_address = MaskV4 0x0A000000 0xFF000000, ip_reason = Some (replicate 9000 0), ip_created_at = 0, ip_expires_at = None\<rparr>"

definition sample_blocked_ip :: blocked_ip where
  "sample_blocked_ip =
     \<lparr>baddress = MaskV4 0x0A000001 (- 1), breason = AuthFailure, bcreated_at = 0, bexpires_at = Some 60\<rparr>"

lemma sample_allowed_ip_storable:
  "storable_allowed_ip sample_allowed_ip" "length (pickle_allowed_ip sample_allowed_ip) < 2 ^ 32"
proof -
  have "valid_utf8 (replicate 9000 0)"
    by (rule ascii_valid_utf8) simp
  then show "storable_allowed_ip sample_allowed_ip"
    by (simp add: storable_allowed_ip_def sample_allowed_ip_def storable_string_def fits_u32_def)
  have "length (pickle_word (9000 :: u32)) = 2"
    by (simp add: pickle_word_def to_leb128_bytes.simps unat_drop_bit_7)
  then show "length (pickle_allowed_ip sample_allowed_ip) < 2 ^ 32"
    by (simp add: pickle_allowed_ip_def sample_allowed_ip_def pickle_option_def pickle_string_def pickle_datetime_def)
qed

theorem ip_objects_stored_roundtrip_witness:
  "(\<exists>bs. (to_pickled_vec drop_zeros IP_OBJECT_VERSION pickle_allowed_ip sample_allowed_ip :: (bytes, unit) result) = Ok bs \<and>
      deserialize_object drop_zeros unpickle_allowed_ip bs = Some sample_allowed_ip) \<and>
   (\<exists>bs. (to_pickled_vec drop_zeros IP_OBJECT_VERSION pickle_blocked_ip sample_blocked_ip :: (bytes, unit) result) = Ok bs \<and>
      deserialize_object drop_zeros unpickle_blocked_ip bs = Some sample_blocked_ip)"
  using ip_objects_stored_roundtrip [OF lz4_ok_drop_zeros sample_allowed_ip_storable] .

end
