(* ===== verification/Registry_Table.thy ===== *)
theory Registry_Table
  imports Stored_Objects Memory_Store
begin

text \<open>
  The registry's table of one type of object with a unique property (\<^verbatim>\<open>store/src/registry\<close>: \<^verbatim>\<open>write\<close>,
  \<^verbatim>\<open>delete\<close>, \<^verbatim>\<open>get\<close>, \<^verbatim>\<open>list\<close> and the \<^verbatim>\<open>_infallible\<close> readers of \<^verbatim>\<open>Bootstrap\<close>), for objects without tenant,
  account or foreign keys. Objects are kept in their stored form.
\<close>

section \<open>Objects and the table\<close>

text \<open>\<^verbatim>\<open>ObjectImpl\<close>: what the registry uses of a type of object.\<close>

record 'a object_impl =
  oi_version :: byte
  oi_pickle :: "'a \<Rightarrow> bytes"
  oi_unpickle :: "'a reader"
  oi_validate :: "'a \<Rightarrow> validation_error list"
  oi_unique :: "'a \<Rightarrow> bytes"

definition allowed_ip_impl :: "allowed_ip object_impl" where
  "allowed_ip_impl =
     \<lparr>oi_version = IP_OBJECT_VERSION, oi_pickle = pickle_allowed_ip, oi_unpickle = unpickle_allowed_ip,
      oi_validate = validate_allowed_ip, oi_unique = (\<lambda>obj. to_index_key (ip_address obj))\<rparr>"

definition blocked_ip_impl :: "blocked_ip object_impl" where
  "blocked_ip_impl =
     \<lparr>oi_version = IP_OBJECT_VERSION, oi_pickle = pickle_blocked_ip, oi_unpickle = unpickle_blocked_ip,
      oi_validate = validate_blocked_ip, oi_unique = (\<lambda>obj. to_index_key (baddress obj))\<rparr>"

record registry_table =
  items :: "(u64 \<times> bytes) list"
  primary :: "(bytes \<times> u64) list"
  tunreachable :: bool

datatype write_result = Success u64 | PrimaryKeyConflict u64 | ValidationErrors "validation_error list" | TooLarge nat

definition MAX_OBJECT_PAYLOAD_SIZE :: nat where "MAX_OBJECT_PAYLOAD_SIZE = 200000"

section \<open>Writing\<close>

text \<open>The batch at the end of \<^verbatim>\<open>write\<close>, under the assertion that the unique key is still free.\<close>

definition registry_put ::
  "lz4 \<Rightarrow> 'a object_impl \<Rightarrow> u64 \<Rightarrow> 'a \<Rightarrow> registry_table \<Rightarrow>
    (write_result \<times> registry_table, store_error) result" where
  "registry_put z impl item_id obj t =
     and_then (to_pickled_vec z (oi_version impl) (oi_pickle impl) obj) (\<lambda>out.
       if MAX_OBJECT_PAYLOAD_SIZE < length out then Ok (TooLarge (length out), t)
       else if map_of (primary t) (oi_unique impl obj) \<noteq> None then Err AssertValueFailed
       else
         Ok (Success item_id,
             t\<lparr>items := AList.update item_id out (items t),
               primary := AList.update (oi_unique impl obj) item_id (primary t)\<rparr>))"

text \<open>\<^verbatim>\<open>RegistryWrite::insert\<close>; \<open>item_id\<close> is what the id generator gave.\<close>

definition registry_insert ::
  "lz4 \<Rightarrow> 'a object_impl \<Rightarrow> u64 \<Rightarrow> 'a \<Rightarrow> registry_table \<Rightarrow>
    (write_result \<times> registry_table, store_error) result" where
  "registry_insert z impl item_id obj t =
     (if oi_validate impl obj \<noteq> [] then Ok (ValidationErrors (oi_validate impl obj), t)
      else if tunreachable t then Err StoreUnreachable
      else
        (case map_of (primary t) (oi_unique impl obj) of
           Some existing \<Rightarrow>
             if existing \<noteq> item_id then Ok (PrimaryKeyConflict existing, t)
             else registry_put z impl item_id obj t
         | None \<Rightarrow> registry_put z impl item_id obj t))"

text \<open>\<^verbatim>\<open>RegistryWrite::delete_object\<close>, of an object as it was read.\<close>

definition registry_delete :: "'a object_impl \<Rightarrow> u64 \<Rightarrow> 'a \<Rightarrow> registry_table \<Rightarrow> (registry_table, store_error) result" where
  "registry_delete impl item_id obj t =
     (if tunreachable t then Err StoreUnreachable
      else
        Ok (t\<lparr>items := AList.delete item_id (items t),
              primary := AList.delete (oi_unique impl obj) (primary t)\<rparr>))"

section \<open>Reading\<close>

definition registry_get :: "lz4 \<Rightarrow> 'a object_impl \<Rightarrow> u64 \<Rightarrow> registry_table \<Rightarrow> ('a option, store_error) result" where
  "registry_get z impl item_id t =
     (if tunreachable t then Err StoreUnreachable
      else
        (case map_of (items t) item_id of
           None \<Rightarrow> Ok None
         | Some bs \<Rightarrow>
             and_then (ok_or (deserialize_object z (oi_unpickle impl) bs) DataCorruption) (\<lambda>obj. Ok (Some obj))))"

fun unpickle_rows :: "lz4 \<Rightarrow> 'a reader \<Rightarrow> (u64 \<times> bytes) list \<Rightarrow> ((u64 \<times> 'a) list, store_error) result" where
  "unpickle_rows z u [] = Ok []"
| "unpickle_rows z u ((i, bs) # rows) =
     and_then (ok_or (deserialize_object z u bs) DataCorruption) (\<lambda>obj.
     and_then (unpickle_rows z u rows) (\<lambda>objs. Ok ((i, obj) # objs)))"

definition registry_list :: "lz4 \<Rightarrow> 'a object_impl \<Rightarrow> registry_table \<Rightarrow> ((u64 \<times> 'a) list, store_error) result" where
  "registry_list z impl t =
     (if tunreachable t then Err StoreUnreachable
      else unpickle_rows z (oi_unpickle impl) (sort_key fst (items t)))"

text \<open>
  \<^verbatim>\<open>get_infallible\<close> and \<^verbatim>\<open>list_infallible\<close>: what can be used, and whether an error was recorded.
\<close>

definition get_infallible :: "lz4 \<Rightarrow> 'a object_impl \<Rightarrow> u64 \<Rightarrow> registry_table \<Rightarrow> 'a option \<times> bool" where
  "get_infallible z impl item_id t =
     (case registry_get z impl item_id t of
        Ok (Some obj) \<Rightarrow> if oi_validate impl obj = [] then (Some obj, False) else (None, True)
      | _ \<Rightarrow> (None, True))"

definition list_infallible :: "lz4 \<Rightarrow> 'a object_impl \<Rightarrow> registry_table \<Rightarrow> (u64 \<times> 'a) list \<times> bool" where
  "list_infallible z impl t =
     (case registry_list z impl t of
        Ok objs \<Rightarrow>
          (filter (\<lambda>(_, obj). oi_validate impl obj = []) objs,
           list_ex (\<lambda>(_, obj). oi_validate impl obj \<noteq> []) objs)
      | _ \<Rightarrow> ([], True))"

section \<open>Rows and the unique property\<close>

definition row :: "lz4 \<Rightarrow> 'a object_impl \<Rightarrow> registry_table \<Rightarrow> u64 \<Rightarrow> 'a option" where
  "row z impl t i = Option.bind (map_of (items t) i) (deserialize_object z (oi_unpickle impl))"

text \<open>Every row can be read and is valid, and the unique index is the inverse of the rows.\<close>

definition table_ok :: "lz4 \<Rightarrow> 'a object_impl \<Rightarrow> registry_table \<Rightarrow> bool" where
  "table_ok z impl t \<longleftrightarrow>
     distinct (map fst (items t)) \<and>
     (\<forall>i \<in> fst ` set (items t). row z impl t i \<noteq> None) \<and>
     (\<forall>i obj. row z impl t i = Some obj \<longrightarrow> oi_validate impl obj = []) \<and>
     (\<forall>k i. map_of (primary t) k = Some i \<longleftrightarrow> (\<exists>obj. row z impl t i = Some obj \<and> oi_unique impl obj = k))"

lemma table_okD:
  assumes "table_ok z impl t"
  shows "distinct (map fst (items t))"
    and "i \<in> fst ` set (items t) \<Longrightarrow> row z impl t i \<noteq> None"
    and "row z impl t i = Some obj \<Longrightarrow> oi_validate impl obj = []"
    and "map_of (primary t) k = Some i \<longleftrightarrow> (\<exists>obj. row z impl t i = Some obj \<and> oi_unique impl obj = k)"
  using assms unfolding table_ok_def by blast+

lemma row_unindexed: "table_ok z impl t \<Longrightarrow> map_of (primary t) (oi_unique impl obj) = None \<Longrightarrow> row z impl t i = Some x \<Longrightarrow>
    oi_unique impl x \<noteq> oi_unique impl obj"
  using table_okD(4) [of z impl t "oi_unique impl x" i] by auto

lemma delete_dom: "fst ` set (AList.delete k xs) = fst ` set xs - {k}"
  by (metis delete_keys set_map set_removeAll)

text \<open>Two rows never share the unique property.\<close>

lemma rows_unique:
  "table_ok z impl t \<Longrightarrow> row z impl t i = Some x \<Longrightarrow> row z impl t j = Some y \<Longrightarrow>
   oi_unique impl x = oi_unique impl y \<Longrightarrow> i = j"
  using table_okD(4) [of z impl t "oi_unique impl x"] by (metis option.inject)

locale object_type =
  fixes impl :: "'a object_impl"
    and storable :: "'a \<Rightarrow> bool"
  assumes code: "pickle_code (oi_pickle impl) (oi_unpickle impl) storable"
    and version_plain: "oi_version impl AND COMPRESS_MARKER = 0"
    and storable_length: "storable x \<Longrightarrow> length (oi_pickle impl x) < 2 ^ 32"
begin

lemma stored:
  "lz4_ok z \<Longrightarrow> storable x \<Longrightarrow>
   \<exists>bs. to_pickled_vec z (oi_version impl) (oi_pickle impl) x = (Ok bs :: (bytes, store_error) result) \<and>
     deserialize_object z (oi_unpickle impl) bs = Some x"
  by (rule stored_object [OF code _ _ version_plain storable_length])

lemma insert_row:
  assumes "lz4_ok z" "storable x" "table_ok z impl t" "map_of (items t) i = None"
    and "registry_insert z impl i x t = Ok (Success j, t')"
  shows "j = i" "row z impl t' = (row z impl t)(i \<mapsto> x)" "table_ok z impl t'"
    "tunreachable t' = tunreachable t" "oi_validate impl x = []"
proof -
  obtain bs where bs: "to_pickled_vec z (oi_version impl) (oi_pickle impl) x = (Ok bs :: (bytes, store_error) result)"
      "deserialize_object z (oi_unpickle impl) bs = Some x"
    using stored [OF assms(1,2)] by blast
  have t': "j = i" "oi_validate impl x = []" "map_of (primary t) (oi_unique impl x) = None"
      "t' = t\<lparr>items := AList.update i bs (items t), primary := AList.update (oi_unique impl x) i (primary t)\<rparr>"
    using assms(5) bs(1) by (auto simp: registry_insert_def registry_put_def split: if_splits option.splits)
  show r: "row z impl t' = (row z impl t)(i \<mapsto> x)"
    by (rule ext) (simp add: t'(4) row_def update_conv' bs(2))
  show "j = i" "tunreachable t' = tunreachable t" "oi_validate impl x = []"
    using t' by simp_all
  note ok = table_okD [OF assms(3)]
  have none: "row z impl t i = None"
    using assms(4) by (simp add: row_def)
  show "table_ok z impl t'"
    unfolding table_ok_def r
  proof (intro conjI allI ballI impI)
    show "distinct (map fst (items t'))"
      using ok(1) by (simp add: t'(4) distinct_update)
    show "((row z impl t)(i \<mapsto> x)) j \<noteq> None" if "j \<in> fst ` set (items t')" for j
      using that ok(2) by (auto simp: t'(4) dom_update)
    show "oi_validate impl obj = []" if "((row z impl t)(i \<mapsto> x)) j = Some obj" for j obj
      using that ok(3) t'(2) by (auto split: if_splits)
    show "map_of (primary t') k = Some j \<longleftrightarrow> (\<exists>obj. ((row z impl t)(i \<mapsto> x)) j = Some obj \<and> oi_unique impl obj = k)" for k j
      using ok(4) [of k j] none row_unindexed [OF assms(3) t'(3), of j]
      by (auto simp: t'(4) update_conv')
  qed
qed

lemma delete_row:
  assumes "table_ok z impl t" "row z impl t i = Some x" "registry_delete impl i x t = Ok t'"
  shows "row z impl t' = (row z impl t)(i := None)" "table_ok z impl t'" "tunreachable t' = tunreachable t"
proof -
  have t': "t' = t\<lparr>items := AList.delete i (items t), primary := AList.delete (oi_unique impl x) (primary t)\<rparr>"
    using assms(3) by (auto simp: registry_delete_def split: if_splits)
  show r: "row z impl t' = (row z impl t)(i := None)"
    by (rule ext) (simp add: t' row_def delete_conv')
  show "tunreachable t' = tunreachable t"
    by (simp add: t')
  note ok = table_okD [OF assms(1)]
  have same: "j = i" if "row z impl t j = Some y" "oi_unique impl y = oi_unique impl x" for j y
    using rows_unique [OF assms(1) that(1) assms(2) that(2)] .
  show "table_ok z impl t'"
    unfolding table_ok_def r
  proof (intro conjI allI ballI impI)
    show "distinct (map fst (items t'))"
      using ok(1) by (simp add: t' distinct_delete)
    show "((row z impl t)(i := None)) j \<noteq> None" if "j \<in> fst ` set (items t')" for j
      using that ok(2) by (auto simp: t' delete_dom)
    show "oi_validate impl obj = []" if "((row z impl t)(i := None)) j = Some obj" for j obj
      using that ok(3) by (auto split: if_splits)
    show "map_of (primary t') k = Some j \<longleftrightarrow> (\<exists>obj. ((row z impl t)(i := None)) j = Some obj \<and> oi_unique impl obj = k)" for k j
    proof (cases "k = oi_unique impl x")
      case True
      then have "map_of (primary t') k = None" by (simp add: t' delete_conv')
      moreover have "\<not> (\<exists>obj. ((row z impl t)(i := None)) j = Some obj \<and> oi_unique impl obj = k)"
        using same [of j] True by (cases "j = i") auto
      ultimately show ?thesis by simp
    next
      case False
      with ok(4) [of k j] assms(2) show ?thesis by (auto simp: t' delete_conv')
    qed
  qed
qed

end

lemma unpickle_rows_Ok:
  assumes "\<forall>(i, bs) \<in> set rows. deserialize_object z u bs \<noteq> None"
  shows "unpickle_rows z u rows = Ok (map (\<lambda>(i, bs). (i, the (deserialize_object z u bs))) rows)"
  using assms by (induction rows) auto

lemma registry_list_rows:
  assumes "table_ok z impl t" "\<not> tunreachable t"
  shows "\<exists>objs. list_infallible z impl t = (objs, False) \<and> distinct (map fst objs) \<and>
    (\<forall>i x. (i, x) \<in> set objs \<longleftrightarrow> row z impl t i = Some x)"
proof -
  let ?objs = "map (\<lambda>(i, bs). (i, the (deserialize_object z (oi_unpickle impl) bs))) (sort_key fst (items t))"
  have of: "(i, bs) \<in> set (items t) \<longleftrightarrow> map_of (items t) i = Some bs" for i bs
    using table_okD(1) [OF assms(1)] by simp
  have some: "\<exists>x. row z impl t i = Some x \<and> deserialize_object z (oi_unpickle impl) bs = Some x" if "(i, bs) \<in> set (items t)" for i bs
    using that table_okD(2) [OF assms(1), of i] of [of i bs] by (force simp: row_def)
  have list: "registry_list z impl t = Ok ?objs"
    unfolding registry_list_def using assms(2) some by (fastforce intro!: unpickle_rows_Ok)
  have rows: "(i, x) \<in> set ?objs \<longleftrightarrow> row z impl t i = Some x" for i x
  proof
    assume "(i, x) \<in> set ?objs"
    then show "row z impl t i = Some x" using some by fastforce
  next
    assume "row z impl t i = Some x"
    then obtain bs where "(i, bs) \<in> set (items t)" "deserialize_object z (oi_unpickle impl) bs = Some x"
      by (auto simp: of row_def bind_eq_Some_conv)
    then show "(i, x) \<in> set ?objs" by force
  qed
  have "distinct (map fst ?objs)"
    using table_okD(1) [OF assms(1)] by (simp add: comp_def case_prod_unfold distinct_map)
  moreover have "\<forall>p \<in> set ?objs. oi_validate impl (snd p) = []"
    using rows table_okD(3) [OF assms(1)] by (metis prod.collapse)
  then have "list_infallible z impl t = (?objs, False)"
    by (simp add: list_infallible_def list list_ex_iff filter_id_conv case_prod_unfold del: set_map set_sort)
  ultimately show ?thesis
    using rows by blast
qed

interpretation allowed_ips: object_type allowed_ip_impl
  "\<lambda>a. storable_allowed_ip a \<and> length (pickle_allowed_ip a) < 2 ^ 32"
proof (rule object_type.intro)
  show "pickle_code (oi_pickle allowed_ip_impl) (oi_unpickle allowed_ip_impl)
      (\<lambda>a. storable_allowed_ip a \<and> length (pickle_allowed_ip a) < 2 ^ 32)"
    using allowed_ip.unpickle_pickle by (auto simp add: allowed_ip_impl_def pickle_code_def)
qed (simp_all add: allowed_ip_impl_def ip_object_version)

interpretation blocked_rows: object_type blocked_ip_impl "\<lambda>_. True"
proof (rule object_type.intro)
  show "pickle_code (oi_pickle blocked_ip_impl) (oi_unpickle blocked_ip_impl) (\<lambda>_. True)"
    using blocked_ip.unpickle_pickle by (simp add: blocked_ip_impl_def pickle_code_def)
  show "length (oi_pickle blocked_ip_impl x) < 2 ^ 32" for x
    using blocked_ip_small [of x] by (simp add: blocked_ip_impl_def)
qed (simp add: blocked_ip_impl_def ip_object_version)

end
