(* ===== verification/Glob.thy ===== *)
theory Glob
  imports Contracts
begin

text \<open>
  Glob patterns (\<^verbatim>\<open>utils/src/glob.rs\<close>): compilation, the matching loop with one backtrack point,
  sets and maps of patterns, and \<^verbatim>\<open>MatchType\<close>. Characters are their code points. The Unicode
  case tables of the standard library are an argument. The loop is a partial function: that it ends
  is part of its correctness.
\<close>

section \<open>Patterns\<close>

type_synonym uchar = u32
type_synonym ustring = "uchar list"

record unicode =
  char_is_uppercase :: "uchar \<Rightarrow> bool"
  char_to_lowercase :: "uchar \<Rightarrow> ustring"
  str_to_lowercase :: "ustring \<Rightarrow> ustring"

definition STAR :: uchar where "STAR = 42"
definition QUESTION :: uchar where "QUESTION = 63"
definition BACKSLASH :: uchar where "BACKSLASH = 92"

lemmas glob_chars = STAR_def QUESTION_def BACKSLASH_def

datatype pattern_char =
    WildcardMany (many_num: nat) (match_pos: nat)
  | WildcardSingle (match_pos: nat)
  | PatChar (pat_char: uchar) (match_pos: nat)

record glob_pattern =
  pattern :: "pattern_char list"
  to_lower :: bool

function compile_loop :: "unicode \<Rightarrow> bool \<Rightarrow> bool \<Rightarrow> ustring \<Rightarrow> pattern_char list" where
  "compile_loop uni lower is_escaped [] = []"
| "compile_loop uni lower is_escaped (c # str) =
     (if c = STAR \<and> \<not> is_escaped then
        WildcardMany (Suc (length (takeWhile (\<lambda>x. x = STAR) str))) 0 #
          compile_loop uni lower False (dropWhile (\<lambda>x. x = STAR) str)
      else if c = QUESTION \<and> \<not> is_escaped then WildcardSingle 0 # compile_loop uni lower False str
      else if c = BACKSLASH \<and> \<not> is_escaped then compile_loop uni lower True str
      else
        (if lower \<and> char_is_uppercase uni c then map (\<lambda>c. PatChar c 0) (char_to_lowercase uni c)
         else [PatChar c 0]) @ compile_loop uni lower False str)"
  by pat_completeness auto
termination
  by (relation "measure (\<lambda>(uni, lower, esc, str). length str)")
    (auto simp: less_Suc_eq_le length_dropWhile_le)

definition compile :: "unicode \<Rightarrow> ustring \<Rightarrow> bool \<Rightarrow> glob_pattern" where
  "compile uni str lower = \<lparr>pattern = compile_loop uni lower False str, to_lower = lower\<rparr>"

text \<open>The scan of \<^verbatim>\<open>try_compile\<close>: last character, escape seen, wildcard seen.\<close>

fun detect :: "uchar \<Rightarrow> bool \<Rightarrow> bool \<Rightarrow> ustring \<Rightarrow> bool \<times> bool" where
  "detect last_ch has_escape is_glob [] = (has_escape, is_glob)"
| "detect last_ch has_escape is_glob (ch # str) =
     detect ch (has_escape \<or> ch = BACKSLASH)
       (is_glob \<or> (ch = STAR \<or> ch = QUESTION) \<and> last_ch \<noteq> BACKSLASH) str"

definition try_compile :: "unicode \<Rightarrow> ustring \<Rightarrow> bool \<Rightarrow> (glob_pattern, ustring) result" where
  "try_compile uni str lower =
     (let (has_escape, is_glob) = detect 0 False False str in
      if is_glob then Ok (compile uni str lower)
      else Err (if has_escape then filter (\<lambda>c. c \<noteq> BACKSLASH) str else str))"

section \<open>Matching\<close>

text \<open>
  One turn of the \<^verbatim>\<open>while\<close> loop on \<^verbatim>\<open>(px, nx, next_px, next_nx)\<close>: the next state, or
  the result.
\<close>

type_synonym match_state = "nat \<times> nat \<times> nat \<times> nat"

definition retry :: "ustring \<Rightarrow> nat \<Rightarrow> nat \<Rightarrow> match_state + bool" where
  "retry v next_px next_nx =
     (if 0 < next_nx \<and> next_nx \<le> length v then Inl (next_px, next_nx, next_px, next_nx) else Inr False)"

definition glob_step :: "pattern_char list \<Rightarrow> ustring \<Rightarrow> match_state \<Rightarrow> match_state + bool" where
  "glob_step pat v st =
     (case st of (px, nx, next_px, next_nx) \<Rightarrow>
        if px < length pat \<or> nx < length v then
          (case get_at pat px of
             Some (PatChar c _) \<Rightarrow>
               if get_at v nx = Some c then Inl (px + 1, nx + 1, next_px, next_nx)
               else retry v next_px next_nx
           | Some (WildcardSingle _) \<Rightarrow>
               if nx < length v then Inl (px + 1, nx + 1, next_px, next_nx) else retry v next_px next_nx
           | Some (WildcardMany _ _) \<Rightarrow> Inl (px + 1, nx, px, nx + 1)
           | None \<Rightarrow> retry v next_px next_nx)
        else Inr True)"

partial_function (option) match_loop ::
  "pattern_char list \<Rightarrow> ustring \<Rightarrow> match_state \<Rightarrow> bool option" where
  "match_loop pat v st = (case glob_step pat v st of Inl st' \<Rightarrow> match_loop pat v st' | Inr b \<Rightarrow> Some b)"

definition glob_matches :: "unicode \<Rightarrow> glob_pattern \<Rightarrow> ustring \<Rightarrow> bool option" where
  "glob_matches uni g str =
     match_loop (pattern g) (if to_lower g then str_to_lowercase uni str else str) (0, 0, 0, 0)"

section \<open>What a pattern means\<close>

fun glob_spec :: "pattern_char list \<Rightarrow> ustring \<Rightarrow> bool" where
  "glob_spec [] v = (v = [])"
| "glob_spec (PatChar c _ # p) v = (case v of [] \<Rightarrow> False | x # v' \<Rightarrow> x = c \<and> glob_spec p v')"
| "glob_spec (WildcardSingle _ # p) v = (case v of [] \<Rightarrow> False | x # v' \<Rightarrow> glob_spec p v')"
| "glob_spec (WildcardMany n k # p) v =
     (glob_spec p v \<or> (case v of [] \<Rightarrow> False | x # v' \<Rightarrow> glob_spec (WildcardMany n k # p) v'))"

definition is_many :: "pattern_char \<Rightarrow> bool" where
  "is_many c = (case c of WildcardMany _ _ \<Rightarrow> True | _ \<Rightarrow> False)"

lemma glob_spec_many_iff:
  "glob_spec (WildcardMany n k # p) v \<longleftrightarrow> (\<exists>i \<le> length v. glob_spec p (drop i v))"
proof (induction v)
  case (Cons x v)
  have "(\<exists>i \<le> length (x # v). glob_spec p (drop i (x # v))) \<longleftrightarrow>
      glob_spec p (x # v) \<or> (\<exists>i \<le> length v. glob_spec p (drop i v))"
    by (metis Suc_le_mono drop0 drop_Suc_Cons length_Cons le0 not0_implies_Suc)
  with Cons show ?case by simp
qed simp

lemma glob_spec_many_later:
  "is_many c \<Longrightarrow> glob_spec (c # p) (drop j v) \<Longrightarrow> glob_spec (c # p) v"
  by (cases c) (auto simp: is_many_def glob_spec_many_iff simp del: glob_spec.simps(4),
    metis add.commute add_le_cancel_left le_add_diff_inverse2 le_trans nat_le_linear drop_all diff_le_self)

lemma glob_spec_segment:
  "\<forall>c \<in> set seg. \<not> is_many c \<Longrightarrow> glob_spec (seg @ p) v \<Longrightarrow>
     length seg \<le> length v \<and> glob_spec p (drop (length seg) v)"
proof (induction seg arbitrary: v)
  case (Cons c seg)
  then show ?case
    by (cases c; cases v) (auto simp: is_many_def)
qed simp

section \<open>The loop finds what the pattern means\<close>

text \<open>
  The backtrack point is the last star seen: the pattern since then is free of stars and has been
  matched against the text just before the current position.
\<close>

definition loop_inv :: "pattern_char list \<Rightarrow> ustring \<Rightarrow> match_state \<Rightarrow> bool" where
  "loop_inv pat v st \<longleftrightarrow>
     (case st of (px, nx, npx, nnx) \<Rightarrow>
        px \<le> length pat \<and> nx \<le> length v \<and> npx \<le> px \<and> nnx \<le> Suc (length v) \<and>
        (nnx \<noteq> 0 \<longrightarrow> npx < length pat \<and> is_many (pat ! npx) \<and>
           (if px = npx then nx = nnx
            else (\<forall>c \<in> set (take (px - Suc npx) (drop (Suc npx) pat)). \<not> is_many c) \<and>
                 nx + npx + 2 = nnx + px)))"

text \<open>What is still to be decided: from here, or from the backtrack point.\<close>

definition pending :: "pattern_char list \<Rightarrow> ustring \<Rightarrow> match_state \<Rightarrow> bool" where
  "pending pat v st \<longleftrightarrow>
     (case st of (px, nx, npx, nnx) \<Rightarrow>
        glob_spec (drop px pat) (drop nx v) \<or>
        0 < nnx \<and> nnx \<le> length v \<and> glob_spec (drop npx pat) (drop nnx v))"

definition loop_measure :: "pattern_char list \<Rightarrow> ustring \<Rightarrow> match_state \<Rightarrow> nat \<times> nat \<times> nat" where
  "loop_measure pat v st =
     (case st of (px, nx, npx, nnx) \<Rightarrow>
        (length pat - npx, length v + 2 - (if 0 < nnx \<and> px = npx then nnx + 1 else nnx), length pat - px))"

lemma drop_pat: "px < length pat \<Longrightarrow> drop px pat = pat ! px # drop (Suc px) pat"
  by (simp add: Cons_nth_drop_Suc)

lemma backtrack_covers:
  assumes "loop_inv pat v (px, nx, npx, nnx)" "px < length pat" "is_many (pat ! px)"
    and "0 < nnx" "nnx \<le> length v" "glob_spec (drop npx pat) (drop nnx v)"
  shows "glob_spec (drop px pat) (drop nx v)"
proof (cases "px = npx")
  case True
  then show ?thesis using assms by (simp add: loop_inv_def)
next
  case False
  define seg where "seg = take (px - Suc npx) (drop (Suc npx) pat)"
  have npx: "npx < px" "is_many (pat ! npx)" "\<forall>c \<in> set seg. \<not> is_many c" "nx + npx + 2 = nnx + px"
    using assms(1, 4) False by (auto simp: loop_inv_def seg_def)
  have len: "length seg = px - Suc npx"
    using assms(2) npx(1) by (simp add: seg_def)
  have "drop (Suc npx) pat = seg @ drop px pat"
    using npx(1) append_take_drop_id [of "px - Suc npx" "drop (Suc npx) pat"]
    by (simp add: seg_def)
  then have "drop npx pat = pat ! npx # seg @ drop px pat"
    using npx(1) assms(2) drop_pat [of npx pat] by simp
  then obtain i where i: "glob_spec (seg @ drop px pat) (drop i (drop nnx v))"
    using assms(6) npx(2) by (cases "pat ! npx") (auto simp: is_many_def glob_spec_many_iff simp del: glob_spec.simps(4))
  have "length seg + (i + nnx) = Suc nx + i"
    using len npx(1, 4) by linarith
  with glob_spec_segment [OF npx(3) i] have "glob_spec (drop px pat) (drop (Suc nx + i) v)"
    by simp
  then have "glob_spec (drop px pat) (drop (Suc i) (drop nx v))"
    by (simp add: add.commute)
  then show ?thesis
    using glob_spec_many_later [OF assms(3)] drop_pat [OF assms(2)] by metis
qed

lemma step_match:
  assumes "loop_inv pat v (px, nx, npx, nnx)" "px < length pat" "\<not> is_many (pat ! px)" "nx < length v"
    and "glob_spec (drop px pat) (drop nx v) = glob_spec (drop (Suc px) pat) (drop (Suc nx) v)"
  shows "loop_inv pat v (Suc px, Suc nx, npx, nnx)"
    and "pending pat v (Suc px, Suc nx, npx, nnx) = pending pat v (px, nx, npx, nnx)"
    and "(loop_measure pat v (Suc px, Suc nx, npx, nnx), loop_measure pat v (px, nx, npx, nnx)) \<in>
      less_than <*lex*> less_than <*lex*> less_than"
proof -
  have "nnx \<noteq> 0 \<Longrightarrow> npx < px"
    using assms(1, 3) by (auto simp: loop_inv_def split: if_split_asm)
  moreover from this have "nnx \<noteq> 0 \<Longrightarrow>
      take (Suc px - Suc npx) (drop (Suc npx) pat) = take (px - Suc npx) (drop (Suc npx) pat) @ [pat ! px]"
    using assms(2) take_Suc_conv_app_nth [of "px - Suc npx" "drop (Suc npx) pat"]
    by (simp add: Suc_diff_Suc)
  ultimately show "loop_inv pat v (Suc px, Suc nx, npx, nnx)"
    using assms(1-4) by (auto simp: loop_inv_def)
  show "pending pat v (Suc px, Suc nx, npx, nnx) = pending pat v (px, nx, npx, nnx)"
    using assms(5) by (simp add: pending_def)
  show "(loop_measure pat v (Suc px, Suc nx, npx, nnx), loop_measure pat v (px, nx, npx, nnx)) \<in>
      less_than <*lex*> less_than <*lex*> less_than"
    using \<open>nnx \<noteq> 0 \<Longrightarrow> npx < px\<close> assms(2) by (auto simp: loop_measure_def)
qed

lemma step_star:
  assumes "loop_inv pat v (px, nx, npx, nnx)" "px < length pat" "is_many (pat ! px)"
  shows "loop_inv pat v (Suc px, nx, px, Suc nx)"
    and "pending pat v (Suc px, nx, px, Suc nx) = pending pat v (px, nx, npx, nnx)"
    and "(loop_measure pat v (Suc px, nx, px, Suc nx), loop_measure pat v (px, nx, npx, nnx)) \<in>
      less_than <*lex*> less_than <*lex*> less_than"
proof -
  have nx: "nx \<le> length v" using assms(1) by (simp add: loop_inv_def)
  show "loop_inv pat v (Suc px, nx, px, Suc nx)"
    using assms nx by (auto simp: loop_inv_def)
  have "glob_spec (drop px pat) (drop nx v) \<longleftrightarrow>
      glob_spec (drop (Suc px) pat) (drop nx v) \<or> nx < length v \<and> glob_spec (drop px pat) (drop (Suc nx) v)"
    using assms(2, 3) nx drop_pat [OF assms(2)]
    by (cases "pat ! px"; cases "nx < length v")
      (auto simp: is_many_def Cons_nth_drop_Suc [symmetric])
  then show "pending pat v (Suc px, nx, px, Suc nx) = pending pat v (px, nx, npx, nnx)"
    using backtrack_covers [OF assms] by (auto simp: pending_def Suc_le_eq)
  show "(loop_measure pat v (Suc px, nx, px, Suc nx), loop_measure pat v (px, nx, npx, nnx)) \<in>
      less_than <*lex*> less_than <*lex*> less_than"
    using assms nx by (auto simp: loop_measure_def loop_inv_def split: if_split_asm)
qed

lemma step_retry:
  assumes "loop_inv pat v (px, nx, npx, nnx)" "0 < nnx" "nnx \<le> length v"
    and "px = length pat \<or> \<not> is_many (pat ! px)" "\<not> glob_spec (drop px pat) (drop nx v)"
  shows "loop_inv pat v (npx, nnx, npx, nnx)"
    and "pending pat v (npx, nnx, npx, nnx) = pending pat v (px, nx, npx, nnx)"
    and "(loop_measure pat v (npx, nnx, npx, nnx), loop_measure pat v (px, nx, npx, nnx)) \<in>
      less_than <*lex*> less_than <*lex*> less_than"
  using assms by (auto simp: loop_inv_def pending_def loop_measure_def split: if_split_asm)

text \<open>A turn of the loop keeps the invariant and the question, and comes closer to the end.\<close>

definition good_turn :: "pattern_char list \<Rightarrow> ustring \<Rightarrow> match_state \<Rightarrow> match_state + bool \<Rightarrow> bool" where
  "good_turn pat v st out \<longleftrightarrow>
     (case out of
        Inl st' \<Rightarrow> loop_inv pat v st' \<and> pending pat v st' = pending pat v st \<and>
          (loop_measure pat v st', loop_measure pat v st) \<in> less_than <*lex*> less_than <*lex*> less_than
      | Inr b \<Rightarrow> b = pending pat v st)"

lemma mismatch_turn:
  assumes "loop_inv pat v (px, nx, npx, nnx)" "px = length pat \<or> \<not> is_many (pat ! px)"
    and "\<not> glob_spec (drop px pat) (drop nx v)"
  shows "good_turn pat v (px, nx, npx, nnx) (retry v npx nnx)"
proof (cases "0 < nnx \<and> nnx \<le> length v")
  case True
  then show ?thesis
    using step_retry [OF assms(1) _ _ assms(2, 3)] by (simp add: retry_def good_turn_def)
next
  case False
  then show ?thesis
    using assms(3) by (auto simp: retry_def pending_def good_turn_def)
qed

lemma match_turn:
  assumes "loop_inv pat v (px, nx, npx, nnx)" "px < length pat" "\<not> is_many (pat ! px)" "nx < length v"
    and "glob_spec (drop px pat) (drop nx v) = glob_spec (drop (Suc px) pat) (drop (Suc nx) v)"
  shows "good_turn pat v (px, nx, npx, nnx) (Inl (Suc px, Suc nx, npx, nnx))"
  using step_match [OF assms] by (simp add: good_turn_def)

lemma star_turn:
  assumes "loop_inv pat v (px, nx, npx, nnx)" "px < length pat" "is_many (pat ! px)"
  shows "good_turn pat v (px, nx, npx, nnx) (Inl (Suc px, nx, px, Suc nx))"
  using step_star [OF assms] by (simp add: good_turn_def)

lemma glob_step_turn_pat:
  assumes inv: "loop_inv pat v (px, nx, npx, nnx)" and px: "px < length pat"
  shows "good_turn pat v (px, nx, npx, nnx) (glob_step pat v (px, nx, npx, nnx))"
proof (cases "pat ! px")
  case (WildcardMany n k)
  then have "is_many (pat ! px)" by (simp add: is_many_def)
  from star_turn [OF inv px this] WildcardMany px show ?thesis
    by (simp add: glob_step_def get_at_def)
next
  case (WildcardSingle k)
  then have "\<not> is_many (pat ! px)" by (simp add: is_many_def)
  moreover have "glob_spec (drop px pat) (drop nx v) \<longleftrightarrow>
      nx < length v \<and> glob_spec (drop (Suc px) pat) (drop (Suc nx) v)"
    by (cases "nx < length v") (simp_all add: drop_pat [OF px] WildcardSingle Cons_nth_drop_Suc [symmetric])
  ultimately show ?thesis
    using match_turn [OF inv px] mismatch_turn [OF inv] WildcardSingle px
    by (cases "nx < length v") (simp_all add: glob_step_def get_at_def)
next
  case (PatChar c k)
  then have "\<not> is_many (pat ! px)" by (simp add: is_many_def)
  moreover have "glob_spec (drop px pat) (drop nx v) \<longleftrightarrow>
      nx < length v \<and> v ! nx = c \<and> glob_spec (drop (Suc px) pat) (drop (Suc nx) v)"
    by (cases "nx < length v") (auto simp: drop_pat [OF px] PatChar Cons_nth_drop_Suc [symmetric])
  ultimately show ?thesis
    using match_turn [OF inv px] mismatch_turn [OF inv] PatChar px
    by (cases "nx < length v \<and> v ! nx = c") (auto simp: glob_step_def get_at_def)
qed

lemma glob_step_turn:
  assumes "loop_inv pat v st"
  shows "good_turn pat v st (glob_step pat v st)"
proof -
  obtain px nx npx nnx where st: "st = (px, nx, npx, nnx)" by (metis prod_cases4)
  have inv: "loop_inv pat v (px, nx, npx, nnx)" using assms st by simp
  consider "px = length pat" "nx = length v" | "px = length pat" "nx < length v" | "px < length pat"
    using inv by (fastforce simp: loop_inv_def)
  then show ?thesis
  proof cases
    case 1
    then show ?thesis by (simp add: st glob_step_def pending_def good_turn_def)
  next
    case 2
    then show ?thesis
      using mismatch_turn [OF inv] by (simp add: st glob_step_def get_at_def)
  next
    case 3
    then show ?thesis by (simp add: st glob_step_turn_pat [OF inv])
  qed
qed

lemma match_loop_correct: "loop_inv pat v st \<Longrightarrow> match_loop pat v st = Some (pending pat v st)"
proof (induction "loop_measure pat v st" arbitrary: st rule: wf_induct_rule
    [OF wf_lex_prod [OF wf_less_than wf_lex_prod [OF wf_less_than wf_less_than]]])
  case (1 st)
  then show ?case
    using glob_step_turn [OF "1.prems"]
    by (subst match_loop.simps) (auto simp: good_turn_def split: sum.splits)
qed

section \<open>Sets and maps of patterns\<close>

record glob_set =
  set_entries :: "ustring set"
  set_patterns :: "glob_pattern list"

definition new_glob_set :: glob_set where
  "new_glob_set = \<lparr>set_entries = {}, set_patterns = []\<rparr>"

definition set_insert_pattern :: "unicode \<Rightarrow> ustring \<Rightarrow> glob_set \<Rightarrow> glob_set" where
  "set_insert_pattern uni str g =
     (case try_compile uni str False of
        Ok glob \<Rightarrow> g\<lparr>set_patterns := set_patterns g @ [glob]\<rparr>
      | Err entry \<Rightarrow> g\<lparr>set_entries := insert entry (set_entries g)\<rparr>
      | Panic \<Rightarrow> g)"

definition set_insert_entry :: "ustring \<Rightarrow> glob_set \<Rightarrow> glob_set" where
  "set_insert_entry entry g = g\<lparr>set_entries := insert entry (set_entries g)\<rparr>"

definition set_contains :: "unicode \<Rightarrow> glob_set \<Rightarrow> ustring \<Rightarrow> bool" where
  "set_contains uni g key \<longleftrightarrow>
     key \<in> set_entries g \<or> list_ex (\<lambda>p. glob_matches uni p key = Some True) (set_patterns g)"

record 'v glob_map =
  map_entries :: "ustring \<rightharpoonup> 'v"
  map_patterns :: "(glob_pattern \<times> 'v) list"

definition new_glob_map :: "'v glob_map" where
  "new_glob_map = \<lparr>map_entries = Map.empty, map_patterns = []\<rparr>"

definition map_insert_pattern :: "unicode \<Rightarrow> ustring \<Rightarrow> 'v \<Rightarrow> 'v glob_map \<Rightarrow> 'v glob_map" where
  "map_insert_pattern uni str v g =
     (case try_compile uni str False of
        Ok glob \<Rightarrow> g\<lparr>map_patterns := map_patterns g @ [(glob, v)]\<rparr>
      | Err entry \<Rightarrow> g\<lparr>map_entries := (map_entries g)(entry \<mapsto> v)\<rparr>
      | Panic \<Rightarrow> g)"

definition map_insert_entry :: "ustring \<Rightarrow> 'v \<Rightarrow> 'v glob_map \<Rightarrow> 'v glob_map" where
  "map_insert_entry entry v g = g\<lparr>map_entries := (map_entries g)(entry \<mapsto> v)\<rparr>"

definition map_get :: "unicode \<Rightarrow> 'v glob_map \<Rightarrow> ustring \<Rightarrow> 'v option" where
  "map_get uni g key =
     (case map_entries g key of
        Some v \<Rightarrow> Some v
      | None \<Rightarrow> map_option snd (find (\<lambda>(p, _). glob_matches uni p key = Some True) (map_patterns g)))"

section \<open>Match types\<close>

datatype match_type =
  Equal ustring | StartsWith ustring | EndsWith ustring | Matches glob_pattern | MatchAll

definition match_type_parse :: "unicode \<Rightarrow> ustring \<Rightarrow> match_type" where
  "match_type_parse uni v =
     (if v = [STAR] then MatchAll
      else if v \<noteq> [] \<and> last v = STAR then StartsWith (butlast v)
      else if v \<noteq> [] \<and> hd v = STAR then EndsWith (tl v)
      else if STAR \<in> set v then Matches (compile uni v False)
      else Equal v)"

fun match_type_matches :: "unicode \<Rightarrow> match_type \<Rightarrow> ustring \<Rightarrow> bool option" where
  "match_type_matches uni (Equal p) v = Some (v = p)"
| "match_type_matches uni (StartsWith p) v = Some (take (length p) v = p)"
| "match_type_matches uni (EndsWith p) v =
     Some (length p \<le> length v \<and> drop (length v - length p) v = p)"
| "match_type_matches uni (Matches g) v = glob_matches uni g v"
| "match_type_matches uni MatchAll v = Some True"

section \<open>Literal text\<close>

text \<open>How a caller writes a text that stands for itself.\<close>

definition escape :: "ustring \<Rightarrow> ustring" where
  "escape str = concat (map (\<lambda>c. if c = STAR \<or> c = QUESTION \<or> c = BACKSLASH then [BACKSLASH, c] else [c]) str)"

lemma compile_escape:
  "compile_loop uni False False (escape str) = map (\<lambda>c. PatChar c 0) str"
proof (induction str)
  case (Cons c str)
  have "escape (c # str) =
      (if c = STAR \<or> c = QUESTION \<or> c = BACKSLASH then [BACKSLASH, c] else [c]) @ escape str"
    by (simp add: escape_def)
  with Cons show ?case by (auto simp: glob_chars)
qed (simp add: escape_def)

lemma glob_spec_literal: "glob_spec (map (\<lambda>c. PatChar c 0) str) v \<longleftrightarrow> v = str"
  by (induction str arbitrary: v) (auto split: list.splits)

section \<open>Properties\<close>

lemma glob_matches_spec:
  "glob_matches uni g v = Some (glob_spec (pattern g) (if to_lower g then str_to_lowercase uni v else v))"
  by (simp add: glob_matches_def match_loop_correct loop_inv_def pending_def)

text \<open>C22: the matching loop ends on every pattern and every text, and answers whether the text is
  described by the pattern: a character stands for itself, a single wildcard for any one character, a
  star for any run of characters. Backtracking to the last star only loses nothing. A text whose
  wildcards and backslashes are escaped matches exactly itself.\<close>

theorem glob_match_exact:
  "match_loop pat v (0, 0, 0, 0) = Some (glob_spec pat v) \<and>
   (glob_matches uni (compile uni (escape str) False) v = Some True) = (v = str)"
proof
  show "match_loop pat v (0, 0, 0, 0) = Some (glob_spec pat v)"
    by (simp add: match_loop_correct loop_inv_def pending_def)
  show "(glob_matches uni (compile uni (escape str) False) v = Some True) = (v = str)"
    by (simp add: glob_matches_spec compile_def compile_escape glob_spec_literal)
qed

text \<open>After a pattern was inserted a set contains a key exactly if it did before, or the text was
  recognised as a glob and describes the key, or it was not and equals the key once its backslashes
  are removed.\<close>

theorem glob_set_insert:
  "set_contains uni (set_insert_pattern uni str g) key \<longleftrightarrow>
     set_contains uni g key \<or>
     (if snd (detect 0 False False str) then glob_spec (compile_loop uni False False str) key
      else key = filter (\<lambda>c. c \<noteq> BACKSLASH) str)"
proof -
  have esc: "fst (detect l h g' str) \<longleftrightarrow> h \<or> BACKSLASH \<in> set str" for l h g'
    by (induction str arbitrary: l h g') auto
  have "\<not> fst (detect 0 False False str) \<Longrightarrow> filter (\<lambda>c. c \<noteq> BACKSLASH) str = str"
    using esc [of 0 False False] by (simp add: filter_id_conv) metis
  then show ?thesis
    by (auto simp: set_insert_pattern_def try_compile_def set_contains_def glob_matches_spec compile_def
        case_prod_beta list_ex_iff)
qed

text \<open>An escaped backslash before a star is read in two ways: compiled it is a backslash followed
  by a wildcard, but the test whether the text is a glob takes the star as escaped, so a set stores
  the literal \<^verbatim>\<open>*\<close> instead.\<close>

theorem glob_escaped_backslash_star:
  "pattern (compile uni [BACKSLASH, BACKSLASH, STAR] False) = [PatChar BACKSLASH 0, WildcardMany 1 0] \<and>
   try_compile uni [BACKSLASH, BACKSLASH, STAR] False = Err [STAR]"
  by (simp add: compile_def try_compile_def glob_chars)

text \<open>A match type with a star at both ends is a literal prefix that begins with a star, not a
  search for the text between.\<close>

theorem match_type_star_both_ends:
  "match_type_parse uni (STAR # text @ [STAR]) = StartsWith (STAR # text)"
  by (simp add: match_type_parse_def)

end
