(* ===== verification/Ip_Security.thy ===== *)
theory Ip_Security
  imports Registry_Table Glob
begin

text \<open>
  Who may connect (\<^verbatim>\<open>common/src/network/security.rs\<close>, the reload of blocked addresses in
  \<^verbatim>\<open>common/src/cache/reload.rs\<close> and the check at accept in \<^verbatim>\<open>common/src/network/listen.rs\<close>): the lists of
  allowed and blocked addresses and networks with their expiry, the failure counters that lead to a ban, and the
  blocked addresses kept in the registry.
\<close>

section \<open>State\<close>

text \<open>
  A \<^verbatim>\<open>HashSet\<close> of \<^verbatim>\<open>IpWithTtl\<close>: equality looks at the address only, and inserting an equal element leaves the
  one that is there.
\<close>

type_synonym 'a ttl_set = "'a \<rightharpoonup> u64"

definition ttl_insert :: "'a \<Rightarrow> u64 \<Rightarrow> 'a ttl_set \<Rightarrow> 'a ttl_set" where
  "ttl_insert ip expires s = (case s ip of Some _ \<Rightarrow> s | None \<Rightarrow> s(ip \<mapsto> expires))"

definition is_expired :: "u64 \<Rightarrow> u64 \<Rightarrow> bool" where
  "is_expired now expires \<longleftrightarrow> expires \<le> now"

type_synonym networks = "(ip_addr_or_mask \<times> u64) list"

record security =
  allowed_ip_addresses :: "ip_addr ttl_set"
  allowed_ip_networks :: networks
  has_allowed_networks :: bool
  auth_ban_period :: "u64 option"
  abuse_ban_period :: "u64 option"
  loiter_ban_period :: "u64 option"
  scan_ban_period :: "u64 option"
  http_banned_paths :: "match_type list"
  scanner_fail_rate :: "rate option"
  auth_fail_rate :: "rate option"
  rcpt_fail_rate :: "rate option"
  loiter_fail_rate :: "rate option"

record blocked_ips =
  blocked_ip_addresses :: "ip_addr ttl_set"
  blocked_ip_networks :: networks
  has_blocked_networks :: bool

text \<open>The server: its settings, the list shared by all connections, and the stores.\<close>

record server =
  sec :: security
  blocked :: blocked_ips
  registry :: registry_table
  memory :: mem_store
  broadcast :: "u64 list"

definition ban_period :: "security \<Rightarrow> block_reason \<Rightarrow> u64 option" where
  "ban_period s reason =
     (case reason of
        RcptToFailure \<Rightarrow> abuse_ban_period s
      | AuthFailure \<Rightarrow> auth_ban_period s
      | Loitering \<Rightarrow> loiter_ban_period s
      | PortScanning \<Rightarrow> scan_ban_period s
      | Manual \<Rightarrow> None
      | Other \<Rightarrow> None)"

section \<open>Tests\<close>

definition ttl_live :: "u64 \<Rightarrow> ip_addr \<Rightarrow> ip_addr ttl_set \<Rightarrow> bool" where
  "ttl_live now ip s = (case s ip of Some e \<Rightarrow> \<not> is_expired now e | None \<Rightarrow> False)"

definition network_live :: "u64 \<Rightarrow> ip_addr \<Rightarrow> networks \<Rightarrow> bool" where
  "network_live now ip ns = list_ex (\<lambda>(n, e). mask_matches n ip \<and> \<not> is_expired now e) ns"

definition is_ip_allowed :: "u64 \<Rightarrow> ip_addr \<Rightarrow> security \<Rightarrow> bool" where
  "is_ip_allowed now ip s \<longleftrightarrow>
     ttl_live now ip (allowed_ip_addresses s) \<or>
     has_allowed_networks s \<and> network_live now ip (allowed_ip_networks s)"

definition is_ip_blocked :: "u64 \<Rightarrow> ip_addr \<Rightarrow> server \<Rightarrow> bool" where
  "is_ip_blocked now ip s \<longleftrightarrow>
     (ttl_live now ip (blocked_ip_addresses (blocked s)) \<or>
      has_blocked_networks (blocked s) \<and> network_live now ip (blocked_ip_networks (blocked s))) \<and>
     \<not> is_ip_allowed now ip (sec s)"

text \<open>\<^verbatim>\<open>build_session\<close>: an IPv4 client of an IPv6 socket is looked up as IPv4, and a blocked one is dropped.\<close>

definition session_ip :: "ip_addr \<Rightarrow> ip_addr" where
  "session_ip a =
     (case a of
        IpV6 v6 \<Rightarrow> (case to_ipv4_mapped v6 of Some v4 \<Rightarrow> IpV4 v4 | None \<Rightarrow> IpV6 v6)
      | IpV4 v4 \<Rightarrow> IpV4 v4)"

definition session_dropped :: "u64 \<Rightarrow> ip_addr \<Rightarrow> server \<Rightarrow> bool" where
  "session_dropped now remote_addr s \<longleftrightarrow> is_ip_blocked now (session_ip remote_addr) s"

section \<open>Reading the lists\<close>

definition expires_u64 :: "timestamp option \<Rightarrow> u64" where
  "expires_u64 e = (case e of Some t \<Rightarrow> t | None \<Rightarrow> - 1)"

definition push_network :: "ip_addr_or_mask \<Rightarrow> u64 \<Rightarrow> networks \<Rightarrow> networks" where
  "push_network n e ns = (if list_ex (\<lambda>(n', _). n' = n) ns then ns else ns @ [(n, e)])"

fun parse_allowed ::
  "u64 \<Rightarrow> (u64 \<times> allowed_ip) list \<Rightarrow> ip_addr ttl_set \<times> networks \<Rightarrow>
    (ip_addr ttl_set \<times> networks) \<times> (u64 \<times> allowed_ip) list" where
  "parse_allowed now [] acc = (acc, [])"
| "parse_allowed now ((i, obj) # objs) (addrs, nets) =
     (let e = expires_u64 (ip_expires_at obj) in
      if now < e then
        parse_allowed now objs
          (case try_to_ip (ip_address obj) of
             Some ip \<Rightarrow> (ttl_insert ip e addrs, nets)
           | None \<Rightarrow> (addrs, push_network (ip_address obj) e nets))
      else
        (case parse_allowed now objs (addrs, nets) of (acc, expired) \<Rightarrow> (acc, (i, obj) # expired)))"

definition add_trusted :: "ip_addr_or_mask \<Rightarrow> ip_addr ttl_set \<times> networks \<Rightarrow> ip_addr ttl_set \<times> networks" where
  "add_trusted n acc =
     (case try_to_ip n of
        Some ip \<Rightarrow> (ttl_insert ip (- 1) (fst acc), snd acc)
      | None \<Rightarrow> (fst acc, push_network n (- 1) (snd acc)))"

definition LOCALHOST_V4 :: ip_addr where "LOCALHOST_V4 = IpV4 0x7F000001"
definition LOCALHOST_V6 :: ip_addr where "LOCALHOST_V6 = IpV6 1"

text \<open>
  The part of \<^verbatim>\<open>Security::parse\<close> that builds the allowed lists: the registry's entries, the trusted proxies, the
  loopback addresses; what has expired is deleted from the registry. The other settings are copied.
\<close>

definition delete_expired :: "'a object_impl \<Rightarrow> (u64 \<times> 'a) list \<Rightarrow> registry_table \<Rightarrow> registry_table" where
  "delete_expired impl expired t =
     fold (\<lambda>(i, obj) t. case registry_delete impl i obj t of Ok t' \<Rightarrow> t' | _ \<Rightarrow> t) expired t"

definition security_parse ::
  "lz4 \<Rightarrow> u64 \<Rightarrow> ip_addr_or_mask list \<Rightarrow> registry_table \<Rightarrow> security \<Rightarrow> security \<times> registry_table" where
  "security_parse z now proxy_trusted_networks t settings =
     (case parse_allowed now (fst (list_infallible z allowed_ip_impl t)) (Map.empty, []) of
        (acc, expired) \<Rightarrow>
          let acc = fold add_trusted proxy_trusted_networks acc;
              addrs = ttl_insert LOCALHOST_V6 (- 1) (ttl_insert LOCALHOST_V4 (- 1) (fst acc))
          in (settings\<lparr>allowed_ip_addresses := addrs, allowed_ip_networks := snd acc,
                has_allowed_networks := snd acc \<noteq> []\<rparr>,
              delete_expired allowed_ip_impl expired t))"

text \<open>\<^verbatim>\<open>BlockedIps::parse\<close>; times are signed here.\<close>

definition no_blocked_ips :: blocked_ips where
  "no_blocked_ips = \<lparr>blocked_ip_addresses = Map.empty, blocked_ip_networks = [], has_blocked_networks = False\<rparr>"

definition block_live :: "u64 \<Rightarrow> blocked_ip \<Rightarrow> bool" where
  "block_live now obj = (case bexpires_at obj of None \<Rightarrow> True | Some t \<Rightarrow> sint now < sint t)"

text \<open>One entry of the registry; networks are not told apart from those already there.\<close>

definition add_blocked :: "blocked_ip \<Rightarrow> blocked_ips \<Rightarrow> blocked_ips" where
  "add_blocked obj b =
     (case try_to_ip (baddress obj) of
        Some ip \<Rightarrow> b\<lparr>blocked_ip_addresses := ttl_insert ip (expires_u64 (bexpires_at obj)) (blocked_ip_addresses b)\<rparr>
      | None \<Rightarrow> b\<lparr>blocked_ip_networks := blocked_ip_networks b @ [(baddress obj, expires_u64 (bexpires_at obj))]\<rparr>)"

definition blocked_parse :: "lz4 \<Rightarrow> bool \<Rightarrow> u64 \<Rightarrow> registry_table \<Rightarrow> blocked_ips \<times> registry_table \<times> bool" where
  "blocked_parse z recovery_mode now t =
     (if recovery_mode then (no_blocked_ips, t, False)
      else
        (case list_infallible z blocked_ip_impl t of
           (objs, errors) \<Rightarrow>
             let b = fold (\<lambda>(_, obj). add_blocked obj) (filter (\<lambda>(_, obj). block_live now obj) objs) no_blocked_ips
             in (b\<lparr>has_blocked_networks := blocked_ip_networks b \<noteq> []\<rparr>,
                 delete_expired blocked_ip_impl (filter (\<lambda>(_, obj). \<not> block_live now obj) objs) t, errors)))"

section \<open>Blocking\<close>

definition block_ip ::
  "lz4 \<Rightarrow> u64 \<Rightarrow> u64 \<Rightarrow> ip_addr \<Rightarrow> block_reason \<Rightarrow> server \<Rightarrow> (unit, store_error) result \<times> server" where
  "block_ip z now item_id ip reason s =
     (let expires = map_option (\<lambda>v. now + v) (ban_period (sec s) reason);
          b = blocked s;
          s = s\<lparr>blocked := b\<lparr>blocked_ip_addresses :=
                 ttl_insert ip (case expires of Some e \<Rightarrow> e | None \<Rightarrow> - 1) (blocked_ip_addresses b)\<rparr>\<rparr>
      in case registry_insert z blocked_ip_impl item_id
                \<lparr>baddress = from_ip ip, breason = reason, bcreated_at = now, bexpires_at = expires\<rparr> (registry s) of
           Ok (Success i, t) \<Rightarrow> (Ok (), s\<lparr>registry := t, broadcast := broadcast s @ [i]\<rparr>)
         | Ok (_, t) \<Rightarrow> (Ok (), s)
         | Err e \<Rightarrow> (Err e, s)
         | Panic \<Rightarrow> (Panic, s))"

text \<open>What other nodes do when they hear of a new blocked address, and the full reload.\<close>

definition reload_insert_blocked :: "lz4 \<Rightarrow> u64 \<Rightarrow> u64 \<Rightarrow> server \<Rightarrow> server" where
  "reload_insert_blocked z now item_id s =
     (case fst (get_infallible z blocked_ip_impl item_id (registry s)) of
        None \<Rightarrow> s
      | Some obj \<Rightarrow>
          if now < expires_u64 (bexpires_at obj) then s\<lparr>blocked := add_blocked obj (blocked s)\<rparr> else s)"

definition reload_blocked :: "lz4 \<Rightarrow> bool \<Rightarrow> u64 \<Rightarrow> server \<Rightarrow> server" where
  "reload_blocked z recovery_mode now s =
     (case blocked_parse z recovery_mode now (registry s) of
        (b, t, errors) \<Rightarrow> if errors then s\<lparr>registry := t\<rparr> else s\<lparr>registry := t, blocked := b\<rparr>)"

section \<open>Counting failures\<close>

fun ip_to_bytes :: "ip_addr \<Rightarrow> bytes" where
  "ip_to_bytes (IpV4 a) = to_be 4 a"
| "ip_to_bytes (IpV6 a) = to_be 16 a"

definition KV_RATE_LIMIT_RCPT :: byte where "KV_RATE_LIMIT_RCPT = 2"
definition KV_RATE_LIMIT_SCAN :: byte where "KV_RATE_LIMIT_SCAN = 3"
definition KV_RATE_LIMIT_LOITER :: byte where "KV_RATE_LIMIT_LOITER = 4"
definition KV_RATE_LIMIT_AUTH :: byte where "KV_RATE_LIMIT_AUTH = 5"

text \<open>Whether all of the keys are within the rate; the first that is not ends the test.\<close>

fun within_rate :: "u64 \<Rightarrow> byte \<Rightarrow> bytes list \<Rightarrow> rate \<Rightarrow> mem_store \<Rightarrow> (bool, store_error) result \<times> mem_store" where
  "within_rate now pfx [] r m = (Ok True, m)"
| "within_rate now pfx (key # keys) r m =
     (case is_rate_allowed now pfx key r False m of
        Ok (None, m) \<Rightarrow> within_rate now pfx keys r m
      | Ok (Some _, m) \<Rightarrow> (Ok False, m)
      | Err e \<Rightarrow> (Err e, m)
      | Panic \<Rightarrow> (Panic, m))"

definition fail2ban ::
  "lz4 \<Rightarrow> u64 \<Rightarrow> u64 \<Rightarrow> ip_addr \<Rightarrow> byte \<Rightarrow> bytes list \<Rightarrow> rate option \<Rightarrow> block_reason \<Rightarrow> server \<Rightarrow>
    (bool, store_error) result \<times> server" where
  "fail2ban z now item_id ip pfx keys rate_of reason s =
     (case rate_of of
        None \<Rightarrow> (Ok False, s)
      | Some r \<Rightarrow>
          if is_ip_allowed now ip (sec s) then (Ok False, s)
          else
            (case within_rate now pfx keys r (memory s) of
               (allowed, m) \<Rightarrow>
                 let s = s\<lparr>memory := m\<rparr>
                 in case allowed of
                      Ok True \<Rightarrow> (Ok False, s)
                    | Ok False \<Rightarrow>
                        (case block_ip z now item_id ip reason s of (res, s) \<Rightarrow> (and_then res (\<lambda>_. Ok True), s))
                    | Err e \<Rightarrow> (Err e, s)
                    | Panic \<Rightarrow> (Panic, s)))"

definition is_rcpt_fail2banned ::
  "lz4 \<Rightarrow> u64 \<Rightarrow> u64 \<Rightarrow> ip_addr \<Rightarrow> bytes \<Rightarrow> server \<Rightarrow> (bool, store_error) result \<times> server" where
  "is_rcpt_fail2banned z now item_id ip rcpt s =
     fail2ban z now item_id ip KV_RATE_LIMIT_RCPT [ip_to_bytes ip, rcpt] (rcpt_fail_rate (sec s)) RcptToFailure s"

definition is_scanner_fail2banned ::
  "lz4 \<Rightarrow> u64 \<Rightarrow> u64 \<Rightarrow> ip_addr \<Rightarrow> server \<Rightarrow> (bool, store_error) result \<times> server" where
  "is_scanner_fail2banned z now item_id ip s =
     fail2ban z now item_id ip KV_RATE_LIMIT_SCAN [ip_to_bytes ip] (scanner_fail_rate (sec s)) PortScanning s"

definition is_loiter_fail2banned ::
  "lz4 \<Rightarrow> u64 \<Rightarrow> u64 \<Rightarrow> ip_addr \<Rightarrow> server \<Rightarrow> (bool, store_error) result \<times> server" where
  "is_loiter_fail2banned z now item_id ip s =
     fail2ban z now item_id ip KV_RATE_LIMIT_LOITER [ip_to_bytes ip] (loiter_fail_rate (sec s)) Loitering s"

definition is_auth_fail2banned ::
  "lz4 \<Rightarrow> u64 \<Rightarrow> u64 \<Rightarrow> ip_addr \<Rightarrow> bytes option \<Rightarrow> server \<Rightarrow> (bool, store_error) result \<times> server" where
  "is_auth_fail2banned z now item_id ip login s =
     (let login = (case login of Some l \<Rightarrow> l | None \<Rightarrow> [])
      in fail2ban z now item_id ip KV_RATE_LIMIT_AUTH
           (ip_to_bytes ip # (if login = [] then [] else [login])) (auth_fail_rate (sec s)) AuthFailure s)"

definition is_http_banned_path ::
  "unicode \<Rightarrow> lz4 \<Rightarrow> u64 \<Rightarrow> u64 \<Rightarrow> ustring \<Rightarrow> ip_addr \<Rightarrow> server \<Rightarrow> (bool, store_error) result \<times> server" where
  "is_http_banned_path uni z now item_id path ip s =
     (if list_ex (\<lambda>p. match_type_matches uni p path = Some True) (http_banned_paths (sec s)) \<and>
         \<not> is_ip_allowed now ip (sec s)
      then (case block_ip z now item_id ip PortScanning s of (res, s) \<Rightarrow> (and_then res (\<lambda>_. Ok True), s))
      else (Ok False, s))"

section \<open>What a reload restores\<close>

definition covers :: "ip_addr_or_mask \<Rightarrow> ip_addr \<Rightarrow> bool" where
  "covers n ip = (case try_to_ip n of Some a \<Rightarrow> a = ip | None \<Rightarrow> mask_matches n ip)"

lemma try_to_ip_Some: "try_to_ip n = Some ip \<longleftrightarrow> n = from_ip ip"
  by (cases n; cases ip) auto

lemma try_to_ip_from_ip [simp]: "try_to_ip (from_ip ip) = Some ip"
  by (simp add: try_to_ip_Some)

lemma from_ip_inj [simp]: "from_ip a = from_ip b \<longleftrightarrow> a = b"
  by (metis option.inject try_to_ip_from_ip)

lemma add_blocked_address:
  "blocked_ip_addresses (add_blocked obj b) ip =
     (if baddress obj = from_ip ip
      then Some (case blocked_ip_addresses b ip of Some e \<Rightarrow> e | None \<Rightarrow> expires_u64 (bexpires_at obj))
      else blocked_ip_addresses b ip)"
  by (cases "try_to_ip (baddress obj)") (auto simp: add_blocked_def ttl_insert_def try_to_ip_Some split: option.splits)

lemma add_blocked_network:
  "blocked_ip_networks (add_blocked obj b) =
     blocked_ip_networks b @ (if try_to_ip (baddress obj) = None then [(baddress obj, expires_u64 (bexpires_at obj))] else [])"
  by (auto simp: add_blocked_def split: option.splits)

lemma add_blocked_addresses:
  "blocked_ip_addresses (fold (\<lambda>(_, obj). add_blocked obj) objs b) ip =
     (case blocked_ip_addresses b ip of
        Some e \<Rightarrow> Some e
      | None \<Rightarrow> map_option (\<lambda>(_, obj). expires_u64 (bexpires_at obj)) (find (\<lambda>(_, obj). baddress obj = from_ip ip) objs))"
  by (induction objs arbitrary: b) (auto simp: add_blocked_address split: option.splits)

lemma add_blocked_networks:
  "blocked_ip_networks (fold (\<lambda>(_, obj). add_blocked obj) objs b) =
     blocked_ip_networks b @
     map (\<lambda>(_, obj). (baddress obj, expires_u64 (bexpires_at obj))) (filter (\<lambda>(_, obj). try_to_ip (baddress obj) = None) objs)"
  by (induction objs arbitrary: b) (auto simp: add_blocked_network)

text \<open>The lists built from objects with distinct addresses block what one of the objects covers.\<close>

definition lists_block :: "u64 \<Rightarrow> ip_addr \<Rightarrow> blocked_ips \<Rightarrow> bool" where
  "lists_block now ip b \<longleftrightarrow>
     ttl_live now ip (blocked_ip_addresses b) \<or>
     has_blocked_networks b \<and> network_live now ip (blocked_ip_networks b)"

lemma is_ip_blocked_lists: "is_ip_blocked now ip s \<longleftrightarrow> lists_block now ip (blocked s) \<and> \<not> is_ip_allowed now ip (sec s)"
  by (simp add: is_ip_blocked_def lists_block_def)

lemma built_lists_block:
  assumes distinct: "\<forall>(i, x) \<in> set objs. \<forall>(j, y) \<in> set objs. baddress x = baddress y \<longrightarrow> x = y"
  defines "b \<equiv> fold (\<lambda>(_, obj). add_blocked obj) objs no_blocked_ips"
  shows "lists_block u ip (b\<lparr>has_blocked_networks := blocked_ip_networks b \<noteq> []\<rparr>) \<longleftrightarrow>
    (\<exists>(i, obj) \<in> set objs. covers (baddress obj) ip \<and> u < expires_u64 (bexpires_at obj))"
proof -
  let ?f = "find (\<lambda>(_, obj). baddress obj = from_ip ip) objs"
  have addr: "ttl_live u ip (blocked_ip_addresses b) \<longleftrightarrow>
      (\<exists>(i, obj) \<in> set objs. baddress obj = from_ip ip \<and> u < expires_u64 (bexpires_at obj))"
  proof (cases ?f)
    case None
    moreover from None have "\<forall>p \<in> set objs. baddress (snd p) \<noteq> from_ip ip"
      by (auto simp: find_None_iff)
    ultimately show ?thesis
      by (auto simp: b_def ttl_live_def add_blocked_addresses no_blocked_ips_def)
  next
    case (Some p)
    then have p: "p \<in> set objs" "baddress (snd p) = from_ip ip"
      by (auto simp: find_Some_iff case_prod_unfold)
    have same: "snd q = snd p" if "q \<in> set objs" "baddress (snd q) = from_ip ip" for q
      using distinct p that by (auto simp: case_prod_unfold)
    have "ttl_live u ip (blocked_ip_addresses b) \<longleftrightarrow> u < expires_u64 (bexpires_at (snd p))"
      using Some by (cases p) (simp add: b_def ttl_live_def add_blocked_addresses no_blocked_ips_def is_expired_def not_le)
    then show ?thesis
      using p same by (metis (mono_tags, lifting) case_prod_unfold)
  qed
  have net: "network_live u ip (blocked_ip_networks b) \<longleftrightarrow>
      (\<exists>(i, obj) \<in> set objs. try_to_ip (baddress obj) = None \<and> mask_matches (baddress obj) ip \<and> u < expires_u64 (bexpires_at obj))"
    by (auto simp: b_def network_live_def add_blocked_networks no_blocked_ips_def list_ex_iff is_expired_def not_le)
  have any: "network_live u ip (blocked_ip_networks b) \<Longrightarrow> blocked_ip_networks b \<noteq> []"
    by (auto simp: network_live_def)
  have split: "covers n ip \<longleftrightarrow> n = from_ip ip \<or> try_to_ip n = None \<and> mask_matches n ip" for n
    by (cases "try_to_ip n") (auto simp: covers_def try_to_ip_Some)
  show ?thesis
    using any unfolding lists_block_def by (simp add: addr net split) blast
qed

context object_type
begin

lemma delete_rows:
  assumes "table_ok z impl t" "distinct (map fst xs)" "\<forall>(i, x) \<in> set xs. row z impl t i = Some x"
  shows "table_ok z impl (delete_expired impl xs t)"
    and "\<not> tunreachable t \<Longrightarrow>
      row z impl (delete_expired impl xs t) i = (if i \<in> fst ` set xs then None else row z impl t i)"
proof -
  have "table_ok z impl (delete_expired impl xs t) \<and> (\<not> tunreachable t \<longrightarrow>
      row z impl (delete_expired impl xs t) i = (if i \<in> fst ` set xs then None else row z impl t i))"
    using assms
  proof (induction xs arbitrary: t)
    case (Cons p xs)
    obtain j x where p: "p = (j, x)" by (cases p)
    show ?case
    proof (cases "registry_delete impl j x t")
      case (Ok t1)
      have "row z impl t j = Some x"
        using Cons.prems(3) p by simp
      note t1 = delete_row [OF Cons.prems(1) this Ok]
      have "\<forall>(i, y) \<in> set xs. row z impl t1 i = Some y"
        using Cons.prems(2,3) p by (force simp: t1(1) case_prod_unfold)
      with Cons.IH [OF t1(2)] Cons.prems(2) show ?thesis
        using Ok t1 p by (auto simp: delete_expired_def)
    qed (use Cons p in \<open>auto simp: delete_expired_def registry_delete_def split: if_splits\<close>)
  qed (simp add: delete_expired_def)
  then show "table_ok z impl (delete_expired impl xs t)"
    and "\<not> tunreachable t \<Longrightarrow>
      row z impl (delete_expired impl xs t) i = (if i \<in> fst ` set xs then None else row z impl t i)"
    by auto
qed

end

lemma blocked_ip_impl_simps [simp]:
  "oi_unique blocked_ip_impl obj = to_index_key (baddress obj)"
  "oi_validate blocked_ip_impl obj = validate_blocked_ip obj"
  by (simp_all add: blocked_ip_impl_def)

lemma reload_parts:
  assumes "table_ok z blocked_ip_impl (registry s)" "\<not> tunreachable (registry s)"
  obtains objs where
    "distinct (map fst objs)" "\<And>i x. (i, x) \<in> set objs \<longleftrightarrow> row z blocked_ip_impl (registry s) i = Some x"
    "blocked (reload_blocked z False now s) =
       (let b = fold (\<lambda>(_, obj). add_blocked obj) (filter (\<lambda>(_, obj). block_live now obj) objs) no_blocked_ips
        in b\<lparr>has_blocked_networks := blocked_ip_networks b \<noteq> []\<rparr>)"
    "registry (reload_blocked z False now s) =
       delete_expired blocked_ip_impl (filter (\<lambda>(_, obj). \<not> block_live now obj) objs) (registry s)"
    "sec (reload_blocked z False now s) = sec s"
proof -
  obtain objs where l: "list_infallible z blocked_ip_impl (registry s) = (objs, False)" "distinct (map fst objs)"
      "\<And>i x. (i, x) \<in> set objs \<longleftrightarrow> row z blocked_ip_impl (registry s) i = Some x"
    using registry_list_rows [OF assms] by blast
  show thesis
    by (rule that [of objs]) (use l in \<open>simp_all add: reload_blocked_def blocked_parse_def Let_def\<close>)
qed

lemma reload_blocked_iff:
  assumes "table_ok z blocked_ip_impl (registry s)" "\<not> tunreachable (registry s)"
  shows "is_ip_blocked u ip (reload_blocked z False now s) \<longleftrightarrow>
    \<not> is_ip_allowed u ip (sec s) \<and>
    (\<exists>i obj. row z blocked_ip_impl (registry s) i = Some obj \<and> block_live now obj \<and>
       covers (baddress obj) ip \<and> u < expires_u64 (bexpires_at obj))"
proof (rule reload_parts [OF assms, of now])
  fix objs :: "(u64 \<times> blocked_ip) list"
  assume l: "\<And>i x. (i, x) \<in> set objs \<longleftrightarrow> row z blocked_ip_impl (registry s) i = Some x"
    and b: "blocked (reload_blocked z False now s) =
       (let b = fold (\<lambda>(_, obj). add_blocked obj) (filter (\<lambda>(_, obj). block_live now obj) objs) no_blocked_ips
        in b\<lparr>has_blocked_networks := blocked_ip_networks b \<noteq> []\<rparr>)"
    and s: "sec (reload_blocked z False now s) = sec s"
  have "x = y" if "(i, x) \<in> set objs" "(j, y) \<in> set objs" "baddress x = baddress y" for i j x y
    using rows_unique [OF assms(1), of i x j y] that by (auto simp: l)
  then have "lists_block u ip (blocked (reload_blocked z False now s)) \<longleftrightarrow>
      (\<exists>(i, obj) \<in> set (filter (\<lambda>(_, obj). block_live now obj) objs).
         covers (baddress obj) ip \<and> u < expires_u64 (bexpires_at obj))"
    unfolding b Let_def by (intro built_lists_block) fastforce
  then show ?thesis
    by (auto simp: is_ip_blocked_lists s simp flip: l)
qed

lemma reload_rows:
  assumes "table_ok z blocked_ip_impl (registry s)" "\<not> tunreachable (registry s)"
  shows "table_ok z blocked_ip_impl (registry (reload_blocked z False now s))"
    and "row z blocked_ip_impl (registry (reload_blocked z False now s)) i =
       (case row z blocked_ip_impl (registry s) i of
          Some obj \<Rightarrow> if block_live now obj then Some obj else None
        | None \<Rightarrow> None)"
proof (atomize (full), rule reload_parts [OF assms, of now])
  fix objs :: "(u64 \<times> blocked_ip) list"
  let ?dead = "filter (\<lambda>(_, obj). \<not> block_live now obj) objs"
  assume d: "distinct (map fst objs)"
    and l: "\<And>i x. (i, x) \<in> set objs \<longleftrightarrow> row z blocked_ip_impl (registry s) i = Some x"
    and r: "registry (reload_blocked z False now s) = delete_expired blocked_ip_impl ?dead (registry s)"
  have dead: "distinct (map fst ?dead)" "\<forall>(i, x) \<in> set ?dead. row z blocked_ip_impl (registry s) i = Some x"
    using d l by (auto simp: distinct_map_filter)
  have "i \<in> fst ` set ?dead \<longleftrightarrow> (\<exists>obj. row z blocked_ip_impl (registry s) i = Some obj \<and> \<not> block_live now obj)"
    using l by force
  then show "table_ok z blocked_ip_impl (registry (reload_blocked z False now s)) \<and>
      row z blocked_ip_impl (registry (reload_blocked z False now s)) i =
       (case row z blocked_ip_impl (registry s) i of
          Some obj \<Rightarrow> if block_live now obj then Some obj else None
        | None \<Rightarrow> None)"
    unfolding r using blocked_rows.delete_rows(1) [OF assms(1) dead] blocked_rows.delete_rows(2) [OF assms(1) dead assms(2), of i]
    by (auto split: option.splits)
qed

text \<open>
  C12: Reloading the blocked addresses gives the lists the registry describes: an address is blocked at any later time
  exactly when the registry had a valid entry, not expired at the reload, that names the address or a network
  it lies in, and the entry has not expired since, and the address is not an allowed one. The entries that had
  expired are gone from the registry, the others are kept, and every address still has at most one entry.
\<close>

theorem reload_blocks_registry_entries:
  assumes "table_ok z blocked_ip_impl (registry s)" "\<not> tunreachable (registry s)"
  shows "(is_ip_blocked u ip (reload_blocked z False now s) \<longleftrightarrow>
      \<not> is_ip_allowed u ip (sec s) \<and>
      (\<exists>i obj. row z blocked_ip_impl (registry s) i = Some obj \<and> block_live now obj \<and>
         covers (baddress obj) ip \<and> u < expires_u64 (bexpires_at obj))) \<and>
    table_ok z blocked_ip_impl (registry (reload_blocked z False now s)) \<and>
    (\<forall>i. row z blocked_ip_impl (registry (reload_blocked z False now s)) i =
       (case row z blocked_ip_impl (registry s) i of
          Some obj \<Rightarrow> if block_live now obj then Some obj else None
        | None \<Rightarrow> None))"
  using reload_blocked_iff [OF assms] reload_rows [OF assms] by blast

section \<open>Bans\<close>

definition ban_expiry :: "u64 \<Rightarrow> security \<Rightarrow> block_reason \<Rightarrow> u64" where
  "ban_expiry now s reason = (case ban_period s reason of Some p \<Rightarrow> now + p | None \<Rightarrow> - 1)"

lemma block_ip_lists:
  "sec (snd (block_ip z now i ip reason s)) = sec s"
  "blocked (snd (block_ip z now i ip reason s)) =
     (blocked s)\<lparr>blocked_ip_addresses := ttl_insert ip (ban_expiry now (sec s) reason) (blocked_ip_addresses (blocked s))\<rparr>"
  "memory (snd (block_ip z now i ip reason s)) = memory s"
  by (auto simp: block_ip_def ban_expiry_def Let_def split: option.splits result.splits write_result.splits prod.splits)

lemma block_ip_blocks:
  assumes "blocked_ip_addresses (blocked s) ip = None" "u < ban_expiry now (sec s) reason"
  shows "is_ip_blocked u ip (snd (block_ip z now i ip reason s)) \<longleftrightarrow> \<not> is_ip_allowed u ip (sec s)"
  using assms by (simp add: is_ip_blocked_def block_ip_lists ttl_live_def ttl_insert_def is_expired_def not_le)

lemma within_rate_one:
  assumes "\<not> unreachable m" "counter (rate_bucket now pfx key r) m = of_nat n" "Suc n < 2 ^ 63" "unat (rcount r) < 2 ^ 63"
  shows "\<exists>m'. within_rate now pfx [key] r m = (Ok (n < unat (rcount r)), m') \<and>
    counter (rate_bucket now pfx key r) m' = of_nat (Suc n)"
  using is_rate_allowed_next [OF assms] by (auto split: if_splits)


definition ban_object :: "u64 \<Rightarrow> security \<Rightarrow> ip_addr \<Rightarrow> block_reason \<Rightarrow> blocked_ip" where
  "ban_object now s ip reason =
     \<lparr>baddress = from_ip ip, breason = reason, bcreated_at = now, bexpires_at = map_option (\<lambda>v. now + v) (ban_period s reason)\<rparr>"

lemma block_ip_registry:
  "block_ip z now i ip reason s =
     (case registry_insert z blocked_ip_impl i (ban_object now (sec s) ip reason) (registry s) of
        Ok (Success j, t) \<Rightarrow> (Ok (), snd (block_ip z now i ip reason s))
      | Ok (_, t) \<Rightarrow> (Ok (), snd (block_ip z now i ip reason s))
      | Err e \<Rightarrow> (Err e, snd (block_ip z now i ip reason s))
      | Panic \<Rightarrow> (Panic, snd (block_ip z now i ip reason s))) \<and>
   registry (snd (block_ip z now i ip reason s)) =
     (case registry_insert z blocked_ip_impl i (ban_object now (sec s) ip reason) (registry s) of
        Ok (Success j, t) \<Rightarrow> t
      | _ \<Rightarrow> registry s)"
  by (auto simp: block_ip_def ban_object_def Let_def split: option.splits result.splits write_result.splits prod.splits)

lemma blocked_insert_success:
  assumes "validate_blocked_ip obj = []" "\<not> tunreachable t" "map_of (primary t) (to_index_key (baddress obj)) = None"
  shows "\<exists>t'. registry_insert z blocked_ip_impl i obj t = Ok (Success i, t')"
proof -
  have "(to_pickled_vec z IP_OBJECT_VERSION pickle_blocked_ip obj :: (bytes, store_error) result) =
      Ok (IP_OBJECT_VERSION # pickle_blocked_ip obj)"
    using blocked_ip_small [of obj] by (simp add: to_pickled_vec_def maybe_compress_pickle_def COMPRESS_WATERMARK_def)
  then show ?thesis
    using assms blocked_ip_small [of obj]
    by (simp add: registry_insert_def registry_put_def MAX_OBJECT_PAYLOAD_SIZE_def) (simp add: blocked_ip_impl_def)
qed

text \<open>A time that the registry can hold, on both readings of its 64 bits.\<close>

definition plain_time :: "u64 \<Rightarrow> bool" where
  "plain_time t \<longleftrightarrow> unat t < 2 ^ 63 - 1"

lemma plain_time_valid: "plain_time t \<Longrightarrow> ts_is_valid t"
  by (auto simp: plain_time_def ts_is_valid_def)

lemma plain_time_less: "plain_time t \<Longrightarrow> plain_time u \<Longrightarrow> sint t < sint u \<longleftrightarrow> t < u"
proof -
  assume t: "plain_time t" "plain_time u"
  have "sint w = int (unat w)" if "plain_time w" for w
    using that sint_less [of "unat w"] by (simp add: plain_time_def)
  with t show ?thesis by (simp only: word_less_nat_alt of_nat_less_iff)
qed

lemma ban_object_valid:
  assumes "ip \<noteq> IpV4 0" "plain_time now" "ban_period s reason = Some p" "plain_time (now + p)"
  shows "validate_blocked_ip (ban_object now s ip reason) = []"
  using assms by (cases ip) (simp_all add: ban_object_def validate_blocked_ip_def plain_time_valid)

text \<open>
  C13: A ban outlives a restart: an address that had no entry is written to the registry when it is blocked, and a
  reload at any time before the ban's end, from the stored bytes, blocks it again.
\<close>

theorem ban_survives_reload:
  assumes "lz4_ok z" "table_ok z blocked_ip_impl (registry s)" "\<not> tunreachable (registry s)"
    "map_of (items (registry s)) i = None" "map_of (primary (registry s)) (to_index_key (from_ip ip)) = None"
    "ip \<noteq> IpV4 0" "plain_time now" "ban_period (sec s) reason = Some p" "plain_time (now + p)" "t < now + p"
  shows "fst (block_ip z now i ip reason s) = Ok () \<and>
    (is_ip_blocked t ip (reload_blocked z False t (snd (block_ip z now i ip reason s))) \<longleftrightarrow> \<not> is_ip_allowed t ip (sec s))"
proof -
  let ?obj = "ban_object now (sec s) ip reason" and ?s = "snd (block_ip z now i ip reason s)"
  obtain t' where ins: "registry_insert z blocked_ip_impl i ?obj (registry s) = Ok (Success i, t')"
    using blocked_insert_success [OF ban_object_valid [OF assms(6-9)] assms(3)] assms(5) by (auto simp: ban_object_def)
  note t' = blocked_rows.insert_row [OF assms(1) TrueI assms(2,4) ins]
  have reg: "registry ?s = t'" "fst (block_ip z now i ip reason s) = Ok ()"
    using block_ip_registry [of z now i ip reason s] ins by (simp, metis (no_types, lifting) fst_conv case_prod_conv result.case(1) write_result.case(1))
  have "plain_time t"
    using assms(9,10) by (simp add: plain_time_def word_less_nat_alt)
  then have "block_live t ?obj" "t < expires_u64 (bexpires_at ?obj)" "covers (baddress ?obj) ip"
    using assms(8-10) plain_time_less [of t "now + p"]
    by (simp_all add: block_live_def ban_object_def expires_u64_def covers_def)
  then have "is_ip_blocked t ip (reload_blocked z False t ?s) \<longleftrightarrow> \<not> is_ip_allowed t ip (sec s)"
    using reload_blocked_iff [of z ?s t ip t] t' assms(3) reg(1) by (auto simp: block_ip_lists)
  with reg(2) show ?thesis by blast
qed

section \<open>Flaws\<close>

text \<open>
  C40: Banning an address again after its first ban has expired has no effect. The set of blocked addresses keeps the
  expired element, the registry refuses a second entry for the address, and \<^verbatim>\<open>block_ip\<close> reports success with
  nothing changed: the address is not blocked, until a reload removes the expired entry.
\<close>

theorem second_ban_ineffective:
  assumes "table_ok z blocked_ip_impl (registry s)" "\<not> tunreachable (registry s)"
    "row z blocked_ip_impl (registry s) j = Some obj" "baddress obj = from_ip ip" "i \<noteq> j"
    "blocked_ip_addresses (blocked s) ip = Some e" "e \<le> now" "\<not> has_blocked_networks (blocked s)"
  shows "block_ip z now i ip reason s = (Ok (), s) \<and> \<not> is_ip_blocked now ip s"
proof
  have "map_of (primary (registry s)) (to_index_key (from_ip ip)) = Some j"
    using table_okD(4) [OF assms(1)] assms(3,4) by auto
  then have "registry_insert z blocked_ip_impl i (ban_object now (sec s) ip reason) (registry s) =
        Ok (PrimaryKeyConflict j, registry s) \<or>
      registry_insert z blocked_ip_impl i (ban_object now (sec s) ip reason) (registry s) =
        Ok (ValidationErrors (validate_blocked_ip (ban_object now (sec s) ip reason)), registry s)"
    using assms(2,5) by (auto simp: registry_insert_def ban_object_def)
  then show "block_ip z now i ip reason s = (Ok (), s)"
    using assms(6) by (auto simp: block_ip_def ban_object_def ttl_insert_def Let_def)
  show "\<not> is_ip_blocked now ip s"
    using assms(6-8) by (simp add: is_ip_blocked_def ttl_live_def is_expired_def)
qed

text \<open>
  A blocked network announced by another node is ignored by a node that has no blocked network yet: the network is
  added to the list, but the flag that the list is to be looked at stays unset, so no address is blocked by it
  until a full reload.
\<close>

theorem announced_network_ignored:
  assumes "get_infallible z blocked_ip_impl i (registry s) = (Some obj, False)" "try_to_ip (baddress obj) = None"
    "\<not> has_blocked_networks (blocked s)"
  shows "is_ip_blocked u ip (reload_insert_blocked z now i s) \<longleftrightarrow> is_ip_blocked u ip s"
  using assms by (simp add: reload_insert_blocked_def is_ip_blocked_def add_blocked_def)

lemma is_rate_allowed_counts:
  assumes "\<not> unreachable m"
  shows "\<exists>x m'. is_rate_allowed now pfx key r False m = Ok (x, m') \<and> \<not> unreachable m' \<and>
    (\<forall>c. counter c m' = (if c = rate_bucket now pfx key r then counter c m + 1 else counter c m))"
  using assms by (simp add: is_rate_allowed_def counter_incr_def Let_def store_simps)

lemma memory_fail2ban: "memory (snd (fail2ban z now i ip pfx keys rate_of reason s)) =
    (case rate_of of
       None \<Rightarrow> memory s
     | Some r \<Rightarrow> if is_ip_allowed now ip (sec s) then memory s else snd (within_rate now pfx keys r (memory s)))"
  by (auto simp: fail2ban_def Let_def block_ip_lists case_prod_unfold split: option.splits result.splits bool.splits)

text \<open>
  A failed login counts against an unrelated address: the login name and the client's address are fits_u32 under
  keys of the same form, so that a failure with a login of four bytes counts as a failure of the IPv4 address with
  those bytes.
\<close>

theorem login_counts_against_address:
  assumes "auth_fail_rate (sec s) = Some r" "\<not> is_ip_allowed now (IpV4 a) (sec s)" "\<not> unreachable (memory s)" "a \<noteq> b"
    "counter (rate_bucket now KV_RATE_LIMIT_AUTH (ip_to_bytes (IpV4 a)) r) (memory s) = of_nat n" "n < unat (rcount r)"
    "unat (rcount r) < 2 ^ 63"
  shows "counter (rate_bucket now KV_RATE_LIMIT_AUTH (ip_to_bytes (IpV4 b)) r)
      (memory (snd (is_auth_fail2banned z now i (IpV4 a) (Some (to_be 4 b)) s))) =
    counter (rate_bucket now KV_RATE_LIMIT_AUTH (ip_to_bytes (IpV4 b)) r) (memory s) + 1"
proof -
  have key: "to_be 4 b \<noteq> []" "rate_bucket now KV_RATE_LIMIT_AUTH (ip_to_bytes (IpV4 a)) r \<noteq>
      rate_bucket now KV_RATE_LIMIT_AUTH (ip_to_bytes (IpV4 b)) r"
    using assms(4) by (auto simp: rate_bucket_def to_be_inj simp flip: length_0_conv)
  obtain m1 where m1: "is_rate_allowed now KV_RATE_LIMIT_AUTH (ip_to_bytes (IpV4 a)) r False (memory s) = Ok (None, m1)"
      "\<not> unreachable m1"
    using is_rate_allowed_next [OF assms(3,5)] assms(6,7) by auto
  then have c1: "counter (rate_bucket now KV_RATE_LIMIT_AUTH (ip_to_bytes (IpV4 b)) r) m1 =
      counter (rate_bucket now KV_RATE_LIMIT_AUTH (ip_to_bytes (IpV4 b)) r) (memory s)"
    using is_rate_allowed_counts [OF assms(3), of now KV_RATE_LIMIT_AUTH "ip_to_bytes (IpV4 a)" r] key(2) by auto
  obtain x m2 where m2: "is_rate_allowed now KV_RATE_LIMIT_AUTH (to_be 4 b) r False m1 = Ok (x, m2)"
      "counter (rate_bucket now KV_RATE_LIMIT_AUTH (to_be 4 b) r) m2 = counter (rate_bucket now KV_RATE_LIMIT_AUTH (to_be 4 b) r) m1 + 1"
    using is_rate_allowed_counts [OF m1(2), of now KV_RATE_LIMIT_AUTH "to_be 4 b" r] by auto
  have "snd (within_rate now KV_RATE_LIMIT_AUTH [ip_to_bytes (IpV4 a), to_be 4 b] r (memory s)) = m2"
    using m1(1) m2(1) by (cases x) simp_all
  then show ?thesis
    using key(1) assms(1,2) c1 m2(2) by (simp add: is_auth_fail2banned_def memory_fail2ban)
qed

text \<open>
  An allowed address that is in the registry with an expiry keeps that expiry although it is a loopback or proxy
  address as well, which are meant to be allowed for good.
\<close>

lemma ttl_insert_keeps: "s a = Some e \<Longrightarrow> ttl_insert b e' s a = Some e"
  by (auto simp: ttl_insert_def split: option.splits)

lemma add_trusted_keeps: "fst acc a = Some e \<Longrightarrow> fst (fold add_trusted ns acc) a = Some e"
  by (induction ns arbitrary: acc) (auto simp: add_trusted_def ttl_insert_keeps split: option.splits)

lemma parse_allowed_keeps: "fst acc a = Some e \<Longrightarrow> fst (fst (parse_allowed now objs acc)) a = Some e"
proof (induction now objs acc rule: parse_allowed.induct)
  case (2 now i obj objs addrs nets)
  then show ?case
    by (auto simp: Let_def ttl_insert_keeps split: option.splits prod.splits)
qed simp

lemma loopback_allowance_expires:
  assumes "fst (list_infallible z allowed_ip_impl t) = (i, obj) # objs" "ip_address obj = from_ip LOCALHOST_V4"
    "ip_expires_at obj = Some e" "now < e"
  shows "allowed_ip_addresses (fst (security_parse z now trusted t settings)) LOCALHOST_V4 = Some e"
proof -
  let ?acc = "fst (parse_allowed now ((i, obj) # objs) (Map.empty, []))"
  have "fst ?acc LOCALHOST_V4 = Some e"
    using assms(2-4) parse_allowed_keeps [of "([LOCALHOST_V4 \<mapsto> e], [])" LOCALHOST_V4 e now objs]
    by (simp add: expires_u64_def ttl_insert_def)
  then show ?thesis
    using add_trusted_keeps [of ?acc LOCALHOST_V4 e trusted] assms(1)
    by (simp add: security_parse_def Let_def ttl_insert_keeps case_prod_unfold del: parse_allowed.simps)
qed

section \<open>A server\<close>

definition sample_server :: server where
  "sample_server =
     \<lparr>sec = \<lparr>allowed_ip_addresses = Map.empty, allowed_ip_networks = [], has_allowed_networks = False,
        auth_ban_period = None, abuse_ban_period = None, loiter_ban_period = None, scan_ban_period = Some 3600,
        http_banned_paths = [], scanner_fail_rate = Some \<lparr>rcount = 1, rperiod = 60\<rparr>,
        auth_fail_rate = Some \<lparr>rcount = 1, rperiod = 60\<rparr>, rcpt_fail_rate = None, loiter_fail_rate = None\<rparr>,
      blocked = no_blocked_ips, registry = \<lparr>items = [], primary = [], tunreachable = False\<rparr>, memory = empty_store,
      broadcast = []\<rparr>"

definition sample_ip :: ip_addr where
  "sample_ip = IpV4 0x0A000001"

lemma table_ok_empty: "table_ok z impl \<lparr>items = [], primary = [], tunreachable = False\<rparr>"
  by (simp add: table_ok_def row_def)

lemma sample_server_fields [simp]:
  "registry sample_server = \<lparr>items = [], primary = [], tunreachable = False\<rparr>"
  "blocked sample_server = no_blocked_ips" "memory sample_server = empty_store"
  "\<not> is_ip_allowed u ip (sec sample_server)"
  "ban_period (sec sample_server) PortScanning = Some 3600"
  "scanner_fail_rate (sec sample_server) = Some \<lparr>rcount = 1, rperiod = 60\<rparr>"
  "auth_fail_rate (sec sample_server) = Some \<lparr>rcount = 1, rperiod = 60\<rparr>"
  by (simp_all add: sample_server_def is_ip_allowed_def ttl_live_def ban_period_def)

definition sample_banned :: server where
  "sample_banned = snd (block_ip drop_zeros 1000 7 sample_ip PortScanning sample_server)"

lemma sample_insert:
  "\<exists>t. registry_insert drop_zeros blocked_ip_impl 7 (ban_object 1000 (sec sample_server) sample_ip PortScanning)
     (registry sample_server) = Ok (Success 7, t)"
  by (rule blocked_insert_success)
    (simp_all add: ban_object_def validate_blocked_ip_def sample_ip_def ts_is_valid_def)

lemma sample_banned_fields:
  "table_ok drop_zeros blocked_ip_impl (registry sample_banned)" "\<not> tunreachable (registry sample_banned)"
  "row drop_zeros blocked_ip_impl (registry sample_banned) 7 = Some (ban_object 1000 (sec sample_server) sample_ip PortScanning)"
  "sec sample_banned = sec sample_server" "\<not> has_blocked_networks (blocked sample_banned)"
  "blocked_ip_addresses (blocked sample_banned) sample_ip = Some 4600"
proof -
  obtain t where t: "registry_insert drop_zeros blocked_ip_impl 7 (ban_object 1000 (sec sample_server) sample_ip PortScanning)
      (registry sample_server) = Ok (Success 7, t)"
    using sample_insert by blast
  have "table_ok drop_zeros blocked_ip_impl (registry sample_server)" "map_of (items (registry sample_server)) 7 = None"
    by (simp_all add: table_ok_empty)
  note ins = blocked_rows.insert_row [OF lz4_ok_drop_zeros TrueI this t]
  have "registry sample_banned = t"
    using block_ip_registry [of drop_zeros 1000 7 sample_ip PortScanning sample_server] t by (simp add: sample_banned_def)
  with ins show "table_ok drop_zeros blocked_ip_impl (registry sample_banned)" "\<not> tunreachable (registry sample_banned)"
    "row drop_zeros blocked_ip_impl (registry sample_banned) 7 = Some (ban_object 1000 (sec sample_server) sample_ip PortScanning)"
    by simp_all
qed (simp_all add: sample_banned_def block_ip_lists no_blocked_ips_def ttl_insert_def ban_expiry_def)

theorem reload_blocks_registry_entries_witness:
  "is_ip_blocked 3000 sample_ip (reload_blocked drop_zeros False 2000 sample_banned)"
proof -
  have "block_live 2000 (ban_object 1000 (sec sample_server) sample_ip PortScanning) \<and>
      covers (baddress (ban_object 1000 (sec sample_server) sample_ip PortScanning)) sample_ip \<and>
      3000 < expires_u64 (bexpires_at (ban_object 1000 (sec sample_server) sample_ip PortScanning))"
    by (simp add: block_live_def ban_object_def expires_u64_def covers_def)
  then show ?thesis
    using reload_blocks_registry_entries [OF sample_banned_fields(1,2), of 3000 sample_ip 2000] sample_banned_fields(3,4)
    by auto
qed


theorem ban_survives_reload_witness:
  "is_ip_blocked 2000 sample_ip (reload_blocked drop_zeros False 2000 sample_banned)"
  using ban_survives_reload [of drop_zeros sample_server 7 sample_ip 1000 PortScanning 3600 2000]
  by (simp add: sample_banned_def lz4_ok_drop_zeros table_ok_empty plain_time_def sample_ip_def)

theorem second_ban_ineffective_witness:
  "block_ip drop_zeros 5000 8 sample_ip PortScanning sample_banned = (Ok (), sample_banned) \<and>
   \<not> is_ip_blocked 5000 sample_ip sample_banned"
  by (rule second_ban_ineffective [OF sample_banned_fields(1-3) _ _ sample_banned_fields(6) _ sample_banned_fields(5)])
    (simp_all add: ban_object_def)

theorem login_counts_against_address_witness:
  "counter (rate_bucket 1000 KV_RATE_LIMIT_AUTH (ip_to_bytes (IpV4 0x61626364)) \<lparr>rcount = 1, rperiod = 60\<rparr>)
     (memory (snd (is_auth_fail2banned drop_zeros 1000 7 sample_ip (Some [0x61, 0x62, 0x63, 0x64]) sample_server))) = 1"
proof -
  have "to_be 4 (0x61626364 :: u32) = [0x61, 0x62, 0x63, 0x64]"
    by (simp add: to_be_numeral)
  then show ?thesis
    using login_counts_against_address [of sample_server "\<lparr>rcount = 1, rperiod = 60\<rparr>" 1000 "0x0A000001" "0x61626364" 0 drop_zeros 7]
    by (simp add: sample_ip_def)
qed

definition sample_network :: blocked_ip where
  "sample_network = \<lparr>baddress = MaskV4 0x0A000000 0xFF000000, breason = Manual, bcreated_at = 0, bexpires_at = None\<rparr>"

lemma get_infallible_row:
  "table_ok z impl t \<Longrightarrow> \<not> tunreachable t \<Longrightarrow> row z impl t i = Some obj \<Longrightarrow> get_infallible z impl i t = (Some obj, False)"
  using table_okD(3) [of z impl t i obj]
  by (auto simp: get_infallible_def registry_get_def row_def split: option.splits bind_splits)

theorem announced_network_ignored_witness:
  "\<exists>s. fst (get_infallible drop_zeros blocked_ip_impl 9 (registry s)) = Some sample_network \<and>
     mask_matches (baddress sample_network) sample_ip \<and>
     \<not> is_ip_blocked 10 sample_ip (reload_insert_blocked drop_zeros 10 9 s)"
proof -
  obtain t where t: "registry_insert drop_zeros blocked_ip_impl 9 sample_network (registry sample_server) = Ok (Success 9, t)"
    using blocked_insert_success [of sample_network "registry sample_server" drop_zeros 9]
    by (auto simp: sample_network_def validate_blocked_ip_def ts_is_valid_def)
  have "table_ok drop_zeros blocked_ip_impl (registry sample_server)" "map_of (items (registry sample_server)) 9 = None"
    by (simp_all add: table_ok_empty)
  note ins = blocked_rows.insert_row [OF lz4_ok_drop_zeros TrueI this t]
  let ?s = "sample_server\<lparr>registry := t\<rparr>"
  have got: "get_infallible drop_zeros blocked_ip_impl 9 (registry ?s) = (Some sample_network, False)"
    using get_infallible_row [OF ins(3)] ins(2,4) by simp
  have "is_ip_blocked 10 sample_ip (reload_insert_blocked drop_zeros 10 9 ?s) \<longleftrightarrow> is_ip_blocked 10 sample_ip ?s"
    by (rule announced_network_ignored [OF got]) (simp_all add: sample_network_def no_blocked_ips_def)
  then show ?thesis
    using got by (intro exI [of _ ?s])
      (simp add: sample_network_def sample_ip_def is_ip_blocked_def ttl_live_def no_blocked_ips_def)
qed

end
