(* ===== verification/Cron.thy ===== *)
theory Cron
  imports Text
begin

text \<open>
  The schedules of background tasks (\<^verbatim>\<open>utils/src/cron.rs\<close>, \<^verbatim>\<open>registry/src/utils/cron.rs\<close>): reading a schedule,
  taking one from the settings, and the time to its next run. The time zone is the argument \<open>ck_today_at\<close>: the
  first instant at which the clocks of the current day show an hour and a minute. Instants and durations are
  nanoseconds.
\<close>

section \<open>Schedules\<close>

datatype simple_cron =
    CronDay u32 u32
  | CronWeek u32 u32 u32
  | CronHour u32

record cron_clock =
  ck_now :: int
  ck_weekday :: u32
  ck_hour :: u32
  ck_today_at :: "u32 \<Rightarrow> u32 \<Rightarrow> int option"

definition SECOND :: int where "SECOND = 1000000000"
definition HOUR :: int where "HOUR = 3600 * SECOND"
definition DAY :: int where "DAY = 24 * HOUR"

lemmas time_units = SECOND_def HOUR_def DAY_def

fun cron_as_duration :: "simple_cron \<Rightarrow> int" where
  "cron_as_duration (CronDay _ _) = DAY"
| "cron_as_duration (CronWeek _ _ _) = 7 * DAY"
| "cron_as_duration (CronHour _) = HOUR"

definition today_at :: "cron_clock \<Rightarrow> u32 \<Rightarrow> u32 \<Rightarrow> int" where
  "today_at ck h m = (case ck_today_at ck h m of Some t \<Rightarrow> t | None \<Rightarrow> ck_now ck - SECOND)"

definition postpone :: "cron_clock \<Rightarrow> int \<Rightarrow> int \<Rightarrow> int" where
  "postpone ck delay t = (if t \<le> ck_now ck then t + delay else t)"

fun cron_next :: "cron_clock \<Rightarrow> simple_cron \<Rightarrow> int" where
  "cron_next ck (CronDay h m) = postpone ck DAY (today_at ck h m)"
| "cron_next ck (CronWeek d h m) = postpone ck (uint (7 - ck_weekday ck + d) * DAY) (today_at ck h m)"
| "cron_next ck (CronHour m) = postpone ck HOUR (today_at ck (ck_hour ck) m)"

definition time_to_next :: "cron_clock \<Rightarrow> simple_cron \<Rightarrow> int" where
  "time_to_next ck cron =
     (let t = cron_next ck cron - ck_now ck in if 0 \<le> t then t else cron_as_duration cron)"

section \<open>Reading a schedule\<close>

datatype cron_error =
    CronMinute | CronMinuteValue u32 | CronHourText | CronHourValue u32 | CronWeekday | CronWeekdayValue u32 | CronText

text \<open>\<^verbatim>\<open>str::split\<close> at a character.\<close>

fun split_at :: "byte \<Rightarrow> bytes \<Rightarrow> bytes list" where
  "split_at c [] = [[]]"
| "split_at c (b # bs) =
     (if b = c then [] # split_at c bs
      else case split_at c bs of [] \<Rightarrow> [[b]] | p # ps \<Rightarrow> (b # p) # ps)"

definition cron_minute :: "bytes \<Rightarrow> (u32, cron_error) result" where
  "cron_minute v =
     and_then (ok_or (parse_uint v) CronMinute) (\<lambda>minute.
       if minute \<le> 59 then Ok minute else Err (CronMinuteValue minute))"

definition cron_hour :: "bytes \<Rightarrow> (u32 option, cron_error) result" where
  "cron_hour v =
     (case v of
        [] \<Rightarrow> Err CronHourText
      | b # _ \<Rightarrow>
          if b = 42 then Ok None
          else
            and_then (ok_or (parse_uint v) CronHourText) (\<lambda>hour.
              if hour \<le> 23 then Ok (Some hour) else Err (CronHourValue hour)))"

definition cron_weekday :: "u32 \<Rightarrow> bytes \<Rightarrow> (u32 option, cron_error) result" where
  "cron_weekday hour v =
     (case v of
        [] \<Rightarrow> Err CronWeekday
      | b # _ \<Rightarrow>
          if b = 42 then Ok None
          else
            and_then (ok_or (parse_uint v) CronWeekday) (\<lambda>day.
              if 1 \<le> hour \<and> hour \<le> 7 then Ok (Some day) else Err (CronWeekdayValue hour)))"

definition cron_from_str :: "bytes \<Rightarrow> (simple_cron, cron_error) result" where
  "cron_from_str s =
     (case split_at 32 s of
        [] \<Rightarrow> Err CronText
      | first # others \<Rightarrow>
          and_then (cron_minute first) (\<lambda>minute.
            case others of
              [] \<Rightarrow> Err CronText
            | second # others' \<Rightarrow>
                and_then (cron_hour second) (\<lambda>hour.
                  case hour of
                    None \<Rightarrow> Ok (CronHour minute)
                  | Some hour \<Rightarrow>
                      (case others' of
                         [] \<Rightarrow> Err CronText
                       | third # _ \<Rightarrow>
                           and_then (cron_weekday hour third) (\<lambda>day.
                             case day of
                               None \<Rightarrow> Ok (CronDay hour minute)
                             | Some day \<Rightarrow> Ok (CronWeek day hour minute))))))"

section \<open>Schedules of the settings\<close>

record cron_daily = daily_hour :: u64
  daily_minute :: u64

record cron_hourly = hourly_minute :: u64

record cron_weekly = weekly_day :: u64
  weekly_hour :: u64
  weekly_minute :: u64

datatype cron_setting = Daily cron_daily | Weekly cron_weekly | Hourly cron_hourly

datatype cron_property = CronPropDay | CronPropHour | CronPropMinute

definition max_check :: "u64 \<Rightarrow> cron_property \<Rightarrow> u64 \<Rightarrow> (cron_property \<times> u64) list" where
  "max_check bound p v = (if v > bound then [(p, bound)] else [])"

fun validate_cron :: "cron_setting \<Rightarrow> (cron_property \<times> u64) list" where
  "validate_cron (Daily c) = max_check 23 CronPropHour (daily_hour c) @ max_check 59 CronPropMinute (daily_minute c)"
| "validate_cron (Weekly c) =
     max_check 6 CronPropDay (weekly_day c) @ max_check 23 CronPropHour (weekly_hour c) @
     max_check 59 CronPropMinute (weekly_minute c)"
| "validate_cron (Hourly c) = max_check 59 CronPropMinute (hourly_minute c)"

fun simple_cron_from :: "cron_setting \<Rightarrow> simple_cron" where
  "simple_cron_from (Daily c) = CronDay (ucast (daily_hour c)) (ucast (daily_minute c))"
| "simple_cron_from (Weekly c) = CronWeek (ucast (weekly_day c)) (ucast (weekly_hour c)) (ucast (weekly_minute c))"
| "simple_cron_from (Hourly c) = CronHour (ucast (hourly_minute c))"

section \<open>When a schedule runs\<close>

lemma units_pos: "0 < HOUR" "0 < DAY"
  by (simp_all add: time_units)

lemma postpone_within:
  assumes "ck_now ck - delay < t" "t \<le> ck_now ck + delay"
  shows "0 < postpone ck delay t - ck_now ck \<and> postpone ck delay t - ck_now ck \<le> delay \<and>
    delay dvd postpone ck delay t - t"
  using assms by (auto simp: postpone_def)

text \<open>
  A daily and an hourly schedule run within their period from now and not at once, at an instant that
  differs from the configured time of the current day by whole periods, when the clocks of the day put that time
  within a period of now.
\<close>

theorem cron_runs_within_period:
  assumes "ck_today_at ck h m = Some t" "cron = CronDay h m \<or> cron = CronHour m \<and> h = ck_hour ck"
    and "ck_now ck - cron_as_duration cron < t" "t \<le> ck_now ck + cron_as_duration cron"
  shows "0 < time_to_next ck cron \<and> time_to_next ck cron \<le> cron_as_duration cron \<and>
    cron_as_duration cron dvd (ck_now ck + time_to_next ck cron) - t"
  using assms postpone_within [of ck "cron_as_duration cron" t]
  by (auto simp: time_to_next_def today_at_def Let_def)

definition demo_clock :: cron_clock where
  "demo_clock = \<lparr>ck_now = 10 * HOUR, ck_weekday = 1, ck_hour = 10,
     ck_today_at = (\<lambda>h m. Some (int (unat h) * HOUR + int (unat m) * 60 * SECOND))\<rparr>"

theorem cron_runs_within_period_witness:
  "0 < time_to_next demo_clock (CronDay 3 30) \<and> time_to_next demo_clock (CronDay 3 30) \<le> DAY"
  using cron_runs_within_period [of demo_clock 3 30 "3 * HOUR + 1800 * SECOND" "CronDay 3 30"]
  by (simp add: demo_clock_def time_units)

lemma week_days:
  assumes "ck_weekday ck \<in> {1 .. 7}" "d \<le> 6"
  shows "unat (7 - ck_weekday ck + d) = 7 - unat (ck_weekday ck) + unat d"
proof -
  have "unat (ck_weekday ck) \<le> 7" "unat d \<le> 6"
    using assms by (auto simp: word_le_nat_alt)
  moreover then have "unat (7 - ck_weekday ck) = 7 - unat (ck_weekday ck)"
    by (simp add: unat_sub word_le_nat_alt)
  ultimately show ?thesis
    by (simp add: unat_add_lem [THEN iffD1])
qed



section \<open>What a written schedule means\<close>

lemma split_at_plain: "c \<notin> set a \<Longrightarrow> split_at c a = [a]"
  by (induction a) auto

lemma split_at_piece: "c \<notin> set a \<Longrightarrow> split_at c (a @ c # bs) = a # split_at c bs"
  by (induction a) auto

lemma shown_number:
  fixes n :: u32
  shows "32 \<notin> set (show_nat (unat n))" "\<exists>b bs. show_nat (unat n) = b # bs \<and> b \<noteq> 42"
  using show_nat_digits [of "unat n"] show_nat_head [of "unat n"] by (fastforce simp: is_digit_def)+

text \<open>
  A weekly schedule written as minute, hour and day is refused unless its hour is from 1 to 7, and then every day
  is accepted, also one that no week has: the check of the day looks at the hour.
\<close>

theorem weekday_check_reads_hour:
  assumes "minute \<le> 59" "hour \<le> 23"
  shows "cron_from_str (show_nat (unat minute) @ [32] @ show_nat (unat hour) @ [32] @ show_nat (unat day)) =
    (if 1 \<le> hour \<and> hour \<le> 7 then Ok (CronWeek day hour minute) else Err (CronWeekdayValue hour))"
proof -
  have "split_at 32 (show_nat (unat minute) @ [32] @ show_nat (unat hour) @ [32] @ show_nat (unat day)) =
      [show_nat (unat minute), show_nat (unat hour), show_nat (unat day)]"
    by (simp add: split_at_piece split_at_plain shown_number)
  moreover have "cron_minute (show_nat (unat minute)) = Ok minute"
    using assms(1) by (simp add: cron_minute_def parse_uint_show)
  moreover have "cron_hour (show_nat (unat hour)) = Ok (Some hour)"
    using assms(2) shown_number(2) [of hour] parse_uint_show [of hour] by (auto simp: cron_hour_def)
  moreover have "cron_weekday hour (show_nat (unat day)) =
      (if 1 \<le> hour \<and> hour \<le> 7 then Ok (Some day) else Err (CronWeekdayValue hour))"
    using shown_number(2) [of day] parse_uint_show [of day] by (auto simp: cron_weekday_def)
  ultimately show ?thesis by (simp add: cron_from_str_def)
qed

theorem weekday_check_reads_hour_witness:
  "cron_from_str (lit ''0 1 9'') = Ok (CronWeek 9 1 0) \<and> cron_from_str (lit ''0 0 1'') = Err (CronWeekdayValue 0)"
  using weekday_check_reads_hour [of 0 1 9] weekday_check_reads_hour [of 0 0 1] by (simp add: show_nat.simps)

end
