(* ===== verification/Snowflake.thy ===== *)
theory Snowflake
  imports Prelude
begin

text \<open>
  The generator of identifiers (\<^verbatim>\<open>utils/src/snowflake.rs\<close>): milliseconds, a sequence number and the node in
  one 64-bit number. Instants are nanoseconds since 1970; the counter of a generator is its state, the node and
  the shared counter are global.
\<close>

section \<open>Identifiers\<close>

definition SEQUENCE_LEN :: nat where "SEQUENCE_LEN = 12"
definition NODE_ID_LEN :: nat where "NODE_ID_LEN = 9"
definition SEQUENCE_MASK :: u64 where "SEQUENCE_MASK = push_bit SEQUENCE_LEN 1 - 1"
definition NODE_ID_MASK :: u64 where "NODE_ID_MASK = push_bit NODE_ID_LEN 1 - 1"
definition DEFAULT_EPOCH :: nat where "DEFAULT_EPOCH = 1632280000"

lemmas snow_consts = SEQUENCE_LEN_def NODE_ID_LEN_def SEQUENCE_MASK_def NODE_ID_MASK_def

record snow_globals =
  global_node_id :: u64
  global_sequence_id :: u64

record snowflake =
  sf_sequence :: u64

definition new_globals :: snow_globals where
  "new_globals = \<lparr>global_node_id = 1, global_sequence_id = 0\<rparr>"

definition new_snowflake :: snowflake where
  "new_snowflake = \<lparr>sf_sequence = 0\<rparr>"

definition clone_snowflake :: "snowflake \<Rightarrow> snowflake" where
  "clone_snowflake g = \<lparr>sf_sequence = 0\<rparr>"

definition set_node_id :: "u64 \<Rightarrow> snow_globals \<Rightarrow> snow_globals" where
  "set_node_id n s = (if n AND NODE_ID_MASK \<noteq> global_node_id s then s\<lparr>global_node_id := n AND NODE_ID_MASK\<rparr> else s)"

text \<open>\<^verbatim>\<open>epoch.elapsed()\<close>, an error before the epoch.\<close>

definition since_epoch :: "nat \<Rightarrow> nat option" where
  "since_epoch now = (if DEFAULT_EPOCH * 10 ^ 9 \<le> now then Some (now - DEFAULT_EPOCH * 10 ^ 9) else None)"

definition as_millis :: "nat \<Rightarrow> u64" where
  "as_millis d = of_nat (d div 10 ^ 6)"

definition pack_id :: "u64 \<Rightarrow> u64 \<Rightarrow> u64 \<Rightarrow> u64" where
  "pack_id millis sequence node =
     push_bit (SEQUENCE_LEN + NODE_ID_LEN) millis OR push_bit NODE_ID_LEN sequence OR node"

definition snow_from_duration :: "nat \<Rightarrow> nat \<Rightarrow> u64 option" where
  "snow_from_duration now period =
     map_option (\<lambda>elapsed. push_bit (SEQUENCE_LEN + NODE_ID_LEN) (as_millis (elapsed - period))) (since_epoch now)"

definition snow_from_timestamp :: "nat \<Rightarrow> u64 \<Rightarrow> u64 option" where
  "snow_from_timestamp now timestamp =
     (if unat timestamp \<le> now div 10 ^ 9 then snow_from_duration now ((now div 10 ^ 9 - unat timestamp) * 10 ^ 9) else None)"

definition global_id_from_timestamp :: "nat \<Rightarrow> u64 \<Rightarrow> snow_globals \<Rightarrow> u64 option \<times> snow_globals" where
  "global_id_from_timestamp now timestamp s =
     (map_option (\<lambda>i. i OR push_bit NODE_ID_LEN (global_sequence_id s AND SEQUENCE_MASK) OR global_node_id s)
        (snow_from_timestamp now timestamp),
      s\<lparr>global_sequence_id := global_sequence_id s + 1\<rparr>)"

definition global_id :: "nat \<Rightarrow> snow_globals \<Rightarrow> u64 option \<times> snow_globals" where
  "global_id now s =
     (map_option (\<lambda>elapsed. pack_id (as_millis elapsed) (global_sequence_id s AND SEQUENCE_MASK) (global_node_id s)) (since_epoch now),
      s\<lparr>global_sequence_id := global_sequence_id s + 1\<rparr>)"

definition snow_to_timestamp :: "u64 \<Rightarrow> u64" where
  "snow_to_timestamp i = drop_bit (SEQUENCE_LEN + NODE_ID_LEN) i div 1000 + of_nat DEFAULT_EPOCH"

definition past_id :: "nat \<Rightarrow> nat \<Rightarrow> u64 option" where
  "past_id now period = snow_from_duration now period"

definition snow_is_valid :: "nat \<Rightarrow> bool" where
  "snow_is_valid now \<longleftrightarrow> since_epoch now \<noteq> None"

definition generate :: "nat \<Rightarrow> snow_globals \<Rightarrow> snowflake \<Rightarrow> u64 \<times> snowflake" where
  "generate now s g =
     (pack_id (case since_epoch now of Some elapsed \<Rightarrow> as_millis elapsed | None \<Rightarrow> 0)
        (sf_sequence g AND SEQUENCE_MASK) (global_node_id s),
      g\<lparr>sf_sequence := sf_sequence g + 1\<rparr>)"

text \<open>The identifiers of calls at the given instants.\<close>

fun generate_all :: "nat list \<Rightarrow> snow_globals \<Rightarrow> snowflake \<Rightarrow> u64 list" where
  "generate_all [] s g = []"
| "generate_all (now # nows) s g = (case generate now s g of (i, g') \<Rightarrow> i # generate_all nows s g')"

section \<open>The fields of an identifier\<close>

lemma and_sequence_mask: "x AND SEQUENCE_MASK = take_bit 12 x"
  by (simp add: snow_consts take_bit_eq_mask mask_numeral push_bit_eq_mult)

lemma and_node_mask: "x AND NODE_ID_MASK = take_bit 9 x"
  by (simp add: snow_consts take_bit_eq_mask mask_numeral push_bit_eq_mult)

lemma pack_fields:
  assumes "take_bit 43 t = t" "take_bit 12 q = q" "take_bit 9 n = n"
  shows "drop_bit 21 (pack_id t q n) = t" "take_bit 12 (drop_bit 9 (pack_id t q n)) = q" "take_bit 9 (pack_id t q n) = n"
proof -
  have t: "bit t i \<Longrightarrow> i < 43" and q: "bit q i \<Longrightarrow> i < 12" and n: "bit n i \<Longrightarrow> i < 9" for i
    using assms by (metis bit_take_bit_iff)+
  show "drop_bit 21 (pack_id t q n) = t"
    by (rule bit_word_eqI) (auto simp: pack_id_def snow_consts bit_simps dest: t q n)
  show "take_bit 12 (drop_bit 9 (pack_id t q n)) = q"
    by (rule bit_word_eqI) (auto simp: pack_id_def snow_consts bit_simps dest: t q n)
  show "take_bit 9 (pack_id t q n) = n"
    by (rule bit_word_eqI) (auto simp: pack_id_def snow_consts bit_simps dest: t q n)
qed

lemma pack_inj:
  assumes "take_bit 43 t = t" "take_bit 12 q = q" "take_bit 9 n = n" "take_bit 43 t' = t'" "take_bit 12 q' = q'" "take_bit 9 n' = n'"
  shows "pack_id t q n = pack_id t' q' n' \<longleftrightarrow> t = t' \<and> q = q' \<and> n = n'"
  using pack_fields [OF assms(1-3)] pack_fields [OF assms(4-6)] by metis

lemma small_millis: "n < 2 ^ 43 \<Longrightarrow> take_bit 43 (of_nat n :: u64) = of_nat n"
  by (simp add: take_bit_of_nat take_bit_nat_eq_self)

section \<open>Uniqueness\<close>

text \<open>The milliseconds an identifier of this instant carries; the 43 bits last for 278 years.\<close>

definition millis :: "nat \<Rightarrow> nat" where
  "millis now = (now - DEFAULT_EPOCH * 10 ^ 9) div 10 ^ 6"

lemma generate_pack:
  "fst (generate now s g) = pack_id (of_nat (millis now)) (take_bit 12 (sf_sequence g)) (global_node_id s)"
  by (auto simp: generate_def since_epoch_def as_millis_def millis_def and_sequence_mask)

lemma generate_all_nth:
  "k < length nows \<Longrightarrow> generate_all nows s g ! k =
     pack_id (of_nat (millis (nows ! k))) (take_bit 12 (sf_sequence g + of_nat k)) (global_node_id s)"
proof (induction nows arbitrary: g k)
  case (Cons now nows)
  show ?case
  proof (cases k)
    case 0
    with generate_pack [of now s g] show ?thesis by (cases "generate now s g") simp
  next
    case (Suc j)
    have "snd (generate now s g) = g\<lparr>sf_sequence := sf_sequence g + 1\<rparr>" by (simp add: generate_def)
    with Cons Suc show ?thesis by (cases "generate now s g") (simp add: add.assoc)
  qed
qed simp

lemma add_mod_eq: "(a + i) mod n = (a + j) mod n \<longleftrightarrow> i mod n = j mod (n :: nat)"
proof -
  have "(a + i) mod n = (a + j) mod n \<longleftrightarrow> int (a + i) mod int n = int (a + j) mod int n"
    by (simp only: zmod_int [symmetric] of_nat_eq_iff)
  also have "\<dots> \<longleftrightarrow> int i mod int n = int j mod int n"
    by (simp add: mod_eq_dvd_iff)
  finally show ?thesis by (simp only: zmod_int [symmetric] of_nat_eq_iff)
qed

lemma sequence_mod: "take_bit 12 (x + of_nat i) = take_bit 12 (x + of_nat j :: u64) \<longleftrightarrow> i mod 4096 = j mod 4096"
proof -
  have "unat (take_bit 12 (x + of_nat k :: u64)) = (unat x + k) mod 4096" for k
    by (simp add: unsigned_take_bit_eq unat_word_ariths unsigned_of_nat take_bit_eq_mod mod_add_right_eq mod_mod_cancel)
  moreover have "take_bit 12 (x + of_nat i) = take_bit 12 (x + of_nat j :: u64) \<longleftrightarrow>
      unat (take_bit 12 (x + of_nat i)) = unat (take_bit 12 (x + of_nat j))"
    by (auto intro: unsigned_word_eqI)
  ultimately show ?thesis by (simp only: add_mod_eq)
qed

text \<open>
  C25: However the clock moves, two identifiers a generator has made are equal exactly if they were made in the
  same millisecond with a multiple of 4096 calls from one to the other, and identifiers of different nodes are
  never equal.
\<close>

theorem snowflake_collisions_exact:
  assumes "\<forall>now \<in> set nows. millis now < 2 ^ 43" "i < length nows" "j < length nows"
  shows "(generate_all nows (set_node_id n s) g ! i = generate_all nows (set_node_id n s) g ! j \<longleftrightarrow>
      millis (nows ! i) = millis (nows ! j) \<and> i mod 4096 = j mod 4096) \<and>
    (n AND NODE_ID_MASK \<noteq> m AND NODE_ID_MASK \<longrightarrow>
      generate_all nows (set_node_id n s) g ! i \<noteq> generate_all nows (set_node_id m s') g' ! j)"
proof -
  have small: "millis (nows ! k) < 2 ^ 43" if "k < length nows" for k using assms(1) that by simp
  have node: "global_node_id (set_node_id k s) = take_bit 9 k" for k s
    by (simp add: set_node_id_def and_node_mask)
  have "(of_nat (millis (nows ! i)) = (of_nat (millis (nows ! j)) :: u64)) = (millis (nows ! i) = millis (nows ! j))"
    using small [OF assms(2)] small [OF assms(3)] by (auto dest!: arg_cong [where f = unat] simp: unsigned_of_nat take_bit_nat_eq_self)
  then show ?thesis
    using small [OF assms(2)] small [OF assms(3)] assms(2,3)
    by (simp add: generate_all_nth node pack_inj small_millis and_node_mask sequence_mod)
qed

theorem snowflake_collisions_exact_witness:
  "generate_all [0, 0] (set_node_id 7 new_globals) new_snowflake ! 0 \<noteq>
   generate_all [0, 0] (set_node_id 7 new_globals) new_snowflake ! 1"
proof -
  have "millis 0 < 2 ^ 43" by (simp add: millis_def)
  with snowflake_collisions_exact [of "[0, 0]" 0 1 7 new_globals new_snowflake 0 new_globals new_snowflake]
  show ?thesis by simp
qed

section \<open>Identifiers and time\<close>

text \<open>
  An identifier tells the second it was made in, and the limit a purge computes from a period separates
  identifiers by time: those made in or after the millisecond the period began are not below it, the earlier ones
  are.
\<close>

theorem snowflake_orders_by_time:
  assumes "millis now < 2 ^ 43" "DEFAULT_EPOCH * 10 ^ 9 \<le> now" "global_node_id s AND NODE_ID_MASK = global_node_id s"
    and "past_id later period = Some limit" "millis later < 2 ^ 43"
  shows "unat (snow_to_timestamp (fst (generate now s g))) = now div 10 ^ 9 \<and>
    (limit \<le> fst (generate now s g) \<longleftrightarrow> millis (later - period) \<le> millis now)"
proof -
  let ?i = "fst (generate now s g)"
  have n: "take_bit 9 (global_node_id s) = global_node_id s" using assms(3) by (simp add: and_node_mask)
  have i: "drop_bit 21 ?i = of_nat (millis now)"
    unfolding generate_pack by (rule pack_fields(1)) (simp_all add: small_millis [OF assms(1)] n)
  have m: "unat (of_nat (millis now) :: u64) = millis now"
    using assms(1) by (simp add: unsigned_of_nat take_bit_nat_eq_self)
  have "unat (of_nat (millis now) div 1000 + of_nat DEFAULT_EPOCH :: u64) = millis now div 1000 + DEFAULT_EPOCH"
    using assms(1) m by (simp add: unat_word_ariths unat_div DEFAULT_EPOCH_def)
  also have "\<dots> = now div 10 ^ 9"
    using assms(2) by (simp add: millis_def DEFAULT_EPOCH_def div_mult2_eq [symmetric])
  finally have time: "unat (snow_to_timestamp ?i) = now div 10 ^ 9"
    by (simp add: snow_to_timestamp_def snow_consts i)
  let ?c = "millis (later - period)"
  have c: "?c < 2 ^ 43"
    using assms(5) div_le_mono [of "later - period - DEFAULT_EPOCH * 10 ^ 9" "later - DEFAULT_EPOCH * 10 ^ 9" "10 ^ 6"]
    by (simp add: millis_def)
  have "limit = push_bit 21 (of_nat ?c)"
    using assms(4)
    by (auto simp: past_id_def snow_from_duration_def since_epoch_def as_millis_def millis_def snow_consts add.commute
        split: if_splits)
  then have limit: "unat limit = ?c * 2 ^ 21"
    using c by (simp add: push_bit_eq_mult unat_word_ariths unsigned_of_nat take_bit_nat_eq_self)
  have "take_bit 64 (unat ?i) = unat ?i" using unat_bound [of ?i] by (simp add: take_bit_nat_eq_self)
  then have "unat ?i div 2 ^ 21 = millis now"
    using arg_cong [OF i, of unat] m by (simp only: unsigned_drop_bit_eq) (simp add: drop_bit_eq_div)
  then have "limit \<le> ?i \<longleftrightarrow> ?c \<le> millis now"
    using less_eq_div_iff_mult_less_eq [of "2 ^ 21" ?c "unat ?i"] by (simp add: word_le_nat_alt limit)
  with time show ?thesis by blast
qed

theorem snowflake_orders_by_time_witness:
  "unat (snow_to_timestamp (fst (generate (1700000000 * 10 ^ 9) new_globals new_snowflake))) = 1700000000"
proof -
  obtain c where c: "past_id (1700000001 * 10 ^ 9) (5 * 10 ^ 9) = Some c"
    by (simp add: past_id_def snow_from_duration_def since_epoch_def DEFAULT_EPOCH_def)
  have "unat (snow_to_timestamp (fst (generate (1700000000 * 10 ^ 9) new_globals new_snowflake))) = 1700000000 * 10 ^ 9 div 10 ^ 9 \<and>
    (c \<le> fst (generate (1700000000 * 10 ^ 9) new_globals new_snowflake) \<longleftrightarrow>
      millis (1700000001 * 10 ^ 9 - 5 * 10 ^ 9) \<le> millis (1700000000 * 10 ^ 9))"
    by (rule snowflake_orders_by_time [OF _ _ _ c])
      (simp_all add: millis_def DEFAULT_EPOCH_def new_globals_def snow_consts push_bit_eq_mult)
  then show ?thesis by simp
qed

end
