(* ===== verification/Spec2Isabelle.thy ===== *)
theory Spec2Isabelle
  imports Edge_Tunnel Pop3_Maildrop Imap_Login Imap_Pipeline Utf7 Expr_Sound Topological Store_Locks Ip_Security Cron
    Snowflake
begin

text \<open>
  \<^bold>\<open>Bearmail: a verification library for the mail server and its edge tunnel\<close>

  Bearmail is a mail server (IMAP, JMAP, POP3, SMTP, WebDAV) of many crates under
  \<^verbatim>\<open>src/crates\<close>, with a tunnel under \<^verbatim>\<open>src/edge\<close> that lets a server without a public address be
  reached through a small relay. This library models the tunnel, the POP3 server, the IMAP session, the expression
  language of the settings, the lists of allowed and blocked addresses with the stores they rest on, and the
  shared codecs and data structures of \<^verbatim>\<open>utils\<close>, \<^verbatim>\<open>types\<close> and \<^verbatim>\<open>directory\<close>, as functions translated from the
  source, and proves what makes them correct.

  \<^bold>\<open>Conventions.\<close> A byte is an 8-bit word and text is a list of bytes, except in \<^verbatim>\<open>Glob\<close>, where it is a
  list of Unicode scalar values, as in \<^verbatim>\<open>Utf7\<close>. Machine integers keep their width and wrap, as in the shipped
  profiles, which have no overflow checks. A fallible function returns a \<open>result\<close>: \<open>Ok\<close>, \<open>Err\<close>, or
  \<open>Panic\<close> where the source would index out of range or unwrap nothing; that panics are unreachable is
  then a theorem. Sockets, clocks, the directory, the store and the order in which hash maps are visited
  are arguments: an environment record or an explicit list of events, over which the theorems
  quantify. Loops are structural recursions, or functions with a termination proof; where termination
  is itself at stake (\<^verbatim>\<open>glob_matches\<close>, \<^verbatim>\<open>as_string\<close>) they are partial functions, whose value \<open>None\<close> would
  mean that the loop does not end, and the theorems show \<open>Some\<close>. The tokenizer and the parser end because every token
  consumes input. The only step bound is that of the
  topological iterator: as many calls of \<^verbatim>\<open>next\<close> as there are nodes, shown to be enough.

  \<^bold>\<open>Shared theories.\<close>
  \<^item> \<^verbatim>\<open>Prelude\<close>: results, bytes, big-endian integers, generic lemmas and the collections of simplification
    rules.
  \<^item> \<^verbatim>\<open>Contracts\<close>: the interfaces as locales. \<open>prefix_code\<close> (an encoder whose output a decoder splits off
    a stream), \<open>stream_decoder\<close> (an incremental decoder whose result does not depend on how the input is
    cut into reads), \<open>text_code\<close> (printing and parsing), \<open>invariant_system\<close> (states reachable by
    admissible events keep an invariant) and \<open>refinement\<close> (a concrete step simulates an abstract one).
    Each is interpreted on the model of the code that provides it: the frame codec and decoder, the
    POP3 parser, the IMAP receiver, SASL PLAIN, mailbox names, JMAP identifiers, dates, the two ends of the tunnel, the POP3 session, the
    locks of the cluster, the vector map. Two more are local to their component: \<open>pickle_code\<close> in \<^verbatim>\<open>Pickle\<close>
    (a type that reads back what it stored), interpreted on every stored type, and \<open>object_type\<close> in
    \<^verbatim>\<open>Registry_Table\<close> (what the registry needs of a type of object), interpreted on both address objects.
  \<^item> \<^verbatim>\<open>Text\<close> and \<^verbatim>\<open>Str\<close>: ASCII text, decimal numbers and the string functions of the standard library in use.
  \<^item> \<^verbatim>\<open>Calendar\<close>: the proleptic Gregorian calendar and the conversion from day numbers, used by the meter and
    by the registry's dates.

  \<^bold>\<open>Edge tunnel\<close> (\<^verbatim>\<open>src/edge/src\<close>). The VM side accepts public connections and multiplexes them over one
  control stream to the Mac side, which connects each to the local mail server.
  \<^item> \<^verbatim>\<open>Edge_Frame\<close> (\<^verbatim>\<open>frame.rs\<close>): the frame encoder and the incremental decoder. Encoded frames decode to
    themselves however they are cut; accepted bytes are canonical; the decoder never panics, buffers at
    most one frame and refuses a bad header at once.
  \<^item> \<^verbatim>\<open>Edge_Meter\<close> (\<^verbatim>\<open>meter.rs\<close>): the transfer meter, the counter of the network card and the UTC month.
    The meter admits data exactly below the pause line; the counter survives restarts; the month is
    that of the proleptic Gregorian calendar.
  \<^item> \<^verbatim>\<open>Edge_Session\<close> (\<^verbatim>\<open>session.rs\<close>, \<^verbatim>\<open>proxy.rs\<close>): the window of connection ids, the handshake guard, the
    gate for control connections, the timers, the PROXY header (the encoder of the external crate is a
    parameter).
  \<^item> \<^verbatim>\<open>Edge_Relay\<close>, \<^verbatim>\<open>Edge_Vm\<close>, \<^verbatim>\<open>Edge_Tunnel\<close> (\<^verbatim>\<open>relay.rs\<close>): every handler of both sides as one step, the
    invariants of the VM side, and the composition of both sides with the control stream between them:
    ids arrive in order, every answer to an OPEN finds its socket, the meter accounts for all payload.
    Four theorems show defects that follow from the interleavings the code allows.

  \<^bold>\<open>POP3\<close> (\<^verbatim>\<open>src/crates/pop3/src\<close>, \<^verbatim>\<open>src/crates/directory/src/core/sasl.rs\<close>).
  \<^item> \<^verbatim>\<open>Pop3_Request\<close> (\<^verbatim>\<open>protocol/request.rs\<close>): the byte-wise parser. Pipelined requests parse back in any
    chunking; whatever arrives, commands and parser states are within their limits.
  \<^item> \<^verbatim>\<open>Pop3_Response\<close> (\<^verbatim>\<open>protocol/response.rs\<close>): serialization and dot stuffing, against a client that
    follows the multi-line rules.
  \<^item> \<^verbatim>\<open>Sasl\<close> and \<^verbatim>\<open>Chained_Bytes\<close>: decoding of SASL challenges; ranges over two chained slices.
  \<^item> \<^verbatim>\<open>Pop3_Session\<close> (\<^verbatim>\<open>session.rs\<close>, \<^verbatim>\<open>client.rs\<close>, \<^verbatim>\<open>mailbox.rs\<close>, \<^verbatim>\<open>op/\<close>): the whole connection, from the greeting
    through the TLS upgrade to its end, every command handler included.
  \<^item> \<^verbatim>\<open>Pop3_Correct\<close>: no panic, authentication only with vouched credentials, passwords ignored on
    plaintext connections, deletion only at the end.
  \<^item> \<^verbatim>\<open>Pop3_Maildrop\<close>: the session refines the maildrop of RFC 1939; the mailbox is a snapshot of the
    message cache; theorems for the deviations found.

  \<^bold>\<open>IMAP\<close> (\<^verbatim>\<open>src/crates/imap-proto/src\<close>, \<^verbatim>\<open>src/crates/imap/src\<close>). The receiver turns the bytes of a connection into
  requests; the session admits all requests of a read in the state it then has, and executes them one after
  the other.
  \<^item> \<^verbatim>\<open>Imap_Receiver\<close> (\<^verbatim>\<open>receiver.rs\<close>): the byte-wise receiver with tags, quoted strings and literals; its counted
    size and its buffer stay within their limits, in any chunking of the stream.
  \<^item> \<^verbatim>\<open>Imap_Wire\<close>, \<^verbatim>\<open>Imap_Command\<close> (\<^verbatim>\<open>lib.rs\<close>, \<^verbatim>\<open>parser/mod.rs\<close>): requests as a client writes them, for all 41 commands,
    are received as written; empty quoted strings escape the limit.
  \<^item> \<^verbatim>\<open>Imap_Sequence\<close> (\<^verbatim>\<open>protocol/mod.rs\<close>, \<^verbatim>\<open>parser/mod.rs\<close>): sequence sets; membership agrees with expansion, and a
    printed list of numbers reads back.
  \<^item> \<^verbatim>\<open>Imap_Response\<close> (\<^verbatim>\<open>protocol/mod.rs\<close>, \<^verbatim>\<open>capability.rs\<close>, \<^verbatim>\<open>authenticate.rs\<close>): status responses, codes, capabilities, errors.
  \<^item> \<^verbatim>\<open>Imap_Session\<close> (\<^verbatim>\<open>core/client.rs\<close>, \<^verbatim>\<open>core/session.rs\<close>, \<^verbatim>\<open>op/\<close>): greeting, read loop, admission, dispatch, login,
    selection, extensions, TLS. Of a mailbox command the model has its permission, its use of the state and its
    answer; the parsers of its arguments and its work on the store are fields of the environment, and every
    such command is recorded with the mailbox it ran on.
  \<^item> \<^verbatim>\<open>Imap_Correct\<close>, \<^verbatim>\<open>Imap_Login\<close>: the handlers on the states their requests were admitted in, and the locales of
    session invariants (\<open>session_inv\<close>, \<open>login_inv\<close>), interpreted on the accounts the server accepted: only these are
    ever logged in.
  \<^item> \<^verbatim>\<open>Imap_Pipeline\<close>: clients that wait never make the server panic or change a mailbox opened read-only; clients that
    do not wait can do both. Passwords in clear text and the limit of requests that is never counted.
  \<^item> \<^verbatim>\<open>Utf7\<close> (\<^verbatim>\<open>utf7.rs\<close>): names of mailboxes in modified UTF-7, over code points and UTF-16 units; every name reads
    back, and a name sent unencoded loses characters outside the basic plane.

  \<^bold>\<open>Expression language\<close> (\<^verbatim>\<open>src/crates/common/src/expr\<close>). Settings of the server are lists of conditions with
  results, written in a small language, compiled to stack code when they are loaded and evaluated for
  every session.
  \<^item> \<^verbatim>\<open>Expr_Value\<close> and \<^verbatim>\<open>Expr_Eval\<close> (\<^verbatim>\<open>mod.rs\<close>, \<^verbatim>\<open>eval.rs\<close>): values, conversions, comparisons, operators and the
    stack machine. Floats are bit patterns; their arithmetic is the record \<open>fpu\<close>, a parameter. Variables,
    settings, asynchronous functions and regular expressions are the record \<open>expr_env\<close>.
  \<^item> \<^verbatim>\<open>Expr_Parser\<close>, \<^verbatim>\<open>Expr_Tokenizer\<close>, \<^verbatim>\<open>Expr_Block\<close> (\<^verbatim>\<open>parser.rs\<close>, \<^verbatim>\<open>tokenizer.rs\<close>, \<^verbatim>\<open>if_block.rs\<close>): text to tokens,
    tokens to code by the shunting-yard method with patched jumps, settings to blocks.
  \<^item> \<^verbatim>\<open>Expr_Jumps\<close>, \<^verbatim>\<open>Expr_Compile\<close>, \<^verbatim>\<open>Expr_Text\<close>: no text makes the tokenizer or the parser panic; jumps land
    on their operator; the text of an expression, written with the brackets its precedences need, runs
    to the value of its recursive reading, effects and errors included.
  \<^item> \<^verbatim>\<open>Expr_Functions\<close> (\<^verbatim>\<open>functions/\<close>) and \<^verbatim>\<open>Ip_Mask\<close> (\<^verbatim>\<open>registry/src/types/ipmask.rs\<close>): the 45
    synchronous functions and networks of IP addresses.
  \<^item> \<^verbatim>\<open>Expr_Sound\<close>: code accepted from text passes every function the arguments it indexes, so that a
    compiled block is evaluated without a panic.

  \<^bold>\<open>Who may connect\<close> (\<^verbatim>\<open>src/crates/common/src/network/security.rs\<close> and what it uses of \<^verbatim>\<open>registry\<close> and \<^verbatim>\<open>store\<close>).
  Failures of a client are counted in the in-memory store; at the configured rate its address is blocked,
  in a list shared by the node's connections and in the registry, from which the lists are rebuilt.
  \<^item> \<^verbatim>\<open>Datetime\<close> (\<^verbatim>\<open>types/datetime.rs\<close>), \<^verbatim>\<open>Vec_Map\<close> (\<^verbatim>\<open>utils/src/map/vec_map.rs\<close>): dates, read back as printed and
    equal to calendar time; the map kept as a vector, which refines a partial function.
  \<^item> \<^verbatim>\<open>Pickle\<close> (\<^verbatim>\<open>registry/src/pickle.rs\<close> and the types' implementations): the stored form. Every type reads back
    what it wrote, containers for every item type; lists come back with new numbers; the envelope with the
    version byte and compression (\<^verbatim>\<open>lz4_flex\<close> is a parameter with its law).
  \<^item> \<^verbatim>\<open>Stored_Objects\<close>, \<^verbatim>\<open>Registry_Table\<close> (\<^verbatim>\<open>registry/src/schema\<close>, \<^verbatim>\<open>store/src/registry\<close>): the two address
    objects with validation and stored form, and the table of objects with a unique property: rows, index
    and reading stay consistent under insertion and deletion.
  \<^item> \<^verbatim>\<open>Memory_Store\<close>, \<^verbatim>\<open>Store_Locks\<close> (\<^verbatim>\<open>store/src/dispatch/lookup.rs\<close>): values and counters with expiry, rate limits
    that are exact in every window, locks that exclude each other in every interleaving of workers, and the
    late release that breaks this. An operation reads the clock once; a store that cannot be reached fails every access.
  \<^item> \<^verbatim>\<open>Ip_Security\<close>: bans at the configured rate, their entry in the registry, their return after a reload, and
    theorems for the defects found: a second ban without effect, an announced network ignored, logins
    counted against addresses.

  \<^bold>\<open>Codecs and data structures\<close> (\<^verbatim>\<open>src/crates/utils/src\<close>, \<^verbatim>\<open>src/crates/types/src\<close>).
  \<^item> \<^verbatim>\<open>Leb128\<close> (\<^verbatim>\<open>codec/leb128.rs\<close>), \<^verbatim>\<open>Base32\<close> (\<^verbatim>\<open>codec/base32_custom.rs\<close>), \<^verbatim>\<open>Jmap_Id\<close> (\<^verbatim>\<open>id.rs\<close>): round trips at
    every width, and the width at which one fails.
  \<^item> \<^verbatim>\<open>Glob\<close> (\<^verbatim>\<open>glob.rs\<close>): the matcher that backtracks to the last star only, against a declarative
    reading of patterns; sets and maps of patterns.
  \<^item> \<^verbatim>\<open>Snowflake\<close> (\<^verbatim>\<open>snowflake.rs\<close>): identifiers of milliseconds, sequence and node; exactly when two collide, and how they
    order by time.
  \<^item> \<^verbatim>\<open>Cron\<close> (\<^verbatim>\<open>cron.rs\<close>, \<^verbatim>\<open>registry/src/utils/cron.rs\<close>): daily and hourly schedules run within their period; weekly ones
    do not keep to their day. The time zone is an argument.
  \<^item> \<^verbatim>\<open>Topological\<close> (\<^verbatim>\<open>topological.rs\<close>): the iterator yields a topological order, complete exactly if
    there is no cycle.

  \<^bold>\<open>Not modelled.\<close> Command-line tools, configuration, telemetry and asynchronous plumbing; the
  storage backends, which wrap external databases; the generated tables of \<^verbatim>\<open>registry\<close> and \<^verbatim>\<open>trc\<close>;
  the protocol servers for JMAP, SMTP, WebDAV and ManageSieve, whose handlers are
  mostly store accesses and rest on external parsers; of IMAP, the parsers of the arguments of mailbox commands, the
  work of these commands on the store and their untagged responses; of the registry, updates, foreign keys and tenants; of the
  in-memory store, Redis and the static lookups. Cryptography, TLS, base64 and the Unicode tables are
  parameters where the code above calls them.

  \<^bold>\<open>Extensions.\<close> The next candidates are the argument parsers of the IMAP commands, ManageSieve on the same receiver,
  bitmaps of \<^verbatim>\<open>utils\<close>, and the key serialization of the store.
\<close>

end
